(* ===== verification/Rensa_Prelude.thy ===== *)
theory Rensa_Prelude
  imports
    Main
    "HOL-Library.Word"
    "HOL-Library.AList"
    "HOL-Library.List_Lexorder"
    "HOL-Library.Product_Lexorder"
begin

text \<open>
  Shared vocabulary of the development: machine integers and byte strings, the outcome type of
  fallible code, saturating and little-endian operations on \<open>u64\<close>, the ordered and hashed maps
  of the Rust standard library with their common interface, and the generic list lemmas.

  \<^item> Unsigned machine integers are words; \<open>+\<close> and \<open>-\<close> wrap around, as they do in the release
    build the repository ships (\<open>cargo build --release\<close>, no overflow checks).
  \<^item> A computation that may raise an error or not return at all has type \<open>('e + 'a) option\<close>:
    \<open>None\<close> is a panic or a divergence, \<open>Some (Inl e)\<close> an \<open>Err(e)\<close>, \<open>Some (Inr x)\<close> an \<open>Ok(x)\<close>.
  \<^item> \<open>BTreeMap\<close>/\<open>BTreeSet\<close> are key-sorted lists, \<open>HashMap\<close> is an association list with distinct
    keys. Both satisfy the locale \<open>map_adt\<close>.
\<close>

section \<open>Machine integers, bytes and strings\<close>

type_synonym byte = "8 word"
type_synonym u64 = "64 word"
type_synonym bytes = "byte list"
type_synonym pubkey = "byte list"
type_synonym multihash = "byte list"
type_synonym signature = "byte list"

definition u64_max :: u64 where
  "u64_max = - 1"

text \<open>\<open>u64::saturating_add\<close> and \<open>u64::saturating_sub\<close>.\<close>

definition saturating_add :: "u64 \<Rightarrow> u64 \<Rightarrow> u64" where
  "saturating_add a b = (if unat a + unat b < 2 ^ 64 then a + b else u64_max)"

definition saturating_sub :: "u64 \<Rightarrow> u64 \<Rightarrow> u64" where
  "saturating_sub a b = (if b \<le> a then a - b else 0)"

text \<open>\<open>u64::to_le_bytes\<close>: eight bytes, least significant first.\<close>

definition le_bytes :: "u64 \<Rightarrow> bytes" where
  "le_bytes w = map (\<lambda>i. ucast (drop_bit (8 * i) w)) [0..<8]"

definition byte_of_bool :: "bool \<Rightarrow> byte" where
  "byte_of_bool b = (if b then 1 else 0)"

text \<open>\<open>str::as_bytes\<close>: a Rust string is its UTF-8 bytes.\<close>

definition str_bytes :: "string \<Rightarrow> bytes" where
  "str_bytes s = map of_char s"

text \<open>\<open>u64::to_string\<close>: decimal digits.\<close>

fun show_nat :: "nat \<Rightarrow> string" where
  "show_nat n =
     (if n < 10 then [char_of (48 + n)] else show_nat (n div 10) @ [char_of (48 + n mod 10)])"

declare show_nat.simps [simp del]

definition show_u64 :: "u64 \<Rightarrow> string" where
  "show_u64 w = show_nat (unat w)"

lemma length_le_bytes [simp]: "length (le_bytes w) = 8"
  by (simp add: le_bytes_def)

lemma unat_saturating_add: "unat (saturating_add a b) = min (unat a + unat b) (2 ^ 64 - 1)"
proof (cases "unat a + unat b < 2 ^ 64")
  case True
  then have "unat (a + b) = unat a + unat b"
    by (simp add: unat_word_ariths)
  with True show ?thesis by (simp add: saturating_add_def)
next
  case False
  then show ?thesis by (simp add: saturating_add_def u64_max_def unsigned_minus_1_eq_mask mask_eq_exp_minus_1)
qed

lemma unat_saturating_sub: "unat (saturating_sub a b) = unat a - unat b"
  by (simp add: saturating_sub_def unat_sub word_le_nat_alt)

section \<open>Computations that may fail, panic or diverge\<close>

type_synonym ('e, 'a) comp = "('e + 'a) option"

abbreviation ret :: "'a \<Rightarrow> ('e, 'a) comp" where
  "ret x \<equiv> Some (Inr x)"

abbreviation throw :: "'e \<Rightarrow> ('e, 'a) comp" where
  "throw e \<equiv> Some (Inl e)"

text \<open>The \<open>?\<close> operator: go on with the value, or return the error.\<close>

definition bind_comp :: "('e, 'a) comp \<Rightarrow> ('a \<Rightarrow> ('e, 'b) comp) \<Rightarrow> ('e, 'b) comp" where
  "bind_comp m f = (case m of None \<Rightarrow> None | Some (Inl e) \<Rightarrow> Some (Inl e) | Some (Inr x) \<Rightarrow> f x)"

lemma bind_comp_simps [simp]:
  "bind_comp None f = None"
  "bind_comp (throw e) f = throw e"
  "bind_comp (ret x) f = f x"
  by (simp_all add: bind_comp_def)

lemma bind_comp_eq_ret: "bind_comp m f = ret y \<longleftrightarrow> (\<exists>x. m = ret x \<and> f x = ret y)"
  by (auto simp: bind_comp_def split: option.splits sum.splits)

lemma bind_retE:
  assumes "bind_comp m f = ret y"
  obtains x where "m = ret x" and "f x = ret y"
  using assms by (auto simp: bind_comp_eq_ret)

lemma bind_comp_eq_None: "bind_comp m f = None \<longleftrightarrow> m = None \<or> (\<exists>x. m = ret x \<and> f x = None)"
  by (auto simp: bind_comp_def split: option.splits sum.splits)

lemma bind_comp_eq_throw:
  "bind_comp m f = throw e \<longleftrightarrow> m = throw e \<or> (\<exists>x. m = ret x \<and> f x = throw e)"
  by (auto simp: bind_comp_def split: option.splits sum.splits)

lemma bind_comp_cong [fundef_cong]:
  assumes "m = m'" and "\<And>x. m' = ret x \<Longrightarrow> f x = f' x"
  shows "bind_comp m f = bind_comp m' f'"
  using assms by (auto simp: bind_comp_def split: option.splits sum.splits)

section \<open>Maps of the standard library\<close>

text \<open>
  The interface every client of a map relies on: what a lookup returns after an insertion or a
  removal, and that the operations keep the representation invariant.
\<close>

locale map_adt =
  fixes empty :: 'm
    and ins :: "'k \<Rightarrow> 'v \<Rightarrow> 'm \<Rightarrow> 'm"
    and del :: "'k \<Rightarrow> 'm \<Rightarrow> 'm"
    and look :: "'m \<Rightarrow> 'k \<Rightarrow> 'v option"
    and invar :: "'m \<Rightarrow> bool"
  assumes look_empty: "look empty k = None"
    and look_ins: "invar m \<Longrightarrow> look (ins k v m) k' = (if k' = k then Some v else look m k')"
    and look_del: "invar m \<Longrightarrow> look (del k m) k' = (if k' = k then None else look m k')"
    and invar_empty: "invar empty"
    and invar_ins: "invar m \<Longrightarrow> invar (ins k v m)"
    and invar_del: "invar m \<Longrightarrow> invar (del k m)"
begin

text \<open>A loop that inserts key-value pairs one by one: the last binding of a key wins.\<close>

lemma invar_fold_ins: "invar m \<Longrightarrow> invar (fold (\<lambda>(k, v). ins k v) kvs m)"
  by (induction kvs arbitrary: m) (auto simp: invar_ins)

lemma look_fold_ins:
  "invar m \<Longrightarrow> look (fold (\<lambda>(k, v). ins k v) kvs m) x =
     (case map_of (rev kvs) x of None \<Rightarrow> look m x | Some v \<Rightarrow> Some v)"
proof (induction kvs arbitrary: m)
  case Nil
  then show ?case by simp
next
  case (Cons kv kvs)
  obtain k v where kv: "kv = (k, v)" by (cases kv)
  have "look (fold (\<lambda>(k, v). ins k v) kvs (ins k v m)) x =
      (case map_of (rev kvs) x of None \<Rightarrow> look (ins k v m) x | Some v \<Rightarrow> Some v)"
    using Cons.prems by (intro Cons.IH invar_ins)
  with Cons.prems show ?case
    by (simp add: kv look_ins map_add_def split: option.splits)
qed

text \<open>A loop that removes keys one by one.\<close>

lemma invar_fold_del: "invar m \<Longrightarrow> invar (fold del ks m)"
  by (induction ks arbitrary: m) (auto simp: invar_del)

lemma look_fold_del:
  "invar m \<Longrightarrow> look (fold del ks m) x = (if x \<in> set ks then None else look m x)"
  by (induction ks arbitrary: m) (auto simp: invar_del look_del)

end

subsection \<open>BTreeMap and BTreeSet: key-sorted lists\<close>

text \<open>
  Iterating a \<open>BTreeMap\<close> visits the keys in ascending order, which the hash functions of the code
  depend on; a strictly sorted association list is that iteration.
\<close>

type_synonym ('k, 'v) btree_map = "('k \<times> 'v) list"

fun bt_insert :: "'k::linorder \<Rightarrow> 'v \<Rightarrow> ('k, 'v) btree_map \<Rightarrow> ('k, 'v) btree_map" where
  "bt_insert k v [] = [(k, v)]"
| "bt_insert k v ((k', v') # m) =
     (if k < k' then (k, v) # (k', v') # m
      else if k = k' then (k, v) # m
      else (k', v') # bt_insert k v m)"

definition bt_remove :: "'k::linorder \<Rightarrow> ('k, 'v) btree_map \<Rightarrow> ('k, 'v) btree_map" where
  "bt_remove k m = filter (\<lambda>(k', v). k' \<noteq> k) m"

definition bt_invar :: "('k::linorder, 'v) btree_map \<Rightarrow> bool" where
  "bt_invar m \<longleftrightarrow> sorted_wrt (<) (map fst m)"

lemma keys_bt_insert: "fst ` set (bt_insert k v m) = insert k (fst ` set m)"
  by (induction m rule: bt_insert.induct) auto

lemma map_of_bt_insert: "bt_invar m \<Longrightarrow> map_of (bt_insert k v m) x = (if x = k then Some v else map_of m x)"
  by (induction k v m rule: bt_insert.induct) (auto simp: bt_invar_def)

lemma bt_invar_insert: "bt_invar m \<Longrightarrow> bt_invar (bt_insert k v m)"
proof (induction k v m rule: bt_insert.induct)
  case (1 k v)
  then show ?case by (simp add: bt_invar_def)
next
  case (2 k v k' v' m)
  have "fst ` set (bt_insert k v m) = insert k (fst ` set m)"
    by (rule keys_bt_insert)
  with 2 show ?case
    by (fastforce simp: bt_invar_def)
qed

lemma map_of_bt_remove: "map_of (bt_remove k m) x = (if x = k then None else map_of m x)"
  by (induction m) (auto simp: bt_remove_def)

lemma bt_invar_remove: "bt_invar m \<Longrightarrow> bt_invar (bt_remove k m)"
  by (induction m) (auto simp: bt_invar_def bt_remove_def)

interpretation btree: map_adt "[]" bt_insert bt_remove map_of bt_invar
  by unfold_locales
    (simp_all add: map_of_bt_insert map_of_bt_remove bt_invar_insert bt_invar_remove, simp add: bt_invar_def)

text \<open>A \<open>BTreeSet\<close> is a \<open>BTreeMap\<close> without values: a strictly sorted list.\<close>

definition bs_insert :: "'k::linorder \<Rightarrow> 'k list \<Rightarrow> 'k list" where
  "bs_insert k s = insort_insert k s"

definition bs_remove :: "'k::linorder \<Rightarrow> 'k list \<Rightarrow> 'k list" where
  "bs_remove k s = filter (\<lambda>k'. k' \<noteq> k) s"

lemma set_bs_insert [simp]: "set (bs_insert k s) = insert k (set s)"
  by (simp add: bs_insert_def set_insort_insert)

lemma set_bs_remove [simp]: "set (bs_remove k s) = set s - {k}"
  by (auto simp: bs_remove_def)

subsection \<open>HashMap: association lists with distinct keys\<close>

type_synonym ('k, 'v) hash_map = "('k \<times> 'v) list"

definition hm_insert :: "'k \<Rightarrow> 'v \<Rightarrow> ('k, 'v) hash_map \<Rightarrow> ('k, 'v) hash_map" where
  "hm_insert k v m = AList.update k v m"

definition hm_remove :: "'k \<Rightarrow> ('k, 'v) hash_map \<Rightarrow> ('k, 'v) hash_map" where
  "hm_remove k m = AList.delete k m"

definition hm_invar :: "('k, 'v) hash_map \<Rightarrow> bool" where
  "hm_invar m \<longleftrightarrow> distinct (map fst m)"

lemma map_of_hm_insert: "map_of (hm_insert k v m) x = (if x = k then Some v else map_of m x)"
  by (simp add: hm_insert_def update_conv')

lemma map_of_hm_remove: "map_of (hm_remove k m) x = (if x = k then None else map_of m x)"
  by (simp add: hm_remove_def delete_conv')

lemma hm_invar_insert: "hm_invar m \<Longrightarrow> hm_invar (hm_insert k v m)"
  by (simp add: hm_invar_def hm_insert_def distinct_update)

lemma hm_invar_remove: "hm_invar m \<Longrightarrow> hm_invar (hm_remove k m)"
  by (simp add: hm_invar_def hm_remove_def distinct_delete)

interpretation hashmap: map_adt "[]" hm_insert hm_remove map_of hm_invar
  by unfold_locales
    (simp_all add: map_of_hm_insert map_of_hm_remove hm_invar_insert hm_invar_remove, simp add: hm_invar_def)

lemma hm_invar_Nil [simp]: "hm_invar []"
  by (rule hashmap.invar_empty)

lemma bt_invar_Nil [simp]: "bt_invar []"
  by (rule btree.invar_empty)

end
