(* ===== verification/Rensa_Primitives.thy ===== *)
theory Rensa_Primitives
  imports Rensa_Prelude
begin

text \<open>
  \<open>src/primitives\<close>: accounts and addresses. The cryptographic packages the code calls (SHA3-256,
  multihash, the Ed25519 curve and its signatures, base58) are one record of functions, an
  argument of every definition that uses them; nothing is assumed about them here.
\<close>

record crypto =
  sha3_256 :: "bytes \<Rightarrow> bytes"                         \<comment> \<open>\<open>Sha3_256\<close> digest of the updates, concatenated\<close>
  mh_wrap :: "bytes \<Rightarrow> multihash"                      \<comment> \<open>\<open>MultihashCode::Sha3_256.wrap(digest)\<close>, as bytes\<close>
  on_curve :: "bytes \<Rightarrow> bool"                          \<comment> \<open>\<open>CompressedEdwardsY::decompress\<close> succeeds\<close>
  ed_verify :: "pubkey \<Rightarrow> bytes \<Rightarrow> signature \<Rightarrow> bool"    \<comment> \<open>\<open>PublicKey::from_bytes(k)\<close> and \<open>verify\<close> both succeed\<close>
  ed_public :: "bytes \<Rightarrow> pubkey"                      \<comment> \<open>public key of a secret key (\<open>Keypair::public\<close>)\<close>
  ed_sign :: "bytes \<Rightarrow> bytes \<Rightarrow> signature"             \<comment> \<open>signature of a message by a secret key\<close>
  b58_encode :: "bytes \<Rightarrow> string"                      \<comment> \<open>\<open>bs58::encode(..).into_string()\<close>\<close>

definition sha3_multihash :: "crypto \<Rightarrow> bytes \<Rightarrow> multihash" where
  "sha3_multihash c bs = mh_wrap c (sha3_256 c bs)"

text \<open>
  What Ed25519 documents of signing: a signature made with a secret key verifies under its public
  key. Theorems that need it name it as a hypothesis.
\<close>

definition signing_correct :: "crypto \<Rightarrow> bool" where
  "signing_correct c \<longleftrightarrow> (\<forall>k m. ed_verify c (ed_public c k) m (ed_sign c k m))"

section \<open>Accounts\<close>

record account =
  acc_executable :: bool
  acc_nonce :: u64
  acc_owner :: "pubkey option"
  acc_data :: "bytes option"

text \<open>\<open>Account::default()\<close>\<close>

definition account_default :: account where
  "account_default = \<lparr>acc_executable = False, acc_nonce = 0, acc_owner = None, acc_data = None\<rparr>"

text \<open>The bytes \<open>Account::hash\<close> feeds to the hasher, in order.\<close>

definition account_preimage :: "account \<Rightarrow> bytes" where
  "account_preimage a =
     le_bytes (acc_nonce a)
     @ (case acc_owner a of Some o' \<Rightarrow> o' | None \<Rightarrow> [])
     @ (case acc_data a of Some d \<Rightarrow> d | None \<Rightarrow> [])"

definition account_hash :: "crypto \<Rightarrow> account \<Rightarrow> multihash" where
  "account_hash c a = sha3_multihash c (account_preimage a)"

section \<open>Addresses\<close>

definition has_private_key :: "crypto \<Rightarrow> pubkey \<Rightarrow> bool" where
  "has_private_key c k = on_curve c k"

text \<open>The candidate address of one iteration of the loop in \<open>Pubkey::derive\<close>.\<close>

definition derive_key :: "crypto \<Rightarrow> pubkey \<Rightarrow> bytes list \<Rightarrow> u64 \<Rightarrow> pubkey" where
  "derive_key c self seeds bump = sha3_256 c (self @ concat seeds @ le_bytes bump)"

text \<open>
  The loop itself: it ends at the first bump whose key is off the curve. Nothing bounds it, so it
  is a partial function; \<open>None\<close> is a loop that never ends.
\<close>

partial_function (option) derive_from :: "crypto \<Rightarrow> pubkey \<Rightarrow> bytes list \<Rightarrow> u64 \<Rightarrow> pubkey option" where
  "derive_from c self seeds bump =
     (let key = derive_key c self seeds bump
      in if \<not> has_private_key c key then Some key
         else derive_from c self seeds (bump + 1))"

definition derive :: "crypto \<Rightarrow> pubkey \<Rightarrow> bytes list \<Rightarrow> pubkey option" where
  "derive c self seeds = derive_from c self seeds 0"

lemma derive_from_off_curve:
  assumes "derive_from c self seeds bump = Some k"
  shows "\<not> has_private_key c k \<and> (\<exists>b. k = derive_key c self seeds b)"
proof (rule derive_from.raw_induct [where P = "\<lambda>c self seeds bump k.
      \<not> has_private_key c k \<and> (\<exists>b. k = derive_key c self seeds b)", OF _ assms])
  fix f c self seeds bump k
  assume IH: "\<And>c self seeds bump k. f c self seeds bump = Some k \<Longrightarrow>
      \<not> has_private_key c k \<and> (\<exists>b. k = derive_key c self seeds b)"
    and eq: "(let key = derive_key c self seeds bump
       in if \<not> has_private_key c key then Some key else f c self seeds (bump + 1)) = Some k"
  show "\<not> has_private_key c k \<and> (\<exists>b. k = derive_key c self seeds b)"
    using eq IH by (auto simp: Let_def split: if_splits)
qed

lemma derive_off_curve: "derive c self seeds = Some k \<Longrightarrow> \<not> has_private_key c k"
  using derive_from_off_curve by (auto simp: derive_def)

lemma derive_from_steps:
  assumes "\<forall>i < n. has_private_key c (derive_key c self seeds (bump + of_nat i))"
    and "\<not> has_private_key c (derive_key c self seeds (bump + of_nat n))"
  shows "derive_from c self seeds bump = Some (derive_key c self seeds (bump + of_nat n))"
  using assms
proof (induction n arbitrary: bump)
  case 0
  then show ?case by (subst derive_from.simps) (simp add: Let_def)
next
  case (Suc n)
  have "\<forall>i < n. has_private_key c (derive_key c self seeds (bump + 1 + of_nat i))"
  proof (intro allI impI)
    fix i assume "i < n"
    then have "Suc i < Suc n" by simp
    with Suc.prems(1) have "has_private_key c (derive_key c self seeds (bump + of_nat (Suc i)))"
      by blast
    then show "has_private_key c (derive_key c self seeds (bump + 1 + of_nat i))"
      by (simp add: add.assoc)
  qed
  moreover have "\<not> has_private_key c (derive_key c self seeds (bump + 1 + of_nat n))"
    using Suc.prems(2) by (simp add: add.assoc)
  ultimately have "derive_from c self seeds (bump + 1) =
      Some (derive_key c self seeds (bump + 1 + of_nat n))"
    by (rule Suc.IH)
  moreover have "has_private_key c (derive_key c self seeds bump)"
    using Suc.prems(1) [rule_format, of 0] by simp
  ultimately show ?case
    by (subst derive_from.simps) (simp add: Let_def add.assoc)
qed

text \<open>The loop ends as soon as one of the \<open>2 ^ 64\<close> candidate keys is off the curve.\<close>

lemma derive_total:
  assumes "\<not> has_private_key c (derive_key c self seeds b)"
  shows "\<exists>k. derive c self seeds = Some k"
proof -
  define P where "P = (\<lambda>n. \<not> has_private_key c (derive_key c self seeds (of_nat n)))"
  have "P (unat b)" using assms by (simp add: P_def)
  then have least: "P (LEAST n. P n)" and min: "\<forall>i < (LEAST n. P n). \<not> P i"
    by (rule LeastI) (auto dest: not_less_Least)
  have "derive_from c self seeds 0 = Some (derive_key c self seeds (0 + of_nat (LEAST n. P n)))"
    using least min by (intro derive_from_steps) (simp_all add: P_def)
  then show ?thesis by (simp add: derive_def)
qed

end
