(* ===== verification/Rensa_State.thy ===== *)
theory Rensa_State
  imports Rensa_Primitives
begin

text \<open>
  \<open>src/vm/state.rs\<close> and \<open>src/storage/state.rs\<close>: state views, state diffs and the persisted
  accounts database.

  The trait \<open>State\<close> is used read-only through \<open>get\<close>, so a \<open>&dyn State\<close> is the function
  \<open>pubkey \<Rightarrow> account option\<close>. A \<open>StateDiff\<close> keeps its two collections, the written accounts and
  the deleted addresses; its \<open>hashcache\<close> is a cache of \<open>sd_hash\<close> and is left out.
\<close>

datatype state_error = WritesNotSupported | StorageEngineError

type_synonym state_view = "pubkey \<Rightarrow> account option"

section \<open>Overlayed views\<close>

definition overlayed_get :: "state_view \<Rightarrow> state_view \<Rightarrow> state_view" where
  "overlayed_get base overlay address =
     (case overlay address of None \<Rightarrow> base address | Some value \<Rightarrow> Some value)"

definition overlayed_set ::
    "state_view \<Rightarrow> state_view \<Rightarrow> pubkey \<Rightarrow> account \<Rightarrow> state_error + account option" where
  "overlayed_set base overlay address acc = Inl WritesNotSupported"

definition overlayed_remove :: "state_view \<Rightarrow> state_view \<Rightarrow> pubkey \<Rightarrow> state_error + unit" where
  "overlayed_remove base overlay address = Inl WritesNotSupported"

section \<open>State diffs\<close>

record state_diff =
  sd_data :: "(pubkey, account) btree_map"
  sd_deletes :: "pubkey list"

definition sd_default :: state_diff where
  "sd_default = \<lparr>sd_data = [], sd_deletes = []\<rparr>"

definition sd_merge :: "state_diff \<Rightarrow> state_diff \<Rightarrow> state_diff" where
  "sd_merge self newer =
     \<lparr>sd_data = fold (\<lambda>(addr, acc). bt_insert addr acc) (sd_data newer) (sd_data self),
      sd_deletes = fold bs_insert (sd_deletes newer)
        (fold (\<lambda>(addr, acc). bs_remove addr) (sd_data newer) (sd_deletes self))\<rparr>"

definition sd_iter :: "state_diff \<Rightarrow> (pubkey \<times> account option) list" where
  "sd_iter d = map (\<lambda>(addr, acc). (addr, Some acc)) (sd_data d) @ map (\<lambda>addr. (addr, None)) (sd_deletes d)"

definition sd_get :: "state_diff \<Rightarrow> state_view" where
  "sd_get d address = map_of (sd_data d) address"

definition sd_set :: "pubkey \<Rightarrow> account \<Rightarrow> state_diff \<Rightarrow> state_error + (account option \<times> state_diff)" where
  "sd_set address acc d =
     Inr (map_of (sd_data d) address,
          d\<lparr>sd_data := bt_insert address acc (sd_data d), sd_deletes := bs_remove address (sd_deletes d)\<rparr>)"

definition sd_remove :: "pubkey \<Rightarrow> state_diff \<Rightarrow> state_error + (unit \<times> state_diff)" where
  "sd_remove address d = Inr ((), d\<lparr>sd_deletes := bs_insert address (sd_deletes d)\<rparr>)"

definition sd_hash :: "crypto \<Rightarrow> state_diff \<Rightarrow> multihash" where
  "sd_hash c d = sha3_multihash c (concat (map (\<lambda>(k, v). k @ account_hash c v) (sd_data d)))"

text \<open>
  The effect of \<open>set(..).unwrap()\<close> and \<open>remove(..).unwrap()\<close> on a diff, the only way the VM calls
  them; both always succeed on a \<open>StateDiff\<close>.
\<close>

definition sd_put :: "pubkey \<Rightarrow> account \<Rightarrow> state_diff \<Rightarrow> state_diff" where
  "sd_put address acc d = (case sd_set address acc d of Inr (_, d') \<Rightarrow> d' | Inl _ \<Rightarrow> d)"

definition sd_del :: "pubkey \<Rightarrow> state_diff \<Rightarrow> state_diff" where
  "sd_del address d = (case sd_remove address d of Inr (_, d') \<Rightarrow> d' | Inl _ \<Rightarrow> d)"

definition sd_invar :: "state_diff \<Rightarrow> bool" where
  "sd_invar d \<longleftrightarrow> bt_invar (sd_data d)"

lemma sd_put_eq:
  "sd_put a acc d = d\<lparr>sd_data := bt_insert a acc (sd_data d), sd_deletes := bs_remove a (sd_deletes d)\<rparr>"
  by (simp add: sd_put_def sd_set_def)

lemma sd_del_eq: "sd_del a d = d\<lparr>sd_deletes := bs_insert a (sd_deletes d)\<rparr>"
  by (simp add: sd_del_def sd_remove_def)

lemma sd_invar_default [simp]: "sd_invar sd_default"
  by (simp add: sd_invar_def sd_default_def)

lemma sd_get_default [simp]: "sd_get sd_default a = None"
  by (simp add: sd_get_def sd_default_def)

lemma sd_deletes_default [simp]: "sd_deletes sd_default = []"
  by (simp add: sd_default_def)

lemma sd_invar_put [simp]: "sd_invar d \<Longrightarrow> sd_invar (sd_put a acc d)"
  by (simp add: sd_invar_def sd_put_eq btree.invar_ins)

lemma sd_invar_del [simp]: "sd_invar (sd_del a d) = sd_invar d"
  by (simp add: sd_invar_def sd_del_eq)

lemma sd_get_put: "sd_invar d \<Longrightarrow> sd_get (sd_put a acc d) x = (if x = a then Some acc else sd_get d x)"
  by (simp add: sd_get_def sd_put_eq sd_invar_def btree.look_ins)

text \<open>A deletion is recorded, but reads of the diff still return the old account.\<close>

lemma sd_get_del [simp]: "sd_get (sd_del a d) x = sd_get d x"
  by (simp add: sd_get_def sd_del_eq)

lemma set_sd_deletes_put: "set (sd_deletes (sd_put a acc d)) = set (sd_deletes d) - {a}"
  by (simp add: sd_put_eq)

lemma set_sd_deletes_del: "set (sd_deletes (sd_del a d)) = insert a (set (sd_deletes d))"
  by (simp add: sd_del_eq)

lemma sd_invar_merge [simp]: "sd_invar d \<Longrightarrow> sd_invar (sd_merge d e)"
  unfolding sd_invar_def sd_merge_def by (simp add: btree.invar_fold_ins)

lemma map_of_rev_bt: "bt_invar m \<Longrightarrow> map_of (rev m) = map_of m"
  by (intro map_of_inject_set [THEN iffD2]) (auto simp: bt_invar_def strict_sorted_iff rev_map [symmetric])

text \<open>Reading a merged diff: the newer diff wins.\<close>

lemma sd_get_merge:
  assumes "sd_invar d" and "sd_invar e"
  shows "sd_get (sd_merge d e) a = (case sd_get e a of None \<Rightarrow> sd_get d a | Some acc \<Rightarrow> Some acc)"
  using assms
  by (simp add: sd_get_def sd_merge_def sd_invar_def btree.look_fold_ins map_of_rev_bt split: option.splits)

lemma set_fold_bs_insert: "set (fold bs_insert xs s) = set s \<union> set xs"
  by (induction xs arbitrary: s) auto

lemma set_fold_bs_remove: "set (fold (\<lambda>(k, v). bs_remove k) kvs s) = set s - fst ` set kvs"
  by (induction kvs arbitrary: s) auto

lemma set_sd_deletes_merge:
  "set (sd_deletes (sd_merge d e)) = (set (sd_deletes d) - dom (sd_get e)) \<union> set (sd_deletes e)"
  by (auto simp: sd_merge_def set_fold_bs_insert set_fold_bs_remove sd_get_def [abs_def] dom_map_of_conv_image_fst)

lemma sd_merge_default_left: "sd_invar d \<Longrightarrow> sd_get (sd_merge sd_default d) = sd_get d"
  by (rule ext) (simp add: sd_get_merge split: option.splits)

section \<open>The persistent accounts database\<close>

text \<open>
  \<open>PersistentState\<close> keeps each account as the bincode/serde bytes of its non-skipped fields:
  \<open>executable\<close> carries \<open>#[serde(skip)]\<close>, so it is not written and is \<open>false\<close> when read back. The
  codec of the remaining fields is a parameter.
\<close>

type_synonym account_fields = "u64 \<times> pubkey option \<times> bytes option"

record account_codec =
  enc_fields :: "account_fields \<Rightarrow> bytes"
  dec_fields :: "bytes \<Rightarrow> account_fields option"

type_synonym accounts_db = "(pubkey, bytes) btree_map"

definition ser_account :: "account_codec \<Rightarrow> account \<Rightarrow> bytes" where
  "ser_account k a = enc_fields k (acc_nonce a, acc_owner a, acc_data a)"

definition de_account :: "account_codec \<Rightarrow> bytes \<Rightarrow> account option" where
  "de_account k bs =
     map_option (\<lambda>(n, ow, d). \<lparr>acc_executable = False, acc_nonce = n, acc_owner = ow, acc_data = d\<rparr>)
       (dec_fields k bs)"

text \<open>
  \<open>PersistentState::new\<close>: an empty database is filled from the genesis state, a non-empty one is
  kept. \<open>db.get(addr).is_none()\<close> guards each insertion.
\<close>

definition persistent_new :: "account_codec \<Rightarrow> (pubkey, account) btree_map \<Rightarrow> accounts_db \<Rightarrow> accounts_db" where
  "persistent_new k genesis_state db =
     (if db = []
      then fold (\<lambda>(addr, acc) db. if map_of db addr = None then bt_insert addr (ser_account k acc) db else db)
             genesis_state db
      else db)"

text \<open>\<open>apply\<close> builds one batch from \<open>diff.iter()\<close> and applies it in order.\<close>

definition persistent_apply :: "account_codec \<Rightarrow> state_diff \<Rightarrow> accounts_db \<Rightarrow> accounts_db" where
  "persistent_apply k diff db =
     fold (\<lambda>(addr, acc) db. case acc of
              Some a \<Rightarrow> bt_insert addr (ser_account k a) db
            | None \<Rightarrow> bt_remove addr db)
       (sd_iter diff) db"

text \<open>\<open>get\<close>; bytes that do not decode make the source panic, which is the outer \<open>None\<close>.\<close>

definition persistent_get :: "account_codec \<Rightarrow> accounts_db \<Rightarrow> pubkey \<Rightarrow> account option option" where
  "persistent_get k db address =
     (case map_of db address of
        Some value \<Rightarrow> (case de_account k value of Some a \<Rightarrow> Some (Some a) | None \<Rightarrow> None)
      | None \<Rightarrow> Some None)"

definition persistent_set :: "accounts_db \<Rightarrow> pubkey \<Rightarrow> account \<Rightarrow> state_error + account option" where
  "persistent_set db address acc = Inl WritesNotSupported"

definition persistent_remove :: "accounts_db \<Rightarrow> pubkey \<Rightarrow> state_error + unit" where
  "persistent_remove db address = Inl WritesNotSupported"

lemma persistent_apply_split:
  "persistent_apply k d db =
     fold bt_remove (sd_deletes d)
       (fold (\<lambda>(addr, v). bt_insert addr v) (map (\<lambda>(addr, a). (addr, ser_account k a)) (sd_data d)) db)"
  by (simp add: persistent_apply_def sd_iter_def fold_map comp_def case_prod_unfold)

lemma map_of_persistent_apply:
  assumes "bt_invar db" and "sd_invar d"
  shows "map_of (persistent_apply k d db) a =
     (if a \<in> set (sd_deletes d) then None
      else case sd_get d a of Some acc \<Rightarrow> Some (ser_account k acc) | None \<Rightarrow> map_of db a)"
proof -
  let ?new = "map (\<lambda>(addr, a). (addr, ser_account k a)) (sd_data d)"
  have "bt_invar ?new"
    using assms(2) by (simp add: bt_invar_def sd_invar_def comp_def case_prod_unfold)
  then have "map_of (rev ?new) a = map_option (ser_account k) (sd_get d a)"
    by (simp add: map_of_rev_bt map_of_map sd_get_def)
  moreover have "bt_invar (fold (\<lambda>(addr, v). bt_insert addr v) ?new db)"
    using assms(1) by (rule btree.invar_fold_ins)
  ultimately show ?thesis
    using assms(1)
    by (simp add: persistent_apply_split btree.look_fold_del btree.look_fold_ins split: option.splits)
qed

lemma bt_invar_persistent_apply: "bt_invar db \<Longrightarrow> bt_invar (persistent_apply k d db)"
  by (simp add: persistent_apply_split btree.invar_fold_del btree.invar_fold_ins)

end
