(* ===== verification/Rensa_Contract.thy ===== *)
theory Rensa_Contract
  imports Rensa_State
begin

text \<open>
  \<open>src/vm/contract.rs\<close>, \<open>src/vm/transaction.rs\<close>, \<open>src/vm/output.rs\<close> and the \<open>Limits\<close> of
  \<open>src/consensus/genesis.rs\<close>: the data that flows between transactions, contracts and the VM, the
  limit and signature checks of a transaction, and the outputs of transactions and blocks with
  their hashes. The \<open>hashcache\<close> fields only cache the hash functions and are left out.
\<close>

section \<open>Limits\<close>

record limits =
  max_justification_age :: u64
  minimum_stake :: u64
  max_input_accounts :: nat
  max_account_size :: nat
  max_log_size :: nat
  max_logs_count :: nat
  max_block_transactions :: nat
  max_contract_size :: nat
  max_block_size :: nat
  max_transaction_params_size :: nat

section \<open>Contract interface\<close>

datatype signature_error = InvalidSignature | MissingSigners

datatype contract_error =
    InvalidTransactionNonce
  | AccountAlreadyExists
  | AccountDoesNotExist
  | TooManyInputAccounts
  | AccountTooLarge
  | LogTooLarge
  | TooManyLogs
  | InvalidInputAccounts
  | InvalidAccountOwner
  | InvalidOutputAccount
  | AccountNotWritable
  | ContractDoesNotExit
  | AccountIsNotExecutable
  | SignatureError signature_error
  | InvalidInputParameters
  | UnauthorizedOperation
  | Runtime string
  | Other string
  | ComputationalBudgetExhausted

text \<open>The \<open>Display\<close> texts of the error types; they are hashed into the block output.\<close>

fun signature_error_string :: "signature_error \<Rightarrow> string" where
  "signature_error_string InvalidSignature = ''Signature verification failed''"
| "signature_error_string MissingSigners = ''Missing Signers''"

fun contract_error_string :: "contract_error \<Rightarrow> string" where
  "contract_error_string InvalidTransactionNonce = ''Invalid transaction nonce value for this payer''"
| "contract_error_string AccountAlreadyExists = ''Account already exists''"
| "contract_error_string AccountDoesNotExist = ''Account does not exist''"
| "contract_error_string TooManyInputAccounts = ''The number of input accounts exceeds the maximum limit''"
| "contract_error_string AccountTooLarge = ''Account is exceeding the maximum size limit''"
| "contract_error_string LogTooLarge = ''Log is exceeding the maximum size limit''"
| "contract_error_string TooManyLogs = ''Logs count for this transaction is exceeding the maximum limit''"
| "contract_error_string InvalidInputAccounts = ''Invalid contract input accounts''"
| "contract_error_string InvalidAccountOwner = ''Attempt to modify an account not owned by the contract''"
| "contract_error_string InvalidOutputAccount =
     ''Contract attempting to write to an account not in the transaction accounts list''"
| "contract_error_string AccountNotWritable = ''The specified account is not writable''"
| "contract_error_string ContractDoesNotExit = ''Contract does not exit''"
| "contract_error_string AccountIsNotExecutable = ''The called account is not executable''"
| "contract_error_string (SignatureError e) = ''Signature Error: '' @ signature_error_string e"
| "contract_error_string InvalidInputParameters = ''Invalid contract input paramters data''"
| "contract_error_string UnauthorizedOperation = ''This contract is not allowed to perform this operation''"
| "contract_error_string (Runtime s) = ''Runtime Error: '' @ s"
| "contract_error_string (Other s) = ''Contract error: '' @ s"
| "contract_error_string ComputationalBudgetExhausted =
     ''The transaction has used up all compute units before completing''"

record account_ref =
  ref_address :: pubkey
  ref_writable :: bool
  ref_signer :: bool

record account_view =
  av_signer :: bool
  av_writable :: bool
  av_executable :: bool
  av_owner :: "pubkey option"
  av_data :: "bytes option"

datatype contract_output =
    LogEntry string string
  | CreateOwnedAccount pubkey "bytes option"
  | WriteAccountData pubkey "bytes option"
  | DeleteOwnedAccount pubkey
  | ContractInvoke pubkey "account_ref list" bytes
  | CreateExecutableAccount pubkey bytes

record environment =
  env_caller :: "pubkey option"
  env_address :: pubkey
  env_accounts :: "(pubkey \<times> account_view) list"

type_synonym contract_result = "(contract_error, contract_output list) comp"

text \<open>
  A builtin entrypoint gets the virtual machine, of which it only reads the limits; an external
  (WASM) entrypoint gets the environment and the parameters only.
\<close>

type_synonym native_entrypoint = "environment \<Rightarrow> bytes \<Rightarrow> limits \<Rightarrow> contract_result"
type_synonym contract_entrypoint = "environment \<Rightarrow> bytes \<Rightarrow> contract_result"

section \<open>Transactions\<close>

datatype transaction_error = TooManyAccounts | ParamsTooBig

record transaction =
  tx_contract :: pubkey
  tx_nonce :: u64
  tx_payer :: pubkey
  tx_accounts :: "account_ref list"
  tx_params :: bytes
  tx_signatures :: "signature list"

definition tx_hash_fields ::
    "crypto \<Rightarrow> pubkey \<Rightarrow> u64 \<Rightarrow> pubkey \<Rightarrow> account_ref list \<Rightarrow> bytes \<Rightarrow> bytes" where
  "tx_hash_fields c contract nonce payer accounts params =
     sha3_256 c (contract @ le_bytes nonce @ payer
       @ concat (map (\<lambda>a. ref_address a @ [byte_of_bool (ref_writable a), byte_of_bool (ref_signer a)]) accounts)
       @ params)"

definition tx_fields_hash :: "crypto \<Rightarrow> transaction \<Rightarrow> bytes" where
  "tx_fields_hash c tx = tx_hash_fields c (tx_contract tx) (tx_nonce tx) (tx_payer tx) (tx_accounts tx) (tx_params tx)"

definition tx_new ::
    "crypto \<Rightarrow> pubkey \<Rightarrow> u64 \<Rightarrow> bytes \<Rightarrow> account_ref list \<Rightarrow> bytes \<Rightarrow> bytes list \<Rightarrow> transaction" where
  "tx_new c contract nonce payer accounts params signers =
     (let fields_hash = tx_hash_fields c contract nonce (ed_public c payer) accounts params
      in \<lparr>tx_contract = contract, tx_nonce = nonce, tx_payer = ed_public c payer, tx_accounts = accounts,
          tx_params = params,
          tx_signatures = ed_sign c payer fields_hash # map (\<lambda>signer. ed_sign c signer fields_hash) signers\<rparr>)"

definition tx_verify_limits :: "transaction \<Rightarrow> limits \<Rightarrow> transaction_error + unit" where
  "tx_verify_limits tx l =
     (if length (tx_accounts tx) > max_input_accounts l then Inl TooManyAccounts
      else if length (tx_params tx) > max_transaction_params_size l then Inl ParamsTooBig
      else Inr ())"

text \<open>The final loop of \<open>verify_signatures\<close>, over the zipped signers and signatures.\<close>

fun verify_signers :: "crypto \<Rightarrow> bytes \<Rightarrow> (pubkey \<times> signature) list \<Rightarrow> signature_error + unit" where
  "verify_signers c msg [] = Inr ()"
| "verify_signers c msg ((k, sig) # rest) =
     (if ed_verify c k msg sig then verify_signers c msg rest else Inl InvalidSignature)"

definition tx_signing_accounts :: "transaction \<Rightarrow> pubkey list" where
  "tx_signing_accounts tx = map ref_address (filter ref_signer (tx_accounts tx))"

definition tx_verify_signatures :: "crypto \<Rightarrow> transaction \<Rightarrow> signature_error + unit" where
  "tx_verify_signatures c tx =
     (let fields_hash = tx_fields_hash c tx
      in case tx_signatures tx of
           [] \<Rightarrow> Inl MissingSigners
         | first # others \<Rightarrow>
             if \<not> ed_verify c (tx_payer tx) fields_hash first then Inl InvalidSignature
             else let signing = tx_signing_accounts tx; signers = zip signing others
                  in if length signers \<noteq> length signing then Inl MissingSigners
                     else verify_signers c fields_hash signers)"

definition tx_hash :: "crypto \<Rightarrow> transaction \<Rightarrow> multihash" where
  "tx_hash c tx =
     sha3_multihash c (tx_contract tx @ le_bytes (tx_nonce tx) @ tx_payer tx
       @ concat (map (\<lambda>a. ref_address a @ [byte_of_bool (ref_writable a)]) (tx_accounts tx))
       @ tx_params tx @ concat (tx_signatures tx))"

section \<open>Outputs of transactions and blocks\<close>

record transaction_output =
  to_state_diff :: state_diff
  to_log_entries :: "(string \<times> string) list"

definition to_default :: transaction_output where
  "to_default = \<lparr>to_state_diff = sd_default, to_log_entries = []\<rparr>"

definition to_merge :: "transaction_output \<Rightarrow> transaction_output \<Rightarrow> transaction_output" where
  "to_merge self newer =
     \<lparr>to_state_diff = sd_merge (to_state_diff self) (to_state_diff newer),
      to_log_entries = to_log_entries self @ to_log_entries newer\<rparr>"

text \<open>\<open>IndexMap\<close> keeps insertion order and replaces a value in place, as \<open>hm_insert\<close> does.\<close>

type_synonym logs_map = "(multihash, (string \<times> string) list) hash_map"
type_synonym errors_map = "(multihash, contract_error) hash_map"

definition errors_hash :: "crypto \<Rightarrow> errors_map \<Rightarrow> multihash" where
  "errors_hash c m =
     sha3_multihash c (concat (map (\<lambda>(k, v). k @ str_bytes (contract_error_string v)) m))"

definition logs_hash :: "crypto \<Rightarrow> logs_map \<Rightarrow> multihash" where
  "logs_hash c m =
     sha3_multihash c (concat (map (\<lambda>(k, v). k @ concat (map (\<lambda>(lk, lv). str_bytes lk @ str_bytes lv) v)) m))"

record block_output =
  bo_state :: state_diff
  bo_logs :: logs_map
  bo_errors :: errors_map

definition bo_hash :: "crypto \<Rightarrow> block_output \<Rightarrow> multihash" where
  "bo_hash c b = sha3_multihash c (sd_hash c (bo_state b) @ logs_hash c (bo_logs b) @ errors_hash c (bo_errors b))"

section \<open>Lemmas\<close>

lemma verify_signers_ok:
  "verify_signers c msg kss = Inr () \<longleftrightarrow> (\<forall>(k, sig) \<in> set kss. ed_verify c k msg sig)"
  by (induction c msg kss rule: verify_signers.induct) auto

lemma tx_verify_signatures_ok:
  "tx_verify_signatures c tx = Inr () \<longleftrightarrow>
     (\<exists>first others. tx_signatures tx = first # others
        \<and> ed_verify c (tx_payer tx) (tx_fields_hash c tx) first
        \<and> length (tx_signing_accounts tx) \<le> length others
        \<and> (\<forall>i < length (tx_signing_accounts tx).
             ed_verify c (tx_signing_accounts tx ! i) (tx_fields_hash c tx) (others ! i)))"
proof (cases "tx_signatures tx")
  case Nil
  then show ?thesis by (simp add: tx_verify_signatures_def)
next
  case (Cons first others)
  let ?s = "tx_signing_accounts tx"
  have "verify_signers c (tx_fields_hash c tx) (zip ?s others) = Inr () \<longleftrightarrow>
      (\<forall>i < min (length ?s) (length others). ed_verify c (?s ! i) (tx_fields_hash c tx) (others ! i))"
    by (force simp: verify_signers_ok set_zip)
  then show ?thesis
    by (auto simp: tx_verify_signatures_def Let_def Cons min_def split: if_splits)
qed

lemma to_merge_default_logs [simp]: "to_log_entries (to_merge to_default o') = to_log_entries o'"
  by (simp add: to_merge_def to_default_def)

end
