(* ===== verification/Rensa_Currency.thy ===== *)
theory Rensa_Currency
  imports Rensa_Contract
begin

text \<open>
  \<open>src/vm/builtin/currency.rs\<close>: the native currency contract. Accounts are stored in Borsh
  format; the derived encoders and decoders are a parameter of the model (an encoder may report an
  I/O error, a decoder may reject its input).
\<close>

record mint =
  mint_authority :: "pubkey option"
  mint_supply :: u64
  mint_decimals :: byte
  mint_name :: "string option"
  mint_symbol :: "string option"

record coin_account =
  coin_mint :: pubkey
  coin_owner :: pubkey
  coin_balance :: u64

datatype currency_instruction =
    Create bytes pubkey byte "string option" "string option"
  | Mint u64
  | Transfer u64
  | Burn u64
  | SetAuthority "pubkey option"

record currency_codec =
  enc_mint :: "mint \<Rightarrow> string + bytes"
  dec_mint :: "bytes \<Rightarrow> mint option"
  enc_coin :: "coin_account \<Rightarrow> string + bytes"
  dec_coin :: "bytes \<Rightarrow> coin_account option"
  dec_currency_instruction :: "bytes \<Rightarrow> currency_instruction option"

text \<open>\<open>x.try_to_vec()?\<close>: an I/O error becomes \<open>ContractError::Other\<close> (\<open>From<std::io::Error>\<close>).\<close>

definition try_to_vec :: "string + bytes \<Rightarrow> (contract_error, bytes) comp" where
  "try_to_vec r = (case r of Inl msg \<Rightarrow> throw (Other msg) | Inr bs \<Rightarrow> ret bs)"

definition derive_comp :: "crypto \<Rightarrow> pubkey \<Rightarrow> bytes list \<Rightarrow> (contract_error, pubkey) comp" where
  "derive_comp c address seeds = (case derive c address seeds of None \<Rightarrow> None | Some k \<Rightarrow> ret k)"

definition read_coin_mint ::
    "crypto \<Rightarrow> currency_codec \<Rightarrow> pubkey \<Rightarrow> account_view \<Rightarrow> environment \<Rightarrow> (contract_error, mint) comp" where
  "read_coin_mint c k addr acc env =
     (if has_private_key c addr then throw InvalidInputAccounts
      else case av_owner acc of
             None \<Rightarrow> throw InvalidAccountOwner
           | Some ow \<Rightarrow>
               if ow \<noteq> env_address env then throw InvalidAccountOwner
               else case av_data acc of
                      Some d \<Rightarrow> (case dec_mint k d of Some m \<Rightarrow> ret m | None \<Rightarrow> throw InvalidInputAccounts)
                    | None \<Rightarrow> throw InvalidInputAccounts)"

definition read_coin_account ::
    "crypto \<Rightarrow> currency_codec \<Rightarrow> pubkey \<Rightarrow> account_view \<Rightarrow> pubkey \<Rightarrow> pubkey \<Rightarrow> environment
     \<Rightarrow> (contract_error, coin_account option) comp" where
  "read_coin_account c k coin_addr coin_acc mint_addr wallet_addr env =
     bind_comp (derive_comp c (env_address env) [mint_addr, wallet_addr]) (\<lambda>expected.
       if coin_addr \<noteq> expected then throw InvalidInputAccounts
       else if (case av_owner coin_acc of Some ow \<Rightarrow> ow \<noteq> env_address env | None \<Rightarrow> False)
         then throw InvalidAccountOwner
       else case av_data coin_acc of
              None \<Rightarrow> ret None
            | Some d \<Rightarrow>
                (case dec_coin k d of
                   None \<Rightarrow> throw InvalidInputAccounts
                 | Some coin \<Rightarrow>
                     if mint_addr \<noteq> coin_mint coin then throw InvalidInputAccounts
                     else if wallet_addr \<noteq> coin_owner coin then throw InvalidAccountOwner
                     else ret (Some coin)))"

definition or_empty :: "string option \<Rightarrow> string" where
  "or_empty s = (case s of Some x \<Rightarrow> x | None \<Rightarrow> '''')"

definition process_create ::
    "crypto \<Rightarrow> currency_codec \<Rightarrow> environment \<Rightarrow> bytes \<Rightarrow> pubkey \<Rightarrow> byte \<Rightarrow> string option \<Rightarrow> string option
     \<Rightarrow> contract_result" where
  "process_create c k env seed authority decimals name symbol =
     (case env_accounts env of
        [(addr, value)] \<Rightarrow>
          bind_comp (derive_comp c (env_address env) [seed]) (\<lambda>expected_mint_address.
            if expected_mint_address \<noteq> addr then throw InvalidInputAccounts
            else if av_data value \<noteq> None \<or> av_owner value \<noteq> None then throw AccountAlreadyExists
            else if (case symbol of Some s \<Rightarrow> s = [] \<or> length s > 10 | None \<Rightarrow> False)
              then throw InvalidInputParameters
            else if (case name of Some s \<Rightarrow> s = [] \<or> length s > 64 | None \<Rightarrow> False)
              then throw InvalidInputParameters
            else if decimals > 20 then throw InvalidInputParameters
            else let spec = \<lparr>mint_authority = Some authority, mint_supply = 0, mint_decimals = decimals,
                             mint_name = name, mint_symbol = symbol\<rparr>
                 in case enc_mint k spec of
                      Inl msg \<Rightarrow> throw InvalidInputParameters
                    | Inr data \<Rightarrow>
                        ret [CreateOwnedAccount expected_mint_address (Some data),
                             LogEntry ''action'' ''create'',
                             LogEntry ''address'' (b58_encode c addr),
                             LogEntry ''name'' (or_empty name),
                             LogEntry ''symbol'' (or_empty symbol),
                             LogEntry ''decimals'' (show_nat (unat decimals))])
      | _ \<Rightarrow> throw InvalidInputAccounts)"

definition process_mint :: "crypto \<Rightarrow> currency_codec \<Rightarrow> environment \<Rightarrow> u64 \<Rightarrow> contract_result" where
  "process_mint c k env amount =
     (case env_accounts env of
        [(mint_addr, mint_data), (authority, authority_acc), (wallet_addr, _), (coin_addr, coin_acc)] \<Rightarrow>
          if amount = 0 then throw InvalidInputParameters
          else bind_comp (read_coin_mint c k mint_addr mint_data env) (\<lambda>mint.
            case mint_authority mint of
              None \<Rightarrow> throw (Other ''Minting new coins is disabled for this currency'')
            | Some auth \<Rightarrow>
                if auth \<noteq> authority
                  then throw (Other ''account not authorized to mint new coins of this currency'')
                else if \<not> av_signer authority_acc then throw (SignatureError MissingSigners)
                else bind_comp (read_coin_account c k coin_addr coin_acc mint_addr wallet_addr env) (\<lambda>existing.
                  bind_comp
                    (case existing of
                       Some coin \<Rightarrow>
                         bind_comp (try_to_vec (enc_coin k
                             (coin\<lparr>coin_balance := saturating_add (coin_balance coin) amount\<rparr>)))
                           (\<lambda>d. ret (WriteAccountData coin_addr (Some d)))
                     | None \<Rightarrow>
                         bind_comp (try_to_vec (enc_coin k
                             \<lparr>coin_mint = mint_addr, coin_owner = wallet_addr, coin_balance = amount\<rparr>))
                           (\<lambda>d. ret (CreateOwnedAccount coin_addr (Some d)))) (\<lambda>coin_out.
                  bind_comp (try_to_vec (enc_mint k
                      (mint\<lparr>mint_supply := saturating_add (mint_supply mint) amount\<rparr>))) (\<lambda>mint_bytes.
                  ret [LogEntry ''action'' ''mint'',
                       LogEntry ''to'' (b58_encode c wallet_addr),
                       LogEntry ''amount'' (show_u64 amount),
                       coin_out,
                       WriteAccountData mint_addr (Some mint_bytes)]))))
      | _ \<Rightarrow> throw InvalidInputAccounts)"

definition process_transfer :: "crypto \<Rightarrow> currency_codec \<Rightarrow> environment \<Rightarrow> u64 \<Rightarrow> contract_result" where
  "process_transfer c k env amount =
     (case env_accounts env of
        [(mint_addr, mint_acc), (sender_wallet_addr, sender_wallet_acc), (sender_coin_addr, sender_coin_acc),
         (recipient_wallet_addr, _), (recipient_coin_addr, recipient_coin_acc)] \<Rightarrow>
          if amount = 0 then throw InvalidInputParameters
          else bind_comp (read_coin_mint c k mint_addr mint_acc env) (\<lambda>_.
            bind_comp (read_coin_account c k sender_coin_addr sender_coin_acc mint_addr sender_wallet_addr env)
              (\<lambda>sender. case sender of
                 None \<Rightarrow> throw AccountDoesNotExist
               | Some sender_coin \<Rightarrow>
                   if \<not> av_signer sender_wallet_acc then throw (SignatureError MissingSigners)
                   else if coin_balance sender_coin < amount
                     then throw (Other ''Not enough balance in sender's account'')
                   else let sender_coin' = sender_coin\<lparr>coin_balance :=
                              saturating_sub (coin_balance sender_coin) amount\<rparr>
                        in bind_comp (try_to_vec (enc_coin k sender_coin')) (\<lambda>sender_bytes.
                   let outputs = [LogEntry ''action'' ''transfer'',
                          LogEntry ''from'' (b58_encode c sender_wallet_addr),
                          LogEntry ''coin'' (b58_encode c mint_addr),
                          LogEntry ''to'' (b58_encode c recipient_wallet_addr),
                          LogEntry ''amount'' (show_u64 amount),
                          WriteAccountData sender_coin_addr (Some sender_bytes)]
                         @ (if coin_balance sender_coin' = 0 then [DeleteOwnedAccount sender_coin_addr] else [])
                   in bind_comp (read_coin_account c k recipient_coin_addr recipient_coin_acc mint_addr
                          recipient_wallet_addr env) (\<lambda>recipient.
                   case recipient of
                     Some recipient_coin \<Rightarrow>
                       bind_comp (try_to_vec (enc_coin k (recipient_coin\<lparr>coin_balance :=
                           saturating_add (coin_balance recipient_coin) amount\<rparr>)))
                         (\<lambda>d. ret (outputs @ [WriteAccountData recipient_coin_addr (Some d)]))
                   | None \<Rightarrow>
                       bind_comp (try_to_vec (enc_coin k
                           \<lparr>coin_mint = mint_addr, coin_owner = recipient_wallet_addr, coin_balance = amount\<rparr>))
                         (\<lambda>d. ret (outputs @ [CreateOwnedAccount recipient_coin_addr (Some d)]))))))
      | _ \<Rightarrow> throw InvalidInputAccounts)"

definition process_burn :: "crypto \<Rightarrow> currency_codec \<Rightarrow> environment \<Rightarrow> u64 \<Rightarrow> contract_result" where
  "process_burn c k env amount =
     (case env_accounts env of
        [(mint_addr, mint_acc), (wallet_addr, wallet_acc), (coin_addr, coin_acc)] \<Rightarrow>
          if amount = 0 then throw InvalidInputParameters
          else bind_comp (read_coin_mint c k mint_addr mint_acc env) (\<lambda>mint.
            bind_comp (read_coin_account c k coin_addr coin_acc mint_addr wallet_addr env)
              (\<lambda>existing. case existing of
                 None \<Rightarrow> throw AccountDoesNotExist
               | Some coin \<Rightarrow>
                   if \<not> av_signer wallet_acc then throw (SignatureError MissingSigners)
                   else if coin_balance coin < amount
                     then throw (Other ''Not enough balance in sender's account'')
                   else let mint' = mint\<lparr>mint_supply := saturating_sub (mint_supply mint) amount\<rparr>;
                            coin' = coin\<lparr>coin_balance := saturating_sub (coin_balance coin) amount\<rparr>
                   in bind_comp (try_to_vec (enc_mint k mint')) (\<lambda>mint_bytes.
                      bind_comp (try_to_vec (enc_coin k coin')) (\<lambda>coin_bytes.
                      ret ([LogEntry ''action'' ''burn'',
                            LogEntry ''wallet'' (b58_encode c wallet_addr),
                            LogEntry ''amount'' (show_u64 amount),
                            LogEntry ''coin'' (b58_encode c mint_addr),
                            WriteAccountData mint_addr (Some mint_bytes),
                            WriteAccountData coin_addr (Some coin_bytes)]
                           @ (if coin_balance coin' = 0 then [DeleteOwnedAccount coin_addr] else []))))))
      | _ \<Rightarrow> throw InvalidInputAccounts)"

definition process_set_authority ::
    "crypto \<Rightarrow> currency_codec \<Rightarrow> environment \<Rightarrow> pubkey option \<Rightarrow> contract_result" where
  "process_set_authority c k env authority =
     (case env_accounts env of
        [(mint_addr, mint_acc), (current_auth_addr, current_auth_acc)] \<Rightarrow>
          bind_comp (read_coin_mint c k mint_addr mint_acc env) (\<lambda>mint.
            case mint_authority mint of
              None \<Rightarrow> throw (Other ''Authority has been removed for this coin'')
            | Some existing_authority \<Rightarrow>
                if existing_authority \<noteq> current_auth_addr
                  then throw (Other ''account not authorized to change mint authority'')
                else if \<not> av_signer current_auth_acc then throw (SignatureError MissingSigners)
                else bind_comp (try_to_vec (enc_mint k (mint\<lparr>mint_authority := authority\<rparr>))) (\<lambda>mint_bytes.
                  ret [LogEntry ''action'' ''set-authority'',
                       LogEntry ''coin.address'' (b58_encode c mint_addr),
                       LogEntry ''coin.name'' (or_empty (mint_name mint)),
                       LogEntry ''coin.symbol'' (or_empty (mint_symbol mint)),
                       LogEntry ''to'' (case authority of Some a \<Rightarrow> b58_encode c a | None \<Rightarrow> ''''),
                       WriteAccountData mint_addr (Some mint_bytes)]))
      | _ \<Rightarrow> throw InvalidInputAccounts)"

definition currency_contract :: "crypto \<Rightarrow> currency_codec \<Rightarrow> native_entrypoint" where
  "currency_contract c k env params lim =
     (case dec_currency_instruction k params of
        None \<Rightarrow> throw InvalidInputParameters
      | Some (Create seed authority decimals name symbol) \<Rightarrow>
          process_create c k env seed authority decimals name symbol
      | Some (Mint amount) \<Rightarrow> process_mint c k env amount
      | Some (Transfer amount) \<Rightarrow> process_transfer c k env amount
      | Some (Burn amount) \<Rightarrow> process_burn c k env amount
      | Some (SetAuthority account) \<Rightarrow> process_set_authority c k env account)"

section \<open>What a successful call has checked\<close>

lemma try_to_vec_ret [simp]: "try_to_vec r = ret d \<longleftrightarrow> r = Inr d"
  by (auto simp: try_to_vec_def split: sum.splits)

lemma read_coin_mint_ret:
  assumes "read_coin_mint c k addr acc env = ret m"
  shows "\<not> has_private_key c addr \<and> av_owner acc = Some (env_address env) \<and>
    (\<exists>d. av_data acc = Some d \<and> dec_mint k d = Some m)"
  using assms by (auto simp: read_coin_mint_def split: if_splits option.splits)

lemma read_coin_account_ret:
  assumes "read_coin_account c k addr acc mint_addr wallet env = ret r"
  shows "derive c (env_address env) [mint_addr, wallet] = Some addr \<and>
    (case r of None \<Rightarrow> av_data acc = None
     | Some coin \<Rightarrow> (\<exists>d. av_data acc = Some d \<and> dec_coin k d = Some coin) \<and>
         coin_mint coin = mint_addr \<and> coin_owner coin = wallet)"
  using assms unfolding read_coin_account_def derive_comp_def
  by (auto elim!: bind_retE intro: sym split: if_split_asm option.split_asm option.split)

lemma process_createE:
  assumes "process_create c k env seed authority decimals name symbol = ret outs"
  obtains addr acc bs where "env_accounts env = [(addr, acc)]"
    and "derive_comp c (env_address env) [seed] = ret addr"
    and "av_data acc = None" and "av_owner acc = None" and "decimals \<le> 20"
    and "enc_mint k \<lparr>mint_authority = Some authority, mint_supply = 0, mint_decimals = decimals,
                     mint_name = name, mint_symbol = symbol\<rparr> = Inr bs"
    and "outs = [CreateOwnedAccount addr (Some bs), LogEntry ''action'' ''create'',
                 LogEntry ''address'' (b58_encode c addr), LogEntry ''name'' (or_empty name),
                 LogEntry ''symbol'' (or_empty symbol),
                 LogEntry ''decimals'' (show_nat (unat decimals))]"
  using assms unfolding process_create_def
  by (auto elim!: bind_retE simp: Let_def not_less
      split: list.split_asm prod.split_asm if_split_asm sum.split_asm)

lemma process_mintE:
  assumes "process_mint c k env amount = ret outs"
  obtains mint_addr mint_acc authority authority_acc wallet wallet_acc coin_addr coin_acc mint existing
      coin_out mint_bytes where
    "env_accounts env =
       [(mint_addr, mint_acc), (authority, authority_acc), (wallet, wallet_acc), (coin_addr, coin_acc)]"
    and "amount \<noteq> 0"
    and "read_coin_mint c k mint_addr mint_acc env = ret mint"
    and "mint_authority mint = Some authority" and "av_signer authority_acc"
    and "read_coin_account c k coin_addr coin_acc mint_addr wallet env = ret existing"
    and "case existing of
           Some coin \<Rightarrow> \<exists>d. enc_coin k (coin\<lparr>coin_balance := saturating_add (coin_balance coin) amount\<rparr>)
              = Inr d \<and> coin_out = WriteAccountData coin_addr (Some d)
         | None \<Rightarrow> \<exists>d. enc_coin k \<lparr>coin_mint = mint_addr, coin_owner = wallet, coin_balance = amount\<rparr>
              = Inr d \<and> coin_out = CreateOwnedAccount coin_addr (Some d)"
    and "enc_mint k (mint\<lparr>mint_supply := saturating_add (mint_supply mint) amount\<rparr>) = Inr mint_bytes"
    and "outs = [LogEntry ''action'' ''mint'', LogEntry ''to'' (b58_encode c wallet),
                 LogEntry ''amount'' (show_u64 amount), coin_out, WriteAccountData mint_addr (Some mint_bytes)]"
  using assms unfolding process_mint_def
  by (auto elim!: bind_retE split: list.split_asm prod.split_asm if_split_asm option.split_asm)

lemma process_transferE:
  assumes "process_transfer c k env amount = ret outs"
  obtains mint_addr mint_acc sw sw_acc sc sc_acc rw rw_acc rc rc_acc mint sender sender_bytes recipient
      rc_out where
    "env_accounts env = [(mint_addr, mint_acc), (sw, sw_acc), (sc, sc_acc), (rw, rw_acc), (rc, rc_acc)]"
    and "amount \<noteq> 0"
    and "read_coin_mint c k mint_addr mint_acc env = ret mint"
    and "read_coin_account c k sc sc_acc mint_addr sw env = ret (Some sender)"
    and "av_signer sw_acc" and "amount \<le> coin_balance sender"
    and "enc_coin k (sender\<lparr>coin_balance := saturating_sub (coin_balance sender) amount\<rparr>) = Inr sender_bytes"
    and "read_coin_account c k rc rc_acc mint_addr rw env = ret recipient"
    and "case recipient of
           Some coin \<Rightarrow> \<exists>d. enc_coin k (coin\<lparr>coin_balance := saturating_add (coin_balance coin) amount\<rparr>)
              = Inr d \<and> rc_out = WriteAccountData rc (Some d)
         | None \<Rightarrow> \<exists>d. enc_coin k \<lparr>coin_mint = mint_addr, coin_owner = rw, coin_balance = amount\<rparr>
              = Inr d \<and> rc_out = CreateOwnedAccount rc (Some d)"
    and "outs = [LogEntry ''action'' ''transfer'', LogEntry ''from'' (b58_encode c sw),
                 LogEntry ''coin'' (b58_encode c mint_addr), LogEntry ''to'' (b58_encode c rw),
                 LogEntry ''amount'' (show_u64 amount), WriteAccountData sc (Some sender_bytes)]
               @ (if saturating_sub (coin_balance sender) amount = 0 then [DeleteOwnedAccount sc] else [])
               @ [rc_out]"
  using assms unfolding process_transfer_def
  by (auto elim!: bind_retE simp: Let_def not_less
      split: list.split_asm prod.split_asm if_split_asm option.split_asm)

lemma process_burnE:
  assumes "process_burn c k env amount = ret outs"
  obtains mint_addr mint_acc wallet wallet_acc coin_addr coin_acc mint coin mint_bytes coin_bytes where
    "env_accounts env = [(mint_addr, mint_acc), (wallet, wallet_acc), (coin_addr, coin_acc)]"
    and "amount \<noteq> 0"
    and "read_coin_mint c k mint_addr mint_acc env = ret mint"
    and "read_coin_account c k coin_addr coin_acc mint_addr wallet env = ret (Some coin)"
    and "av_signer wallet_acc" and "amount \<le> coin_balance coin"
    and "enc_mint k (mint\<lparr>mint_supply := saturating_sub (mint_supply mint) amount\<rparr>) = Inr mint_bytes"
    and "enc_coin k (coin\<lparr>coin_balance := saturating_sub (coin_balance coin) amount\<rparr>) = Inr coin_bytes"
    and "outs = [LogEntry ''action'' ''burn'', LogEntry ''wallet'' (b58_encode c wallet),
                 LogEntry ''amount'' (show_u64 amount), LogEntry ''coin'' (b58_encode c mint_addr),
                 WriteAccountData mint_addr (Some mint_bytes), WriteAccountData coin_addr (Some coin_bytes)]
               @ (if saturating_sub (coin_balance coin) amount = 0 then [DeleteOwnedAccount coin_addr] else [])"
  using assms unfolding process_burn_def
  by (auto elim!: bind_retE simp: Let_def not_less
      split: list.split_asm prod.split_asm if_split_asm option.split_asm)

lemma process_set_authorityE:
  assumes "process_set_authority c k env authority = ret outs"
  obtains mint_addr mint_acc current current_acc mint mint_bytes where
    "env_accounts env = [(mint_addr, mint_acc), (current, current_acc)]"
    and "read_coin_mint c k mint_addr mint_acc env = ret mint"
    and "mint_authority mint = Some current" and "av_signer current_acc"
    and "enc_mint k (mint\<lparr>mint_authority := authority\<rparr>) = Inr mint_bytes"
    and "outs = [LogEntry ''action'' ''set-authority'', LogEntry ''coin.address'' (b58_encode c mint_addr),
                 LogEntry ''coin.name'' (or_empty (mint_name mint)),
                 LogEntry ''coin.symbol'' (or_empty (mint_symbol mint)),
                 LogEntry ''to'' (case authority of Some a \<Rightarrow> b58_encode c a | None \<Rightarrow> ''''),
                 WriteAccountData mint_addr (Some mint_bytes)]"
  using assms unfolding process_set_authority_def
  by (auto elim!: bind_retE split: list.split_asm prod.split_asm if_split_asm option.split_asm)

end
