(* ===== verification/Rensa_Unit.thy ===== *)
theory Rensa_Unit
  imports Rensa_Contract
begin

text \<open>
  \<open>src/vm/unit.rs\<close> and the lookup part of \<open>src/vm/machine.rs\<close>: the execution of one transaction.
  A unit resolves the called contract, builds its isolated environment, runs it and applies each
  of its outputs; an output may invoke another contract, recursively.

  The source puts no bound on that recursion. The model counts the depth of nested contract calls
  with a fuel argument; \<open>None\<close> is a call that panics, diverges or nests deeper than the fuel.
  \<open>leaf_contract\<close> is the interface under which one unit of fuel is enough.
\<close>

datatype machine_error =
    InconsistentStateHash
  | InconsistentLogsHash
  | InvalidBlockHeight
  | InvalidTransactionsOrder
  | UndefinedBuiltin pubkey

text \<open>
  The virtual machine: limits and enabled builtins (\<open>Machine\<close>), with the packages it calls as
  parameters: the cryptography, the WASM runtime (\<open>Runtime::new(bytecode)\<close> followed by
  \<open>runtime.invoke\<close>) and the decoded address \<open>WASM_VM_BUILTIN_ADDR\<close>.
\<close>

record machine =
  vm_crypto :: crypto
  vm_limits :: limits
  vm_builtins :: "(pubkey, native_entrypoint) hash_map"
  vm_runtime :: "bytes \<Rightarrow> contract_error + contract_entrypoint"
  vm_wasm_addr :: pubkey

definition machine_builtin :: "machine \<Rightarrow> pubkey \<Rightarrow> native_entrypoint option" where
  "machine_builtin vm addr = map_of (vm_builtins vm) addr"

definition machine_contract :: "machine \<Rightarrow> pubkey \<Rightarrow> state_view \<Rightarrow> contract_error + contract_entrypoint" where
  "machine_contract vm addr state =
     (case state addr of
        Some acc \<Rightarrow>
          (case (acc_owner acc, acc_data acc) of
             (Some ow, Some d) \<Rightarrow>
               if ow = vm_wasm_addr vm \<and> acc_executable acc then vm_runtime vm d
               else Inl AccountIsNotExecutable
           | _ \<Rightarrow> Inl AccountIsNotExecutable)
      | None \<Rightarrow> Inl ContractDoesNotExit)"

datatype entrypoint = Native native_entrypoint | External contract_entrypoint

record exec_unit =
  eu_entrypoint :: entrypoint
  eu_env :: environment
  eu_state :: state_view
  eu_contract :: pubkey
  eu_params :: bytes

section \<open>The environment of a call\<close>

text \<open>The closure \<open>create_account_view\<close>: whether the called contract may write an account.\<close>

definition view_writable :: "machine \<Rightarrow> state_view \<Rightarrow> pubkey \<Rightarrow> account_ref \<Rightarrow> bool" where
  "view_writable vm state address r =
     (if \<not> ref_writable r then False
      else if has_private_key (vm_crypto vm) (ref_address r) then ref_signer r
      else case state (ref_address r) of
             None \<Rightarrow> True
           | Some existing \<Rightarrow>
               if acc_executable existing then False
               else case acc_owner existing of Some ow \<Rightarrow> ow = address | None \<Rightarrow> False)"

definition create_account_view :: "machine \<Rightarrow> state_view \<Rightarrow> pubkey \<Rightarrow> account_ref \<Rightarrow> pubkey \<times> account_view" where
  "create_account_view vm state address r =
     (let account_data = state (ref_address r)
      in (ref_address r,
          \<lparr>av_signer = ref_signer r,
           av_writable = view_writable vm state address r,
           av_executable = (case account_data of Some a \<Rightarrow> acc_executable a | None \<Rightarrow> False),
           av_owner = (case account_data of Some a \<Rightarrow> acc_owner a | None \<Rightarrow> None),
           av_data = (case account_data of Some a \<Rightarrow> acc_data a | None \<Rightarrow> None)\<rparr>))"

definition create_environment ::
    "machine \<Rightarrow> state_view \<Rightarrow> account_ref list \<Rightarrow> pubkey \<Rightarrow> pubkey option \<Rightarrow> environment" where
  "create_environment vm state accounts address caller =
     \<lparr>env_caller = caller, env_address = address,
      env_accounts = map (create_account_view vm state address) accounts\<rparr>"

section \<open>Constructing units\<close>

definition resolve_entrypoint :: "machine \<Rightarrow> pubkey \<Rightarrow> state_view \<Rightarrow> contract_error + entrypoint" where
  "resolve_entrypoint vm contract state =
     (case machine_builtin vm contract of
        Some e \<Rightarrow> Inr (Native e)
      | None \<Rightarrow> (case machine_contract vm contract state of Inl e \<Rightarrow> Inl e | Inr f \<Rightarrow> Inr (External f)))"

definition state_nonce :: "state_view \<Rightarrow> pubkey \<Rightarrow> u64" where
  "state_nonce state a = (case state a of Some acc \<Rightarrow> acc_nonce acc | None \<Rightarrow> 0)"

definition unit_new :: "machine \<Rightarrow> transaction \<Rightarrow> state_view \<Rightarrow> contract_error + exec_unit" where
  "unit_new vm tx state =
     (if length (tx_accounts tx) > max_input_accounts (vm_limits vm) then Inl TooManyInputAccounts
      else case tx_verify_signatures (vm_crypto vm) tx of
             Inl e \<Rightarrow> Inl (SignatureError e)
           | Inr _ \<Rightarrow>
               if tx_nonce tx \<noteq> state_nonce state (tx_payer tx) then Inl InvalidTransactionNonce
               else case resolve_entrypoint vm (tx_contract tx) state of
                      Inl e \<Rightarrow> Inl e
                    | Inr entry \<Rightarrow>
                        Inr \<lparr>eu_entrypoint = entry,
                             eu_env = create_environment vm state (tx_accounts tx) (tx_contract tx) None,
                             eu_state = state, eu_contract = tx_contract tx, eu_params = tx_params tx\<rparr>)"

definition unit_new_nested ::
    "machine \<Rightarrow> exec_unit \<Rightarrow> pubkey \<Rightarrow> account_ref list \<Rightarrow> bytes \<Rightarrow> contract_error + exec_unit" where
  "unit_new_nested vm self contract accounts params =
     (if length accounts > max_input_accounts (vm_limits vm) then Inl TooManyInputAccounts
      else case resolve_entrypoint vm contract (eu_state self) of
             Inl e \<Rightarrow> Inl e
           | Inr entry \<Rightarrow>
               Inr \<lparr>eu_entrypoint = entry,
                    eu_env = create_environment vm (eu_state self) accounts contract (Some (eu_contract self)),
                    eu_state = eu_state self, eu_contract = contract, eu_params = params\<rparr>)"

section \<open>Applying outputs\<close>

text \<open>The loop of \<open>set_account\<close> over the accounts of the environment: the first match decides.\<close>

fun set_account_in :: "(pubkey \<times> account_view) list \<Rightarrow> pubkey \<Rightarrow> account \<Rightarrow> contract_error + state_diff" where
  "set_account_in [] address value = Inl InvalidOutputAccount"
| "set_account_in ((addr, view) # rest) address value =
     (if addr = address
      then (if av_writable view then Inr (sd_put address value sd_default) else Inl AccountNotWritable)
      else set_account_in rest address value)"

definition set_account :: "exec_unit \<Rightarrow> pubkey \<Rightarrow> account \<Rightarrow> contract_error + state_diff" where
  "set_account u address value = set_account_in (env_accounts (eu_env u)) address value"

definition create_account :: "exec_unit \<Rightarrow> pubkey \<Rightarrow> bytes option \<Rightarrow> contract_error + state_diff" where
  "create_account u address d =
     (if eu_state u address = None
      then set_account u address
             \<lparr>acc_executable = False, acc_nonce = 0, acc_owner = Some (eu_contract u), acc_data = d\<rparr>
      else Inl AccountAlreadyExists)"

definition create_executable_account ::
    "machine \<Rightarrow> exec_unit \<Rightarrow> pubkey \<Rightarrow> bytes \<Rightarrow> contract_error + state_diff" where
  "create_executable_account vm u address bytecode =
     (if env_address (eu_env u) \<noteq> vm_wasm_addr vm then Inl UnauthorizedOperation
      else if eu_state u address = None
      then set_account u address
             \<lparr>acc_executable = True, acc_nonce = 0, acc_owner = Some (vm_wasm_addr vm), acc_data = Some bytecode\<rparr>
      else Inl AccountAlreadyExists)"

definition modify_account :: "exec_unit \<Rightarrow> pubkey \<Rightarrow> bytes option \<Rightarrow> contract_error + state_diff" where
  "modify_account u address d =
     (case eu_state u address of
        Some acc \<Rightarrow> set_account u address (acc\<lparr>acc_data := d\<rparr>)
      | None \<Rightarrow> Inl AccountDoesNotExist)"

fun delete_account_in ::
    "(pubkey \<times> account_view) list \<Rightarrow> pubkey \<Rightarrow> pubkey \<Rightarrow> contract_error + state_diff" where
  "delete_account_in [] self_address address = Inl InvalidOutputAccount"
| "delete_account_in ((addr, view) # rest) self_address address =
     (if addr = address
      then (case av_owner view of
              None \<Rightarrow> Inl InvalidAccountOwner
            | Some ow \<Rightarrow>
                if ow \<noteq> self_address then Inl InvalidAccountOwner
                else if \<not> av_writable view then Inl AccountNotWritable
                else Inr (sd_del address sd_default))
      else delete_account_in rest self_address address)"

definition delete_account :: "exec_unit \<Rightarrow> pubkey \<Rightarrow> contract_error + state_diff" where
  "delete_account u address = delete_account_in (env_accounts (eu_env u)) (env_address (eu_env u)) address"

definition state_output :: "contract_error + state_diff \<Rightarrow> (contract_error, transaction_output) comp" where
  "state_output r = (case r of Inl e \<Rightarrow> throw e | Inr d \<Rightarrow> ret \<lparr>to_state_diff = d, to_log_entries = []\<rparr>)"

definition data_too_large :: "machine \<Rightarrow> bytes option \<Rightarrow> bool" where
  "data_too_large vm d = (case d of Some bs \<Rightarrow> length bs > max_account_size (vm_limits vm) | None \<Rightarrow> False)"

text \<open>
  \<open>process_output\<close>; the recursive call of a contract invocation, \<open>new_nested(..)?.execute()\<close>, is the
  argument \<open>nested\<close>.
\<close>

fun process_output ::
    "(exec_unit \<Rightarrow> (contract_error, transaction_output) comp) \<Rightarrow> machine \<Rightarrow> exec_unit \<Rightarrow> contract_output
     \<Rightarrow> (contract_error, transaction_output) comp" where
  "process_output nested vm u (LogEntry key value) =
     (if length key + length value > max_log_size (vm_limits vm) then throw LogTooLarge
      else ret \<lparr>to_state_diff = sd_default, to_log_entries = [(key, value)]\<rparr>)"
| "process_output nested vm u (CreateOwnedAccount addr d) =
     (if data_too_large vm d then throw AccountTooLarge else state_output (create_account u addr d))"
| "process_output nested vm u (WriteAccountData addr d) =
     (if data_too_large vm d then throw AccountTooLarge else state_output (modify_account u addr d))"
| "process_output nested vm u (DeleteOwnedAccount addr) = state_output (delete_account u addr)"
| "process_output nested vm u (ContractInvoke contract accounts params) =
     (case unit_new_nested vm u contract accounts params of Inl e \<Rightarrow> throw e | Inr u' \<Rightarrow> nested u')"
| "process_output nested vm u (CreateExecutableAccount address bytecode) =
     (if length bytecode > max_contract_size (vm_limits vm) then throw AccountTooLarge
      else state_output (create_executable_account vm u address bytecode))"

primrec process_outputs ::
    "(exec_unit \<Rightarrow> (contract_error, transaction_output) comp) \<Rightarrow> machine \<Rightarrow> exec_unit \<Rightarrow> contract_output list
     \<Rightarrow> transaction_output \<Rightarrow> (contract_error, transaction_output) comp" where
  "process_outputs nested vm u [] acc = ret acc"
| "process_outputs nested vm u (x # xs) acc =
     bind_comp (process_output nested vm u x) (\<lambda>out.
       let acc' = to_merge acc out
       in if length (to_log_entries acc') > max_logs_count (vm_limits vm) then throw TooManyLogs
          else process_outputs nested vm u xs acc')"

definition unit_invoke :: "machine \<Rightarrow> exec_unit \<Rightarrow> contract_result" where
  "unit_invoke vm u =
     (case eu_entrypoint u of
        Native f \<Rightarrow> f (eu_env u) (eu_params u) (vm_limits vm)
      | External f \<Rightarrow> f (eu_env u) (eu_params u))"

primrec unit_execute :: "nat \<Rightarrow> machine \<Rightarrow> exec_unit \<Rightarrow> (contract_error, transaction_output) comp" where
  "unit_execute 0 vm u = None"
| "unit_execute (Suc n) vm u =
     bind_comp (unit_invoke vm u) (\<lambda>outputs. process_outputs (unit_execute n vm) vm u outputs to_default)"

section \<open>What a unit may change\<close>

text \<open>
  The units that run when \<open>u\<close> is executed, each with the references it was called with: \<open>u\<close> itself, and every
  unit that an output of a running unit invokes.
\<close>

inductive calls :: "machine \<Rightarrow> exec_unit \<Rightarrow> account_ref list \<Rightarrow> exec_unit \<Rightarrow> account_ref list \<Rightarrow> bool"
  for vm u refs where
  calls_self: "calls vm u refs u refs"
| calls_nested: "\<lbrakk>calls vm u refs v rs; unit_invoke vm v = ret outs; ContractInvoke k rs' ps \<in> set outs;
     unit_new_nested vm v k rs' ps = Inr w\<rbrakk> \<Longrightarrow> calls vm u refs w rs'"

lemma calls_trans: "calls vm v rs w rs' \<Longrightarrow> calls vm u refs v rs \<Longrightarrow> calls vm u refs w rs'"
  by (induction rule: calls.induct) (auto intro: calls_nested)

text \<open>
  The right of a unit to change address \<open>a\<close>: a reference of the call marks it writable; with a private key the
  reference also marks it as signer; without one, an account that exists is a non-executable account of the very contract that the unit runs.
\<close>

definition may_write :: "machine \<Rightarrow> exec_unit \<Rightarrow> account_ref list \<Rightarrow> pubkey \<Rightarrow> bool" where
  "may_write vm v refs a \<longleftrightarrow>
     (\<exists>r \<in> set refs. ref_address r = a \<and> ref_writable r
        \<and> (if has_private_key (vm_crypto vm) a then ref_signer r
           else case eu_state v a of None \<Rightarrow> True
                | Some old \<Rightarrow> \<not> acc_executable old \<and> acc_owner old = Some (eu_contract v)))"

text \<open>
  \<open>write_ok vm v refs a acc\<close>: the unit has the right to write \<open>a\<close> and asked for the account \<open>acc\<close> there with one of its outputs. A new
  account belongs to the contract of the unit and starts at nonce 0, an executable one is created by the WASM builtin only;
  of an existing account nothing but the data changes. The data is within the limits.
\<close>

definition write_ok :: "machine \<Rightarrow> exec_unit \<Rightarrow> account_ref list \<Rightarrow> pubkey \<Rightarrow> account \<Rightarrow> bool" where
  "write_ok vm v refs a acc \<longleftrightarrow>
     may_write vm v refs a
     \<and> (\<exists>outs. unit_invoke vm v = ret outs
        \<and> (case eu_state v a of
             None \<Rightarrow>
               acc_nonce acc = 0 \<and> acc_owner acc = Some (eu_contract v)
               \<and> (if acc_executable acc
                  then eu_contract v = vm_wasm_addr vm
                       \<and> (\<exists>code. acc_data acc = Some code \<and> length code \<le> max_contract_size (vm_limits vm)
                            \<and> CreateExecutableAccount a code \<in> set outs)
                  else \<not> data_too_large vm (acc_data acc) \<and> CreateOwnedAccount a (acc_data acc) \<in> set outs)
           | Some old \<Rightarrow>
               acc = old\<lparr>acc_data := acc_data acc\<rparr> \<and> \<not> data_too_large vm (acc_data acc)
               \<and> WriteAccountData a (acc_data acc) \<in> set outs))"

text \<open>Deleting also needs the account to exist and to be owned by the contract of the unit, with a private key or not.\<close>

definition delete_ok :: "machine \<Rightarrow> exec_unit \<Rightarrow> account_ref list \<Rightarrow> pubkey \<Rightarrow> bool" where
  "delete_ok vm v refs a \<longleftrightarrow>
     may_write vm v refs a
     \<and> (\<exists>outs. unit_invoke vm v = ret outs \<and> DeleteOwnedAccount a \<in> set outs)
     \<and> (\<exists>old. eu_state v a = Some old \<and> acc_owner old = Some (eu_contract v))"

text \<open>Every change of a diff was made by a unit that ran and had the right to make it.\<close>

definition diff_ok :: "machine \<Rightarrow> exec_unit \<Rightarrow> account_ref list \<Rightarrow> state_diff \<Rightarrow> bool" where
  "diff_ok vm u refs d \<longleftrightarrow>
     sd_invar d
     \<and> (\<forall>a acc. sd_get d a = Some acc \<longrightarrow> (\<exists>v rs. calls vm u refs v rs \<and> write_ok vm v rs a acc))
     \<and> (\<forall>a \<in> set (sd_deletes d). \<exists>v rs. calls vm u refs v rs \<and> delete_ok vm v rs a)"

definition unit_on :: "machine \<Rightarrow> account_ref list \<Rightarrow> exec_unit \<Rightarrow> bool" where
  "unit_on vm refs u \<longleftrightarrow> (\<exists>caller. eu_env u = create_environment vm (eu_state u) refs (eu_contract u) caller)"

definition unit_wf :: "machine \<Rightarrow> exec_unit \<Rightarrow> bool" where
  "unit_wf vm u \<longleftrightarrow>
     (\<exists>refs caller. eu_env u = create_environment vm (eu_state u) refs (eu_contract u) caller)"

lemma unit_on_new: "unit_new vm tx st = Inr u \<Longrightarrow> unit_on vm (tx_accounts tx) u \<and> eu_state u = st"
  by (auto simp: unit_new_def unit_on_def split: if_splits sum.splits)

lemma unit_on_nested: "unit_new_nested vm u k refs ps = Inr u' \<Longrightarrow> unit_on vm refs u' \<and> eu_state u' = eu_state u"
  by (auto simp: unit_new_nested_def unit_on_def split: if_splits sum.splits)

lemma calls_state: "calls vm u refs v rs \<Longrightarrow> eu_state v = eu_state u"
  by (induction rule: calls.induct) (auto dest: unit_on_nested)

lemma set_account_in_ok:
  "set_account_in vs a acc = Inr d \<Longrightarrow>
     d = sd_put a acc sd_default \<and> (\<exists>view. (a, view) \<in> set vs \<and> av_writable view)"
  by (induction vs a acc rule: set_account_in.induct) (auto split: if_splits)

lemma delete_account_in_ok:
  "delete_account_in vs s a = Inr d \<Longrightarrow>
     d = sd_del a sd_default \<and> (\<exists>view. (a, view) \<in> set vs \<and> av_writable view \<and> av_owner view = Some s)"
  by (induction vs s a rule: delete_account_in.induct) (auto split: if_splits option.splits)

text \<open>A writable view in the environment of a unit is a right of the unit; its owner is the owner in the unit's state.\<close>

lemma view_may_write:
  assumes "unit_on vm refs u" and "(a, view) \<in> set (env_accounts (eu_env u))" and "av_writable view"
  shows "may_write vm u refs a"
proof -
  obtain r where "r \<in> set refs" "ref_address r = a" "view_writable vm (eu_state u) (eu_contract u) r"
    using assms by (auto simp: unit_on_def create_environment_def create_account_view_def Let_def)
  then show ?thesis
    unfolding may_write_def by (intro bexI [of _ r]) (auto simp: view_writable_def split: if_splits option.splits)
qed

lemma view_owner:
  assumes "unit_on vm refs u" and "(a, view) \<in> set (env_accounts (eu_env u))" and "av_owner view = Some k"
  shows "\<exists>old. eu_state u a = Some old \<and> acc_owner old = Some k"
  using assms by (auto simp: unit_on_def create_environment_def create_account_view_def Let_def split: option.splits)

lemma set_account_ok:
  assumes "unit_on vm refs u" and "set_account u a acc = Inr d"
  shows "d = sd_put a acc sd_default" and "may_write vm u refs a"
  using set_account_in_ok [OF assms(2) [unfolded set_account_def]] view_may_write [OF assms(1)] by blast+

lemma diff_ok_default [simp]: "diff_ok vm u refs sd_default"
  by (simp add: diff_ok_def)

lemma diff_ok_put: "write_ok vm u refs a acc \<Longrightarrow> diff_ok vm u refs (sd_put a acc sd_default)"
  unfolding diff_ok_def by (auto simp: sd_get_put set_sd_deletes_put split: if_splits intro: calls_self)

lemma diff_ok_del: "delete_ok vm u refs a \<Longrightarrow> diff_ok vm u refs (sd_del a sd_default)"
  unfolding diff_ok_def by (auto simp: set_sd_deletes_del intro: calls_self)

lemma diff_ok_merge: "diff_ok vm u refs d \<Longrightarrow> diff_ok vm u refs e \<Longrightarrow> diff_ok vm u refs (sd_merge d e)"
  by (auto simp: diff_ok_def sd_get_merge set_sd_deletes_merge split: option.splits)

lemma diff_ok_nested:
  assumes "diff_ok vm v rs d" and "calls vm u refs v rs"
  shows "diff_ok vm u refs d"
  using assms unfolding diff_ok_def by (meson calls_trans)

lemma created_ok:
  assumes "unit_on vm refs u" and "unit_invoke vm u = ret outs" and "CreateOwnedAccount a d \<in> set outs" and "\<not> data_too_large vm d"
    and "create_account u a d = Inr e"
  shows "diff_ok vm u refs e"
proof -
  let ?acc = "\<lparr>acc_executable = False, acc_nonce = 0, acc_owner = Some (eu_contract u), acc_data = d\<rparr>"
  have new: "eu_state u a = None" and set: "set_account u a ?acc = Inr e"
    using assms(5) by (auto simp: create_account_def split: if_splits)
  note set_account_ok [OF assms(1) set]
  moreover from this(2) have "write_ok vm u refs a ?acc" using assms(2,3,4) new by (simp add: write_ok_def)
  ultimately show ?thesis using diff_ok_put by blast
qed

lemma created_executable_ok:
  assumes "unit_on vm refs u" and "unit_invoke vm u = ret outs" and "CreateExecutableAccount a code \<in> set outs"
    and "length code \<le> max_contract_size (vm_limits vm)" and "create_executable_account vm u a code = Inr e"
  shows "diff_ok vm u refs e"
proof -
  let ?acc = "\<lparr>acc_executable = True, acc_nonce = 0, acc_owner = Some (vm_wasm_addr vm), acc_data = Some code\<rparr>"
  have new: "eu_state u a = None" and set: "set_account u a ?acc = Inr e" and "env_address (eu_env u) = vm_wasm_addr vm"
    using assms(5) by (auto simp: create_executable_account_def split: if_splits)
  moreover from this(3) have "eu_contract u = vm_wasm_addr vm" using assms(1) by (auto simp: unit_on_def create_environment_def)
  moreover note set_account_ok [OF assms(1) set]
  ultimately have "write_ok vm u refs a ?acc" using assms(2,3,4) by (simp add: write_ok_def)
  then show ?thesis using diff_ok_put set_account_ok(1) [OF assms(1) set] by blast
qed

lemma modified_ok:
  assumes "unit_on vm refs u" and "unit_invoke vm u = ret outs" and "WriteAccountData a d \<in> set outs" and "\<not> data_too_large vm d"
    and "modify_account u a d = Inr e"
  shows "diff_ok vm u refs e"
proof -
  obtain old where old: "eu_state u a = Some old" and set: "set_account u a (old\<lparr>acc_data := d\<rparr>) = Inr e"
    using assms(5) by (auto simp: modify_account_def split: option.splits)
  note set_account_ok [OF assms(1) set]
  moreover from this(2) have "write_ok vm u refs a (old\<lparr>acc_data := d\<rparr>)" using assms(2,3,4) old by (simp add: write_ok_def)
  ultimately show ?thesis using diff_ok_put by blast
qed

lemma deleted_ok:
  assumes "unit_on vm refs u" and "unit_invoke vm u = ret outs" and "DeleteOwnedAccount a \<in> set outs" and "delete_account u a = Inr e"
  shows "diff_ok vm u refs e"
proof -
  obtain view where e: "e = sd_del a sd_default"
    and view: "(a, view) \<in> set (env_accounts (eu_env u))" "av_writable view" "av_owner view = Some (env_address (eu_env u))"
    using delete_account_in_ok [OF assms(4) [unfolded delete_account_def]] by blast
  moreover have "env_address (eu_env u) = eu_contract u" using assms(1) by (auto simp: unit_on_def create_environment_def)
  ultimately have "delete_ok vm u refs a"
    using view_may_write [OF assms(1) view(1,2)] view_owner [OF assms(1) view(1,3)] assms(2,3) by (auto simp: delete_ok_def)
  then show ?thesis unfolding e by (rule diff_ok_del)
qed

lemmas output_oks = created_ok created_executable_ok modified_ok deleted_ok

lemma process_output_ok:
  assumes wf: "unit_on vm refs u" and inv: "unit_invoke vm u = ret outs" and x: "x \<in> set outs"
    and nested: "\<And>v rs out. \<lbrakk>unit_on vm rs v; nested v = ret out\<rbrakk> \<Longrightarrow> diff_ok vm v rs (to_state_diff out)"
    and ok: "process_output nested vm u x = ret out"
  shows "diff_ok vm u refs (to_state_diff out)"
proof (cases x)
  case (ContractInvoke k rs ps)
  then obtain v where v: "unit_new_nested vm u k rs ps = Inr v" "nested v = ret out"
    using ok by (auto split: sum.splits)
  then have "diff_ok vm v rs (to_state_diff out)" using unit_on_nested nested by blast
  moreover have "calls vm u refs v rs" using calls_nested [OF calls_self inv] x ContractInvoke v(1) by blast
  ultimately show ?thesis by (rule diff_ok_nested)
qed (use ok x output_oks [OF wf inv] in \<open>auto simp: state_output_def split: if_splits sum.splits\<close>)

lemma process_outputs_ok:
  assumes wf: "unit_on vm refs u" and inv: "unit_invoke vm u = ret outs"
    and nested: "\<And>v rs out. \<lbrakk>unit_on vm rs v; nested v = ret out\<rbrakk> \<Longrightarrow> diff_ok vm v rs (to_state_diff out)"
  shows "process_outputs nested vm u xs acc = ret out \<Longrightarrow> set xs \<subseteq> set outs \<Longrightarrow> diff_ok vm u refs (to_state_diff acc)
    \<Longrightarrow> diff_ok vm u refs (to_state_diff out)"
proof (induction xs arbitrary: acc)
  case Nil
  then show ?case by simp
next
  case (Cons x xs)
  then obtain o1 where o1: "process_output nested vm u x = ret o1"
    and rest: "process_outputs nested vm u xs (to_merge acc o1) = ret out"
    by (auto simp: bind_comp_eq_ret Let_def split: if_splits)
  have "diff_ok vm u refs (to_state_diff o1)"
    using Cons.prems(2) by (intro process_output_ok [OF wf inv _ nested o1]) auto
  then have "diff_ok vm u refs (to_state_diff (to_merge acc o1))"
    using Cons.prems(3) by (simp add: to_merge_def diff_ok_merge)
  then show ?case using Cons.IH [OF rest] Cons.prems(2) by simp
qed

text \<open>The isolation theorem of the VM: nested calls included, every change is made by a unit that has the right to make it.\<close>

lemma unit_execute_ok:
  "unit_on vm refs u \<Longrightarrow> unit_execute n vm u = ret out \<Longrightarrow> diff_ok vm u refs (to_state_diff out)"
proof (induction n arbitrary: u refs out)
  case 0
  then show ?case by simp
next
  case (Suc n)
  then obtain outs where inv: "unit_invoke vm u = ret outs"
    and run: "process_outputs (unit_execute n vm) vm u outs to_default = ret out"
    by (auto simp: bind_comp_eq_ret)
  show ?case
    by (rule process_outputs_ok [OF Suc.prems(1) inv Suc.IH run]) (simp_all add: to_default_def)
qed

section \<open>Fuel\<close>

lemma process_output_mono:
  assumes "\<And>u' r. nested u' = Some r \<Longrightarrow> nested' u' = Some r"
    and "process_output nested vm u x = Some r"
  shows "process_output nested' vm u x = Some r"
  using assms by (cases x) (auto split: sum.splits)

lemma process_outputs_mono:
  assumes mono: "\<And>u' r. nested u' = Some r \<Longrightarrow> nested' u' = Some r"
  shows "process_outputs nested vm u xs acc = Some r \<Longrightarrow> process_outputs nested' vm u xs acc = Some r"
proof (induction xs arbitrary: acc)
  case (Cons x xs)
  then obtain p where p: "process_output nested vm u x = Some p"
    by (cases "process_output nested vm u x") auto
  then have "process_output nested' vm u x = Some p"
    using mono process_output_mono by blast
  with Cons p show ?case by (cases p) (auto simp: Let_def split: if_splits)
qed simp

text \<open>More fuel never changes the result of a unit that returned.\<close>

lemma unit_execute_mono: "unit_execute n vm u = Some r \<Longrightarrow> n \<le> m \<Longrightarrow> unit_execute m vm u = Some r"
proof (induction n arbitrary: m u r)
  case (Suc n)
  then obtain m' where m: "m = Suc m'" and "n \<le> m'" by (cases m) auto
  obtain p where p: "unit_invoke vm u = Some p"
    using Suc.prems(1) by (cases "unit_invoke vm u") auto
  show ?case
  proof (cases p)
    case (Inr outs)
    with Suc.prems(1) p have "process_outputs (unit_execute n vm) vm u outs to_default = Some r" by simp
    then have "process_outputs (unit_execute m' vm) vm u outs to_default = Some r"
      using Suc.IH \<open>n \<le> m'\<close> by (blast intro: process_outputs_mono)
    with p Inr show ?thesis by (simp add: m)
  qed (use Suc.prems(1) p in \<open>simp add: m\<close>)
qed simp

text \<open>
  The contract of a builtin that never invokes another contract. Such a unit needs one unit of
  fuel, and returns whenever the builtin does.
\<close>

definition is_invoke :: "contract_output \<Rightarrow> bool" where
  "is_invoke x = (case x of ContractInvoke _ _ _ \<Rightarrow> True | _ \<Rightarrow> False)"

lemma process_outputs_leaf:
  "\<not> list_ex is_invoke outs \<Longrightarrow> process_outputs nested vm u outs acc = process_outputs nested' vm u outs acc"
proof (induction outs arbitrary: acc)
  case (Cons x outs)
  have "process_output nested vm u x = process_output nested' vm u x"
    using Cons.prems by (cases x) (auto simp: is_invoke_def)
  with Cons show ?case by (simp add: Let_def cong: if_cong)
qed simp

lemma process_outputs_returns:
  "\<not> list_ex is_invoke outs \<Longrightarrow> process_outputs nested vm u outs acc \<noteq> None"
proof (induction outs arbitrary: acc)
  case (Cons x outs)
  have "process_output nested vm u x \<noteq> None"
    using Cons.prems by (cases x) (auto simp: is_invoke_def state_output_def split: sum.splits)
  then obtain p where "process_output nested vm u x = Some p" by blast
  with Cons show ?case by (cases p) (auto simp: Let_def)
qed simp

locale leaf_contract =
  fixes entry :: native_entrypoint
  assumes no_invoke: "entry env params lim = ret outs \<Longrightarrow> \<not> list_ex is_invoke outs"
begin

lemma leaf_returns:
  assumes "eu_entrypoint u = Native entry" and "entry (eu_env u) (eu_params u) (vm_limits vm) \<noteq> None"
  shows "\<exists>r. \<forall>n. unit_execute (Suc n) vm u = Some r"
proof -
  obtain p where p: "entry (eu_env u) (eu_params u) (vm_limits vm) = Some p"
    using assms(2) by auto
  show ?thesis
  proof (cases p)
    case (Inl e)
    with p assms(1) show ?thesis by (simp add: unit_invoke_def)
  next
    case (Inr outs)
    with p have leaf: "\<not> list_ex is_invoke outs" using no_invoke by simp
    obtain r where "process_outputs (unit_execute 0 vm) vm u outs to_default = Some r"
      using process_outputs_returns [OF leaf] by blast
    then have "process_outputs (unit_execute n vm) vm u outs to_default = Some r" for n
      using process_outputs_leaf [OF leaf] by metis
    with p Inr assms(1) show ?thesis by (simp add: unit_invoke_def)
  qed
qed

end

end
