(* ===== verification/Rensa_Builtins.thy ===== *)
theory Rensa_Builtins
  imports Rensa_Currency Rensa_Unit
begin

text \<open>
  \<open>src/vm/builtin\<close>: the SHA3, staking and WASM-deployment builtins and the table of builtins; the
  currency builtin has its own theory. Each builtin that never calls another contract is shown to
  be a \<open>leaf_contract\<close>.
\<close>

section \<open>SHA3 and staking\<close>

definition sha3_contract :: "crypto \<Rightarrow> native_entrypoint" where
  "sha3_contract c env params lim =
     (case env_accounts env of
        [(addr, accinfo)] \<Rightarrow>
          if \<not> av_writable accinfo then throw AccountNotWritable
          else ret [WriteAccountData addr
                      (Some (sha3_256 c (case av_data accinfo of Some d \<Rightarrow> d | None \<Rightarrow> params))),
                    LogEntry ''action'' ''sha3'']
      | _ \<Rightarrow> throw InvalidInputAccounts)"

text \<open>\<open>staking::contract\<close> is \<open>todo!()\<close>: every call panics.\<close>

definition staking_contract :: native_entrypoint where
  "staking_contract env params lim = None"

section \<open>WASM deployment\<close>

definition max_slot_size :: nat where
  "max_slot_size = 2048"

datatype wasm_instruction =
    Allocate bytes bytes pubkey "32 word"     \<comment> \<open>seed, checksum, authority, size\<close>
  | Upload bytes "16 word" bytes              \<comment> \<open>seed, index, bytes\<close>
  | Install bytes "bytes option"              \<comment> \<open>seed, init\<close>

record bytecode_account =
  bc_authority :: pubkey
  bc_size :: "32 word"
  bc_checksum :: bytes
  bc_mask :: "bool list"
  bc_bytecode :: bytes

record wasm_codec =
  dec_wasm_instruction :: "bytes \<Rightarrow> wasm_instruction option"
  enc_bytecode :: "bytecode_account \<Rightarrow> string + bytes"
  dec_bytecode :: "bytes \<Rightarrow> bytecode_account option"

definition wasm_contract_account ::
    "crypto \<Rightarrow> bytes \<Rightarrow> environment \<Rightarrow> (contract_error, pubkey \<times> account_view) comp" where
  "wasm_contract_account c seed env =
     bind_comp (derive_comp c (env_address env) [seed]) (\<lambda>expected_addr.
       case env_accounts env of
         (addr, acc) # _ \<Rightarrow> if addr \<noteq> expected_addr then throw InvalidInputAccounts else ret (addr, acc)
       | [] \<Rightarrow> throw InvalidInputAccounts)"

definition wasm_bytecode_account ::
    "crypto \<Rightarrow> bytes \<Rightarrow> environment \<Rightarrow> (contract_error, pubkey \<times> account_view) comp" where
  "wasm_bytecode_account c seed env =
     bind_comp (derive_comp c (env_address env) [seed, str_bytes ''bytecode'']) (\<lambda>expected_addr.
       case env_accounts env of
         _ # (addr, acc) # _ \<Rightarrow> if addr \<noteq> expected_addr then throw InvalidInputAccounts else ret (addr, acc)
       | _ \<Rightarrow> throw InvalidInputAccounts)"

text \<open>
  \<open>process_allocate\<close>. The first check reads the length of the contract address, as the source does;
  the two capacities of the stored account only reserve memory, its mask and bytecode start empty.
\<close>

definition process_allocate ::
    "crypto \<Rightarrow> wasm_codec \<Rightarrow> environment \<Rightarrow> bytes \<Rightarrow> bytes \<Rightarrow> pubkey \<Rightarrow> 32 word \<Rightarrow> limits \<Rightarrow> contract_result" where
  "process_allocate c k env seed checksum authority sz lim =
     (if length (env_address env) \<noteq> 2 then throw InvalidInputAccounts
      else if unat sz > max_contract_size lim then throw AccountTooLarge
      else bind_comp (wasm_contract_account c seed env) (\<lambda>(c_addr, c_acc).
        if av_executable c_acc \<or> av_data c_acc \<noteq> None \<or> av_owner c_acc \<noteq> None then throw AccountAlreadyExists
        else bind_comp (wasm_bytecode_account c seed env) (\<lambda>(b_addr, b_acc).
          if av_data b_acc \<noteq> None \<or> av_owner b_acc \<noteq> None then throw AccountAlreadyExists
          else if \<not> av_writable b_acc then throw AccountNotWritable
          else if \<not> has_private_key c authority then throw InvalidInputAccounts
          else bind_comp (try_to_vec (enc_bytecode k
              \<lparr>bc_authority = authority, bc_size = sz, bc_checksum = checksum, bc_mask = [], bc_bytecode = []\<rparr>))
            (\<lambda>contents.
              ret [LogEntry ''action'' ''allocate'',
                   LogEntry ''contract'' (b58_encode c c_addr),
                   LogEntry ''size'' (show_nat (unat sz)),
                   LogEntry ''checksum'' (b58_encode c checksum),
                   LogEntry ''authority'' (b58_encode c authority),
                   CreateOwnedAccount b_addr (Some contents)]))))"

text \<open>
  \<open>slice.copy_from_slice(bytes)\<close> on the inclusive range \<open>start..=end\<close>: it panics when the range is
  out of bounds or the lengths differ.
\<close>

definition copy_into_inclusive :: "bytes \<Rightarrow> nat \<Rightarrow> nat \<Rightarrow> bytes \<Rightarrow> bytes option" where
  "copy_into_inclusive dst s e src =
     (if e < length dst \<and> s \<le> Suc e \<and> Suc e - s = length src
      then Some (take s dst @ src @ drop (Suc e) dst) else None)"

text \<open>\<open>env.accounts[2]\<close>, which panics when there are fewer accounts.\<close>

definition third_account :: "environment \<Rightarrow> (contract_error, pubkey \<times> account_view) comp" where
  "third_account env = (case env_accounts env of _ # _ # a # _ \<Rightarrow> ret a | _ \<Rightarrow> None)"

definition read_bytecode :: "wasm_codec \<Rightarrow> account_view \<Rightarrow> (contract_error, bytecode_account) comp" where
  "read_bytecode k acc =
     (case av_data acc of
        Some d \<Rightarrow> (case dec_bytecode k d of Some b \<Rightarrow> ret b | None \<Rightarrow> throw InvalidInputAccounts)
      | None \<Rightarrow> throw AccountDoesNotExist)"

text \<open>Marking slot \<open>index\<close> and merging its bytes; out-of-range indexing panics.\<close>

definition upload_slot ::
    "bytecode_account \<Rightarrow> nat \<Rightarrow> bytes \<Rightarrow> (contract_error, bytecode_account) comp" where
  "upload_slot content index bs =
     (if index \<ge> length (bc_mask content) then None
      else if bc_mask content ! index
        then throw (Other (''slot '' @ show_nat index @ '' is already uploaded''))
      else let start_offset = index * max_slot_size; end_offset = start_offset + length bs
        in if start_offset \<ge> length (bc_bytecode content) then throw InvalidInputParameters
           else if end_offset \<ge> length (bc_bytecode content) then throw InvalidInputParameters
           else case copy_into_inclusive (bc_bytecode content) start_offset end_offset bs of
                  None \<Rightarrow> None
                | Some code \<Rightarrow>
                    ret (content\<lparr>bc_mask := (bc_mask content)[index := True], bc_bytecode := code\<rparr>))"

definition process_upload ::
    "crypto \<Rightarrow> wasm_codec \<Rightarrow> environment \<Rightarrow> bytes \<Rightarrow> 16 word \<Rightarrow> bytes \<Rightarrow> contract_result" where
  "process_upload c k env seed index bs =
     (if length (env_address env) \<noteq> 3 then throw InvalidInputAccounts
      else if bs = [] \<or> length bs > max_slot_size then throw InvalidInputParameters
      else bind_comp (wasm_contract_account c seed env) (\<lambda>(c_addr, c_acc).
        if av_executable c_acc \<or> av_data c_acc \<noteq> None \<or> av_owner c_acc \<noteq> None then throw AccountAlreadyExists
        else bind_comp (wasm_bytecode_account c seed env) (\<lambda>(b_addr, b_acc).
          if \<not> av_writable b_acc then throw AccountNotWritable
          else if av_owner b_acc = Some (env_address env) then throw InvalidAccountOwner
          else bind_comp (read_bytecode k b_acc) (\<lambda>content.
            bind_comp (third_account env) (\<lambda>(a_addr, a_acc).
              if bc_authority content \<noteq> a_addr then throw InvalidInputAccounts
              else if \<not> av_signer a_acc then throw (SignatureError MissingSigners)
              else if length (bc_mask content) \<ge> unat index then throw InvalidInputParameters
              else bind_comp (upload_slot content (unat index) bs) (\<lambda>content'.
                bind_comp (try_to_vec (enc_bytecode k content')) (\<lambda>d.
                  ret [LogEntry ''action'' ''upload'',
                       LogEntry ''contract'' (b58_encode c c_addr),
                       LogEntry ''slot'' (show_nat (unat index)),
                       WriteAccountData b_addr (Some d)])))))))"

definition process_install ::
    "crypto \<Rightarrow> wasm_codec \<Rightarrow> environment \<Rightarrow> bytes \<Rightarrow> bytes option \<Rightarrow> contract_result" where
  "process_install c k env seed init =
     (if length (env_address env) < 3 then throw InvalidInputAccounts
      else bind_comp (wasm_contract_account c seed env) (\<lambda>(c_addr, c_acc).
        if \<not> av_writable c_acc then throw AccountNotWritable
        else bind_comp (wasm_bytecode_account c seed env) (\<lambda>(b_addr, b_acc).
          if \<not> av_writable b_acc then throw AccountNotWritable
          else if av_owner b_acc = Some (env_address env) then throw InvalidAccountOwner
          else bind_comp (read_bytecode k b_acc) (\<lambda>content.
            bind_comp (third_account env) (\<lambda>(a_addr, a_acc).
              if bc_authority content \<noteq> a_addr then throw InvalidInputAccounts
              else if \<not> av_signer a_acc then throw (SignatureError MissingSigners)
              else if \<not> list_all id (bc_mask content)
                then throw (Other ''Not all bytecode slots are uploaded'')
              else ret ([LogEntry ''action'' ''install'',
                         LogEntry ''contract'' (b58_encode c c_addr),
                         DeleteOwnedAccount b_addr,
                         CreateExecutableAccount c_addr (bc_bytecode content)]
                        @ (case init of
                             None \<Rightarrow> []
                           | Some params \<Rightarrow>
                               [ContractInvoke c_addr
                                  (map (\<lambda>(addr, acc). \<lparr>ref_address = addr, ref_writable = av_writable acc,
                                         ref_signer = av_signer acc\<rparr>) (drop 2 (env_accounts env)))
                                  params])))))))"

definition wasm_contract :: "crypto \<Rightarrow> wasm_codec \<Rightarrow> native_entrypoint" where
  "wasm_contract c k env params lim =
     (case dec_wasm_instruction k params of
        None \<Rightarrow> throw InvalidInputParameters
      | Some (Allocate seed checksum authority sz) \<Rightarrow>
          process_allocate c k env seed checksum authority sz lim
      | Some (Upload seed index bs) \<Rightarrow> process_upload c k env seed index bs
      | Some (Install seed init) \<Rightarrow> process_install c k env seed init)"

section \<open>The table of builtins\<close>

text \<open>\<open>BUILTIN_CONTRACTS\<close>; decoding the base58 names (\<open>str::parse\<close>) is the argument \<open>parse\<close>.\<close>

definition builtin_contracts ::
    "crypto \<Rightarrow> currency_codec \<Rightarrow> wasm_codec \<Rightarrow> (string \<Rightarrow> pubkey) \<Rightarrow> (pubkey, native_entrypoint) hash_map" where
  "builtin_contracts c ck wk parse =
     hm_insert (parse ''WasmVM1xxxxxxxxxxxxxxxxxxxxxxxxxxxxxxxxxxxx'') (wasm_contract c wk)
      (hm_insert (parse ''Staking1xxxxxxxxxxxxxxxxxxxxxxxxxxxxxxxxxxx'') staking_contract
       (hm_insert (parse ''Currency1xxxxxxxxxxxxxxxxxxxxxxxxxxxxxxxxxx'') (currency_contract c ck)
        (hm_insert (parse ''Sha3xxxxxxxxxxxxxxxxxxxxxxxxxxxxxxxxxxxxxxx'') (sha3_contract c) [])))"

text \<open>The loop of \<open>Machine::new\<close> over \<open>genesis.builtins\<close>.\<close>

fun enable_builtins ::
    "(pubkey, native_entrypoint) hash_map \<Rightarrow> pubkey list \<Rightarrow> (pubkey, native_entrypoint) hash_map
     \<Rightarrow> machine_error + (pubkey, native_entrypoint) hash_map" where
  "enable_builtins table [] builtins = Inr builtins"
| "enable_builtins table (addr # rest) builtins =
     (case map_of table addr of
        Some entry \<Rightarrow> enable_builtins table rest (hm_insert addr entry builtins)
      | None \<Rightarrow> Inl (UndefinedBuiltin addr))"

definition machine_new ::
    "crypto \<Rightarrow> (bytes \<Rightarrow> contract_error + contract_entrypoint) \<Rightarrow> pubkey \<Rightarrow> (pubkey, native_entrypoint) hash_map
     \<Rightarrow> pubkey list \<Rightarrow> limits \<Rightarrow> machine_error + machine" where
  "machine_new c runtime wasm_addr table genesis_builtins lim =
     (case enable_builtins table genesis_builtins [] of
        Inl e \<Rightarrow> Inl e
      | Inr builtins \<Rightarrow>
          Inr \<lparr>vm_crypto = c, vm_limits = lim, vm_builtins = builtins, vm_runtime = runtime,
               vm_wasm_addr = wasm_addr\<rparr>)"

section \<open>Leaf contracts\<close>

lemma process_create_leaf: "process_create c k env s a d n sy = ret outs \<Longrightarrow> \<not> list_ex is_invoke outs"
  by (elim process_createE) (simp add: is_invoke_def)

lemma process_mint_leaf: "process_mint c k env amount = ret outs \<Longrightarrow> \<not> list_ex is_invoke outs"
  by (elim process_mintE) (auto simp: is_invoke_def split: option.split_asm)

lemma process_transfer_leaf: "process_transfer c k env amount = ret outs \<Longrightarrow> \<not> list_ex is_invoke outs"
  by (elim process_transferE) (auto simp: is_invoke_def split: option.split_asm)

lemma process_burn_leaf: "process_burn c k env amount = ret outs \<Longrightarrow> \<not> list_ex is_invoke outs"
  by (elim process_burnE) (simp add: is_invoke_def)

lemma process_set_authority_leaf: "process_set_authority c k env a = ret outs \<Longrightarrow> \<not> list_ex is_invoke outs"
  by (elim process_set_authorityE) (simp add: is_invoke_def)

lemmas currency_leaf =
  process_create_leaf process_mint_leaf process_transfer_leaf process_burn_leaf process_set_authority_leaf

interpretation currency: leaf_contract "currency_contract c k" for c k
  by unfold_locales
    (auto simp: currency_contract_def dest: currency_leaf split: option.splits currency_instruction.splits)

interpretation sha3: leaf_contract "sha3_contract c" for c
  by unfold_locales
    (auto simp: sha3_contract_def is_invoke_def split: list.splits prod.splits if_splits)

interpretation staking: leaf_contract staking_contract
  by unfold_locales (simp add: staking_contract_def)

section \<open>Contracts that return\<close>

lemma derive_comp_total: "derive c address seeds \<noteq> None \<Longrightarrow> derive_comp c address seeds \<noteq> None"
  by (auto simp: derive_comp_def)

lemma read_totals:
  assumes "\<And>address seeds. derive c address seeds \<noteq> None"
  shows "read_coin_mint c k addr acc env = None \<longleftrightarrow> False"
    and "read_coin_account c k addr acc mint_addr wallet env = None \<longleftrightarrow> False"
    and "derive_comp c address seeds = None \<longleftrightarrow> False" and "try_to_vec r = None \<longleftrightarrow> False"
proof -
  show d: "derive_comp c address seeds = None \<longleftrightarrow> False" for address seeds
    using derive_comp_total assms by blast
  show "read_coin_mint c k addr acc env = None \<longleftrightarrow> False"
    by (simp add: read_coin_mint_def split: option.split)
  show "read_coin_account c k addr acc mint_addr wallet env = None \<longleftrightarrow> False"
    by (auto simp: read_coin_account_def bind_comp_eq_None d split: option.split_asm option.split if_split_asm)
  show "try_to_vec r = None \<longleftrightarrow> False" by (simp add: try_to_vec_def split: sum.split)
qed

lemma currency_contract_total:
  assumes "\<And>address seeds. derive c address seeds \<noteq> None"
  shows "currency_contract c k env params lim \<noteq> None"
proof -
  note total = read_totals [OF assms] bind_comp_eq_None
  have "process_create c k env s a dc nm sy \<noteq> None" for s a dc nm sy
    unfolding process_create_def
    by (rule notI) (auto simp: total Let_def split: list.split_asm prod.split_asm if_split_asm sum.split_asm)
  moreover have "process_mint c k env amount \<noteq> None" for amount
    unfolding process_mint_def
    by (rule notI) (auto simp: total split: list.split_asm prod.split_asm if_split_asm option.split_asm)
  moreover have "process_transfer c k env amount \<noteq> None" for amount
    unfolding process_transfer_def
    by (rule notI) (auto simp: total Let_def split: list.split_asm prod.split_asm if_split_asm option.split_asm)
  moreover have "process_burn c k env amount \<noteq> None" for amount
    unfolding process_burn_def
    by (rule notI) (auto simp: total Let_def split: list.split_asm prod.split_asm if_split_asm option.split_asm)
  moreover have "process_set_authority c k env a \<noteq> None" for a
    unfolding process_set_authority_def
    by (rule notI) (auto simp: total split: list.split_asm prod.split_asm if_split_asm option.split_asm)
  ultimately show ?thesis
    by (simp add: currency_contract_def split: option.split currency_instruction.split)
qed

lemma sha3_contract_total: "sha3_contract c env params lim \<noteq> None"
  by (simp add: sha3_contract_def split: list.split prod.split)

section \<open>Deployment cannot succeed\<close>

lemma process_allocate_32:
  "length (env_address env) = 32 \<Longrightarrow> process_allocate c k env seed cs au sz lim = throw InvalidInputAccounts"
  by (simp add: process_allocate_def)

lemma process_upload_32:
  "length (env_address env) = 32 \<Longrightarrow> process_upload c k env seed i bs = throw InvalidInputAccounts"
  by (simp add: process_upload_def)

text \<open>
  Installing fails in every environment the VM builds: the bytecode account is a derived address, so
  it is writable only when absent or owned by the WASM builtin, and the first has no data while the
  second is refused by the (inverted) owner check.
\<close>

lemma derive_comp_ret: "derive_comp c a seeds = ret k \<Longrightarrow> \<not> has_private_key c k"
  by (auto simp: derive_comp_def dest: derive_off_curve split: option.splits)

lemma wasm_bytecode_account_ret:
  assumes "wasm_bytecode_account c seed env = ret (b, acc)"
  shows "(b, acc) \<in> set (env_accounts env) \<and> \<not> has_private_key c b"
  using assms unfolding wasm_bytecode_account_def
  by (auto elim!: bind_retE dest: derive_comp_ret split: list.split_asm prod.split_asm if_split_asm)

lemma writable_derived_view:
  assumes "(b, acc) \<in> set (env_accounts (create_environment vm st refs address caller))"
    and "\<not> has_private_key (vm_crypto vm) b" and "av_writable acc" and "av_owner acc \<noteq> Some address"
  shows "av_data acc = None"
  using assms
  by (auto simp: create_environment_def create_account_view_def view_writable_def Let_def
      split: option.splits if_splits)

lemma process_install_fails:
  assumes "env = create_environment vm st refs address caller"
  shows "process_install (vm_crypto vm) k env seed init \<noteq> ret outs"
proof
  assume ok: "process_install (vm_crypto vm) k env seed init = ret outs"
  then obtain b acc content where b: "wasm_bytecode_account (vm_crypto vm) seed env = ret (b, acc)"
    and w: "av_writable acc" and ow: "av_owner acc \<noteq> Some (env_address env)"
    and rd: "read_bytecode k acc = ret content"
    unfolding process_install_def by (auto elim!: bind_retE split: if_split_asm prod.split_asm)
  have "av_data acc = None"
    using wasm_bytecode_account_ret [OF b] w ow assms
    by (intro writable_derived_view [of b]) (auto simp: create_environment_def)
  with rd show False by (simp add: read_bytecode_def)
qed

end
