(* ===== verification/Rensa_Float.thy ===== *)
theory Rensa_Float
  imports Rensa_Prelude
begin

text \<open>
  The \<open>f64\<close> arithmetic behind \<open>Chain::minimum_majority_stake\<close>
  (\<open>(self.total_stake() as f64 * 0.67f64).ceil() as u64\<close>). All values involved are non-negative
  and normal, so an \<open>f64\<close> is a natural number times a power of two, and each operation is exact
  arithmetic followed by rounding to 53 significant bits, ties to even (IEEE 754 binary64).
\<close>

fun bit_length :: "nat \<Rightarrow> nat" where
  "bit_length n = (if n = 0 then 0 else Suc (bit_length (n div 2)))"

declare bit_length.simps [simp del]

text \<open>Round to the nearest number with a 53-bit significand, ties to even.\<close>

definition round53 :: "nat \<Rightarrow> nat" where
  "round53 n =
     (let k = bit_length n - 53; q = n div 2 ^ k; r = n mod 2 ^ k
      in if k = 0 then n
         else if 2 ^ k < 2 * r \<or> (2 ^ k = 2 * r \<and> odd q) then (q + 1) * 2 ^ k
         else q * 2 ^ k)"

text \<open>The \<open>f64\<close> nearest to 0.67 is \<open>f64_067 / 2 ^ 53\<close>.\<close>

definition f64_067 :: nat where
  "f64_067 = 6034823500676465"

text \<open>\<open>(n as f64 * 0.67).ceil() as u64\<close>; the cast saturates.\<close>

definition mul_067_ceil :: "nat \<Rightarrow> nat" where
  "mul_067_ceil n = (round53 (round53 n * f64_067) + (2 ^ 53 - 1)) div 2 ^ 53"

definition f64_majority :: "u64 \<Rightarrow> u64" where
  "f64_majority t = word_of_nat (min (mul_067_ceil (unat t)) (2 ^ 64 - 1))"

lemma bit_length_lower: "n \<noteq> 0 \<Longrightarrow> 2 ^ (bit_length n - 1) \<le> n"
proof (induction n rule: bit_length.induct)
  case (1 n)
  show ?case
  proof (cases "n div 2 = 0")
    case True
    with "1.prems" show ?thesis by (simp add: bit_length.simps [of n] bit_length.simps [of 0])
  next
    case False
    with "1.prems" "1.IH" have "2 ^ (bit_length (n div 2) - 1) \<le> n div 2" by simp
    then have "2 * 2 ^ (bit_length (n div 2) - 1) \<le> n" by linarith
    moreover have "bit_length (n div 2) \<noteq> 0"
      using False by (simp add: bit_length.simps [of "n div 2"])
    then have "2 * 2 ^ (bit_length (n div 2) - 1) = (2::nat) ^ bit_length (n div 2)"
      by (cases "bit_length (n div 2)") simp_all
    ultimately show ?thesis using "1.prems" by (simp add: bit_length.simps [of n])
  qed
qed

text \<open>Rounding changes a value by at most half a unit in the last place.\<close>

lemma round53_error:
  "2 ^ 53 * n \<le> 2 ^ 53 * round53 n + n \<and> 2 ^ 53 * round53 n \<le> 2 ^ 53 * n + n"
proof (cases "bit_length n - 53 = 0")
  case True
  then show ?thesis by (simp add: round53_def)
next
  case False
  define k where "k = bit_length n - 53"
  define q where "q = n div 2 ^ k"
  define r where "r = n mod 2 ^ k"
  have n: "n = q * 2 ^ k + r"
    unfolding q_def r_def by (rule div_mult_mod_eq [symmetric])
  have r: "r < 2 ^ k" by (simp add: r_def)
  have n0: "n \<noteq> 0"
    using False by (rule contrapos_nn) (simp add: bit_length.simps [of 0])
  have "bit_length n - 1 = 52 + k"
    using False by (simp add: k_def)
  then have big: "2 ^ 52 * 2 ^ k \<le> n"
    using bit_length_lower [OF n0] by (simp add: power_add)
  have round: "round53 n = (if 2 ^ k < 2 * r \<or> (2 ^ k = 2 * r \<and> odd q) then q * 2 ^ k + 2 ^ k else q * 2 ^ k)"
    using False by (simp add: round53_def Let_def k_def q_def r_def algebra_simps)
  have "2 * n \<le> 2 * round53 n + 2 ^ k \<and> 2 * round53 n \<le> 2 * n + 2 ^ k"
    unfolding round using r n by auto
  then have lo: "2 * n \<le> 2 * round53 n + 2 ^ k" and hi: "2 * round53 n \<le> 2 * n + 2 ^ k"
    by auto
  have "4503599627370496 * 2 ^ k \<le> n"
    using big by simp
  with lo hi have "9007199254740992 * n \<le> 9007199254740992 * round53 n + n"
    and "9007199254740992 * round53 n \<le> 9007199254740992 * n + n"
    by linarith+
  then show ?thesis by simp
qed

text \<open>
  The computed threshold is more than two thirds of the total and never more than the total,
  for every stake a \<open>u64\<close> can hold.
\<close>

lemma mul_067_ceil_lower: "0 < n \<Longrightarrow> 2 * n < 3 * mul_067_ceil n"
proof -
  assume n: "0 < n"
  define a where "a = round53 n"
  define b where "b = round53 (a * 6034823500676465)"
  have a: "9007199254740992 * n \<le> 9007199254740992 * a + n"
    using round53_error [of n] by (simp add: a_def)
  have b: "9007199254740992 * (a * 6034823500676465) \<le> 9007199254740992 * b + a * 6034823500676465"
    using round53_error [of "a * 6034823500676465"] by (simp add: b_def)
  have "b \<le> 9007199254740992 * ((b + 9007199254740991) div 9007199254740992)"
    by linarith
  moreover have "mul_067_ceil n = (b + 9007199254740991) div 9007199254740992"
    by (simp add: mul_067_ceil_def a_def b_def f64_067_def)
  ultimately have c: "b \<le> 9007199254740992 * mul_067_ceil n" by simp
  show ?thesis using a b c n by linarith
qed

lemma mul_067_ceil_upper: "mul_067_ceil n \<le> n"
proof -
  define a where "a = round53 n"
  define b where "b = round53 (a * 6034823500676465)"
  have a: "9007199254740992 * a \<le> 9007199254740992 * n + n"
    using round53_error [of n] by (simp add: a_def)
  have b: "9007199254740992 * b \<le> 9007199254740992 * (a * 6034823500676465) + a * 6034823500676465"
    using round53_error [of "a * 6034823500676465"] by (simp add: b_def)
  have "b \<le> 9007199254740992 * n"
    using a b by linarith
  then have "(b + 9007199254740991) div 9007199254740992 \<le> n"
    by linarith
  then show ?thesis by (simp add: mul_067_ceil_def a_def b_def f64_067_def)
qed

lemma unat_f64_majority: "unat (f64_majority t) = mul_067_ceil (unat t)"
proof -
  have "mul_067_ceil (unat t) \<le> unat t" by (rule mul_067_ceil_upper)
  also have "unat t < 2 ^ 64" using unsigned_less [of t] by simp
  finally have "mul_067_ceil (unat t) \<le> 2 ^ 64 - 1" by simp
  then show ?thesis
    by (simp add: f64_majority_def unsigned_of_nat take_bit_nat_eq_self)
qed

end
