(* ===== verification/Rensa_Block.thy ===== *)
theory Rensa_Block
  imports Rensa_Contract
begin

text \<open>
  \<open>src/consensus/{block,vote,genesis,validator}.rs\<close>: votes, produced blocks, the genesis block and
  the trait \<open>Block\<close> over the two.

  A block carries data of any type \<open>'d\<close>. Its \<open>bincode\<close> serialization is a parameter; it is a total
  function because serializing derived types into a vector has no failing case, so
  \<open>Block::hash\<close> (whose only error is that of the serializer) is total as well. The \<open>hashcahe\<close>
  field caches the hash and is left out.
\<close>

record 'd block_params =
  bp_crypto :: crypto
  bp_serialize :: "'d \<Rightarrow> bytes"

section \<open>Votes\<close>

record vote =
  vote_validator :: pubkey
  vote_target :: multihash
  vote_justification :: multihash
  vote_signature :: signature

definition vote_message :: "multihash \<Rightarrow> multihash \<Rightarrow> bytes" where
  "vote_message target justification = target @ justification"

definition vote_verify_signature :: "crypto \<Rightarrow> vote \<Rightarrow> bool" where
  "vote_verify_signature c v =
     ed_verify c (vote_validator v) (vote_message (vote_target v) (vote_justification v)) (vote_signature v)"

definition vote_new :: "crypto \<Rightarrow> bytes \<Rightarrow> multihash \<Rightarrow> multihash \<Rightarrow> vote" where
  "vote_new c keypair target justification =
     \<lparr>vote_validator = ed_public c keypair, vote_target = target, vote_justification = justification,
      vote_signature = ed_sign c keypair (vote_message target justification)\<rparr>"

definition vote_hash :: "crypto \<Rightarrow> vote \<Rightarrow> multihash" where
  "vote_hash c v =
     sha3_multihash c (vote_validator v @ vote_target v @ vote_justification v @ vote_signature v)"

section \<open>Produced blocks\<close>

record 'd produced =
  bl_parent :: multihash
  bl_state_hash :: multihash
  bl_height :: u64
  bl_signature :: "pubkey \<times> signature"
  bl_data :: 'd
  bl_votes :: "vote list"

definition data_hash :: "'d block_params \<Rightarrow> 'd \<Rightarrow> multihash" where
  "data_hash p d = sha3_multihash (bp_crypto p) (bp_serialize p d)"

definition hash_parts ::
    "'d block_params \<Rightarrow> pubkey \<Rightarrow> u64 \<Rightarrow> multihash \<Rightarrow> multihash \<Rightarrow> 'd \<Rightarrow> vote list \<Rightarrow> multihash" where
  "hash_parts p validator height parent state_hash d votes =
     sha3_multihash (bp_crypto p)
       (validator @ parent @ state_hash @ le_bytes height @ data_hash p d
        @ concat (map (vote_hash (bp_crypto p)) votes))"

definition block_hash :: "'d block_params \<Rightarrow> 'd produced \<Rightarrow> multihash" where
  "block_hash p b =
     hash_parts p (fst (bl_signature b)) (bl_height b) (bl_parent b) (bl_state_hash b) (bl_data b) (bl_votes b)"

text \<open>\<open>PartialEq\<close> compares hashes only.\<close>

definition produced_eq :: "'d block_params \<Rightarrow> 'd produced \<Rightarrow> 'd produced \<Rightarrow> bool" where
  "produced_eq p a b \<longleftrightarrow> block_hash p a = block_hash p b"

definition produced_new ::
    "'d block_params \<Rightarrow> bytes \<Rightarrow> u64 \<Rightarrow> multihash \<Rightarrow> 'd \<Rightarrow> multihash \<Rightarrow> vote list \<Rightarrow> 'd produced" where
  "produced_new p keypair height parent d state_hash votes =
     (let c = bp_crypto p; public = ed_public c keypair
      in \<lparr>bl_parent = parent, bl_state_hash = state_hash, bl_height = height,
          bl_signature = (public, ed_sign c keypair (hash_parts p public height parent state_hash d votes)),
          bl_data = d, bl_votes = votes\<rparr>)"

definition block_verify_signature :: "'d block_params \<Rightarrow> 'd produced \<Rightarrow> bool" where
  "block_verify_signature p b =
     ed_verify (bp_crypto p) (fst (bl_signature b)) (block_hash p b) (snd (bl_signature b))"

section \<open>Validators\<close>

datatype validator = Validator (val_pubkey: pubkey) (val_stake: u64)

text \<open>\<open>Ord for Validator\<close>: by public key, then by stake.\<close>

instantiation validator :: linorder
begin

definition less_eq_validator :: "validator \<Rightarrow> validator \<Rightarrow> bool" where
  "less_eq_validator a b \<longleftrightarrow>
     (if val_pubkey a = val_pubkey b then val_stake a \<le> val_stake b else val_pubkey a < val_pubkey b)"

definition less_validator :: "validator \<Rightarrow> validator \<Rightarrow> bool" where
  "less_validator a b \<longleftrightarrow>
     (if val_pubkey a = val_pubkey b then val_stake a < val_stake b else val_pubkey a < val_pubkey b)"

instance
  by standard
    (auto simp: less_eq_validator_def less_validator_def validator.expand not_less not_le
       split: if_splits intro: order.strict_trans)

end

section \<open>Genesis\<close>

record genesis =
  g_chain_id :: string
  g_genesis_time :: "64 word"            \<comment> \<open>milliseconds, \<open>i64\<close>\<close>
  g_slot_interval :: nat                 \<comment> \<open>\<open>Duration\<close>, in nanoseconds\<close>
  g_epoch_blocks :: u64
  g_limits :: limits
  g_builtins :: "pubkey list"
  g_validators :: "validator list"
  g_system_coin :: pubkey
  g_state :: "(pubkey, account) btree_map"

text \<open>\<open>u128::to_le_bytes\<close> and \<open>usize::to_le_bytes\<close>.\<close>

definition le_bytes_u128 :: "128 word \<Rightarrow> bytes" where
  "le_bytes_u128 w = map (\<lambda>i. ucast (drop_bit (8 * i) w)) [0..<16]"

definition le_bytes_usize :: "nat \<Rightarrow> bytes" where
  "le_bytes_usize n = le_bytes (of_nat n)"

definition genesis_hash :: "crypto \<Rightarrow> genesis \<Rightarrow> multihash" where
  "genesis_hash c g =
     (let l = g_limits g
      in sha3_multihash c
       (str_bytes (g_chain_id g) @ le_bytes (g_genesis_time g) @ le_bytes_u128 (of_nat (g_slot_interval g div 1000000))
        @ le_bytes (g_epoch_blocks g)
        @ le_bytes_usize (max_block_size l) @ le_bytes (max_justification_age l) @ le_bytes (minimum_stake l)
        @ le_bytes_usize (max_log_size l) @ le_bytes_usize (max_logs_count l)
        @ le_bytes_usize (max_account_size l) @ le_bytes_usize (max_input_accounts l)
        @ le_bytes_usize (max_block_transactions l) @ le_bytes_usize (max_contract_size l)
        @ concat (g_builtins g)
        @ concat (map (\<lambda>v. val_pubkey v @ le_bytes (val_stake v)) (g_validators g))
        @ concat (map (\<lambda>(addr, acc).
            addr @ (case acc_owner acc of Some ow \<Rightarrow> ow | None \<Rightarrow> [0])
            @ (case acc_data acc of Some v \<Rightarrow> v | None \<Rightarrow> [0])) (g_state g))))"

definition genesis_state_hash :: "crypto \<Rightarrow> genesis \<Rightarrow> multihash" where
  "genesis_state_hash c g = sd_hash c (fold (\<lambda>(k, v). sd_put k v) (g_state g) sd_default)"

section \<open>The trait Block\<close>

datatype 'd any_block = GenesisBlock genesis | ProducedBlock "'d produced"

fun any_hash :: "'d block_params \<Rightarrow> 'd any_block \<Rightarrow> multihash" where
  "any_hash p (GenesisBlock g) = genesis_hash (bp_crypto p) g"
| "any_hash p (ProducedBlock b) = block_hash p b"

fun any_state_hash :: "'d block_params \<Rightarrow> 'd any_block \<Rightarrow> multihash" where
  "any_state_hash p (GenesisBlock g) = genesis_state_hash (bp_crypto p) g"
| "any_state_hash p (ProducedBlock b) = bl_state_hash b"

text \<open>\<open>Genesis::parent\<close> is an error.\<close>

fun any_parent :: "'d any_block \<Rightarrow> string + multihash" where
  "any_parent (GenesisBlock g) = Inl ''The genesis block has no parent''"
| "any_parent (ProducedBlock b) = Inr (bl_parent b)"

fun any_signature :: "'d any_block \<Rightarrow> (pubkey \<times> signature) option" where
  "any_signature (GenesisBlock g) = None"
| "any_signature (ProducedBlock b) = Some (bl_signature b)"

fun any_height :: "'d any_block \<Rightarrow> u64" where
  "any_height (GenesisBlock g) = 0"
| "any_height (ProducedBlock b) = bl_height b"

text \<open>\<open>Genesis::payload\<close> panics.\<close>

fun any_payload :: "'d any_block \<Rightarrow> 'd option" where
  "any_payload (GenesisBlock g) = None"
| "any_payload (ProducedBlock b) = Some (bl_data b)"

fun any_votes :: "'d any_block \<Rightarrow> vote list" where
  "any_votes (GenesisBlock g) = []"
| "any_votes (ProducedBlock b) = bl_votes b"

section \<open>Lemmas\<close>

lemma block_hash_new:
  "block_hash p (produced_new p keypair height parent d state_hash votes) =
     hash_parts p (ed_public (bp_crypto p) keypair) height parent state_hash d votes"
  by (simp add: block_hash_def produced_new_def Let_def)

lemma block_hash_signature_bytes [simp]:
  "block_hash p (b\<lparr>bl_signature := (fst (bl_signature b), sig)\<rparr>) = block_hash p b"
  by (simp add: block_hash_def)

lemma genesis_diff_get:
  assumes "bt_invar m"
  shows "sd_get (fold (\<lambda>(k, v). sd_put k v) m sd_default) a = map_of m a"
proof -
  have data: "sd_data (fold (\<lambda>(k, v). sd_put k v) m d) = fold (\<lambda>(k, v). bt_insert k v) m (sd_data d)" for d
    by (induction m arbitrary: d) (auto simp: sd_put_eq)
  have "map_of (fold (\<lambda>(k, v). bt_insert k v) m []) a =
      (case map_of (rev m) a of None \<Rightarrow> map_of [] a | Some v \<Rightarrow> Some v)"
    by (rule btree.look_fold_ins) simp
  then show ?thesis
    by (simp add: sd_get_def data sd_default_def map_of_rev_bt [OF assms] split: option.splits)
qed

end
