(* ===== verification/Rensa_Machine.thy ===== *)
theory Rensa_Machine
  imports Rensa_Unit Rensa_Block
begin

text \<open>
  \<open>src/vm/machine.rs\<close> and \<open>src/vm/executed.rs\<close>: the execution of a block of transactions, and blocks
  together with their verified output.

  The argument \<open>fuel\<close> bounds the nesting of contract calls inside one transaction (see the execution
  units); \<open>None\<close> is a transaction that panics, diverges or nests deeper.
\<close>

section \<open>The order check\<close>

definition is_within_payer_group :: "transaction \<Rightarrow> transaction \<Rightarrow> bool" where
  "is_within_payer_group tx prev \<longleftrightarrow> tx_payer tx = tx_payer prev \<and> tx_nonce tx = tx_nonce prev - 1"

fun verify_order_loop :: "crypto \<Rightarrow> transaction \<Rightarrow> transaction option \<Rightarrow> transaction list \<Rightarrow> bool" where
  "verify_order_loop c prev group_head [] = True"
| "verify_order_loop c prev group_head (tx # txs) =
     (let group_head' = (if \<not> is_within_payer_group tx prev then Some tx else group_head)
      in if (case group_head' of Some ghead \<Rightarrow> tx_hash c tx < tx_hash c ghead | None \<Rightarrow> False) then False
         else verify_order_loop c tx group_head' txs)"

definition verify_transactions_order :: "crypto \<Rightarrow> transaction list \<Rightarrow> bool" where
  "verify_transactions_order c txs =
     (case txs of first # rest \<Rightarrow> verify_order_loop c first None rest | [] \<Rightarrow> True)"

section \<open>Executing a block\<close>

text \<open>The payer's nonce is incremented whatever the outcome of the transaction.\<close>

definition bump_payer :: "state_view \<Rightarrow> state_diff \<Rightarrow> pubkey \<Rightarrow> state_diff" where
  "bump_payer state accstate payer =
     (case overlayed_get state (sd_get accstate) payer of
        Some acc \<Rightarrow> sd_put payer (acc\<lparr>acc_nonce := acc_nonce acc + 1\<rparr>) accstate
      | None \<Rightarrow> sd_put payer (account_default\<lparr>acc_nonce := 1\<rparr>) accstate)"

definition run_transaction ::
    "nat \<Rightarrow> machine \<Rightarrow> transaction \<Rightarrow> state_view \<Rightarrow> (contract_error, transaction_output) comp" where
  "run_transaction fuel vm tx state =
     (case unit_new vm tx state of Inl e \<Rightarrow> throw e | Inr u \<Rightarrow> unit_execute fuel vm u)"

text \<open>The body of the loop over the transactions; the accumulators are the fields of the output.\<close>

definition execute_transaction ::
    "nat \<Rightarrow> machine \<Rightarrow> state_view \<Rightarrow> transaction \<Rightarrow> block_output \<Rightarrow> block_output option" where
  "execute_transaction fuel vm state tx acc =
     (let accstate = bump_payer state (bo_state acc) (tx_payer tx);
          view = overlayed_get state (sd_get accstate)
      in case run_transaction fuel vm tx view of
           None \<Rightarrow> None
         | Some (Inr txout) \<Rightarrow>
             Some (acc\<lparr>bo_state := sd_merge accstate (to_state_diff txout),
                       bo_logs := hm_insert (tx_hash (vm_crypto vm) tx) (to_log_entries txout) (bo_logs acc)\<rparr>)
         | Some (Inl error) \<Rightarrow>
             Some (acc\<lparr>bo_state := accstate,
                       bo_errors := hm_insert (tx_hash (vm_crypto vm) tx) error (bo_errors acc)\<rparr>))"

primrec execute_transactions ::
    "nat \<Rightarrow> machine \<Rightarrow> state_view \<Rightarrow> transaction list \<Rightarrow> block_output \<Rightarrow> block_output option" where
  "execute_transactions fuel vm state [] acc = Some acc"
| "execute_transactions fuel vm state (tx # txs) acc =
     (case execute_transaction fuel vm state tx acc of
        None \<Rightarrow> None
      | Some acc' \<Rightarrow> execute_transactions fuel vm state txs acc')"

definition block_output_empty :: block_output where
  "block_output_empty = \<lparr>bo_state = sd_default, bo_logs = [], bo_errors = []\<rparr>"

definition execute_block ::
    "nat \<Rightarrow> machine \<Rightarrow> state_view \<Rightarrow> transaction list \<Rightarrow> (machine_error, block_output) comp" where
  "execute_block fuel vm state txs =
     (if \<not> verify_transactions_order (vm_crypto vm) txs then throw InvalidTransactionsOrder
      else case execute_transactions fuel vm state txs block_output_empty of
             None \<Rightarrow> None
           | Some out \<Rightarrow> ret out)"

section \<open>Executed blocks\<close>

record 'd executed =
  ex_underlying :: "'d produced"
  ex_output :: block_output

text \<open>
  \<open>Executed::new\<close>; \<open>run\<close> is \<open>machine.execute\<close> on the payload, for blocks of transactions
  \<open>execute_block fuel vm\<close>.
\<close>

definition executed_new ::
    "crypto \<Rightarrow> (state_view \<Rightarrow> 'd \<Rightarrow> (machine_error, block_output) comp) \<Rightarrow> state_view \<Rightarrow> 'd produced
     \<Rightarrow> (machine_error, 'd executed) comp" where
  "executed_new c run state b =
     bind_comp (run state (bl_data b)) (\<lambda>out.
       if bo_hash c out = bl_state_hash b then ret \<lparr>ex_underlying = b, ex_output = out\<rparr>
       else throw InconsistentStateHash)"

definition executed_recreate :: "'d produced \<Rightarrow> block_output \<Rightarrow> 'd executed" where
  "executed_recreate b out = \<lparr>ex_underlying = b, ex_output = out\<rparr>"

definition executed_state :: "'d executed \<Rightarrow> state_view" where
  "executed_state e = sd_get (bo_state (ex_output e))"

section \<open>Nonces\<close>

lemma overlayed_put:
  "sd_invar d \<Longrightarrow> overlayed_get st (sd_get (sd_put a acc d)) x =
     (if x = a then Some acc else overlayed_get st (sd_get d) x)"
  by (simp add: overlayed_get_def sd_get_put)

lemma sd_invar_bump [simp]: "sd_invar d \<Longrightarrow> sd_invar (bump_payer st d payer)"
  by (simp add: bump_payer_def split: option.split)

lemma state_nonce_bump:
  "sd_invar d \<Longrightarrow> state_nonce (overlayed_get st (sd_get (bump_payer st d payer))) a =
     state_nonce (overlayed_get st (sd_get d)) a + (if a = payer then 1 else 0)"
  by (auto simp: bump_payer_def state_nonce_def overlayed_put split: option.splits)

text \<open>A permitted diff leaves every nonce as it is.\<close>

lemma state_nonce_diff_ok:
  assumes "diff_ok vm u refs d"
  shows "state_nonce (overlayed_get (eu_state u) (sd_get d)) a = state_nonce (eu_state u) a"
proof (cases "sd_get d a")
  case (Some acc)
  with assms obtain v rs where v: "calls vm u refs v rs" "write_ok vm v rs a acc" unfolding diff_ok_def by blast
  have "acc_nonce acc = state_nonce (eu_state u) a"
  proof (cases "eu_state u a")
    case None
    then show ?thesis using v(2) calls_state [OF v(1)] by (auto simp: state_nonce_def write_ok_def)
  next
    case (Some old)
    then have "acc = old\<lparr>acc_data := acc_data acc\<rparr>" using v(2) calls_state [OF v(1)] by (auto simp: write_ok_def)
    then have "acc_nonce acc = acc_nonce old" by (metis account.select_convs(2) account.surjective account.update_convs(4))
    then show ?thesis using Some by (simp add: state_nonce_def)
  qed
  with Some show ?thesis by (simp add: overlayed_get_def state_nonce_def)
qed (simp add: overlayed_get_def state_nonce_def)

lemma overlayed_merge:
  "sd_invar d \<Longrightarrow> sd_invar e \<Longrightarrow>
     overlayed_get st (sd_get (sd_merge d e)) = overlayed_get (overlayed_get st (sd_get d)) (sd_get e)"
  by (rule ext) (simp add: overlayed_get_def sd_get_merge split: option.split)

text \<open>What a transaction that ran to completion has changed is permitted to it.\<close>

lemma run_transaction_ok:
  assumes "run_transaction fuel vm tx st = ret out"
  shows "\<exists>u. unit_new vm tx st = Inr u \<and> eu_state u = st \<and> diff_ok vm u (tx_accounts tx) (to_state_diff out)"
proof -
  obtain u where u: "unit_new vm tx st = Inr u" and run: "unit_execute fuel vm u = ret out"
    using assms by (auto simp: run_transaction_def split: sum.splits)
  then show ?thesis
    using unit_execute_ok [OF _ run] unit_on_new [OF u] by auto
qed

lemma execute_transaction_nonce:
  assumes inv: "sd_invar (bo_state acc)" and ex: "execute_transaction fuel vm st tx acc = Some acc'"
  shows "sd_invar (bo_state acc') \<and>
    state_nonce (overlayed_get st (sd_get (bo_state acc'))) a =
      state_nonce (overlayed_get st (sd_get (bo_state acc))) a + (if a = tx_payer tx then 1 else 0)"
proof -
  let ?acc = "bump_payer st (bo_state acc) (tx_payer tx)"
  let ?view = "overlayed_get st (sd_get ?acc)"
  obtain r where r: "run_transaction fuel vm tx ?view = Some r"
    using ex by (cases "run_transaction fuel vm tx ?view") (auto simp: execute_transaction_def)
  show ?thesis
  proof (cases r)
    case (Inl e)
    with ex r have "bo_state acc' = ?acc" by (auto simp: execute_transaction_def)
    with inv show ?thesis by (simp add: state_nonce_bump)
  next
    case (Inr out)
    then obtain u where u: "eu_state u = ?view" and ok: "diff_ok vm u (tx_accounts tx) (to_state_diff out)"
      using r run_transaction_ok by (metis (no_types))
    then have "sd_invar (to_state_diff out)" by (simp add: diff_ok_def)
    moreover have "bo_state acc' = sd_merge ?acc (to_state_diff out)"
      using ex r Inr by (auto simp: execute_transaction_def)
    ultimately show ?thesis
      using inv by (simp add: overlayed_merge state_nonce_diff_ok [OF ok, unfolded u] state_nonce_bump)
  qed
qed

abbreviation paid_by :: "pubkey \<Rightarrow> transaction list \<Rightarrow> nat" where
  "paid_by a txs \<equiv> length (filter (\<lambda>tx. tx_payer tx = a) txs)"

lemma execute_transactions_nonce:
  assumes "sd_invar (bo_state acc)" and "execute_transactions fuel vm st txs acc = Some out"
  shows "sd_invar (bo_state out) \<and>
    state_nonce (overlayed_get st (sd_get (bo_state out))) a =
      state_nonce (overlayed_get st (sd_get (bo_state acc))) a + of_nat (paid_by a txs)"
  using assms
proof (induction txs arbitrary: acc)
  case (Cons tx txs)
  then obtain acc' where acc': "execute_transaction fuel vm st tx acc = Some acc'"
    and rest: "execute_transactions fuel vm st txs acc' = Some out"
    by (auto split: option.splits)
  show ?case
    using execute_transaction_nonce [OF Cons.prems(1) acc', of a] Cons.IH [of acc'] rest by auto
qed simp

lemma execute_block_ret:
  assumes "execute_block fuel vm st txs = ret out"
  shows "execute_transactions fuel vm st txs block_output_empty = Some out"
  using assms by (auto simp: execute_block_def split: if_splits option.splits)

lemma sd_invar_empty_output [simp]: "sd_invar (bo_state block_output_empty)"
  by (simp add: block_output_empty_def)

lemma overlayed_default [simp]: "overlayed_get st (sd_get sd_default) = st"
  by (rule ext) (simp add: overlayed_get_def)

lemma execute_block_nonce:
  assumes "execute_block fuel vm st txs = ret out"
  shows "state_nonce (overlayed_get st (sd_get (bo_state out))) a = state_nonce st a + of_nat (paid_by a txs)"
  using execute_transactions_nonce [OF _ execute_block_ret [OF assms], of a]
  by (simp add: block_output_empty_def)

section \<open>Which transactions succeed\<close>

lemma unit_new_nonce: "unit_new vm tx st = Inr u \<Longrightarrow> tx_nonce tx = state_nonce st (tx_payer tx)"
  by (auto simp: unit_new_def split: if_splits sum.splits)

lemma unit_new_signed:
  "unit_new vm tx st = Inr u \<Longrightarrow> tx_verify_signatures (vm_crypto vm) tx = Inr ()"
  by (auto simp: unit_new_def split: if_splits sum.splits)

lemma run_transaction_ret:
  assumes "run_transaction fuel vm tx st = ret out"
  shows "tx_nonce tx = state_nonce st (tx_payer tx) \<and> tx_verify_signatures (vm_crypto vm) tx = Inr ()"
  using assms unit_new_nonce unit_new_signed by (fastforce simp: run_transaction_def split: sum.splits)

text \<open>
  A transaction leaves a log entry only when its nonce is the successor of its payer's nonce, and
  every other transaction leaves an error and no change but the nonce increment.
\<close>

lemma execute_transaction_cases:
  assumes inv: "sd_invar (bo_state acc)" and ex: "execute_transaction fuel vm st tx acc = Some acc'"
  obtains (ok) out where "run_transaction fuel vm tx
        (overlayed_get st (sd_get (bump_payer st (bo_state acc) (tx_payer tx)))) = ret out"
      and "tx_nonce tx = state_nonce (overlayed_get st (sd_get (bo_state acc))) (tx_payer tx) + 1"
      and "acc' = acc\<lparr>bo_state := sd_merge (bump_payer st (bo_state acc) (tx_payer tx)) (to_state_diff out),
        bo_logs := hm_insert (tx_hash (vm_crypto vm) tx) (to_log_entries out) (bo_logs acc)\<rparr>"
  | (error) e where "run_transaction fuel vm tx
        (overlayed_get st (sd_get (bump_payer st (bo_state acc) (tx_payer tx)))) = throw e"
      and "acc' = acc\<lparr>bo_state := bump_payer st (bo_state acc) (tx_payer tx),
        bo_errors := hm_insert (tx_hash (vm_crypto vm) tx) e (bo_errors acc)\<rparr>"
proof -
  let ?view = "overlayed_get st (sd_get (bump_payer st (bo_state acc) (tx_payer tx)))"
  obtain r where r: "run_transaction fuel vm tx ?view = Some r"
    using ex by (cases "run_transaction fuel vm tx ?view") (auto simp: execute_transaction_def)
  show thesis
  proof (cases r)
    case (Inl e)
    with r ex show thesis by (intro error) (auto simp: execute_transaction_def)
  next
    case (Inr out)
    with r have run: "run_transaction fuel vm tx ?view = ret out" by simp
    show thesis
      using run_transaction_ret [OF run] ex r Inr inv
      by (intro ok [OF run]) (auto simp: execute_transaction_def state_nonce_bump)
  qed
qed

section \<open>Executed blocks and the order check\<close>

lemma executed_new_ret:
  "executed_new c run st b = ret e \<longleftrightarrow>
     (\<exists>out. run st (bl_data b) = ret out \<and> bo_hash c out = bl_state_hash b
        \<and> e = \<lparr>ex_underlying = b, ex_output = out\<rparr>)"
  by (auto simp: executed_new_def bind_comp_eq_ret split: if_splits)

lemma verify_order_loop_new_groups:
  assumes "\<And>i. Suc i < length (prev # txs) \<Longrightarrow> \<not> is_within_payer_group ((prev # txs) ! Suc i) ((prev # txs) ! i)"
  shows "verify_order_loop c prev gh txs"
  using assms
proof (induction txs arbitrary: prev gh)
  case (Cons tx txs)
  have "\<not> is_within_payer_group tx prev" using Cons.prems [of 0] by simp
  moreover have "verify_order_loop c tx (Some tx) txs"
    using Cons.prems [of "Suc i" for i] by (intro Cons.IH) auto
  ultimately show ?case by (simp add: Let_def)
qed simp

section \<open>Blocks that execute\<close>

text \<open>
  A contract that is settled returns on every call, with an error or with outputs that call no other contract; an address that
  resolves to no contract is settled too. Executing a block of calls to settled contracts returns, with one level of fuel.
\<close>

definition entry_result :: "machine \<Rightarrow> entrypoint \<Rightarrow> environment \<Rightarrow> bytes \<Rightarrow> contract_result" where
  "entry_result vm e env params =
     (case e of Native f \<Rightarrow> f env params (vm_limits vm) | External f \<Rightarrow> f env params)"

definition settled :: "machine \<Rightarrow> pubkey \<Rightarrow> bool" where
  "settled vm a \<longleftrightarrow>
     (\<forall>st e env params. resolve_entrypoint vm a st = Inr e \<longrightarrow>
        entry_result vm e env params \<noteq> None
        \<and> (\<forall>outs. entry_result vm e env params = ret outs \<longrightarrow> \<not> list_ex is_invoke outs))"

lemma settled_builtin:
  assumes "leaf_contract f" and "\<And>env params. f env params (vm_limits vm) \<noteq> None" and "machine_builtin vm a = Some f"
  shows "settled vm a"
  using assms(2) leaf_contract.no_invoke [OF assms(1)]
  by (auto simp: settled_def resolve_entrypoint_def assms(3) entry_result_def)

lemma settled_runs:
  assumes "settled vm (tx_contract tx)"
  shows "run_transaction (Suc n) vm tx st \<noteq> None"
proof (cases "unit_new vm tx st")
  case (Inr u)
  then have "resolve_entrypoint vm (tx_contract tx) st = Inr (eu_entrypoint u)"
    by (auto simp: unit_new_def split: if_splits sum.splits)
  moreover have inv: "unit_invoke vm u = entry_result vm (eu_entrypoint u) (eu_env u) (eu_params u)"
    by (simp add: unit_invoke_def entry_result_def)
  ultimately obtain r where r: "unit_invoke vm u = Some r" "\<And>outs. r = Inr outs \<Longrightarrow> \<not> list_ex is_invoke outs"
    using assms unfolding settled_def by (metis not_None_eq)
  then have "unit_execute (Suc n) vm u \<noteq> None"
    using process_outputs_returns by (cases r) auto
  with Inr show ?thesis by (simp add: run_transaction_def)
qed (simp add: run_transaction_def)

lemma settled_block:
  assumes "\<forall>tx \<in> set txs. settled vm (tx_contract tx)"
  shows "execute_block (Suc n) vm st txs \<noteq> None"
proof -
  have "execute_transactions (Suc n) vm st txs acc \<noteq> None" for acc
    using assms
  proof (induction txs arbitrary: acc)
    case (Cons tx txs)
    obtain r where "run_transaction (Suc n) vm tx (overlayed_get st (sd_get (bump_payer st (bo_state acc) (tx_payer tx)))) = Some r"
      using settled_runs Cons.prems by fastforce
    then obtain acc' where "execute_transaction (Suc n) vm st tx acc = Some acc'"
      by (cases r) (auto simp: execute_transaction_def Let_def)
    with Cons show ?case by simp
  qed simp
  then obtain out where "execute_transactions (Suc n) vm st txs block_output_empty = Some out" by blast
  then show ?thesis by (simp add: execute_block_def)
qed

end
