(* ===== verification/Rensa_Forktree.thy ===== *)
theory Rensa_Forktree
  imports Rensa_Machine "HOL-Library.Multiset"
begin

text \<open>
  \<open>src/consensus/forktree.rs\<close>: the tree of blocks that are not finalized yet.

  A reference \<open>&TreeNode\<close> (and the raw pointer \<open>*mut TreeNode\<close> of \<open>get_mut\<close>) is the position of the
  node below the root of its tree, a list of child indexes; the \<open>parent\<close> pointer is the position
  without its last index. \<open>tn_path\<close> is the iterator \<open>PathIter\<close>, from a node up to the root. A root
  keeps \<open>parent = None\<close>. In the source the pointers of the grandchildren of a finalized root still
  refer to the node their parent was moved out of; the model follows the parent they are children of.
\<close>

record 'd volatile_block =
  vb_block :: "'d executed"
  vb_votes :: u64
  vb_voters :: "pubkey set"

definition volatile_new :: "'d executed \<Rightarrow> 'd volatile_block" where
  "volatile_new b = \<lparr>vb_block = b, vb_votes = 0, vb_voters = {}\<rparr>"

abbreviation vb_produced :: "'d volatile_block \<Rightarrow> 'd produced" where
  "vb_produced v \<equiv> ex_underlying (vb_block v)"

abbreviation vb_hash :: "'d block_params \<Rightarrow> 'd volatile_block \<Rightarrow> multihash" where
  "vb_hash p v \<equiv> block_hash p (vb_produced v)"

datatype 'd tree_node = TreeNode (tn_value: "'d volatile_block") (tn_children: "'d tree_node list")

type_synonym position = "nat list"

definition tn_new :: "'d volatile_block \<Rightarrow> 'd tree_node" where
  "tn_new v = TreeNode v []"

section \<open>Finding and following nodes\<close>

text \<open>\<open>get\<close> and \<open>get_mut\<close>: a preorder search, children from front to back.\<close>

fun tn_get :: "'d block_params \<Rightarrow> multihash \<Rightarrow> 'd tree_node \<Rightarrow> position option"
  and tn_get_children :: "'d block_params \<Rightarrow> multihash \<Rightarrow> nat \<Rightarrow> 'd tree_node list \<Rightarrow> position option" where
  "tn_get p h (TreeNode v cs) = (if vb_hash p v = h then Some [] else tn_get_children p h 0 cs)"
| "tn_get_children p h i [] = None"
| "tn_get_children p h i (c # cs) =
     (case tn_get p h c of Some pos \<Rightarrow> Some (i # pos) | None \<Rightarrow> tn_get_children p h (Suc i) cs)"

fun node_at :: "'d tree_node \<Rightarrow> position \<Rightarrow> 'd tree_node option" where
  "node_at t [] = Some t"
| "node_at (TreeNode v cs) (i # pos) = (if i < length cs then node_at (cs ! i) pos else None)"

fun tn_path :: "'d tree_node \<Rightarrow> position \<Rightarrow> 'd tree_node list" where
  "tn_path t [] = [t]"
| "tn_path (TreeNode v cs) (i # pos) = (if i < length cs then tn_path (cs ! i) pos @ [TreeNode v cs] else [])"

definition tn_depth :: "'d tree_node \<Rightarrow> position \<Rightarrow> nat" where
  "tn_depth root pos = length (tn_path root pos) - 1"

definition is_descendant_of :: "'d block_params \<Rightarrow> 'd tree_node \<Rightarrow> position \<Rightarrow> multihash \<Rightarrow> bool" where
  "is_descendant_of p root pos h = list_ex (\<lambda>step. vb_hash p (tn_value step) = h) (drop 1 (tn_path root pos))"

section \<open>The head of a tree\<close>

text \<open>The loop over the children of the node at \<open>pos\<close>, with its two mutable variables.\<close>

fun top_subtree :: "'d tree_node \<Rightarrow> position \<Rightarrow> u64 \<Rightarrow> nat \<Rightarrow> nat \<Rightarrow> 'd tree_node list \<Rightarrow> nat" where
  "top_subtree root pos max_votes best i [] = best"
| "top_subtree root pos max_votes best i (subtree # rest) =
     (let votes = vb_votes (tn_value subtree)
      in if votes < max_votes then top_subtree root pos max_votes best (Suc i) rest
         else if votes = max_votes
           then top_subtree root pos max_votes
                  (if tn_depth root (pos @ [i]) > tn_depth root (pos @ [best]) then i else best) (Suc i) rest
         else top_subtree root pos votes i (Suc i) rest)"

text \<open>\<open>head\<close> of the node \<open>t\<close> at position \<open>pos\<close> below \<open>root\<close>.\<close>

function tn_head :: "'d tree_node \<Rightarrow> position \<Rightarrow> 'd tree_node \<Rightarrow> position" where
  "tn_head root pos (TreeNode v cs) =
     (if cs = [] then pos
      else map (\<lambda>(i, c). tn_head root (pos @ [i]) c) (enumerate 0 cs) ! top_subtree root pos 0 0 0 cs)"
  by pat_completeness auto
termination
proof (relation "measure (\<lambda>(root, pos, t). size t)")
  fix root :: "'d tree_node" and pos v cs z i and c :: "'d tree_node"
  assume "z \<in> set (enumerate 0 cs)" and "(i, c) = z"
  then have "c \<in> set cs" by (auto simp: in_set_enumerate_eq)
  then have "size c \<le> size_list size cs" by (rule size_list_estimation') simp
  then show "((root, pos @ [i], c), root, pos, TreeNode v cs) \<in> measure (\<lambda>(root, pos, t). size t)"
    by simp
qed simp

section \<open>Growing the tree and counting votes\<close>

fun update_at :: "('d tree_node \<Rightarrow> 'd tree_node) \<Rightarrow> 'd tree_node \<Rightarrow> position \<Rightarrow> 'd tree_node" where
  "update_at f t [] = f t"
| "update_at f (TreeNode v cs) (i # pos) =
     TreeNode v (if i < length cs then cs[i := update_at f (cs ! i) pos] else cs)"

text \<open>\<open>add_child\<close> on the node at \<open>pos\<close>; \<open>None\<close> is its failing \<open>assert!\<close>.\<close>

definition add_child :: "'d block_params \<Rightarrow> 'd tree_node \<Rightarrow> position \<Rightarrow> 'd volatile_block \<Rightarrow> 'd tree_node option" where
  "add_child p root pos b =
     (case node_at root pos of
        None \<Rightarrow> None
      | Some self \<Rightarrow>
          if bl_parent (vb_produced b) = vb_hash p (tn_value self)
          then Some (update_at (\<lambda>n. TreeNode (tn_value n) (tn_children n @ [TreeNode b []])) root pos)
          else None)"

definition vb_add_votes :: "u64 \<Rightarrow> pubkey \<Rightarrow> 'd volatile_block \<Rightarrow> 'd volatile_block" where
  "vb_add_votes votes voter v =
     (if voter \<in> vb_voters v then v
      else v\<lparr>vb_voters := insert voter (vb_voters v), vb_votes := vb_votes v + votes\<rparr>)"

text \<open>\<open>add_votes\<close> on the node at a position: the node and all its ancestors get the votes.\<close>

fun add_votes :: "u64 \<Rightarrow> pubkey \<Rightarrow> 'd tree_node \<Rightarrow> position \<Rightarrow> 'd tree_node" where
  "add_votes votes voter (TreeNode v cs) [] = TreeNode (vb_add_votes votes voter v) cs"
| "add_votes votes voter (TreeNode v cs) (i # pos) =
     TreeNode (vb_add_votes votes voter v)
       (if i < length cs then cs[i := add_votes votes voter (cs ! i) pos] else cs)"

section \<open>Epochs and state\<close>

definition node_epoch :: "u64 \<Rightarrow> 'd tree_node \<Rightarrow> u64" where
  "node_epoch epoch_blocks n = bl_height (vb_produced (tn_value n)) div epoch_blocks"

text \<open>
  \<open>epoch_start\<close>: the loop walks up while the epoch stays the same; \<open>steps\<close> ancestors up is the
  position shortened by as many indexes. \<open>None\<close> is the division by zero of the loop's first
  iteration (or a reference to no node).
\<close>

definition epoch_start :: "'d block_params \<Rightarrow> u64 \<Rightarrow> 'd tree_node \<Rightarrow> position \<Rightarrow> position option" where
  "epoch_start p epoch_blocks root pos =
     (case tn_path root pos of
        [] \<Rightarrow> None
      | self # ancestors \<Rightarrow>
          if ancestors \<noteq> [] \<and> epoch_blocks = 0 then None
          else let steps = length (takeWhile (\<lambda>step. node_epoch epoch_blocks step = node_epoch epoch_blocks self)
                                    ancestors);
                   needle = (self # ancestors) ! steps
               in if vb_hash p (tn_value needle) \<noteq> vb_hash p (tn_value self)
                  then Some (take (length pos - steps) pos) else Some pos)"

text \<open>\<open>CascadingState::get\<close>: the nearest node of the path that has the account decides.\<close>

fun cascading_get :: "'d tree_node list \<Rightarrow> state_view" where
  "cascading_get [] address = None"
| "cascading_get (current # rest) address =
     (case executed_state (vb_block (tn_value current)) address of
        Some value \<Rightarrow> Some value
      | None \<Rightarrow> cascading_get rest address)"

definition tn_state :: "'d tree_node \<Rightarrow> position \<Rightarrow> state_view" where
  "tn_state root pos = cascading_get (tn_path root pos)"

section \<open>Nodes, searches and paths\<close>

text \<open>The blocks of a tree in preorder; this is also the order of \<open>visit\<close> in \<open>finalize_root\<close>.\<close>

fun tn_values :: "'d tree_node \<Rightarrow> 'd volatile_block list" where
  "tn_values (TreeNode v cs) = v # concat (map tn_values cs)"

abbreviation tn_hashes :: "'d block_params \<Rightarrow> 'd tree_node \<Rightarrow> multihash list" where
  "tn_hashes p t \<equiv> map (vb_hash p) (tn_values t)"

lemma tn_get_sound:
  "tn_get p h t = Some pos \<Longrightarrow> \<exists>n. node_at t pos = Some n \<and> vb_hash p (tn_value n) = h"
  "tn_get_children p h i cs = Some pos \<Longrightarrow>
     \<exists>j pos' n. pos = (i + j) # pos' \<and> j < length cs \<and> node_at (cs ! j) pos' = Some n \<and> vb_hash p (tn_value n) = h"
proof (induction p h t and p h i cs arbitrary: pos and pos rule: tn_get_tn_get_children.induct)
  case (1 p h v cs)
  then show ?case by (fastforce split: if_splits)
next
  case (3 p h i c cs)
  show ?case
  proof (cases "tn_get p h c")
    case (Some q)
    with 3 show ?thesis by (auto intro: exI [of _ 0])
  next
    case None
    with 3 obtain j pos' n where "pos = (Suc i + j) # pos'" "j < length cs"
      "node_at (cs ! j) pos' = Some n" "vb_hash p (tn_value n) = h" by auto
    then show ?thesis by (intro exI [of _ "Suc j"]) auto
  qed
qed simp

lemma tn_get_None:
  "tn_get p h t = None \<longleftrightarrow> h \<notin> set (tn_hashes p t)"
  "tn_get_children p h i cs = None \<longleftrightarrow> (\<forall>c \<in> set cs. h \<notin> set (tn_hashes p c))"
  by (induction p h t and p h i cs rule: tn_get_tn_get_children.induct) (auto split: option.splits)

lemma node_at_path:
  "node_at t pos = Some n \<Longrightarrow> \<exists>up. tn_path t pos = n # up \<and> length up = length pos"
proof (induction t pos rule: tn_path.induct)
  case (2 v cs i pos)
  then show ?case by (cases "i < length cs") auto
qed simp

lemma tn_path_last: "node_at t pos = Some n \<Longrightarrow> last (tn_path t pos) = t"
  by (induction t pos rule: tn_path.induct) (auto split: if_splits)

lemma tn_path_take:
  "node_at t pos = Some n \<Longrightarrow> k \<le> length pos \<Longrightarrow> tn_path t (take (length pos - k) pos) = drop k (tn_path t pos)"
proof (induction t pos rule: tn_path.induct)
  case (2 v cs i pos)
  then have i: "i < length cs" by (simp split: if_splits)
  with 2 have n: "node_at (cs ! i) pos = Some n" by simp
  have len: "length (tn_path (cs ! i) pos) = Suc (length pos)"
    using node_at_path [OF n] by auto
  show ?case
  proof (cases "k = Suc (length pos)")
    case True
    with i len show ?thesis by simp
  next
    case False
    with 2 i n len show ?thesis by (simp add: Suc_diff_le)
  qed
qed simp

lemma node_at_take:
  "node_at t pos = Some n \<Longrightarrow> k \<le> length pos \<Longrightarrow> \<exists>m. node_at t (take k pos) = Some m"
proof (induction t pos arbitrary: k rule: tn_path.induct)
  case (2 v cs i pos)
  then show ?case by (cases k) (auto split: if_splits)
qed simp

lemma tn_depth_at: "node_at t pos = Some n \<Longrightarrow> tn_depth t pos = length pos"
  using node_at_path by (fastforce simp: tn_depth_def)

lemma node_at_append: "node_at t pos = Some n \<Longrightarrow> node_at t (pos @ pos') = node_at n pos'"
  by (induction t pos rule: tn_path.induct) (auto split: if_splits)

lemma node_at_values: "node_at t pos = Some n \<Longrightarrow> set (tn_values n) \<subseteq> set (tn_values t)"
proof (induction t pos rule: tn_path.induct)
  case (2 v cs i pos)
  then have "i < length cs" "set (tn_values n) \<subseteq> set (tn_values (cs ! i))" by (auto split: if_splits)
  then show ?case using nth_mem by fastforce
qed simp

lemma tn_value_in [simp]: "tn_value t \<in> set (tn_values t)"
  by (cases t) simp

section \<open>Invariants of trees\<close>

text \<open>\<open>P\<close> holds of every block and \<open>R\<close> between every block and its children.\<close>

fun tn_all :: "('d volatile_block \<Rightarrow> bool) \<Rightarrow> ('d volatile_block \<Rightarrow> 'd volatile_block \<Rightarrow> bool) \<Rightarrow> 'd tree_node \<Rightarrow> bool" where
  "tn_all P R (TreeNode v cs) \<longleftrightarrow> P v \<and> (\<forall>c \<in> set cs. R v (tn_value c) \<and> tn_all P R c)"

lemma tn_all_values: "tn_all P R t \<Longrightarrow> v \<in> set (tn_values t) \<Longrightarrow> P v"
  by (induction P R t rule: tn_all.induct) auto

lemma tn_all_node_at: "tn_all P R t \<Longrightarrow> node_at t pos = Some n \<Longrightarrow> tn_all P R n"
  by (induction t pos rule: tn_path.induct) (auto split: if_splits)

lemma tn_all_path: "tn_all P R t \<Longrightarrow> n \<in> set (tn_path t pos) \<Longrightarrow> tn_all P R n"
  by (induction t pos rule: tn_path.induct) (auto split: if_splits)

lemma tn_all_path_edge:
  "tn_all P R t \<Longrightarrow> node_at t pos = Some n \<Longrightarrow> Suc k < length (tn_path t pos) \<Longrightarrow>
     R (tn_value (tn_path t pos ! Suc k)) (tn_value (tn_path t pos ! k))"
proof (induction t pos rule: tn_path.induct)
  case (2 v cs i pos)
  then have i: "i < length cs" and n: "node_at (cs ! i) pos = Some n" by (auto split: if_splits)
  let ?q = "tn_path (cs ! i) pos"
  have c: "R v (tn_value (cs ! i)) \<and> tn_all P R (cs ! i)" using 2(2) i by auto
  show ?case
  proof (cases "Suc k < length ?q")
    case True
    with 2(1) [OF i] c i n show ?thesis by (simp add: nth_append)
  next
    case False
    with 2(4) i have k: "Suc k = length ?q" by simp
    then have "last ?q = ?q ! k" by (metis diff_Suc_1 last_conv_nth length_0_conv nat.distinct(1))
    then have "?q ! k = cs ! i" using tn_path_last [OF n] by simp
    then show ?thesis using c i k by (simp add: nth_append)
  qed
qed simp

lemma tn_all_add_votes:
  assumes "\<And>v. P v \<Longrightarrow> P (vb_add_votes s w v)"
    and "\<And>v c. R v c \<Longrightarrow> R (vb_add_votes s w v) (vb_add_votes s w c)"
    and "\<And>v c. R v c \<Longrightarrow> R (vb_add_votes s w v) c"
  shows "tn_all P R t \<Longrightarrow> tn_all P R (add_votes s w t pos)"
proof (induction t pos rule: tn_path.induct)
  case (1 t)
  then show ?case using assms by (cases t) auto
next
  case (2 v cs i pos)
  have val: "tn_value (add_votes s w t q) = vb_add_votes s w (tn_value t)" for t q
    by (cases t; cases q) auto
  show ?case
  proof (cases "i < length cs")
    case True
    then have "cs ! i \<in> set cs" by simp
    with 2 True assms show ?thesis
      by (auto simp: val dest!: set_update_subset_insert [THEN subsetD])
  qed (use 2 assms in auto)
qed

lemma tn_value_add_votes [simp]: "tn_value (add_votes s w t pos) = vb_add_votes s w (tn_value t)"
  by (cases t; cases pos) auto

lemma tn_all_update_child:
  assumes "P b"
  shows "tn_all P R t \<Longrightarrow> node_at t pos = Some n \<Longrightarrow> R (tn_value n) b \<Longrightarrow>
    tn_all P R (update_at (\<lambda>n. TreeNode (tn_value n) (tn_children n @ [TreeNode b []])) t pos)"
proof (induction t pos rule: tn_path.induct)
  case (1 t)
  then show ?case using assms by (cases t) auto
next
  case (2 v cs i pos)
  let ?f = "\<lambda>n. TreeNode (tn_value n) (tn_children n @ [TreeNode b []])"
  have val: "tn_value (update_at ?f t q) = tn_value t" for t q
    by (cases t; cases q) auto
  from 2 have "i < length cs" by (simp split: if_splits)
  moreover from this have "cs ! i \<in> set cs" by simp
  ultimately show ?case using 2
    by (auto simp: val dest!: set_update_subset_insert [THEN subsetD])
qed

section \<open>Counting votes\<close>

lemma vb_add_votes_block [simp]: "vb_block (vb_add_votes s w v) = vb_block v"
  by (simp add: vb_add_votes_def)

lemma vb_add_votes_voters [simp]: "vb_voters (vb_add_votes s w v) = insert w (vb_voters v)"
  by (auto simp: vb_add_votes_def)

lemma vb_add_votes_idem: "vb_add_votes s w (vb_add_votes s w v) = vb_add_votes s w v"
  by (simp add: vb_add_votes_def)

lemma add_votes_idem: "add_votes s w (add_votes s w t pos) pos = add_votes s w t pos"
  by (induction s w t pos rule: add_votes.induct) (auto simp: vb_add_votes_idem)

lemma map_concat_update:
  "i < length cs \<Longrightarrow> map g (F c') = map g (F (cs ! i)) \<Longrightarrow>
     map g (concat (map F (cs[i := c']))) = map g (concat (map F cs))"
  by (simp add: map_concat map_update comp_def) (metis (no_types, lifting) list_update_id map_update nth_map)

lemma values_add_votes: "map vb_block (tn_values (add_votes s w t pos)) = map vb_block (tn_values t)"
proof (induction s w t pos rule: add_votes.induct)
  case (2 s w v cs i pos)
  then show ?case
    using map_concat_update [of i cs vb_block tn_values "add_votes s w (cs ! i) pos"] by simp
qed simp

lemma hashes_add_votes: "tn_hashes p (add_votes s w t pos) = tn_hashes p t"
proof -
  have "tn_hashes p t = map (\<lambda>e. block_hash p (ex_underlying e)) (map vb_block (tn_values t))" for t
    by simp
  then show ?thesis by (metis values_add_votes)
qed

text \<open>Every block of the path gets the votes, with its own voters deciding whether they count.\<close>

lemma path_add_votes:
  "node_at t pos = Some n \<Longrightarrow>
     map tn_value (tn_path (add_votes s w t pos) pos) = map (vb_add_votes s w) (map tn_value (tn_path t pos))"
proof (induction s w t pos rule: add_votes.induct)
  case (2 s w v cs i pos)
  then show ?case by (cases "i < length cs") auto
qed simp

lemma mset_concat_update:
  "i < length cs \<Longrightarrow> mset (F c') = add_mset x (mset (F (cs ! i))) \<Longrightarrow>
     mset (concat (map F (cs[i := c']))) = add_mset x (mset (concat (map F cs)))"
proof (induction cs arbitrary: i)
  case (Cons c cs)
  then show ?case by (cases i) auto
qed simp

text \<open>Adding a child adds exactly its block.\<close>

lemma values_update_child:
  "node_at t pos = Some n \<Longrightarrow>
     mset (tn_values (update_at (\<lambda>n. TreeNode (tn_value n) (tn_children n @ [TreeNode b []])) t pos)) =
       add_mset b (mset (tn_values t))"
proof (induction t pos rule: tn_path.induct)
  case (1 t)
  then show ?case by (cases n) simp
next
  case (2 v cs i pos)
  then show ?case by (cases "i < length cs") (simp_all add: mset_concat_update del: mset_concat)
qed

lemma add_childE:
  assumes "add_child p t pos b = Some t'"
  obtains n where "node_at t pos = Some n" and "bl_parent (vb_produced b) = vb_hash p (tn_value n)"
    and "t' = update_at (\<lambda>n. TreeNode (tn_value n) (tn_children n @ [TreeNode b []])) t pos"
  using assms by (auto simp: add_child_def split: option.splits if_splits)

section \<open>The head\<close>

lemma top_subtree_less:
  "best < n \<Longrightarrow> i + length cs \<le> n \<Longrightarrow> top_subtree root pos m best i cs < n"
  by (induction cs arbitrary: m best i) (auto simp: Let_def)

lemma tn_head_step:
  assumes "cs \<noteq> []"
  shows "\<exists>i < length cs. i = top_subtree root pos 0 0 0 cs \<and>
    tn_head root pos (TreeNode v cs) = tn_head root (pos @ [i]) (cs ! i)"
proof -
  let ?i = "top_subtree root pos 0 0 0 cs"
  have "?i < length cs" using assms by (intro top_subtree_less) auto
  then show ?thesis using assms by (auto simp: nth_enumerate_eq)
qed

text \<open>The head is a leaf below the node the search starts from.\<close>

lemma tn_head_leaf:
  "node_at root pos = Some t \<Longrightarrow>
     \<exists>q n. tn_head root pos t = pos @ q \<and> node_at root (pos @ q) = Some n \<and> tn_children n = []"
proof (induction t arbitrary: pos rule: measure_induct_rule [of size])
  case (less t)
  obtain v cs where t: "t = TreeNode v cs" by (cases t)
  show ?case
  proof (cases "cs = []")
    case True
    with less.prems t show ?thesis by (intro exI [of _ "[]"]) auto
  next
    case False
    obtain i where i: "i < length cs" and hd: "tn_head root pos t = tn_head root (pos @ [i]) (cs ! i)"
      using tn_head_step [OF False] t by blast
    have at: "node_at root (pos @ [i]) = Some (cs ! i)"
      using node_at_append [OF less.prems] t i by simp
    have "size (cs ! i) \<le> size_list size cs" using i by (intro size_list_estimation' [of "cs ! i"]) auto
    then have "size (cs ! i) < size t" by (simp add: t)
    from less.IH [OF this at] obtain q n where "tn_head root (pos @ [i]) (cs ! i) = (pos @ [i]) @ q"
      "node_at root ((pos @ [i]) @ q) = Some n" "tn_children n = []" by blast
    then show ?thesis using hd by (intro exI [of _ "i # q"]) auto
  qed
qed

text \<open>The loop over the children ends at a child with the most votes.\<close>

lemma top_subtree_max:
  assumes "best < i" and "i + length cs = length all" and "drop i all = cs"
    and "\<And>j. j < i \<Longrightarrow> vb_votes (tn_value (all ! j)) \<le> vb_votes (tn_value (all ! best))"
    and "vb_votes (tn_value (all ! best)) = m"
  shows "j < length all \<Longrightarrow>
    vb_votes (tn_value (all ! j)) \<le> vb_votes (tn_value (all ! top_subtree root pos m best i cs))"
  using assms
proof (induction cs arbitrary: m best i)
  case (Cons c cs)
  have i: "i < length all" "c = all ! i" "drop (Suc i) all = cs"
    using Cons.prems by (simp_all, metis nth_via_drop, metis drop_Suc tl_drop list.sel(3))
  show ?case
  proof (cases "vb_votes (tn_value c)" m rule: linorder_cases)
    case less
    with Cons.prems i show ?thesis
      by (simp add: Let_def) (rule Cons.IH, auto simp: less_Suc_eq)
  next
    case equal
    define best' where "best' = (if tn_depth root (pos @ [i]) > tn_depth root (pos @ [best]) then i else best)"
    have "vb_votes (tn_value (all ! best')) = m" "best' < Suc i"
      using equal Cons.prems(2,6) i by (auto simp: best'_def)
    moreover have "top_subtree root pos m best i (c # cs) = top_subtree root pos m best' (Suc i) cs"
      using equal by (simp add: best'_def)
    ultimately show ?thesis
      using Cons.prems i equal by (simp only:) (rule Cons.IH, auto simp: less_Suc_eq)
  next
    case greater
    then have "\<not> vb_votes (tn_value c) < m" "vb_votes (tn_value c) \<noteq> m" by auto
    moreover have "vb_votes (tn_value (all ! j)) \<le> vb_votes (tn_value (all ! i))" if "j < Suc i" for j
      using that Cons.prems(5) [of j] Cons.prems(6) greater i by (fastforce simp: less_Suc_eq)
    ultimately show ?thesis using Cons.prems i
      by (simp add: Let_def) (rule Cons.IH, auto)
  qed
qed simp

lemma top_subtree_start:
  "top_subtree root pos 0 0 0 (c # cs) = top_subtree root pos (vb_votes (tn_value c)) 0 1 cs"
  by (auto simp: Let_def)

text \<open>
  Siblings have the same depth, so the tie-break of the source never replaces an earlier child: among
  children with equally many votes the first one is kept.
\<close>

lemma top_subtree_first:
  assumes "best < i" and "i + length cs = length all" and "drop i all = cs"
    and "\<And>j. j < best \<Longrightarrow> vb_votes (tn_value (all ! j)) < vb_votes (tn_value (all ! best))"
    and "\<And>j. j < i \<Longrightarrow> vb_votes (tn_value (all ! j)) \<le> vb_votes (tn_value (all ! best))"
    and "vb_votes (tn_value (all ! best)) = m"
    and depth: "\<And>j k. j < length all \<Longrightarrow> k < length all \<Longrightarrow> tn_depth root (pos @ [j]) = tn_depth root (pos @ [k])"
  shows "j < top_subtree root pos m best i cs \<Longrightarrow>
    vb_votes (tn_value (all ! j)) < vb_votes (tn_value (all ! top_subtree root pos m best i cs))"
  using assms(1-6)
proof (induction cs arbitrary: m best i)
  case (Cons c cs)
  have i: "i < length all" "c = all ! i" "drop (Suc i) all = cs"
    using Cons.prems by (simp_all, metis nth_via_drop, metis drop_Suc tl_drop list.sel(3))
  consider "vb_votes (tn_value c) \<le> m" | "m < vb_votes (tn_value c)" by force
  then show ?case
  proof cases
    case 1
    then have eq: "top_subtree root pos m best i (c # cs) = top_subtree root pos m best (Suc i) cs"
      using depth [of i best] Cons.prems(2) i by (auto simp: Let_def)
    show ?thesis
      using Cons.prems i 1 unfolding eq by (intro Cons.IH) (auto simp: less_Suc_eq)
  next
    case 2
    then have eq: "top_subtree root pos m best i (c # cs) = top_subtree root pos (vb_votes (tn_value c)) i (Suc i) cs"
      by (auto simp: Let_def)
    have lt: "vb_votes (tn_value (all ! j)) < vb_votes (tn_value (all ! i))" if "j < i" for j
      using that Cons.prems(6) [of j] Cons.prems(7) 2 i by fastforce
    show ?thesis
      using Cons.prems(1,3) i 2 lt unfolding eq
      by (intro Cons.IH) (auto simp: less_Suc_eq intro: less_imp_le)
  qed
qed simp

lemma tn_head_ghost:
  assumes at: "node_at root pos = Some (TreeNode v cs)" and ne: "cs \<noteq> []"
  shows "\<exists>i < length cs. tn_head root pos (TreeNode v cs) = tn_head root (pos @ [i]) (cs ! i)
    \<and> (\<forall>j < length cs. vb_votes (tn_value (cs ! j)) \<le> vb_votes (tn_value (cs ! i)))
    \<and> (\<forall>j < i. vb_votes (tn_value (cs ! j)) < vb_votes (tn_value (cs ! i)))"
proof -
  obtain c rest where cs: "cs = c # rest" using ne by (cases cs) auto
  let ?i = "top_subtree root pos 0 0 0 cs"
  have i: "?i = top_subtree root pos (vb_votes (tn_value c)) 0 1 rest"
    unfolding cs by (rule top_subtree_start)
  have "tn_depth root (pos @ [j]) = length pos + 1" if "j < length cs" for j
    using tn_depth_at [of root "pos @ [j]"] node_at_append [OF at] that by simp
  then have "\<forall>j < ?i. vb_votes (tn_value (cs ! j)) < vb_votes (tn_value (cs ! ?i))"
    unfolding i by (intro allI impI top_subtree_first) (auto simp: cs)
  moreover have "\<forall>j < length cs. vb_votes (tn_value (cs ! j)) \<le> vb_votes (tn_value (cs ! ?i))"
    unfolding i by (intro allI impI top_subtree_max) (auto simp: cs)
  moreover obtain i where "i < length cs" "i = ?i"
    "tn_head root pos (TreeNode v cs) = tn_head root (pos @ [i]) (cs ! i)"
    using tn_head_step [OF ne] by blast
  ultimately show ?thesis by (intro exI [of _ ?i]) auto
qed

end
