(* ===== verification/Rensa_Orphans.thy ===== *)
theory Rensa_Orphans
  imports Rensa_Block "HOL-Library.Multiset"
begin

text \<open>
  \<open>src/consensus/orphans.rs\<close>: blocks and votes whose parent or target has not arrived yet.

  \<open>Instant::now()\<close> is the argument \<open>now\<close> (nanoseconds of a monotonic clock). The source iterates over
  hash maps, in no particular order; the model iterates in the order of the association list, and
  the lemmas hold for every such list. \<open>on_insert\<close> answers \<open>None\<close> where the source gives the block back.
\<close>

datatype 'd orphan_node =
  ONode (on_at: nat) (on_block: "'d produced") (on_children: "(multihash \<times> 'd orphan_node) list")

section \<open>Orphan trees\<close>

definition on_new :: "nat \<Rightarrow> 'd produced \<Rightarrow> 'd orphan_node" where
  "on_new now b = ONode now b []"

text \<open>The function \<open>traverse\<close> inside \<open>max_height\<close> and its loop over the children.\<close>

fun on_traverse :: "'d orphan_node \<Rightarrow> u64 \<Rightarrow> u64"
  and on_traverse_children :: "(multihash \<times> 'd orphan_node) list \<Rightarrow> u64 \<Rightarrow> u64" where
  "on_traverse (ONode at b cs) sofar = max (on_traverse_children cs sofar) (bl_height b)"
| "on_traverse_children [] sofar = sofar"
| "on_traverse_children ((k, child) # cs) sofar =
     on_traverse_children cs (max (on_traverse child sofar) sofar)"

definition on_max_height :: "'d orphan_node \<Rightarrow> u64" where
  "on_max_height n = on_traverse_children (on_children n) (bl_height (on_block n))"

fun on_insert :: "'d block_params \<Rightarrow> nat \<Rightarrow> 'd produced \<Rightarrow> 'd orphan_node \<Rightarrow> 'd orphan_node option"
  and on_insert_any :: "'d block_params \<Rightarrow> nat \<Rightarrow> 'd produced \<Rightarrow> (multihash \<times> 'd orphan_node) list
     \<Rightarrow> (multihash \<times> 'd orphan_node) list option" where
  "on_insert p now new (ONode at b cs) =
     (if bl_height new \<le> bl_height b then None
      else if bl_parent new = block_hash p b
        then Some (ONode at b
               (if map_of cs (block_hash p new) = None then hm_insert (block_hash p new) (on_new now new) cs else cs))
      else case on_insert_any p now new cs of None \<Rightarrow> None | Some cs' \<Rightarrow> Some (ONode at b cs'))"
| "on_insert_any p now new [] = None"
| "on_insert_any p now new ((k, n) # cs) =
     (case on_insert p now new n of
        Some n' \<Rightarrow> Some ((k, n') # cs)
      | None \<Rightarrow> (case on_insert_any p now new cs of None \<Rightarrow> None | Some cs' \<Rightarrow> Some ((k, n) # cs')))"

definition on_since :: "nat \<Rightarrow> 'd orphan_node \<Rightarrow> nat" where
  "on_since now n = now - on_at n"

definition on_reset_timer :: "nat \<Rightarrow> 'd orphan_node \<Rightarrow> 'd orphan_node" where
  "on_reset_timer now n = ONode now (on_block n) (on_children n)"

fun on_count :: "'d orphan_node \<Rightarrow> nat" where
  "on_count (ONode at b cs) = Suc (sum_list (map (\<lambda>(k, n). on_count n) cs))"

text \<open>
  The loop of \<open>flatten\<close>. The queue is listed from its back, where \<open>pop_back\<close> takes the next node, to
  its front, where \<open>push_front\<close> adds the children one by one.
\<close>

function flatten_loop :: "'d orphan_node list \<Rightarrow> 'd produced list" where
  "flatten_loop [] = []"
| "flatten_loop (ONode at b cs # queue) = b # flatten_loop (queue @ map snd cs)"
  by pat_completeness auto
termination
proof (relation "measure (\<lambda>q. sum_list (map on_count q))")
  fix at and b :: "'d produced" and cs queue
  show "(queue @ map snd cs, ONode at b cs # queue) \<in> measure (\<lambda>q. sum_list (map on_count q))"
    by (simp add: comp_def case_prod_unfold)
qed simp

definition on_flatten :: "'d orphan_node \<Rightarrow> 'd produced list" where
  "on_flatten n = flatten_loop [n]"

section \<open>The collection of orphans\<close>

record 'd orphans =
  or_timeout :: nat
  or_blocks :: "(multihash, 'd orphan_node) hash_map"
  or_votes :: "(multihash, vote list) hash_map"

definition orphans_new :: "nat \<Rightarrow> 'd orphans" where
  "orphans_new timeout = \<lparr>or_timeout = timeout, or_blocks = [], or_votes = []\<rparr>"

definition orphans_add_vote :: "vote \<Rightarrow> 'd orphans \<Rightarrow> 'd orphans" where
  "orphans_add_vote v os =
     (case map_of (or_votes os) (vote_target v) of
        Some vs \<Rightarrow> os\<lparr>or_votes := hm_insert (vote_target v) (vs @ [v]) (or_votes os)\<rparr>
      | None \<Rightarrow> os\<lparr>or_votes := hm_insert (vote_target v) [v] (or_votes os)\<rparr>)"

definition orphans_add_block :: "'d block_params \<Rightarrow> nat \<Rightarrow> 'd produced \<Rightarrow> 'd orphans \<Rightarrow> 'd orphans" where
  "orphans_add_block p now b os =
     (case on_insert_any p now b (or_blocks os) of
        Some blocks \<Rightarrow> os\<lparr>or_blocks := blocks\<rparr>
      | None \<Rightarrow>
          if map_of (or_blocks os) (bl_parent b) = None
          then os\<lparr>or_blocks := hm_insert (bl_parent b) (on_new now b) (or_blocks os)\<rparr>
          else os)"

definition consume_votes :: "multihash \<Rightarrow> 'd orphans \<Rightarrow> vote list option \<times> 'd orphans" where
  "consume_votes h os = (map_of (or_votes os) h, os\<lparr>or_votes := hm_remove h (or_votes os)\<rparr>)"

definition consume_blocks :: "multihash \<Rightarrow> 'd orphans \<Rightarrow> 'd produced list option \<times> 'd orphans" where
  "consume_blocks h os =
     (map_option on_flatten (map_of (or_blocks os) h), os\<lparr>or_blocks := hm_remove h (or_blocks os)\<rparr>)"

text \<open>The loop of \<open>missing_blocks\<close>: the blocks with their timers reset, the missing hashes, the irrelevant ones.\<close>

fun missing_loop ::
    "nat \<Rightarrow> nat \<Rightarrow> u64 \<Rightarrow> (multihash \<times> 'd orphan_node) list
     \<Rightarrow> (multihash \<times> 'd orphan_node) list \<times> multihash list \<times> multihash list" where
  "missing_loop timeout now min_height [] = ([], [], [])"
| "missing_loop timeout now min_height ((h, subtree) # rest) =
     (case missing_loop timeout now min_height rest of
        (blocks, output, irrelevant) \<Rightarrow>
          if on_max_height subtree \<le> min_height then ((h, subtree) # blocks, output, h # irrelevant)
          else if on_since now subtree \<ge> timeout
            then ((h, on_reset_timer now subtree) # blocks, h # output, irrelevant)
          else ((h, subtree) # blocks, output, irrelevant))"

definition missing_blocks :: "nat \<Rightarrow> u64 \<Rightarrow> 'd orphans \<Rightarrow> multihash list \<times> 'd orphans" where
  "missing_blocks now min_relevant_height os =
     (case missing_loop (or_timeout os) now min_relevant_height (or_blocks os) of
        (blocks, output, irrelevant) \<Rightarrow> (output, os\<lparr>or_blocks := fold hm_remove irrelevant blocks\<rparr>))"

section \<open>Counting orphans\<close>

definition blocks_count :: "(multihash \<times> 'd orphan_node) list \<Rightarrow> nat" where
  "blocks_count bs = sum_list (map (\<lambda>(k, n). on_count n) bs)"

definition orphan_count :: "'d orphans \<Rightarrow> nat" where
  "orphan_count os = blocks_count (or_blocks os)"

lemma blocks_count_simps [simp]:
  "blocks_count [] = 0"
  "blocks_count ((k, n) # bs) = on_count n + blocks_count bs"
  by (simp_all add: blocks_count_def)

lemma on_count_eq: "on_count (ONode at b cs) = Suc (blocks_count cs)"
  by (simp add: blocks_count_def)

declare on_count.simps [simp del]

lemmas on_count_simps [simp] = on_count_eq

lemma blocks_count_insert: "map_of bs k = None \<Longrightarrow> blocks_count (hm_insert k n bs) = blocks_count bs + on_count n"
  unfolding hm_insert_def by (induction bs) (auto split: if_splits)

lemma blocks_count_remove:
  "map_of bs k = Some n \<Longrightarrow> on_count n + blocks_count (hm_remove k bs) \<le> blocks_count bs"
  "blocks_count (hm_remove k bs) \<le> blocks_count bs"
proof -
  show le: "blocks_count (hm_remove k bs) \<le> blocks_count bs" for bs :: "(multihash \<times> 'a orphan_node) list"
    unfolding hm_remove_def by (induction bs) auto
  show "map_of bs k = Some n \<Longrightarrow> on_count n + blocks_count (hm_remove k bs) \<le> blocks_count bs"
    using le unfolding hm_remove_def
    by (induction bs) (force split: if_splits)+
qed

lemma on_insert_count:
  "on_insert p now new n = Some n' \<Longrightarrow> on_count n' \<le> Suc (on_count n)"
  "on_insert_any p now new bs = Some bs' \<Longrightarrow> blocks_count bs' \<le> Suc (blocks_count bs)"
  by (induction p now new n and p now new bs arbitrary: n' and bs' rule: on_insert_on_insert_any.induct)
    (auto simp: blocks_count_insert on_new_def split: if_splits option.splits)

lemma orphan_count_add: "orphan_count (orphans_add_block p now b os) \<le> Suc (orphan_count os)"
  by (auto simp: orphans_add_block_def orphan_count_def blocks_count_insert on_new_def
      dest: on_insert_count(2) split: option.splits)

lemma length_flatten: "length (flatten_loop q) = sum_list (map on_count q)"
  by (induction q rule: flatten_loop.induct) (auto simp: blocks_count_def comp_def case_prod_unfold)

lemma orphan_count_consume:
  "consume_blocks h os = (Some bs, os') \<Longrightarrow> length bs + orphan_count os' \<le> orphan_count os"
  "consume_blocks h os = (r, os') \<Longrightarrow> orphan_count os' \<le> orphan_count os"
  by (auto simp: consume_blocks_def orphan_count_def on_flatten_def length_flatten blocks_count_remove)

section \<open>Order of the flattened blocks\<close>

text \<open>Every child is keyed by its hash, has its node as parent and is higher.\<close>

fun on_linked :: "'d block_params \<Rightarrow> 'd orphan_node \<Rightarrow> bool" where
  "on_linked p (ONode at b cs) \<longleftrightarrow>
     (\<forall>(k, c) \<in> set cs. k = block_hash p (on_block c) \<and> bl_parent (on_block c) = block_hash p b
        \<and> bl_height b < bl_height (on_block c) \<and> on_linked p c)"

definition orphans_invar :: "'d block_params \<Rightarrow> 'd orphans \<Rightarrow> bool" where
  "orphans_invar p os \<longleftrightarrow>
     hm_invar (or_blocks os) \<and> (\<forall>(k, n) \<in> set (or_blocks os). k = bl_parent (on_block n) \<and> on_linked p n)"

text \<open>Each block's parent is known or comes before it.\<close>

fun parents_first :: "'d block_params \<Rightarrow> multihash set \<Rightarrow> 'd produced list \<Rightarrow> bool" where
  "parents_first p known [] = True"
| "parents_first p known (b # bs) \<longleftrightarrow>
     bl_parent b \<in> known \<and> parents_first p (insert (block_hash p b) known) bs"

lemma parents_first_flatten:
  "(\<forall>n \<in> set q. on_linked p n \<and> bl_parent (on_block n) \<in> known) \<Longrightarrow> parents_first p known (flatten_loop q)"
proof (induction q arbitrary: known rule: flatten_loop.induct)
  case (2 at b cs queue)
  have "parents_first p (insert (block_hash p b) known) (flatten_loop (queue @ map snd cs))"
    using 2(2) by (intro 2(1)) fastforce
  with 2(2) show ?case by simp
qed simp

lemma set_hm_insert: "x \<in> set (hm_insert k v m) \<Longrightarrow> x = (k, v) \<or> x \<in> set m"
  unfolding hm_insert_def by (induction m) (auto split: if_splits)

lemma set_hm_remove: "x \<in> set (hm_remove k m) \<Longrightarrow> x \<in> set m"
  unfolding hm_remove_def by (induction m) (auto split: if_splits)

lemma set_fold_hm_remove: "set (fold hm_remove ks m) \<subseteq> set m"
  by (induction ks arbitrary: m) (use set_hm_remove in fastforce)+

lemma on_insert_linked:
  "on_linked p n \<Longrightarrow> on_insert p now new n = Some n' \<Longrightarrow> on_linked p n' \<and> on_block n' = on_block n"
  "(\<forall>(k, n) \<in> set bs. on_linked p n) \<Longrightarrow> on_insert_any p now new bs = Some bs' \<Longrightarrow>
     map (\<lambda>(k, n). (k, on_block n)) bs' = map (\<lambda>(k, n). (k, on_block n)) bs \<and> (\<forall>(k, n) \<in> set bs'. on_linked p n)"
proof (induction p now new n and p now new bs arbitrary: n' and bs' rule: on_insert_on_insert_any.induct)
  case (1 p now new at b cs)
  show ?case
  proof (cases "bl_parent new = block_hash p b")
    case True
    with 1 show ?thesis
      by (auto simp: on_new_def not_le split: if_splits dest!: set_hm_insert)
  next
    case False
    with 1(3) obtain cs' where cs': "on_insert_any p now new cs = Some cs'" "n' = ONode at b cs'"
      and h: "\<not> bl_height new \<le> bl_height b"
      by (auto split: if_splits option.splits)
    then have *: "map (\<lambda>(k, n). (k, on_block n)) cs' = map (\<lambda>(k, n). (k, on_block n)) cs"
        "\<forall>(k, n) \<in> set cs'. on_linked p n"
      using 1(1) [OF h False _ cs'(1)] 1(2) by auto
    have "\<exists>c'. (k, c') \<in> set cs \<and> on_block c' = on_block c" if "(k, c) \<in> set cs'" for k c
    proof -
      from that have "(k, on_block c) \<in> set (map (\<lambda>(k, n). (k, on_block n)) cs')" by force
      then show ?thesis unfolding *(1) by force
    qed
    with *(2) 1(2) cs'(2) show ?thesis by fastforce
  qed
qed (auto split: option.splits)

lemma orphans_invar_add:
  assumes "orphans_invar p os"
  shows "orphans_invar p (orphans_add_block p now b os)"
proof (cases "on_insert_any p now b (or_blocks os)")
  case None
  with assms show ?thesis
    by (auto simp: orphans_add_block_def orphans_invar_def hm_invar_insert on_new_def dest!: set_hm_insert)
next
  case (Some bs)
  have *: "map (\<lambda>(k, n). (k, on_block n)) bs = map (\<lambda>(k, n). (k, on_block n)) (or_blocks os)"
    "\<forall>(k, n) \<in> set bs. on_linked p n"
    using on_insert_linked(2) [OF _ Some] assms by (auto simp: orphans_invar_def)
  have "map fst bs = map fst (or_blocks os)"
    using arg_cong [OF *(1), of "map fst"] by (simp add: comp_def case_prod_unfold)
  then have "hm_invar bs" using assms by (simp add: hm_invar_def orphans_invar_def)
  moreover have "k = bl_parent (on_block c)" if "(k, c) \<in> set bs" for k c
  proof -
    from that have "(k, on_block c) \<in> set (map (\<lambda>(k, n). (k, on_block n)) bs)" by force
    then show ?thesis using assms unfolding *(1) by (auto simp: orphans_invar_def)
  qed
  ultimately show ?thesis using *(2) Some by (auto simp: orphans_add_block_def orphans_invar_def)
qed

lemma orphans_invar_consume:
  "orphans_invar p os \<Longrightarrow> orphans_invar p (snd (consume_blocks h os))"
  by (auto simp: consume_blocks_def orphans_invar_def hm_invar_remove dest!: set_hm_remove)

lemma orphans_invar_votes [simp]:
  "orphans_invar p (os\<lparr>or_votes := vs\<rparr>) = orphans_invar p os"
  by (simp add: orphans_invar_def)

lemma consume_blocks_parents_first:
  assumes "orphans_invar p os" and "consume_blocks h os = (Some bs, os')"
  shows "parents_first p {h} bs"
proof -
  obtain n where n: "map_of (or_blocks os) h = Some n" "bs = on_flatten n"
    using assms(2) by (auto simp: consume_blocks_def)
  then have "(h, n) \<in> set (or_blocks os)" by (simp add: map_of_SomeD)
  with assms(1) have "on_linked p n" "bl_parent (on_block n) = h" by (auto simp: orphans_invar_def)
  then show ?thesis unfolding n(2) on_flatten_def by (intro parents_first_flatten) simp
qed

lemma missing_loop_blocks:
  "missing_loop timeout now m bs = (bs', out, irr) \<Longrightarrow>
     map (\<lambda>(k, n). (k, on_block n, on_children n)) bs' = map (\<lambda>(k, n). (k, on_block n, on_children n)) bs"
  by (induction timeout now m bs arbitrary: bs' out irr rule: missing_loop.induct)
    (auto simp: on_reset_timer_def split: prod.splits if_splits)

lemma on_linked_cong:
  "on_block n' = on_block n \<Longrightarrow> on_children n' = on_children n \<Longrightarrow> on_linked p n' = on_linked p n"
  by (cases n; cases n') auto

lemma orphans_invar_missing:
  assumes "orphans_invar p os"
  shows "orphans_invar p (snd (missing_blocks now m os))"
proof -
  obtain bs out irr where loop: "missing_loop (or_timeout os) now m (or_blocks os) = (bs, out, irr)"
    by (cases "missing_loop (or_timeout os) now m (or_blocks os)") auto
  note eq = missing_loop_blocks [OF loop]
  have "map fst bs = map fst (or_blocks os)"
    using arg_cong [OF eq, of "map fst"] by (simp add: comp_def case_prod_unfold)
  then have "hm_invar bs" using assms by (simp add: hm_invar_def orphans_invar_def)
  moreover have "k = bl_parent (on_block n) \<and> on_linked p n" if "(k, n) \<in> set bs" for k n
  proof -
    from that have "(k, on_block n, on_children n) \<in> set (map (\<lambda>(k, n). (k, on_block n, on_children n)) bs)" by force
    then obtain n' where "(k, n') \<in> set (or_blocks os)" "on_block n = on_block n'" "on_children n = on_children n'"
      unfolding eq by auto
    then show ?thesis using assms on_linked_cong by (fastforce simp: orphans_invar_def)
  qed
  moreover have "set (fold hm_remove irr bs) \<subseteq> set bs"
    by (rule set_fold_hm_remove)
  ultimately show ?thesis
    by (fastforce simp: missing_blocks_def loop orphans_invar_def hashmap.invar_fold_del)
qed

end
