(* ===== verification/Rensa_Chain.thy ===== *)
theory Rensa_Chain
  imports Rensa_Float Rensa_Forktree Rensa_Orphans
begin

text \<open>
  \<open>src/consensus/chain.rs\<close> and \<open>Finalized\<close> of \<open>src/vm/state.rs\<close>: the consensus state of a validator.

  \<open>chain_cfg\<close> holds what a chain is created with and never changes: the genesis block, the execution
  of a payload by the virtual machine (\<open>None\<close> is a panic or divergence), and the state store \<open>'s\<close> with
  its \<open>get\<close> and \<open>apply\<close> (\<open>None\<close> is a storage error, on which the source panics). The \<open>chain\<close> record holds
  the mutable fields. A node of the forest is the index of its tree and its position in the tree.
  Operations that may panic return an option. The log messages are left out.
\<close>

section \<open>State\<close>

datatype 'd chain_event =
    Vote multihash multihash                  \<comment> \<open>target, justification\<close>
  | BlockDiscarded "'d produced"
  | BlockMissing multihash
  | BlockIncluded "'d executed"
  | BlockConfirmed "'d executed" u64
  | BlockFinalized "'d executed" u64

record ('d, 's) chain_cfg =
  cfg_params :: "'d block_params"
  cfg_genesis :: genesis
  cfg_run :: "state_view \<Rightarrow> 'd \<Rightarrow> (machine_error, block_output) comp"
  cfg_store_get :: "'s \<Rightarrow> state_view"
  cfg_store_apply :: "state_diff \<Rightarrow> 's \<Rightarrow> 's option"

record ('d, 's) chain =
  ch_stakes :: "(pubkey, u64) hash_map"
  ch_finalized :: "'d any_block"
  ch_store :: 's
  ch_forktrees :: "'d tree_node list"
  ch_orphans :: "'d orphans"
  ch_ownvotes :: "(u64, multihash \<times> multihash) hash_map"
  ch_events :: "'d chain_event list"
  ch_finalized_history :: "(u64, multihash set) hash_map"

abbreviation cfg_limits :: "('d, 's) chain_cfg \<Rightarrow> limits" where
  "cfg_limits cfg \<equiv> g_limits (cfg_genesis cfg)"

abbreviation cfg_crypto :: "('d, 's) chain_cfg \<Rightarrow> crypto" where
  "cfg_crypto cfg \<equiv> bp_crypto (cfg_params cfg)"

abbreviation finalized_hash :: "('d, 's) chain_cfg \<Rightarrow> ('d, 's) chain \<Rightarrow> multihash" where
  "finalized_hash cfg ch \<equiv> any_hash (cfg_params cfg) (ch_finalized ch)"

abbreviation finalized_height :: "('d, 's) chain \<Rightarrow> u64" where
  "finalized_height ch \<equiv> any_height (ch_finalized ch)"

abbreviation finalized_state :: "('d, 's) chain_cfg \<Rightarrow> ('d, 's) chain \<Rightarrow> state_view" where
  "finalized_state cfg ch \<equiv> cfg_store_get cfg (ch_store ch)"

definition push_front :: "'d chain_event \<Rightarrow> ('d, 's) chain \<Rightarrow> ('d, 's) chain" where
  "push_front e ch = ch\<lparr>ch_events := e # ch_events ch\<rparr>"

text \<open>
  \<open>Chain::new\<close>; the epoch duration is a \<open>Duration\<close>, whose product with a \<open>u32\<close> panics when it exceeds
  \<open>2^64\<close> seconds.
\<close>

definition genesis_stakes :: "genesis \<Rightarrow> (pubkey, u64) hash_map" where
  "genesis_stakes g = fold (\<lambda>v. hm_insert (val_pubkey v) (val_stake v)) (g_validators g) []"

definition chain_new :: "('d, 's) chain_cfg \<Rightarrow> 'd any_block \<Rightarrow> 's \<Rightarrow> ('d, 's) chain option" where
  "chain_new cfg finalized store =
     (let g = cfg_genesis cfg;
          epoch_duration = g_slot_interval g * (unat (g_epoch_blocks g) mod 2 ^ 32)
      in if epoch_duration \<ge> 2 ^ 64 * 10 ^ 9 then None
         else Some \<lparr>ch_stakes = genesis_stakes g, ch_finalized = finalized, ch_store = store,
                    ch_forktrees = [], ch_orphans = orphans_new epoch_duration, ch_ownvotes = [],
                    ch_events = [], ch_finalized_history = []\<rparr>)"

section \<open>Queries\<close>

abbreviation node_ref :: "'d tree_node \<Rightarrow> position \<Rightarrow> 'd tree_node" where
  "node_ref root pos \<equiv> hd (tn_path root pos)"

text \<open>
  \<open>with_head\<close> gives its closure the state and the block of the head: the heads of all trees sorted
  (\<open>sort_by\<close> is stable) by votes, then by depth; the last one wins.
\<close>

definition sorted_heads :: "('d, 's) chain \<Rightarrow> ('d tree_node \<times> position) list" where
  "sorted_heads ch =
     sort_key (\<lambda>(root, pos). (vb_votes (tn_value (node_ref root pos)), tn_depth root pos))
       (map (\<lambda>root. (root, tn_head root [] root)) (ch_forktrees ch))"

definition with_head :: "('d, 's) chain_cfg \<Rightarrow> ('d, 's) chain \<Rightarrow> state_view \<times> 'd any_block" where
  "with_head cfg ch =
     (let heads = sorted_heads ch
      in if heads = [] then (finalized_state cfg ch, ch_finalized ch)
         else case last heads of (root, pos) \<Rightarrow>
           (overlayed_get (finalized_state cfg ch) (tn_state root pos),
            ProducedBlock (vb_produced (tn_value (node_ref root pos)))))"

definition total_stake :: "('d, 's) chain_cfg \<Rightarrow> ('d, 's) chain \<Rightarrow> u64" where
  "total_stake cfg ch =
     fold (\<lambda>(_, s) a. a + s) (filter (\<lambda>(_, s). s \<ge> minimum_stake (cfg_limits cfg)) (ch_stakes ch)) 0"

definition minimum_majority_stake :: "('d, 's) chain_cfg \<Rightarrow> ('d, 's) chain \<Rightarrow> u64" where
  "minimum_majority_stake cfg ch = f64_majority (total_stake cfg ch)"

text \<open>\<open>epoch\<close>; \<open>None\<close> is the division by zero.\<close>

definition epoch :: "('d, 's) chain_cfg \<Rightarrow> u64 \<Rightarrow> u64 option" where
  "epoch cfg height =
     (if g_epoch_blocks (cfg_genesis cfg) = 0 then None
      else Some (height div g_epoch_blocks (cfg_genesis cfg)))"

definition confirmed :: "('d, 's) chain_cfg \<Rightarrow> ('d, 's) chain \<Rightarrow> 'd volatile_block \<Rightarrow> bool" where
  "confirmed cfg ch v \<longleftrightarrow> vb_votes v \<ge> minimum_majority_stake cfg ch"

text \<open>The loop \<open>for root in &self.forktrees { if let Some(node) = root.get(hash) ... }\<close>.\<close>

fun forest_get :: "'d block_params \<Rightarrow> multihash \<Rightarrow> nat \<Rightarrow> 'd tree_node list \<Rightarrow> (nat \<times> position) option" where
  "forest_get p h i [] = None"
| "forest_get p h i (root # rest) =
     (case tn_get p h root of Some pos \<Rightarrow> Some (i, pos) | None \<Rightarrow> forest_get p h (Suc i) rest)"

definition get_block_node :: "('d, 's) chain_cfg \<Rightarrow> ('d, 's) chain \<Rightarrow> multihash \<Rightarrow> 'd any_block option" where
  "get_block_node cfg ch h =
     (case forest_get (cfg_params cfg) h 0 (ch_forktrees ch) of
        Some (i, pos) \<Rightarrow> Some (ProducedBlock (vb_produced (tn_value (node_ref (ch_forktrees ch ! i) pos))))
      | None \<Rightarrow> if finalized_hash cfg ch = h then Some (ch_finalized ch) else None)"

definition chain_get :: "('d, 's) chain_cfg \<Rightarrow> ('d, 's) chain \<Rightarrow> multihash \<Rightarrow> 'd executed option" where
  "chain_get cfg ch h =
     (case forest_get (cfg_params cfg) h 0 (ch_forktrees ch) of
        Some (i, pos) \<Rightarrow> Some (vb_block (tn_value (node_ref (ch_forktrees ch ! i) pos)))
      | None \<Rightarrow> None)"

definition in_finalized_history :: "('d, 's) chain_cfg \<Rightarrow> ('d, 's) chain \<Rightarrow> multihash \<Rightarrow> bool" where
  "in_finalized_history cfg ch h \<longleftrightarrow>
     finalized_hash cfg ch = h
     \<or> list_ex (\<lambda>(_, e). h \<in> e) (ch_finalized_history ch)
     \<or> (length (ch_finalized_history ch) < unat (max_justification_age (cfg_limits cfg))
        \<and> h = genesis_hash (cfg_crypto cfg) (cfg_genesis cfg))"

section \<open>Votes\<close>

text \<open>
  The blocks of the path that were not confirmed before the vote and are confirmed after it. The
  source keeps pointers to the first and reads them again; here the two readings are \<open>old\<close> and \<open>new\<close>.
\<close>

definition newly_confirmed ::
    "('d, 's) chain_cfg \<Rightarrow> ('d, 's) chain \<Rightarrow> 'd volatile_block list \<Rightarrow> 'd volatile_block list \<Rightarrow> 'd volatile_block list" where
  "newly_confirmed cfg ch old new =
     map snd (filter (\<lambda>(a, b). \<not> confirmed cfg ch a \<and> confirmed cfg ch b) (zip old new))"

definition injest_vote :: "('d, 's) chain_cfg \<Rightarrow> vote \<Rightarrow> ('d, 's) chain \<Rightarrow> ('d, 's) chain" where
  "injest_vote cfg v ch =
     (case map_of (ch_stakes ch) (vote_validator v) of
        None \<Rightarrow> ch
      | Some stake \<Rightarrow>
          if stake < minimum_stake (cfg_limits cfg) then ch
          else if \<not> vote_verify_signature (cfg_crypto cfg) v then ch
          else case forest_get (cfg_params cfg) (vote_target v) 0 (ch_forktrees ch) of
                 Some (i, pos) \<Rightarrow>
                   let root = ch_forktrees ch ! i
                   in if \<not> in_finalized_history cfg ch (vote_justification v)
                         \<and> \<not> is_descendant_of (cfg_params cfg) root pos (vote_justification v) then ch
                      else let root' = add_votes stake (vote_validator v) root pos;
                               confirmations = newly_confirmed cfg ch
                                 (map tn_value (tn_path root pos)) (map tn_value (tn_path root' pos))
                           in ch\<lparr>ch_forktrees := (ch_forktrees ch)[i := root'],
                                 ch_events := ch_events ch
                                   @ map (\<lambda>b. BlockConfirmed (vb_block b) (vb_votes b)) confirmations\<rparr>
               | None \<Rightarrow> ch\<lparr>ch_orphans := orphans_add_vote v (ch_orphans ch)\<rparr>)"

definition count_votes :: "('d, 's) chain_cfg \<Rightarrow> vote list \<Rightarrow> ('d, 's) chain \<Rightarrow> ('d, 's) chain" where
  "count_votes cfg votes ch = fold (injest_vote cfg) votes ch"

section \<open>Including blocks\<close>

text \<open>
  \<open>try_include\<close>: \<open>ret (None, ch')\<close> when the block was consumed, \<open>ret (Some block, ch)\<close> when it has no
  parent yet.
\<close>

definition try_include ::
    "('d, 's) chain_cfg \<Rightarrow> 'd produced \<Rightarrow> ('d, 's) chain \<Rightarrow> (machine_error, 'd produced option \<times> ('d, 's) chain) comp" where
  "try_include cfg b ch =
     (let p = cfg_params cfg
      in if get_block_node cfg ch (block_hash p b) \<noteq> None then ret (None, ch)
         else if bl_parent b = finalized_hash cfg ch then
           (if bl_height b \<noteq> finalized_height ch + 1 then throw InvalidBlockHeight
            else bind_comp (executed_new (cfg_crypto cfg) (cfg_run cfg) (finalized_state cfg ch) b) (\<lambda>e.
              ret (None, push_front (BlockIncluded e)
                           (ch\<lparr>ch_forktrees := ch_forktrees ch @ [tn_new (volatile_new e)]\<rparr>))))
         else case forest_get p (bl_parent b) 0 (ch_forktrees ch) of
                None \<Rightarrow> ret (Some b, ch)
              | Some (i, pos) \<Rightarrow>
                  let root = ch_forktrees ch ! i; parent = node_ref root pos
                  in if bl_height b \<noteq> bl_height (vb_produced (tn_value parent)) + 1 then throw InvalidBlockHeight
                     else bind_comp (executed_new (cfg_crypto cfg) (cfg_run cfg)
                            (overlayed_get (finalized_state cfg ch) (tn_state root pos)) b) (\<lambda>e.
                       case add_child p root pos (volatile_new e) of
                         None \<Rightarrow> None
                       | Some root' \<Rightarrow>
                           ret (None, push_front (BlockIncluded e)
                                  (ch\<lparr>ch_forktrees := (ch_forktrees ch)[i := root']\<rparr>))))"

definition commit_and_vote :: "('d, 's) chain_cfg \<Rightarrow> multihash \<Rightarrow> ('d, 's) chain \<Rightarrow> ('d, 's) chain option" where
  "commit_and_vote cfg target ch =
     (case forest_get (cfg_params cfg) target 0 (ch_forktrees ch) of
        None \<Rightarrow> Some ch
      | Some (i, pos) \<Rightarrow>
          let root = ch_forktrees ch ! i; b = vb_produced (tn_value (node_ref root pos))
          in (case epoch cfg (bl_height b) of
                None \<Rightarrow> None
              | Some ep \<Rightarrow>
                  let justification_hash = finalized_hash cfg ch; target_hash = block_hash (cfg_params cfg) b;
                      refused = (case map_of (ch_ownvotes ch) ep of
                          None \<Rightarrow> False
                        | Some (j, t) \<Rightarrow>
                            (j \<noteq> justification_hash \<and> \<not> in_finalized_history cfg ch j)
                            \<or> \<not> is_descendant_of (cfg_params cfg) root pos t)
                  in Some (if refused then ch
                           else push_front (Vote target_hash justification_hash)
                                  (ch\<lparr>ch_ownvotes := hm_insert ep (justification_hash, target_hash) (ch_ownvotes ch)\<rparr>))))"

text \<open>
  \<open>include\<close> on one block. It returns the consumed orphans, which the source then includes one by
  one, each with everything it releases before the next.
\<close>

definition include_one ::
    "('d, 's) chain_cfg \<Rightarrow> nat \<Rightarrow> 'd produced \<Rightarrow> ('d, 's) chain \<Rightarrow> ('d produced list \<times> ('d, 's) chain) option" where
  "include_one cfg now b ch =
     (case map_of (ch_stakes ch) (fst (bl_signature b)) of
        None \<Rightarrow> Some ([], ch)
      | Some stake \<Rightarrow>
          if stake < minimum_stake (cfg_limits cfg) then Some ([], ch)
          else if bl_height b \<le> finalized_height ch then Some ([], ch)
          else if \<not> block_verify_signature (cfg_params cfg) b then Some ([], ch)
          else let bhash = block_hash (cfg_params cfg) b
               in case try_include cfg b ch of
                    None \<Rightarrow> None
                  | Some (Inl vmerror) \<Rightarrow> Some ([], ch)
                  | Some (Inr (Some b', ch')) \<Rightarrow>
                      Some ([], ch'\<lparr>ch_orphans := orphans_add_block (cfg_params cfg) now b' (ch_orphans ch')\<rparr>)
                  | Some (Inr (None, ch')) \<Rightarrow>
                      (case (if bhash = any_hash (cfg_params cfg) (snd (with_head cfg ch'))
                             then commit_and_vote cfg bhash ch' else Some ch') of
                         None \<Rightarrow> None
                       | Some ch'' \<Rightarrow>
                           (case consume_blocks bhash (ch_orphans ch'') of (orphans, os') \<Rightarrow>
                              Some (case orphans of Some bs \<Rightarrow> bs | None \<Rightarrow> [], ch''\<lparr>ch_orphans := os'\<rparr>))))"

lemma commit_and_vote_orphans:
  "commit_and_vote cfg h ch = Some ch' \<Longrightarrow> ch_orphans ch' = ch_orphans ch"
  by (auto simp: commit_and_vote_def push_front_def Let_def split: option.splits if_splits)

lemma try_include_orphans: "try_include cfg b ch = ret (r, ch') \<Longrightarrow> ch_orphans ch' = ch_orphans ch"
  unfolding try_include_def
  by (auto simp: Let_def push_front_def elim!: bind_retE split: if_split_asm option.split_asm)

lemma include_one_orphans:
  assumes "include_one cfg now b ch = Some (bs, ch')"
  shows "orphan_count (ch_orphans ch') + length bs < Suc (orphan_count (ch_orphans ch))
    \<or> bs = [] \<and> orphan_count (ch_orphans ch') = Suc (orphan_count (ch_orphans ch))"
proof -
  have add: "orphan_count (orphans_add_block p now b' os) \<le> orphan_count os
      \<or> orphan_count (orphans_add_block p now b' os) = Suc (orphan_count os)" for p b' and os :: "'a orphans"
    using orphan_count_add [of p now b' os] by linarith
  show ?thesis
    using assms unfolding include_one_def
    by (auto simp: Let_def less_Suc_eq_le add.commute dest!: try_include_orphans commit_and_vote_orphans
        dest: orphan_count_consume split: option.split_asm if_split_asm sum.split_asm prod.split_asm)
      (use add in blast)
qed

text \<open>The recursion of \<open>include\<close> as a worklist: the orphans a block releases go before the rest.\<close>

function include_all ::
    "('d, 's) chain_cfg \<Rightarrow> nat \<Rightarrow> 'd produced list \<Rightarrow> ('d, 's) chain \<Rightarrow> ('d, 's) chain option" where
  "include_all cfg now [] ch = Some ch"
| "include_all cfg now (b # rest) ch =
     (case include_one cfg now b ch of
        None \<Rightarrow> None
      | Some (orphans, ch') \<Rightarrow> include_all cfg now (orphans @ rest) ch')"
  by pat_completeness auto
termination
proof (relation "measures [\<lambda>(cfg, now, bs, ch). orphan_count (ch_orphans ch) + length bs, \<lambda>(cfg, now, bs, ch). length bs]")
  fix cfg :: "('d, 's) chain_cfg" and now b rest and ch :: "('d, 's) chain" and r bs ch'
  assume "include_one cfg now b ch = Some r" and "(bs, ch') = r"
  then show "((cfg, now, bs @ rest, ch'), cfg, now, b # rest, ch) \<in>
      measures [\<lambda>(cfg, now, bs, ch). orphan_count (ch_orphans ch) + length bs, \<lambda>(cfg, now, bs, ch). length bs]"
    using include_one_orphans [of cfg now b ch bs ch'] by auto
qed simp

definition include_block :: "('d, 's) chain_cfg \<Rightarrow> nat \<Rightarrow> 'd produced \<Rightarrow> ('d, 's) chain \<Rightarrow> ('d, 's) chain option" where
  "include_block cfg now b ch = include_all cfg now [b] ch"

section \<open>Finalization\<close>

text \<open>
  The body of the loop of \<open>find_finalizable_root\<close> on one root: \<open>Some True\<close> when the two epoch
  checkpoints below the head's epoch are confirmed, \<open>None\<close> when a division by zero panics. The parent
  \<open>path().nth(1)\<close> of a position that is not a root is \<open>butlast\<close>.
\<close>

definition checkpoints_confirmed :: "('d, 's) chain_cfg \<Rightarrow> ('d, 's) chain \<Rightarrow> 'd tree_node \<Rightarrow> bool option" where
  "checkpoints_confirmed cfg ch root =
     (let p = cfg_params cfg; epoch_blocks = g_epoch_blocks (cfg_genesis cfg);
          votes_at = (\<lambda>pos. vb_votes (tn_value (node_ref root pos)))
      in case epoch_start p epoch_blocks root (tn_head root [] root) of
           None \<Rightarrow> None
         | Some head_epoch_start \<Rightarrow>
             if head_epoch_start = [] then Some False
             else case epoch_start p epoch_blocks root (butlast head_epoch_start) of
                    None \<Rightarrow> None
                  | Some first_checkpoint \<Rightarrow>
                      if votes_at first_checkpoint \<ge> minimum_majority_stake cfg ch then
                        (if first_checkpoint = [] then Some False
                         else case epoch_start p epoch_blocks root (butlast first_checkpoint) of
                                None \<Rightarrow> None
                              | Some second_checkpoint \<Rightarrow>
                                  Some (votes_at second_checkpoint \<ge> minimum_majority_stake cfg ch))
                      else Some False)"

fun find_finalizable_from :: "('d, 's) chain_cfg \<Rightarrow> ('d, 's) chain \<Rightarrow> nat \<Rightarrow> 'd tree_node list \<Rightarrow> nat option option" where
  "find_finalizable_from cfg ch i [] = Some None"
| "find_finalizable_from cfg ch i (root # rest) =
     (if vb_votes (tn_value root) \<ge> minimum_majority_stake cfg ch
      then (case checkpoints_confirmed cfg ch root of
              None \<Rightarrow> None
            | Some True \<Rightarrow> Some (Some i)
            | Some False \<Rightarrow> find_finalizable_from cfg ch (Suc i) rest)
      else find_finalizable_from cfg ch (Suc i) rest)"

definition find_finalizable_root :: "('d, 's) chain_cfg \<Rightarrow> ('d, 's) chain \<Rightarrow> nat option option" where
  "find_finalizable_root cfg ch = find_finalizable_from cfg ch 0 (ch_forktrees ch)"

text \<open>\<open>Finalized::apply\<close>; \<open>None\<close> is its failing \<open>assert!\<close> or a storage error.\<close>

definition finalized_apply :: "('d, 's) chain_cfg \<Rightarrow> 'd executed \<Rightarrow> ('d, 's) chain \<Rightarrow> ('d, 's) chain option" where
  "finalized_apply cfg e ch =
     (if bl_parent (ex_underlying e) \<noteq> finalized_hash cfg ch then None
      else case cfg_store_apply cfg (bo_state (ex_output e)) (ch_store ch) of
             None \<Rightarrow> None
           | Some store \<Rightarrow> Some (ch\<lparr>ch_finalized := ProducedBlock (ex_underlying e), ch_store := store\<rparr>))"

definition finalize_root :: "('d, 's) chain_cfg \<Rightarrow> 'd tree_node \<Rightarrow> ('d, 's) chain \<Rightarrow> ('d, 's) chain option" where
  "finalize_root cfg subtree ch =
     (let newroot_hash = vb_hash (cfg_params cfg) (tn_value subtree)
      in case finalized_apply cfg (vb_block (tn_value subtree)) ch of
           None \<Rightarrow> None
         | Some ch' \<Rightarrow>
             let discarded = filter (\<lambda>tree. vb_hash (cfg_params cfg) (tn_value tree) \<noteq> newroot_hash) (ch_forktrees ch')
             in Some (ch'\<lparr>ch_events := fold (\<lambda>v events. BlockDiscarded (vb_produced v) # events)
                            (concat (map tn_values discarded)) (ch_events ch'),
                          ch_forktrees := tn_children subtree\<rparr>))"

definition try_finalize_roots :: "('d, 's) chain_cfg \<Rightarrow> ('d, 's) chain \<Rightarrow> (bool \<times> ('d, 's) chain) option" where
  "try_finalize_roots cfg ch =
     (case find_finalizable_root cfg ch of
        None \<Rightarrow> None
      | Some None \<Rightarrow> Some (False, ch)
      | Some (Some index) \<Rightarrow>
          let subtree = ch_forktrees ch ! index;
              v = tn_value subtree
          in case finalize_root cfg subtree
                    (ch\<lparr>ch_forktrees := take index (ch_forktrees ch) @ drop (Suc index) (ch_forktrees ch)\<rparr>) of
               None \<Rightarrow> None
             | Some ch' \<Rightarrow>
                 (case epoch cfg (bl_height (vb_produced v)) of
                    None \<Rightarrow> None
                  | Some ep \<Rightarrow>
                      Some (True, push_front (BlockFinalized (vb_block v) (vb_votes v))
                                    (ch'\<lparr>ch_ownvotes := hm_remove ep (ch_ownvotes ch')\<rparr>))))"

definition forest_values :: "'d tree_node list \<Rightarrow> 'd volatile_block list" where
  "forest_values ts = concat (map tn_values ts)"

lemma forest_values_simps [simp]:
  "forest_values [] = []"
  "forest_values (t # ts) = tn_values t @ forest_values ts"
  "forest_values (ts @ us) = forest_values ts @ forest_values us"
  by (simp_all add: forest_values_def)

lemma find_finalizable_from_Some:
  "find_finalizable_from cfg ch i ts = Some (Some j) \<Longrightarrow>
     \<exists>k < length ts. j = i + k \<and> vb_votes (tn_value (ts ! k)) \<ge> minimum_majority_stake cfg ch
       \<and> checkpoints_confirmed cfg ch (ts ! k) = Some True"
proof (induction cfg ch i ts rule: find_finalizable_from.induct)
  case (2 cfg ch i root rest)
  show ?case
  proof (cases "vb_votes (tn_value root) \<ge> minimum_majority_stake cfg ch \<and> checkpoints_confirmed cfg ch root = Some True")
    case True
    with 2(3) show ?thesis by (intro exI [of _ 0]) auto
  next
    case False
    with 2 obtain k where "k < length rest" "j = Suc i + k"
      "vb_votes (tn_value (rest ! k)) \<ge> minimum_majority_stake cfg ch" "checkpoints_confirmed cfg ch (rest ! k) = Some True"
      by (auto split: if_splits option.splits bool.splits)
    then show ?thesis by (intro exI [of _ "Suc k"]) auto
  qed
qed simp

lemma find_finalizable_root_Some:
  assumes "find_finalizable_root cfg ch = Some (Some j)"
  shows "j < length (ch_forktrees ch) \<and> vb_votes (tn_value (ch_forktrees ch ! j)) \<ge> minimum_majority_stake cfg ch
    \<and> checkpoints_confirmed cfg ch (ch_forktrees ch ! j) = Some True"
  using find_finalizable_from_Some [OF assms [unfolded find_finalizable_root_def]] by auto

text \<open>What a finalization does to the state.\<close>

lemma try_finalize_rootsE:
  assumes "try_finalize_roots cfg ch = Some (True, ch')"
  obtains i v cs store ep where "i < length (ch_forktrees ch)" and "ch_forktrees ch ! i = TreeNode v cs"
    and "minimum_majority_stake cfg ch \<le> vb_votes v"
    and "checkpoints_confirmed cfg ch (TreeNode v cs) = Some True"
    and "bl_parent (vb_produced v) = finalized_hash cfg ch"
    and "cfg_store_apply cfg (bo_state (ex_output (vb_block v))) (ch_store ch) = Some store"
    and "epoch cfg (bl_height (vb_produced v)) = Some ep"
    and "ch' = ch\<lparr>ch_finalized := ProducedBlock (vb_produced v), ch_store := store, ch_forktrees := cs,
           ch_ownvotes := hm_remove ep (ch_ownvotes ch),
           ch_events := BlockFinalized (vb_block v) (vb_votes v)
             # rev (map (BlockDiscarded \<circ> vb_produced) (forest_values
                 (filter (\<lambda>t. vb_hash (cfg_params cfg) (tn_value t) \<noteq> vb_hash (cfg_params cfg) v)
                   (take i (ch_forktrees ch) @ drop (Suc i) (ch_forktrees ch)))))
             @ ch_events ch\<rparr>"
proof -
  obtain i where fi: "find_finalizable_root cfg ch = Some (Some i)"
    using assms by (auto simp: try_finalize_roots_def split: option.splits)
  note i = find_finalizable_root_Some [OF fi]
  obtain v cs where t: "ch_forktrees ch ! i = TreeNode v cs" by (cases "ch_forktrees ch ! i")
  have fold_discard: "fold (\<lambda>v events. BlockDiscarded (vb_produced v) # events) vs es =
      rev (map (BlockDiscarded \<circ> vb_produced) vs) @ es" for vs and es :: "'a chain_event list"
    by (induction vs arbitrary: es) auto
  obtain store ep where *: "bl_parent (vb_produced v) = finalized_hash cfg ch"
    "cfg_store_apply cfg (bo_state (ex_output (vb_block v))) (ch_store ch) = Some store"
    "epoch cfg (bl_height (vb_produced v)) = Some ep"
    using assms fi t unfolding try_finalize_roots_def finalize_root_def finalized_apply_def
    by (auto simp: Let_def split: option.splits if_splits)
  from assms fi t * show thesis
    unfolding try_finalize_roots_def finalize_root_def finalized_apply_def
    using i by (intro that [of i v cs store ep])
      (auto simp: Let_def push_front_def fold_discard forest_values_def)
qed

lemma forest_values_split:
  assumes "i < length ts"
  shows "mset (forest_values ts) = mset (tn_values (ts ! i)) + mset (forest_values (take i ts @ drop (Suc i) ts))"
  using id_take_nth_drop [OF assms] by (metis add.left_commute forest_values_simps(2,3) mset_append)

lemma forest_shrinks:
  assumes "try_finalize_roots cfg ch = Some (True, ch')"
  shows "length (forest_values (ch_forktrees ch')) < length (forest_values (ch_forktrees ch))"
proof (rule try_finalize_rootsE [OF assms])
  fix i v cs store ep
  assume "i < length (ch_forktrees ch)" and "ch_forktrees ch ! i = TreeNode v cs"
  then have "length (forest_values (ch_forktrees ch)) =
      length (tn_values (TreeNode v cs)) + length (forest_values (take i (ch_forktrees ch) @ drop (Suc i) (ch_forktrees ch)))"
    using forest_values_split by (metis size_mset size_union)
  moreover assume "ch' = ch\<lparr>ch_finalized := ProducedBlock (vb_produced v), ch_store := store, ch_forktrees := cs,
           ch_ownvotes := hm_remove ep (ch_ownvotes ch),
           ch_events := BlockFinalized (vb_block v) (vb_votes v)
             # rev (map (BlockDiscarded \<circ> vb_produced) (forest_values
                 (filter (\<lambda>t. vb_hash (cfg_params cfg) (tn_value t) \<noteq> vb_hash (cfg_params cfg) v)
                   (take i (ch_forktrees ch) @ drop (Suc i) (ch_forktrees ch)))))
             @ ch_events ch\<rparr>"
  ultimately show ?thesis by (simp add: forest_values_def)
qed

text \<open>\<open>while self.try_finalize_roots() {}\<close>\<close>

function finalize_loop :: "('d, 's) chain_cfg \<Rightarrow> ('d, 's) chain \<Rightarrow> ('d, 's) chain option" where
  "finalize_loop cfg ch =
     (case try_finalize_roots cfg ch of
        None \<Rightarrow> None
      | Some (True, ch') \<Rightarrow> finalize_loop cfg ch'
      | Some (False, ch') \<Rightarrow> Some ch')"
  by pat_completeness auto
termination
  by (relation "measure (\<lambda>(cfg, ch). length (forest_values (ch_forktrees ch)))") (auto simp: forest_shrinks)

declare finalize_loop.simps [simp del]

section \<open>The event stream\<close>

definition post_block_included :: "('d, 's) chain_cfg \<Rightarrow> nat \<Rightarrow> 'd produced \<Rightarrow> ('d, 's) chain \<Rightarrow> ('d, 's) chain option" where
  "post_block_included cfg now b ch =
     (let ch1 = count_votes cfg (bl_votes b) ch;
          (votes, os) = consume_votes (block_hash (cfg_params cfg) b) (ch_orphans ch1);
          ch2 = ch1\<lparr>ch_orphans := os\<rparr>;
          ch3 = (case votes of Some vs \<Rightarrow> fold (injest_vote cfg) vs ch2 | None \<Rightarrow> ch2)
      in case finalize_loop cfg ch3 of
           None \<Rightarrow> None
         | Some ch4 \<Rightarrow>
             (case missing_blocks now (finalized_height ch4) (ch_orphans ch4) of
                (missing, os') \<Rightarrow>
                  Some (fold (\<lambda>h. push_front (BlockMissing h)) missing (ch4\<lparr>ch_orphans := os'\<rparr>))))"

definition post_block_finalized :: "('d, 's) chain_cfg \<Rightarrow> 'd produced \<Rightarrow> ('d, 's) chain \<Rightarrow> ('d, 's) chain option" where
  "post_block_finalized cfg b ch =
     (case epoch cfg (finalized_height ch) of
        None \<Rightarrow> None
      | Some ep \<Rightarrow>
          let bhash = block_hash (cfg_params cfg) b;
              history = (case map_of (ch_finalized_history ch) ep of
                  Some e \<Rightarrow> hm_insert ep (insert bhash e) (ch_finalized_history ch)
                | None \<Rightarrow> hm_insert ep {bhash} (ch_finalized_history ch));
              window = max_justification_age (cfg_limits cfg)
          in Some (ch\<lparr>ch_finalized_history := filter (\<lambda>(e, _). e \<ge> saturating_sub ep window) history\<rparr>))"

text \<open>\<open>poll_next\<close>: the event taken from the back of the queue, \<open>Poll::Pending\<close> when it is empty.\<close>

definition poll_next :: "('d, 's) chain_cfg \<Rightarrow> nat \<Rightarrow> ('d, 's) chain \<Rightarrow> ('d chain_event option \<times> ('d, 's) chain) option" where
  "poll_next cfg now ch =
     (if ch_events ch = [] then Some (None, ch)
      else let event = last (ch_events ch); ch' = ch\<lparr>ch_events := butlast (ch_events ch)\<rparr>
           in map_option (\<lambda>c. (Some event, c))
                (case event of
                   BlockIncluded e \<Rightarrow> post_block_included cfg now (ex_underlying e) ch'
                 | BlockFinalized e votes \<Rightarrow> post_block_finalized cfg (ex_underlying e) ch'
                 | _ \<Rightarrow> Some ch'))"

end
