(* ===== verification/Rensa_Consensus.thy ===== *)
theory Rensa_Consensus
  imports Rensa_Chain
begin

text \<open>
  The invariant of the consensus state and its preservation by every operation of the chain, the
  reachable states as a step relation, and what finalization guarantees.
\<close>

section \<open>The invariant\<close>

definition eligible :: "('d, 's) chain_cfg \<Rightarrow> (pubkey, u64) hash_map \<Rightarrow> pubkey \<Rightarrow> bool" where
  "eligible cfg stakes w \<longleftrightarrow> (\<exists>s. map_of stakes w = Some s \<and> s \<ge> minimum_stake (cfg_limits cfg))"

definition stake_of :: "(pubkey, u64) hash_map \<Rightarrow> pubkey \<Rightarrow> u64" where
  "stake_of stakes w = (case map_of stakes w of Some s \<Rightarrow> s | None \<Rightarrow> 0)"

text \<open>
  Every block of the forest is signed by an eligible validator, its output is the result of executing
  its payload and has the hash the block claims, and its votes are the stakes of its voters, each
  counted once.
\<close>

definition node_ok :: "('d, 's) chain_cfg \<Rightarrow> (pubkey, u64) hash_map \<Rightarrow> 'd volatile_block \<Rightarrow> bool" where
  "node_ok cfg stakes v \<longleftrightarrow>
     finite (vb_voters v) \<and> (\<forall>w \<in> vb_voters v. eligible cfg stakes w)
     \<and> vb_votes v = (\<Sum>w \<in> vb_voters v. stake_of stakes w)
     \<and> block_verify_signature (cfg_params cfg) (vb_produced v)
     \<and> eligible cfg stakes (fst (bl_signature (vb_produced v)))
     \<and> (\<exists>st. cfg_run cfg st (bl_data (vb_produced v)) = ret (ex_output (vb_block v)))
     \<and> bo_hash (cfg_crypto cfg) (ex_output (vb_block v)) = bl_state_hash (vb_produced v)"

definition edge_ok :: "'d block_params \<Rightarrow> 'd volatile_block \<Rightarrow> 'd volatile_block \<Rightarrow> bool" where
  "edge_ok p v c \<longleftrightarrow>
     bl_parent (vb_produced c) = vb_hash p v \<and> bl_height (vb_produced c) = bl_height (vb_produced v) + 1
     \<and> vb_voters c \<subseteq> vb_voters v"

abbreviation forest_hashes :: "'d block_params \<Rightarrow> 'd tree_node list \<Rightarrow> multihash list" where
  "forest_hashes p ts \<equiv> map (vb_hash p) (forest_values ts)"

definition root_ok :: "('d, 's) chain_cfg \<Rightarrow> ('d, 's) chain \<Rightarrow> 'd tree_node \<Rightarrow> bool" where
  "root_ok cfg ch t \<longleftrightarrow>
     bl_parent (vb_produced (tn_value t)) = finalized_hash cfg ch
     \<and> bl_height (vb_produced (tn_value t)) = finalized_height ch + 1
     \<and> tn_all (node_ok cfg (ch_stakes ch)) (edge_ok (cfg_params cfg)) t"

definition chain_inv :: "('d, 's) chain_cfg \<Rightarrow> ('d, 's) chain \<Rightarrow> bool" where
  "chain_inv cfg ch \<longleftrightarrow>
     (\<forall>t \<in> set (ch_forktrees ch). root_ok cfg ch t)
     \<and> distinct (finalized_hash cfg ch # forest_hashes (cfg_params cfg) (ch_forktrees ch))
     \<and> orphans_invar (cfg_params cfg) (ch_orphans ch)"

lemma chain_inv_cong:
  assumes "chain_inv cfg ch" and "ch_forktrees ch' = ch_forktrees ch" and "ch_finalized ch' = ch_finalized ch"
    and "ch_stakes ch' = ch_stakes ch" and "orphans_invar (cfg_params cfg) (ch_orphans ch')"
  shows "chain_inv cfg ch'"
  using assms by (simp add: chain_inv_def root_ok_def)

lemma chain_inv_events [simp]: "chain_inv cfg (ch\<lparr>ch_events := es\<rparr>) = chain_inv cfg ch"
  by (simp add: chain_inv_def root_ok_def)

lemma chain_inv_push [simp]: "chain_inv cfg (push_front e ch) = chain_inv cfg ch"
  by (simp add: push_front_def)

lemma chain_inv_orphans [simp]:
  "chain_inv cfg ch \<Longrightarrow> chain_inv cfg (ch\<lparr>ch_orphans := os\<rparr>) = orphans_invar (cfg_params cfg) os"
  by (auto simp: chain_inv_def root_ok_def)

lemma forest_get_Some:
  "forest_get p h i ts = Some (j, pos) \<Longrightarrow>
     \<exists>k n. k < length ts \<and> j = i + k \<and> node_at (ts ! k) pos = Some n \<and> vb_hash p (tn_value n) = h"
proof (induction p h i ts rule: forest_get.induct)
  case (2 p h i root rest)
  show ?case
  proof (cases "tn_get p h root")
    case (Some q)
    with 2 show ?thesis using tn_get_sound(1) by (fastforce intro: exI [of _ 0])
  next
    case None
    with 2 obtain k n where "k < length rest" "j = Suc i + k" "node_at (rest ! k) pos = Some n"
      "vb_hash p (tn_value n) = h" by auto
    then show ?thesis by (intro exI [of _ "Suc k"]) auto
  qed
qed simp

lemma forest_get_None: "forest_get p h i ts = None \<longleftrightarrow> h \<notin> set (forest_hashes p ts)"
proof (induction p h i ts rule: forest_get.induct)
  case (2 p h i root rest)
  then show ?case by (cases "tn_get p h root") (use tn_get_None(1) [of p h root] in auto)
qed simp

lemma forest_getE:
  assumes "forest_get p h 0 ts = Some (i, pos)"
  obtains n where "i < length ts" and "node_at (ts ! i) pos = Some n" and "node_ref (ts ! i) pos = n"
    and "vb_hash p (tn_value n) = h"
  using forest_get_Some [OF assms] node_at_path by (metis add_0 list.sel(1))

lemma get_block_node_None:
  "get_block_node cfg ch h = None \<longleftrightarrow>
     h \<noteq> finalized_hash cfg ch \<and> h \<notin> set (forest_hashes (cfg_params cfg) (ch_forktrees ch))"
  unfolding get_block_node_def forest_get_None [of _ _ 0, symmetric] by (auto split: option.splits)

section \<open>Votes\<close>

lemma node_ok_add_votes:
  assumes "node_ok cfg stakes v" and "map_of stakes w = Some s" and "s \<ge> minimum_stake (cfg_limits cfg)"
  shows "node_ok cfg stakes (vb_add_votes s w v)"
  using assms by (auto simp: node_ok_def vb_add_votes_def eligible_def stake_of_def add.commute)

lemma edge_ok_add_votes:
  "edge_ok p v c \<Longrightarrow> edge_ok p (vb_add_votes s w v) (vb_add_votes s w c)"
  "edge_ok p v c \<Longrightarrow> edge_ok p (vb_add_votes s w v) c"
  by (auto simp: edge_ok_def)

lemma root_ok_add_votes:
  assumes "root_ok cfg ch t" and "map_of (ch_stakes ch) w = Some s" and "s \<ge> minimum_stake (cfg_limits cfg)"
  shows "root_ok cfg ch (add_votes s w t pos)"
proof -
  have "tn_all (node_ok cfg (ch_stakes ch)) (edge_ok (cfg_params cfg)) (add_votes s w t pos)"
    using assms by (intro tn_all_add_votes node_ok_add_votes edge_ok_add_votes) (auto simp: root_ok_def)
  then show ?thesis using assms(1) by (simp add: root_ok_def)
qed

lemma forest_hashes_update_votes:
  assumes "i < length ts"
  shows "forest_hashes p (ts[i := add_votes s w (ts ! i) pos]) = forest_hashes p ts"
  unfolding forest_values_def using assms by (intro map_concat_update) (auto simp: hashes_add_votes)

lemma injest_vote_cases:
  obtains (ignored) "injest_vote cfg v ch = ch"
  | (stored) "forest_get (cfg_params cfg) (vote_target v) 0 (ch_forktrees ch) = None"
      and "injest_vote cfg v ch = ch\<lparr>ch_orphans := orphans_add_vote v (ch_orphans ch)\<rparr>"
  | (counted) s i pos where "map_of (ch_stakes ch) (vote_validator v) = Some s"
      and "s \<ge> minimum_stake (cfg_limits cfg)" and "vote_verify_signature (cfg_crypto cfg) v"
      and "forest_get (cfg_params cfg) (vote_target v) 0 (ch_forktrees ch) = Some (i, pos)"
      and "in_finalized_history cfg ch (vote_justification v)
           \<or> is_descendant_of (cfg_params cfg) (ch_forktrees ch ! i) pos (vote_justification v)"
      and "injest_vote cfg v ch = ch\<lparr>
             ch_forktrees := (ch_forktrees ch)[i := add_votes s (vote_validator v) (ch_forktrees ch ! i) pos],
             ch_events := ch_events ch @ map (\<lambda>b. BlockConfirmed (vb_block b) (vb_votes b))
               (newly_confirmed cfg ch (map tn_value (tn_path (ch_forktrees ch ! i) pos))
                  (map tn_value (tn_path (add_votes s (vote_validator v) (ch_forktrees ch ! i) pos) pos)))\<rparr>"
proof (cases "map_of (ch_stakes ch) (vote_validator v)")
  case None
  then show thesis by (intro ignored) (simp add: injest_vote_def)
next
  case (Some s)
  show thesis
  proof (cases "s < minimum_stake (cfg_limits cfg) \<or> \<not> vote_verify_signature (cfg_crypto cfg) v")
    case True
    with Some show thesis by (intro ignored) (auto simp: injest_vote_def)
  next
    case ok: False
    show thesis
    proof (cases "forest_get (cfg_params cfg) (vote_target v) 0 (ch_forktrees ch)")
      case None
      with Some ok show thesis by (intro stored) (simp_all add: injest_vote_def)
    next
      case (Some ip)
      obtain i pos where "ip = (i, pos)" by (cases ip)
      note facts = this Some ok \<open>map_of (ch_stakes ch) (vote_validator v) = Some s\<close>
      show thesis
      proof (cases "in_finalized_history cfg ch (vote_justification v)
             \<or> is_descendant_of (cfg_params cfg) (ch_forktrees ch ! i) pos (vote_justification v)")
        case True
        with facts show thesis
          by (intro counted [of s i pos]) (auto simp: injest_vote_def Let_def)
      next
        case False
        with facts show thesis by (intro ignored) (simp add: injest_vote_def Let_def)
      qed
    qed
  qed
qed

lemma injest_vote_frame:
  "ch_stakes (injest_vote cfg v ch) = ch_stakes ch \<and> ch_finalized (injest_vote cfg v ch) = ch_finalized ch
   \<and> ch_store (injest_vote cfg v ch) = ch_store ch \<and> ch_ownvotes (injest_vote cfg v ch) = ch_ownvotes ch
   \<and> or_blocks (ch_orphans (injest_vote cfg v ch)) = or_blocks (ch_orphans ch)"
  by (cases rule: injest_vote_cases [of cfg v ch]) (auto simp: orphans_add_vote_def split: option.split)

lemma injest_vote_inv:
  assumes "chain_inv cfg ch"
  shows "chain_inv cfg (injest_vote cfg v ch)"
proof (cases rule: injest_vote_cases [of cfg v ch])
  case ignored
  with assms show ?thesis by simp
next
  case stored
  with assms show ?thesis
    by (auto simp: chain_inv_def root_ok_def orphans_add_vote_def split: option.split)
next
  case (counted s i pos)
  obtain i: "i < length (ch_forktrees ch)" using forest_getE [OF counted(4)] by blast
  have "root_ok cfg ch t"
    if "t \<in> set ((ch_forktrees ch)[i := add_votes s (vote_validator v) (ch_forktrees ch ! i) pos])" for t
    using that assms i root_ok_add_votes [OF _ counted(1,2)]
    by (auto simp: chain_inv_def dest!: set_update_subset_insert [THEN subsetD])
  then show ?thesis
    using assms forest_hashes_update_votes [OF i] unfolding counted(6)
    by (auto simp: chain_inv_def root_ok_def)
qed

lemma fold_injest_vote_inv: "chain_inv cfg ch \<Longrightarrow> chain_inv cfg (fold (injest_vote cfg) vs ch)"
  by (induction vs arbitrary: ch) (auto simp: injest_vote_inv)

lemma fold_injest_vote_frame:
  "ch_stakes (fold (injest_vote cfg) vs ch) = ch_stakes ch \<and> ch_finalized (fold (injest_vote cfg) vs ch) = ch_finalized ch
   \<and> ch_store (fold (injest_vote cfg) vs ch) = ch_store ch"
  by (induction vs arbitrary: ch) (auto simp: injest_vote_frame)

section \<open>Including blocks\<close>

text \<open>What \<open>try_include\<close> did when it consumed a new block.\<close>

lemma try_includeE:
  assumes "try_include cfg b ch = ret (r, ch')"
  obtains (same) "ch' = ch"
      and "r = None \<and> get_block_node cfg ch (block_hash (cfg_params cfg) b) \<noteq> None \<or> r = Some b"
  | (root) e where "bl_parent b = finalized_hash cfg ch" and "bl_height b = finalized_height ch + 1"
      and "get_block_node cfg ch (block_hash (cfg_params cfg) b) = None"
      and "executed_new (cfg_crypto cfg) (cfg_run cfg) (finalized_state cfg ch) b = ret e" and "r = None"
      and "ch' = push_front (BlockIncluded e) (ch\<lparr>ch_forktrees := ch_forktrees ch @ [tn_new (volatile_new e)]\<rparr>)"
  | (child) i pos n e root' where "forest_get (cfg_params cfg) (bl_parent b) 0 (ch_forktrees ch) = Some (i, pos)"
      and "node_at (ch_forktrees ch ! i) pos = Some n"
      and "bl_height b = bl_height (vb_produced (tn_value n)) + 1"
      and "get_block_node cfg ch (block_hash (cfg_params cfg) b) = None"
      and "executed_new (cfg_crypto cfg) (cfg_run cfg)
             (overlayed_get (finalized_state cfg ch) (tn_state (ch_forktrees ch ! i) pos)) b = ret e" and "r = None"
      and "add_child (cfg_params cfg) (ch_forktrees ch ! i) pos (volatile_new e) = Some root'"
      and "ch' = push_front (BlockIncluded e) (ch\<lparr>ch_forktrees := (ch_forktrees ch)[i := root']\<rparr>)"
proof -
  let ?new = "get_block_node cfg ch (block_hash (cfg_params cfg) b) = None"
  consider (old) "\<not> ?new" | (fin) ?new "bl_parent b = finalized_hash cfg ch"
    | (orphan) ?new "bl_parent b \<noteq> finalized_hash cfg ch"
        "forest_get (cfg_params cfg) (bl_parent b) 0 (ch_forktrees ch) = None"
    | (parent) i pos where ?new "bl_parent b \<noteq> finalized_hash cfg ch"
        "forest_get (cfg_params cfg) (bl_parent b) 0 (ch_forktrees ch) = Some (i, pos)"
    by (metis option.exhaust surj_pair)
  then show thesis
  proof cases
    case old
    with assms have "ch' = ch" "r = None" by (auto simp: try_include_def)
    with old show thesis using same by blast
  next
    case fin
    with assms show thesis unfolding try_include_def
      by (auto simp: Let_def split: if_split_asm elim!: bind_retE intro: root)
  next
    case orphan
    with assms have "ch' = ch" "r = Some b" by (auto simp: try_include_def)
    then show thesis using same by blast
  next
    case (parent i pos)
    obtain n where "node_at (ch_forktrees ch ! i) pos = Some n" "node_ref (ch_forktrees ch ! i) pos = n"
      using forest_getE [OF parent(3)] by blast
    with assms parent show thesis unfolding try_include_def
      by (auto simp: Let_def split: if_split_asm option.split_asm elim!: bind_retE intro: child)
  qed
qed

lemma executed_new_ok:
  "executed_new c run st b = ret e \<Longrightarrow> ex_underlying e = b \<and> bo_hash c (ex_output e) = bl_state_hash b"
  by (auto simp: executed_new_ret)

lemma node_ok_new:
  assumes "executed_new (cfg_crypto cfg) (cfg_run cfg) st b = ret e" and "block_verify_signature (cfg_params cfg) b"
    and "eligible cfg stakes (fst (bl_signature b))"
  shows "node_ok cfg stakes (volatile_new e)"
  using assms by (auto simp: executed_new_ret node_ok_def volatile_new_def)

lemma try_include_inv:
  assumes inv: "chain_inv cfg ch" and sig: "block_verify_signature (cfg_params cfg) b"
    and el: "eligible cfg (ch_stakes ch) (fst (bl_signature b))" and ok: "try_include cfg b ch = ret (r, ch')"
  shows "chain_inv cfg ch'"
  using ok
proof (cases rule: try_includeE)
  case same
  with inv show ?thesis by simp
next
  case (root e)
  let ?t = "tn_new (volatile_new e)"
  have "root_ok cfg ch ?t"
    using root node_ok_new [OF root(4) sig el] executed_new_ok [OF root(4)]
    by (simp add: root_ok_def tn_new_def volatile_new_def)
  moreover have "forest_hashes (cfg_params cfg) (ch_forktrees ch @ [?t]) =
      forest_hashes (cfg_params cfg) (ch_forktrees ch) @ [block_hash (cfg_params cfg) b]"
    using executed_new_ok [OF root(4)] by (simp add: tn_new_def volatile_new_def)
  ultimately show ?thesis
    using inv root(3) unfolding root(6) get_block_node_None by (auto simp: chain_inv_def root_ok_def push_front_def)
next
  case (child i pos n e root')
  let ?p = "cfg_params cfg"
  obtain i: "i < length (ch_forktrees ch)" using forest_getE [OF child(1)] by blast
  let ?t = "ch_forktrees ch ! i"
  have b: "vb_produced (volatile_new e) = b" "vb_voters (volatile_new e) = {}"
    using executed_new_ok [OF child(5)] by (simp_all add: volatile_new_def)
  from child(7) have par: "bl_parent b = vb_hash ?p (tn_value n)"
    and root': "root' = update_at (\<lambda>n. TreeNode (tn_value n) (tn_children n @ [TreeNode (volatile_new e) []])) ?t pos"
    by (auto elim!: add_childE simp: child(2) b)
  have t: "root_ok cfg ch ?t" using inv i by (simp add: chain_inv_def)
  have "edge_ok ?p (tn_value n) (volatile_new e)"
    using par child(3) b by (simp add: edge_ok_def)
  then have "tn_all (node_ok cfg (ch_stakes ch)) (edge_ok ?p) root'"
    unfolding root' using t node_ok_new [OF child(5) sig el] child(2)
    by (intro tn_all_update_child) (auto simp: root_ok_def)
  moreover have "tn_value root' = tn_value ?t"
    unfolding root' by (cases ?t; cases pos) auto
  ultimately have rok: "root_ok cfg ch root'"
    using t by (simp add: root_ok_def)
  have "mset (forest_values ((ch_forktrees ch)[i := root'])) = add_mset (volatile_new e) (mset (forest_values (ch_forktrees ch)))"
    unfolding forest_values_def root' by (rule mset_concat_update [OF i values_update_child [OF child(2)]])
  then have "mset (forest_hashes ?p ((ch_forktrees ch)[i := root'])) = mset (block_hash ?p b # forest_hashes ?p (ch_forktrees ch))"
    using b(1) by simp
  moreover have "distinct (finalized_hash cfg ch # block_hash ?p b # forest_hashes ?p (ch_forktrees ch))"
    using inv child(4) by (auto simp: chain_inv_def get_block_node_None)
  ultimately have "distinct (finalized_hash cfg ch # forest_hashes ?p ((ch_forktrees ch)[i := root']))"
    by (metis mset.simps(2) mset_eq_imp_distinct_iff)
  then show ?thesis
    using inv rok unfolding child(8)
    by (auto simp: chain_inv_def root_ok_def push_front_def dest!: set_update_subset_insert [THEN subsetD])
qed

lemma commit_and_vote_frame:
  assumes "commit_and_vote cfg h ch = Some ch'"
  shows "ch_stakes ch' = ch_stakes ch \<and> ch_finalized ch' = ch_finalized ch \<and> ch_store ch' = ch_store ch
    \<and> ch_forktrees ch' = ch_forktrees ch \<and> ch_orphans ch' = ch_orphans ch"
  using assms by (auto simp: commit_and_vote_def push_front_def Let_def split: option.splits if_splits)

lemma try_include_frame:
  assumes "try_include cfg b ch = ret (r, ch')"
  shows "ch_stakes ch' = ch_stakes ch \<and> ch_finalized ch' = ch_finalized ch \<and> ch_store ch' = ch_store ch
    \<and> ch_orphans ch' = ch_orphans ch \<and> (\<forall>b'. r = Some b' \<longrightarrow> b' = b)"
  by (rule try_includeE [OF assms]) (auto simp: push_front_def)

text \<open>The outcomes of \<open>include\<close> on one block: refused, an orphan, or consumed.\<close>

lemma include_one_cases:
  assumes "include_one cfg now b ch = Some (bs, ch')"
  obtains (refused) "bs = []" and "ch' = ch"
  | (orphan) "eligible cfg (ch_stakes ch) (fst (bl_signature b))" and "block_verify_signature (cfg_params cfg) b"
      and "try_include cfg b ch = ret (Some b, ch)" and "bs = []"
      and "ch' = ch\<lparr>ch_orphans := orphans_add_block (cfg_params cfg) now b (ch_orphans ch)\<rparr>"
  | (consumed) ch1 ch2 where "eligible cfg (ch_stakes ch) (fst (bl_signature b))"
      and "finalized_height ch < bl_height b" and "block_verify_signature (cfg_params cfg) b"
      and "try_include cfg b ch = ret (None, ch1)"
      and "ch2 = ch1 \<or> commit_and_vote cfg (block_hash (cfg_params cfg) b) ch1 = Some ch2"
      and "ch' = ch2\<lparr>ch_orphans := snd (consume_blocks (block_hash (cfg_params cfg) b) (ch_orphans ch2))\<rparr>"
      and "bs = (case fst (consume_blocks (block_hash (cfg_params cfg) b) (ch_orphans ch2)) of Some bs \<Rightarrow> bs | None \<Rightarrow> [])"
proof (cases "try_include cfg b ch")
  case None
  with assms have "bs = []" "ch' = ch"
    by (auto simp: include_one_def Let_def split: option.splits if_splits)
  then show thesis by (rule refused)
next
  case (Some r)
  show thesis
  proof (cases "eligible cfg (ch_stakes ch) (fst (bl_signature b)) \<and> finalized_height ch < bl_height b
      \<and> block_verify_signature (cfg_params cfg) b")
    case False
    with assms have "bs = []" "ch' = ch"
      by (auto simp: include_one_def Let_def eligible_def not_less split: option.splits if_splits)
    then show thesis by (rule refused)
  next
    case ok: True
    then obtain s where s: "map_of (ch_stakes ch) (fst (bl_signature b)) = Some s"
      "\<not> s < minimum_stake (cfg_limits cfg)" "\<not> bl_height b \<le> finalized_height ch"
      by (auto simp: eligible_def)
    note run = assms [unfolded include_one_def] ok s Some
    consider (err) e where "r = Inl e" | (orph) ch1 where "r = Inr (Some b, ch1)" | (cons) ch1 where "r = Inr (None, ch1)"
      using try_include_frame [of cfg b ch] Some by (metis old.prod.exhaust option.exhaust sum.exhaust)
    then show thesis
    proof cases
      case err
      with run have "bs = []" "ch' = ch" by (auto simp: Let_def)
      then show thesis by (rule refused)
    next
      case orph
      then have "try_include cfg b ch = ret (Some b, ch1)" using Some by simp
      moreover from this have "ch1 = ch" by (rule try_includeE) auto
      ultimately show thesis using run orph by (intro orphan) (auto simp: Let_def)
    next
      case cons
      let ?h = "block_hash (cfg_params cfg) b"
      from cons run obtain ch2 where ch2: "(if ?h = any_hash (cfg_params cfg) (snd (with_head cfg ch1))
          then commit_and_vote cfg ?h ch1 else Some ch1) = Some ch2"
        by (auto simp: Let_def split: option.split_asm)
      with cons run show thesis
        by (intro consumed [of ch1 ch2]) (auto simp: Let_def split: if_split_asm prod.split_asm)
    qed
  qed
qed

lemma include_one_inv:
  assumes inv: "chain_inv cfg ch" and ok: "include_one cfg now b ch = Some (bs, ch')"
  shows "chain_inv cfg ch'"
  using ok
proof (cases rule: include_one_cases)
  case refused
  with inv show ?thesis by simp
next
  case orphan
  with inv show ?thesis by (simp add: orphans_invar_add chain_inv_def root_ok_def)
next
  case (consumed ch1 ch2)
  have "chain_inv cfg ch1" by (rule try_include_inv [OF inv consumed(3,1,4)])
  then have "chain_inv cfg ch2"
    using consumed(5) commit_and_vote_frame by (metis chain_inv_cong chain_inv_def)
  moreover from this have "orphans_invar (cfg_params cfg) (ch_orphans ch2)" by (simp add: chain_inv_def)
  ultimately show ?thesis unfolding consumed(6) by (simp add: orphans_invar_consume)
qed

lemma include_one_frame:
  assumes "include_one cfg now b ch = Some (bs, ch')"
  shows "ch_stakes ch' = ch_stakes ch \<and> ch_finalized ch' = ch_finalized ch \<and> ch_store ch' = ch_store ch"
  using assms
proof (cases rule: include_one_cases)
  case (consumed ch1 ch2)
  with try_include_frame [OF consumed(4)] show ?thesis by (auto dest: commit_and_vote_frame)
qed auto

lemma include_all_inv:
  "chain_inv cfg ch \<Longrightarrow> include_all cfg now bs ch = Some ch' \<Longrightarrow> chain_inv cfg ch'"
  by (induction cfg now bs ch rule: include_all.induct)
    (auto dest: include_one_inv split: option.split_asm prod.split_asm)

lemma include_all_frame:
  "include_all cfg now bs ch = Some ch' \<Longrightarrow>
     ch_stakes ch' = ch_stakes ch \<and> ch_finalized ch' = ch_finalized ch \<and> ch_store ch' = ch_store ch"
  by (induction cfg now bs ch rule: include_all.induct)
    (auto dest: include_one_frame split: option.split_asm prod.split_asm)

text \<open>
  The worklist is the recursion of the source: including a list of blocks one after the other, each
  with the orphans it releases.
\<close>

lemma include_all_append:
  "include_all cfg now (xs @ ys) ch =
     (case include_all cfg now xs ch of None \<Rightarrow> None | Some ch' \<Rightarrow> include_all cfg now ys ch')"
  by (induction cfg now xs ch rule: include_all.induct) (auto split: option.split prod.split)

lemma include_block_rec:
  "include_block cfg now b ch =
     (case include_one cfg now b ch of
        None \<Rightarrow> None
      | Some (orphans, ch') \<Rightarrow>
          foldl (\<lambda>r orphan. case r of None \<Rightarrow> None | Some c \<Rightarrow> include_block cfg now orphan c) (Some ch') orphans)"
proof -
  have none: "foldl (\<lambda>r orphan. case r of None \<Rightarrow> None | Some c \<Rightarrow> include_block cfg now orphan c) None bs = None" for bs
    by (induction bs) auto
  have "include_all cfg now bs c =
      foldl (\<lambda>r orphan. case r of None \<Rightarrow> None | Some c \<Rightarrow> include_block cfg now orphan c) (Some c) bs" for bs c
  proof (induction bs arbitrary: c)
    case (Cons b bs)
    show ?case
      using include_all_append [of cfg now "[b]" bs c] Cons none
      by (auto simp: include_block_def simp del: include_all.simps(2) split: option.split)
  qed simp
  then show ?thesis by (simp add: include_block_def split: option.split prod.split)
qed

section \<open>Finalization\<close>

text \<open>
  The root that is finalized extends the finalized block, its children become the roots, and the
  blocks of the forest are split into the finalized block, the discarded ones and the remaining ones.
\<close>

lemma try_finalize_inv:
  assumes inv: "chain_inv cfg ch" and ok: "try_finalize_roots cfg ch = Some (True, ch')"
  shows "chain_inv cfg ch' \<and> ch_stakes ch' = ch_stakes ch"
  using ok
proof (cases rule: try_finalize_rootsE)
  case (1 i v cs store ep)
  let ?p = "cfg_params cfg"
  have root: "root_ok cfg ch (TreeNode v cs)" using inv 1(1,2) by (metis chain_inv_def nth_mem)
  have "mset (forest_hashes ?p (ch_forktrees ch)) =
      mset (vb_hash ?p v # forest_hashes ?p cs) + mset (forest_hashes ?p (take i (ch_forktrees ch) @ drop (Suc i) (ch_forktrees ch)))"
    using forest_values_split [OF 1(1)] by (simp add: 1(2) forest_values_def)
  then have "mset (forest_hashes ?p (ch_forktrees ch)) =
      mset ((vb_hash ?p v # forest_hashes ?p cs) @ forest_hashes ?p (take i (ch_forktrees ch) @ drop (Suc i) (ch_forktrees ch)))"
    by simp
  moreover have "distinct (forest_hashes ?p (ch_forktrees ch))" using inv by (simp add: chain_inv_def)
  ultimately have "distinct (vb_hash ?p v # forest_hashes ?p cs)"
    by (metis distinct_append mset_eq_imp_distinct_iff)
  moreover have "\<forall>c \<in> set cs. edge_ok ?p v (tn_value c) \<and> tn_all (node_ok cfg (ch_stakes ch)) (edge_ok ?p) c"
    using root by (simp add: root_ok_def)
  ultimately show ?thesis
    using inv unfolding 1(8) by (auto simp: chain_inv_def root_ok_def edge_ok_def)
qed

lemma try_finalize_False: "try_finalize_roots cfg ch = Some (False, ch') \<Longrightarrow> ch' = ch"
  by (auto simp: try_finalize_roots_def Let_def split: option.splits)

lemma finalize_loop_True: "try_finalize_roots cfg ch = Some (True, c) \<Longrightarrow> finalize_loop cfg ch = finalize_loop cfg c"
  by (subst finalize_loop.simps) simp

lemma finalize_loop_False: "try_finalize_roots cfg ch = Some (False, c) \<Longrightarrow> finalize_loop cfg ch = Some ch"
  by (subst finalize_loop.simps) (simp add: try_finalize_False)

lemma finalize_loop_None: "try_finalize_roots cfg ch = None \<Longrightarrow> finalize_loop cfg ch = None"
  by (subst finalize_loop.simps) simp

lemma finalize_loop_induct:
  assumes "finalize_loop cfg ch = Some ch'" and "P ch"
    and "\<And>a b. P a \<Longrightarrow> try_finalize_roots cfg a = Some (True, b) \<Longrightarrow> P b"
  shows "P ch'"
  using assms
proof (induction cfg ch rule: finalize_loop.induct)
  case (1 cfg ch)
  consider (none) "try_finalize_roots cfg ch = None" | (more) c where "try_finalize_roots cfg ch = Some (True, c)"
    | (stop) c where "try_finalize_roots cfg ch = Some (False, c)"
    by (metis (full_types) not_None_eq surj_pair)
  then show ?case
  proof cases
    case none
    show ?thesis using 1(2) unfolding finalize_loop_None [OF none] by simp
  next
    case (more c)
    have "finalize_loop cfg c = Some ch'" using 1(2) unfolding finalize_loop_True [OF more] .
    moreover have "P c" using 1(3,4) more by blast
    ultimately show ?thesis using 1(1) [OF more] 1(4) by blast
  next
    case (stop c)
    show ?thesis using 1(2,3) unfolding finalize_loop_False [OF stop] by simp
  qed
qed

text \<open>Finalized blocks form a chain of parents with consecutive heights.\<close>

inductive finalized_from :: "'d block_params \<Rightarrow> 'd any_block \<Rightarrow> 'd any_block \<Rightarrow> bool" for p where
  finalized_refl: "finalized_from p b b"
| finalized_step: "finalized_from p a b \<Longrightarrow> bl_parent c = any_hash p b \<Longrightarrow> bl_height c = any_height b + 1
    \<Longrightarrow> finalized_from p a (ProducedBlock c)"

lemma finalized_from_trans: "finalized_from p b c \<Longrightarrow> finalized_from p a b \<Longrightarrow> finalized_from p a c"
  by (induction rule: finalized_from.induct) (auto intro: finalized_from.intros)

lemma try_finalize_extends:
  assumes inv: "chain_inv cfg ch" and ok: "try_finalize_roots cfg ch = Some (True, ch')"
  shows "finalized_from (cfg_params cfg) (ch_finalized ch) (ch_finalized ch')"
  using ok
proof (cases rule: try_finalize_rootsE)
  case (1 i v cs store ep)
  have "root_ok cfg ch (TreeNode v cs)" using inv 1(1,2) by (metis chain_inv_def nth_mem)
  then have "bl_height (vb_produced v) = finalized_height ch + 1" by (simp add: root_ok_def)
  with 1(5) have "finalized_from (cfg_params cfg) (ch_finalized ch) (ProducedBlock (vb_produced v))"
    by (intro finalized_step [OF finalized_refl])
  then show ?thesis unfolding 1(8) by simp
qed

lemma finalize_loop_inv:
  assumes "chain_inv cfg ch" and "finalize_loop cfg ch = Some ch'"
  shows "chain_inv cfg ch' \<and> ch_stakes ch' = ch_stakes ch
    \<and> finalized_from (cfg_params cfg) (ch_finalized ch) (ch_finalized ch')"
proof (rule finalize_loop_induct [OF assms(2)])
  fix a b
  assume a: "chain_inv cfg a \<and> ch_stakes a = ch_stakes ch
      \<and> finalized_from (cfg_params cfg) (ch_finalized ch) (ch_finalized a)"
    and step: "try_finalize_roots cfg a = Some (True, b)"
  from a have inv: "chain_inv cfg a" by simp
  show "chain_inv cfg b \<and> ch_stakes b = ch_stakes ch
      \<and> finalized_from (cfg_params cfg) (ch_finalized ch) (ch_finalized b)"
    using a try_finalize_inv [OF inv step] finalized_from_trans [OF try_finalize_extends [OF inv step]] by simp
qed (simp add: assms(1) finalized_refl)

section \<open>The event stream\<close>

lemma fold_push_missing:
  "fold (\<lambda>h. push_front (BlockMissing h)) hs ch = ch\<lparr>ch_events := rev (map BlockMissing hs) @ ch_events ch\<rparr>"
  by (induction hs arbitrary: ch) (auto simp: push_front_def)

lemma post_block_includedE:
  assumes "post_block_included cfg now b ch = Some ch'"
  obtains votes os ch4 where "consume_votes (block_hash (cfg_params cfg) b) (ch_orphans (count_votes cfg (bl_votes b) ch)) = (votes, os)"
    and "finalize_loop cfg (fold (injest_vote cfg) (case votes of Some vs \<Rightarrow> vs | None \<Rightarrow> [])
           (count_votes cfg (bl_votes b) ch\<lparr>ch_orphans := os\<rparr>)) = Some ch4"
    and "ch' = ch4\<lparr>ch_orphans := snd (missing_blocks now (finalized_height ch4) (ch_orphans ch4)),
           ch_events := rev (map BlockMissing (fst (missing_blocks now (finalized_height ch4) (ch_orphans ch4)))) @ ch_events ch4\<rparr>"
proof -
  obtain votes os where c: "consume_votes (block_hash (cfg_params cfg) b) (ch_orphans (count_votes cfg (bl_votes b) ch)) = (votes, os)"
    by (cases "consume_votes (block_hash (cfg_params cfg) b) (ch_orphans (count_votes cfg (bl_votes b) ch))")
  let ?ch3 = "fold (injest_vote cfg) (case votes of Some vs \<Rightarrow> vs | None \<Rightarrow> []) (count_votes cfg (bl_votes b) ch\<lparr>ch_orphans := os\<rparr>)"
  have run: "(case finalize_loop cfg ?ch3 of None \<Rightarrow> None
      | Some ch4 \<Rightarrow> (case missing_blocks now (finalized_height ch4) (ch_orphans ch4) of (missing, os') \<Rightarrow>
          Some (fold (\<lambda>h. push_front (BlockMissing h)) missing (ch4\<lparr>ch_orphans := os'\<rparr>)))) = Some ch'"
    using assms c unfolding post_block_included_def by (cases votes) (simp_all add: Let_def)
  then obtain ch4 where loop: "finalize_loop cfg ?ch3 = Some ch4"
    by (cases "finalize_loop cfg ?ch3") simp_all
  show thesis
    using run unfolding loop by (intro that [OF c loop]) (simp add: fold_push_missing case_prod_unfold)
qed

lemma consume_votes_invar:
  "consume_votes h os = (vs, os') \<Longrightarrow> orphans_invar p os \<Longrightarrow> orphans_invar p os'"
  by (auto simp: consume_votes_def)

lemma post_block_included_inv:
  assumes inv: "chain_inv cfg ch" and ok: "post_block_included cfg now b ch = Some ch'"
  shows "chain_inv cfg ch' \<and> ch_stakes ch' = ch_stakes ch
    \<and> finalized_from (cfg_params cfg) (ch_finalized ch) (ch_finalized ch')"
  using ok
proof (cases rule: post_block_includedE)
  case (1 votes os ch4)
  let ?ch1 = "count_votes cfg (bl_votes b) ch"
  let ?ch3 = "fold (injest_vote cfg) (case votes of Some vs \<Rightarrow> vs | None \<Rightarrow> []) (?ch1\<lparr>ch_orphans := os\<rparr>)"
  have ch1: "chain_inv cfg ?ch1" unfolding count_votes_def by (rule fold_injest_vote_inv [OF inv])
  then have "orphans_invar (cfg_params cfg) os"
    using consume_votes_invar [OF 1(1)] by (simp add: chain_inv_def)
  with ch1 have "chain_inv cfg ?ch3" by (intro fold_injest_vote_inv) simp
  note loop = finalize_loop_inv [OF this 1(2)]
  then have inv4: "chain_inv cfg ch4" by simp
  then have "orphans_invar (cfg_params cfg) (ch_orphans ch4)" by (simp add: chain_inv_def)
  then have "chain_inv cfg ch'" unfolding 1(3) by (simp add: inv4 orphans_invar_missing)
  moreover have "ch_stakes ?ch3 = ch_stakes ch" "ch_finalized ?ch3 = ch_finalized ch"
    by (simp_all add: fold_injest_vote_frame count_votes_def)
  ultimately show ?thesis using loop by (simp add: 1(3))
qed

lemma post_block_finalized_frame:
  assumes "post_block_finalized cfg b ch = Some ch'"
  shows "ch_stakes ch' = ch_stakes ch \<and> ch_finalized ch' = ch_finalized ch \<and> ch_store ch' = ch_store ch
    \<and> ch_forktrees ch' = ch_forktrees ch \<and> ch_orphans ch' = ch_orphans ch"
  using assms by (auto simp: post_block_finalized_def Let_def split: option.splits)

lemma poll_next_cases:
  assumes "poll_next cfg now ch = Some (ev, ch')"
  obtains (pending) "ch_events ch = []" and "ev = None" and "ch' = ch"
  | (incl) e where "ch_events ch \<noteq> []" and "last (ch_events ch) = BlockIncluded e" and "ev = Some (BlockIncluded e)"
      and "post_block_included cfg now (ex_underlying e) (ch\<lparr>ch_events := butlast (ch_events ch)\<rparr>) = Some ch'"
  | (final) e votes where "ch_events ch \<noteq> []" and "last (ch_events ch) = BlockFinalized e votes"
      and "ev = Some (BlockFinalized e votes)"
      and "post_block_finalized cfg (ex_underlying e) (ch\<lparr>ch_events := butlast (ch_events ch)\<rparr>) = Some ch'"
  | (other) "ch_events ch \<noteq> []" and "ev = Some (last (ch_events ch))" and "ch' = ch\<lparr>ch_events := butlast (ch_events ch)\<rparr>"
proof (cases "ch_events ch = []")
  case True
  with assms have "ev = None \<and> ch' = ch" by (auto simp: poll_next_def)
  with True show thesis by (intro pending) simp_all
next
  case False
  define ch0 where "ch0 = ch\<lparr>ch_events := butlast (ch_events ch)\<rparr>"
  have run: "map_option (\<lambda>c. (Some (last (ch_events ch)), c))
      (case last (ch_events ch) of
         BlockIncluded e \<Rightarrow> post_block_included cfg now (ex_underlying e) ch0
       | BlockFinalized e votes \<Rightarrow> post_block_finalized cfg (ex_underlying e) ch0
       | _ \<Rightarrow> Some ch0) = Some (ev, ch')"
    using assms False unfolding poll_next_def Let_def ch0_def by simp
  consider (i) e where "last (ch_events ch) = BlockIncluded e"
    | (f) e votes where "last (ch_events ch) = BlockFinalized e votes"
    | (o) "ev = Some (last (ch_events ch))" "ch' = ch0"
    using run by (cases "last (ch_events ch)") auto
  then show thesis
  proof cases
    case (i e)
    with run False show thesis by (intro incl [of e]) (auto simp: ch0_def)
  next
    case (f e votes)
    with run False show thesis by (intro final [of e votes]) (auto simp: ch0_def)
  next
    case o
    with False show thesis by (intro other) (simp_all add: ch0_def)
  qed
qed

lemma poll_next_inv:
  assumes inv: "chain_inv cfg ch" and ok: "poll_next cfg now ch = Some (ev, ch')"
  shows "chain_inv cfg ch' \<and> ch_stakes ch' = ch_stakes ch
    \<and> finalized_from (cfg_params cfg) (ch_finalized ch) (ch_finalized ch')"
  using ok
proof (cases rule: poll_next_cases)
  case pending
  with inv show ?thesis by (simp add: finalized_refl)
next
  case (incl e)
  from inv have "chain_inv cfg (ch\<lparr>ch_events := butlast (ch_events ch)\<rparr>)" by simp
  from post_block_included_inv [OF this incl(4)] show ?thesis by simp
next
  case (final e votes)
  from inv have inv': "chain_inv cfg (ch\<lparr>ch_events := butlast (ch_events ch)\<rparr>)" by simp
  note frame = post_block_finalized_frame [OF final(4)]
  have "chain_inv cfg ch'"
    using inv' frame inv by (intro chain_inv_cong [OF inv']) (auto simp: chain_inv_def)
  with frame show ?thesis by (simp add: finalized_refl)
next
  case other
  with inv show ?thesis by (simp add: finalized_refl)
qed

section \<open>Reachable states\<close>

text \<open>A validator's chain: created on a finalized block, then any sequence of included blocks and polls.\<close>

inductive reachable :: "('d, 's) chain_cfg \<Rightarrow> 'd any_block \<Rightarrow> ('d, 's) chain \<Rightarrow> bool" for cfg fin where
  reach_new: "chain_new cfg fin store = Some ch \<Longrightarrow> reachable cfg fin ch"
| reach_include: "reachable cfg fin ch \<Longrightarrow> include_block cfg now b ch = Some ch' \<Longrightarrow> reachable cfg fin ch'"
| reach_poll: "reachable cfg fin ch \<Longrightarrow> poll_next cfg now ch = Some (ev, ch') \<Longrightarrow> reachable cfg fin ch'"

lemma chain_new_inv:
  assumes "chain_new cfg fin store = Some ch"
  shows "chain_inv cfg ch \<and> ch_stakes ch = genesis_stakes (cfg_genesis cfg) \<and> ch_finalized ch = fin"
  using assms
  by (auto simp: chain_new_def Let_def chain_inv_def orphans_new_def orphans_invar_def split: if_splits)

lemma reachable_inv:
  "reachable cfg fin ch \<Longrightarrow> chain_inv cfg ch \<and> ch_stakes ch = genesis_stakes (cfg_genesis cfg)
     \<and> finalized_from (cfg_params cfg) fin (ch_finalized ch)"
proof (induction rule: reachable.induct)
  case (reach_new store ch)
  then show ?case using chain_new_inv by (fastforce intro: finalized_refl)
next
  case (reach_include ch now b ch')
  then show ?case
    using include_all_inv include_all_frame unfolding include_block_def by metis
next
  case (reach_poll ch now ev ch')
  then have inv: "chain_inv cfg ch" by simp
  show ?case
    using reach_poll.IH poll_next_inv [OF inv reach_poll.hyps(2)] finalized_from_trans by fastforce
qed

text \<open>Any number of further operations.\<close>

inductive chain_steps :: "('d, 's) chain_cfg \<Rightarrow> ('d, 's) chain \<Rightarrow> ('d, 's) chain \<Rightarrow> bool" for cfg ch where
  steps_refl: "chain_steps cfg ch ch"
| steps_include: "chain_steps cfg ch a \<Longrightarrow> include_block cfg now b a = Some c \<Longrightarrow> chain_steps cfg ch c"
| steps_poll: "chain_steps cfg ch a \<Longrightarrow> poll_next cfg now a = Some (ev, c) \<Longrightarrow> chain_steps cfg ch c"

inductive_cases chain_steps_cases: "chain_steps cfg ch c"

lemma chain_steps_inv:
  "chain_steps cfg ch c \<Longrightarrow> chain_inv cfg ch \<Longrightarrow>
     chain_inv cfg c \<and> finalized_from (cfg_params cfg) (ch_finalized ch) (ch_finalized c)"
proof (induction rule: chain_steps.induct)
  case steps_refl
  then show ?case by (simp add: finalized_refl)
next
  case (steps_include a now b c)
  then show ?case using include_all_inv include_all_frame unfolding include_block_def by metis
next
  case (steps_poll a now ev c)
  then have inv: "chain_inv cfg a" by simp
  show ?case
    using steps_poll.IH [OF steps_poll.prems] poll_next_inv [OF inv steps_poll.hyps(2)] finalized_from_trans by fastforce
qed

section \<open>Voting twice and looking blocks up\<close>

lemma tn_get_children_update:
  "k < length cs \<Longrightarrow> tn_get p h c = tn_get p h (cs ! k) \<Longrightarrow> tn_get_children p h i (cs[k := c]) = tn_get_children p h i cs"
proof (induction cs arbitrary: i k)
  case (Cons a cs)
  then show ?case by (cases k) (auto split: option.split)
qed simp

lemma tn_get_add_votes: "tn_get p h (add_votes s w t pos) = tn_get p h t"
proof (induction s w t pos rule: add_votes.induct)
  case (2 s w v cs i pos)
  then show ?case using tn_get_children_update [of i cs p h] by auto
qed simp

lemma forest_get_update:
  "k < length ts \<Longrightarrow> tn_get p h t = tn_get p h (ts ! k) \<Longrightarrow> forest_get p h i (ts[k := t]) = forest_get p h i ts"
proof (induction ts arbitrary: i k)
  case (Cons a ts)
  then show ?case by (cases k) (auto split: option.split)
qed simp

lemma is_descendant_of_add_votes:
  assumes "node_at t pos = Some n"
  shows "is_descendant_of p (add_votes s w t pos) pos h = is_descendant_of p t pos h"
proof -
  have hashes: "map (vb_hash p) (map tn_value (tn_path (add_votes s w t pos) pos)) =
      map (vb_hash p) (map tn_value (tn_path t pos))"
    unfolding path_add_votes [OF assms] by simp
  have "is_descendant_of p t' pos h \<longleftrightarrow> h \<in> set (drop 1 (map (vb_hash p) (map tn_value (tn_path t' pos))))" for t'
    by (auto simp: is_descendant_of_def drop_map list_ex_iff)
  then show ?thesis by (simp only: hashes)
qed

lemma newly_confirmed_same: "newly_confirmed cfg ch vs vs = []"
  by (induction vs) (auto simp: newly_confirmed_def)

lemma injest_vote_twice:
  assumes "forest_get (cfg_params cfg) (vote_target v) 0 (ch_forktrees ch) \<noteq> None"
  shows "injest_vote cfg v (injest_vote cfg v ch) = injest_vote cfg v ch"
proof (cases rule: injest_vote_cases [of cfg v ch])
  case ignored
  then show ?thesis by simp
next
  case stored
  with assms show ?thesis by simp
next
  case (counted s i pos)
  let ?t = "ch_forktrees ch ! i" and ?w = "vote_validator v" and ?ch' = "injest_vote cfg v ch"
  obtain n where i: "i < length (ch_forktrees ch)" and n: "node_at ?t pos = Some n"
    using forest_getE [OF counted(4)] by blast
  have frame: "ch_stakes ?ch' = ch_stakes ch" "ch_finalized ?ch' = ch_finalized ch"
    using injest_vote_frame [of cfg v ch] by auto
  have ts: "ch_forktrees ?ch' = (ch_forktrees ch)[i := add_votes s ?w ?t pos]" using counted(6) by simp
  then have get: "forest_get (cfg_params cfg) (vote_target v) 0 (ch_forktrees ?ch') = Some (i, pos)"
    using counted(4) forest_get_update [OF i tn_get_add_votes] by simp
  have at: "ch_forktrees ?ch' ! i = add_votes s ?w ?t pos" using ts i by simp
  have hist: "in_finalized_history cfg ?ch' h = in_finalized_history cfg ch h" for h
    using counted(6) by (simp add: in_finalized_history_def)
  show ?thesis
  proof (cases rule: injest_vote_cases [of cfg v ?ch'])
    case (counted s' i' pos')
    with frame get have "s' = s" "i' = i" "pos' = pos" using \<open>map_of (ch_stakes ch) ?w = Some s\<close> by auto
    then have "injest_vote cfg v ?ch' = ?ch'\<lparr>ch_forktrees := (ch_forktrees ?ch')[i := add_votes s ?w ?t pos],
        ch_events := ch_events ?ch'\<rparr>"
      using counted(6) at by (simp add: add_votes_idem newly_confirmed_same)
    then show ?thesis using ts by (simp add: list_update_overwrite)
  qed (use get in auto)
qed

text \<open>A block that was just included can be looked up.\<close>

lemma chain_get_included:
  assumes ts: "mset (forest_values (ch_forktrees ch')) = add_mset v (mset (forest_values (ch_forktrees ch)))"
    and new: "vb_hash (cfg_params cfg) v \<notin> set (forest_hashes (cfg_params cfg) (ch_forktrees ch))"
  shows "chain_get cfg ch' (vb_hash (cfg_params cfg) v) = Some (vb_block v)"
proof -
  let ?h = "vb_hash (cfg_params cfg) v"
  have set: "set (forest_values (ch_forktrees ch')) = insert v (set (forest_values (ch_forktrees ch)))"
    using arg_cong [OF ts, of set_mset] by simp
  have "forest_get (cfg_params cfg) ?h 0 (ch_forktrees ch') \<noteq> None"
    unfolding forest_get_None by (simp add: set)
  then obtain i pos where get: "forest_get (cfg_params cfg) ?h 0 (ch_forktrees ch') = Some (i, pos)" by auto
  obtain n where n: "i < length (ch_forktrees ch')" "node_at (ch_forktrees ch' ! i) pos = Some n"
    "node_ref (ch_forktrees ch' ! i) pos = n" "vb_hash (cfg_params cfg) (tn_value n) = ?h"
    using forest_getE [OF get] by blast
  have "tn_value n \<in> set (tn_values (ch_forktrees ch' ! i))" using node_at_values [OF n(2)] by auto
  then have "tn_value n \<in> set (forest_values (ch_forktrees ch'))" using n(1) by (auto simp: forest_values_def)
  moreover have "tn_value n \<notin> set (forest_values (ch_forktrees ch))"
  proof
    assume "tn_value n \<in> set (forest_values (ch_forktrees ch))"
    then have "vb_hash (cfg_params cfg) (tn_value n) \<in> set (forest_hashes (cfg_params cfg) (ch_forktrees ch))" by simp
    with new n(4) show False by simp
  qed
  ultimately have "tn_value n = v" unfolding set by simp
  then show ?thesis using get n(3) by (simp add: chain_get_def)
qed

lemma try_include_lookup:
  assumes "try_include cfg b ch = ret (None, ch')" and "get_block_node cfg ch (block_hash (cfg_params cfg) b) = None"
  shows "\<exists>e. chain_get cfg ch' (block_hash (cfg_params cfg) b) = Some e \<and> ex_underlying e = b"
  using assms(1)
proof (cases rule: try_includeE)
  case same
  with assms(2) show ?thesis by simp
next
  case (root e)
  have e: "ex_underlying e = b" using executed_new_ok [OF root(4)] by simp
  have "chain_get cfg ch' (vb_hash (cfg_params cfg) (volatile_new e)) = Some (vb_block (volatile_new e))"
    using root(3,6) e by (intro chain_get_included [where ch = ch])
      (auto simp: push_front_def tn_new_def get_block_node_None volatile_new_def)
  with e show ?thesis by (simp add: volatile_new_def)
next
  case (child i pos n e root')
  have e: "ex_underlying e = b" using executed_new_ok [OF child(5)] by simp
  obtain i: "i < length (ch_forktrees ch)" using forest_getE [OF child(1)] by blast
  have "root' = update_at (\<lambda>n. TreeNode (tn_value n) (tn_children n @ [TreeNode (volatile_new e) []])) (ch_forktrees ch ! i) pos"
    using child(7) by (auto elim!: add_childE)
  then have "mset (forest_values ((ch_forktrees ch)[i := root'])) = add_mset (volatile_new e) (mset (forest_values (ch_forktrees ch)))"
    unfolding forest_values_def using mset_concat_update [OF i values_update_child [OF child(2)]] by blast
  then have "chain_get cfg ch' (vb_hash (cfg_params cfg) (volatile_new e)) = Some (vb_block (volatile_new e))"
    using child(4,8) e by (intro chain_get_included [where ch = ch])
      (auto simp: push_front_def get_block_node_None volatile_new_def)
  with e show ?thesis by (simp add: volatile_new_def)
qed

section \<open>Accounting of a finalization\<close>

lemma root_hash_in: "t \<in> set ts \<Longrightarrow> vb_hash p (tn_value t) \<in> set (forest_hashes p ts)"
  by (induction ts) auto

lemma try_finalize_accounting:
  assumes inv: "chain_inv cfg ch" and ok: "try_finalize_roots cfg ch = Some (True, ch')"
  shows "\<exists>v discarded. ch_finalized ch' = ProducedBlock (vb_produced v)
    \<and> ch_events ch' = BlockFinalized (vb_block v) (vb_votes v) # map BlockDiscarded discarded @ ch_events ch
    \<and> mset (map vb_produced (forest_values (ch_forktrees ch))) =
        add_mset (vb_produced v) (mset discarded + mset (map vb_produced (forest_values (ch_forktrees ch'))))"
  using ok
proof (cases rule: try_finalize_rootsE)
  case (1 i v cs store ep)
  let ?others = "take i (ch_forktrees ch) @ drop (Suc i) (ch_forktrees ch)"
  have split: "mset (forest_values (ch_forktrees ch)) = mset (v # forest_values cs @ forest_values ?others)"
    using forest_values_split [OF 1(1)] by (simp add: 1(2) forest_values_def)
  have hashes: "mset (forest_hashes (cfg_params cfg) (ch_forktrees ch)) =
      mset (map (vb_hash (cfg_params cfg)) (v # forest_values cs @ forest_values ?others))"
    unfolding mset_map split ..
  have "distinct (forest_hashes (cfg_params cfg) (ch_forktrees ch))" using inv by (simp add: chain_inv_def)
  then have "distinct (map (vb_hash (cfg_params cfg)) (v # forest_values cs @ forest_values ?others))"
    unfolding mset_eq_imp_distinct_iff [OF hashes] .
  then have "vb_hash (cfg_params cfg) v \<notin> set (forest_hashes (cfg_params cfg) ?others)" by auto
  then have "vb_hash (cfg_params cfg) (tn_value t) \<noteq> vb_hash (cfg_params cfg) v" if "t \<in> set ?others" for t
    using that root_hash_in [of t ?others] by metis
  then have all: "filter (\<lambda>t. vb_hash (cfg_params cfg) (tn_value t) \<noteq> vb_hash (cfg_params cfg) v) ?others = ?others"
    by (simp add: filter_True)
  have "mset (map vb_produced (forest_values (ch_forktrees ch))) =
      add_mset (vb_produced v) (mset (map vb_produced (forest_values ?others)) + mset (map vb_produced (forest_values cs)))"
    using arg_cong [OF split, of "image_mset vb_produced"] by simp
  moreover have "mset (map vb_produced (forest_values ?others)) = mset (rev (map vb_produced (forest_values ?others)))"
    by simp
  moreover have "ch_events ch' = BlockFinalized (vb_block v) (vb_votes v)
      # map BlockDiscarded (rev (map vb_produced (forest_values ?others))) @ ch_events ch"
    using 1(8) unfolding all by (simp add: rev_map del: forest_values_simps)
  moreover have "ch_finalized ch' = ProducedBlock (vb_produced v)" "ch_forktrees ch' = cs"
    using 1(8) by simp_all
  ultimately show ?thesis by (intro exI [of _ v] exI [of _ "rev (map vb_produced (forest_values ?others))"]) simp
qed

end
