(* ===== verification/Rensa_Safety.thy ===== *)
theory Rensa_Safety
  imports Rensa_Consensus "HOL-Library.Sublist"
begin

text \<open>
  Safety and progress of the consensus: confirmed blocks have a quorum of voters and any two quorums
  share more than a third of the stake; the operations of a chain never panic by themselves; a
  validator's own votes within an epoch do not conflict; and what a finalization needs.
\<close>

section \<open>Weighted quorums\<close>

locale weighted_quorum =
  fixes members :: "'v set" and weight :: "'v \<Rightarrow> nat" and quorum :: "'v set \<Rightarrow> bool"
  assumes finite_members: "finite members"
    and quorum_members: "quorum A \<Longrightarrow> A \<subseteq> members"
    and quorum_weight: "quorum A \<Longrightarrow> 2 * sum weight members < 3 * sum weight A"
begin

lemma quorum_overlap:
  assumes "quorum A" and "quorum B"
  shows "sum weight members < 3 * sum weight (A \<inter> B)"
proof -
  have sub: "A \<subseteq> members" "B \<subseteq> members" using assms quorum_members by auto
  then have fin: "finite A" "finite B" using finite_members finite_subset by auto
  have "sum weight A + sum weight B = sum weight (A \<union> B) + sum weight (A \<inter> B)"
    using sum.union_inter [OF fin, of weight] by simp
  moreover have "sum weight (A \<union> B) \<le> sum weight members"
    using sub finite_members by (intro sum_mono2) auto
  ultimately show ?thesis using quorum_weight [OF assms(1)] quorum_weight [OF assms(2)] by linarith
qed

text \<open>If the faulty members hold at most a third of the weight, two quorums share a correct member.\<close>

lemma quorum_correct_member:
  assumes "quorum A" and "quorum B" and "3 * sum weight faulty \<le> sum weight members" and "finite faulty"
  shows "\<exists>v \<in> A \<inter> B. v \<notin> faulty"
proof (rule ccontr)
  assume "\<not> ?thesis"
  then have "A \<inter> B \<subseteq> faulty" by blast
  then have "sum weight (A \<inter> B) \<le> sum weight faulty" using assms(4) by (intro sum_mono2) auto
  then show False using quorum_overlap [OF assms(1,2)] assms(3) by linarith
qed

end

section \<open>Voters of confirmed blocks\<close>

abbreviation electorate :: "('d, 's) chain_cfg \<Rightarrow> (pubkey, u64) hash_map \<Rightarrow> pubkey set" where
  "electorate cfg stakes \<equiv> {w. eligible cfg stakes w}"

abbreviation stake_nat :: "(pubkey, u64) hash_map \<Rightarrow> pubkey \<Rightarrow> nat" where
  "stake_nat stakes w \<equiv> unat (stake_of stakes w)"

text \<open>The stake of all eligible validators, as an unbounded number.\<close>

definition electorate_stake :: "('d, 's) chain_cfg \<Rightarrow> (pubkey, u64) hash_map \<Rightarrow> nat" where
  "electorate_stake cfg stakes = sum (stake_nat stakes) (electorate cfg stakes)"

definition voter_quorum :: "('d, 's) chain_cfg \<Rightarrow> (pubkey, u64) hash_map \<Rightarrow> pubkey set \<Rightarrow> bool" where
  "voter_quorum cfg stakes A \<longleftrightarrow>
     A \<subseteq> electorate cfg stakes \<and> 0 < electorate_stake cfg stakes
     \<and> mul_067_ceil (electorate_stake cfg stakes) \<le> sum (stake_nat stakes) A"

lemma finite_electorate [simp]: "finite (electorate cfg stakes)"
proof (rule finite_subset)
  show "electorate cfg stakes \<subseteq> dom (map_of stakes)" by (auto simp: eligible_def)
qed (rule finite_dom_map_of)

interpretation voters: weighted_quorum "electorate cfg stakes" "stake_nat stakes" "voter_quorum cfg stakes"
  for cfg :: "('d, 's) chain_cfg" and stakes
proof unfold_locales
  fix A assume A: "voter_quorum cfg stakes A"
  then have "2 * electorate_stake cfg stakes < 3 * mul_067_ceil (electorate_stake cfg stakes)"
    by (intro mul_067_ceil_lower) (simp add: voter_quorum_def)
  with A show "2 * sum (stake_nat stakes) (electorate cfg stakes) < 3 * sum (stake_nat stakes) A"
    by (simp add: voter_quorum_def electorate_stake_def)
qed (auto simp: voter_quorum_def)

lemma unat_sum_words:
  "finite A \<Longrightarrow> sum (\<lambda>x. unat (f x :: u64)) A < 2 ^ 64 \<Longrightarrow> unat (sum f A) = sum (\<lambda>x. unat (f x)) A"
proof (induction A rule: finite_induct)
  case (insert a A)
  then show ?case by (simp add: unat_word_ariths)
qed simp

lemma fold_add_words: "fold (\<lambda>(_, s) a. a + s) kvs (z :: u64) = z + sum_list (map snd kvs)"
  by (induction kvs arbitrary: z) (auto simp: algebra_simps)

text \<open>\<open>total_stake\<close> adds up the electorate's stakes, modulo \<open>2^64\<close>.\<close>

lemma total_stake_sum:
  assumes "hm_invar (ch_stakes ch)"
  shows "total_stake cfg ch = sum (stake_of (ch_stakes ch)) (electorate cfg (ch_stakes ch))"
proof -
  let ?kvs = "filter (\<lambda>(_, s). s \<ge> minimum_stake (cfg_limits cfg)) (ch_stakes ch)"
  have dist: "distinct (map fst (ch_stakes ch))" using assms by (simp add: hm_invar_def)
  then have "distinct (map fst ?kvs)" by (simp add: distinct_map_filter)
  moreover have "map snd ?kvs = map (stake_of (ch_stakes ch)) (map fst ?kvs)"
    using dist by (auto simp: stake_of_def)
  ultimately have "sum_list (map snd ?kvs) = sum (stake_of (ch_stakes ch)) (set (map fst ?kvs))"
    by (metis sum.distinct_set_conv_list)
  moreover have "set (map fst ?kvs) = electorate cfg (ch_stakes ch)"
    using dist by (force simp: eligible_def)
  ultimately show ?thesis by (simp add: total_stake_def fold_add_words)
qed

lemma unat_majority:
  assumes "hm_invar (ch_stakes ch)" and "electorate_stake cfg (ch_stakes ch) < 2 ^ 64"
  shows "unat (minimum_majority_stake cfg ch) = mul_067_ceil (electorate_stake cfg (ch_stakes ch))"
proof -
  have "unat (total_stake cfg ch) = electorate_stake cfg (ch_stakes ch)"
    unfolding total_stake_sum [OF assms(1)] electorate_stake_def
    using assms(2) by (intro unat_sum_words) (auto simp: electorate_stake_def)
  then show ?thesis by (simp add: minimum_majority_stake_def unat_f64_majority)
qed

lemma unat_votes:
  assumes "node_ok cfg stakes v" and "electorate_stake cfg stakes < 2 ^ 64"
  shows "unat (vb_votes v) = sum (stake_nat stakes) (vb_voters v)"
proof -
  have "sum (stake_nat stakes) (vb_voters v) \<le> electorate_stake cfg stakes"
    unfolding electorate_stake_def using assms(1) by (intro sum_mono2) (auto simp: node_ok_def)
  then show ?thesis
    using assms unat_sum_words [of "vb_voters v" "stake_of stakes"] by (simp add: node_ok_def)
qed

lemma confirmed_quorum:
  assumes "node_ok cfg (ch_stakes ch) v" and "confirmed cfg ch v" and "hm_invar (ch_stakes ch)"
    and "0 < electorate_stake cfg (ch_stakes ch)" and "electorate_stake cfg (ch_stakes ch) < 2 ^ 64"
  shows "voter_quorum cfg (ch_stakes ch) (vb_voters v)"
proof -
  have "unat (minimum_majority_stake cfg ch) \<le> unat (vb_votes v)"
    using assms(2) by (simp add: confirmed_def word_le_nat_alt)
  then show ?thesis
    using assms unat_votes [OF assms(1,5)] unat_majority [OF assms(3,5)]
    by (auto simp: voter_quorum_def node_ok_def)
qed

lemma genesis_stakes_invar: "hm_invar (genesis_stakes g)"
proof -
  have "hm_invar m \<Longrightarrow> hm_invar (fold (\<lambda>v. hm_insert (val_pubkey v) (val_stake v)) vs m)" for vs m
    by (induction vs arbitrary: m) (auto simp: hm_invar_insert)
  then show ?thesis by (simp add: genesis_stakes_def)
qed

lemma forest_node_ok:
  assumes "chain_inv cfg ch" and "v \<in> set (forest_values (ch_forktrees ch))"
  shows "node_ok cfg (ch_stakes ch) v"
  using assms by (auto simp: chain_inv_def root_ok_def forest_values_def dest: tn_all_values)

lemma reachable_confirmed_quorum:
  assumes "reachable cfg fin ch" and "v \<in> set (forest_values (ch_forktrees ch))" and "confirmed cfg ch v"
    and "0 < electorate_stake cfg (genesis_stakes (cfg_genesis cfg))"
    and "electorate_stake cfg (genesis_stakes (cfg_genesis cfg)) < 2 ^ 64"
  shows "voter_quorum cfg (genesis_stakes (cfg_genesis cfg)) (vb_voters v)"
proof -
  have inv: "chain_inv cfg ch" and st: "ch_stakes ch = genesis_stakes (cfg_genesis cfg)"
    using reachable_inv [OF assms(1)] by auto
  show ?thesis
    using confirmed_quorum [OF forest_node_ok [OF inv assms(2)] assms(3)] genesis_stakes_invar assms(4,5) st by simp
qed

text \<open>Ancestors have at least the votes of their descendants.\<close>

lemma edge_votes_mono:
  assumes "node_ok cfg stakes v" and "node_ok cfg stakes c" and "edge_ok p v c"
    and "electorate_stake cfg stakes < 2 ^ 64"
  shows "vb_votes c \<le> vb_votes v"
proof -
  have "sum (stake_nat stakes) (vb_voters c) \<le> sum (stake_nat stakes) (vb_voters v)"
    using assms by (intro sum_mono2) (auto simp: node_ok_def edge_ok_def)
  then show ?thesis
    using unat_votes [OF assms(1,4)] unat_votes [OF assms(2,4)] by (simp add: word_le_nat_alt)
qed

lemma path_votes_mono:
  assumes all: "tn_all (node_ok cfg stakes) (edge_ok p) t" and at: "node_at t pos = Some n"
    and small: "electorate_stake cfg stakes < 2 ^ 64"
  shows "k < length (tn_path t pos) \<Longrightarrow> vb_votes (tn_value n) \<le> vb_votes (tn_value (tn_path t pos ! k))"
proof (induction k)
  case 0
  then show ?case using node_at_path [OF at] by auto
next
  case (Suc k)
  have ok: "node_ok cfg stakes (tn_value m)" if "m \<in> set (tn_path t pos)" for m
    using tn_all_path [OF all that] by (cases m) simp
  have "vb_votes (tn_value (tn_path t pos ! k)) \<le> vb_votes (tn_value (tn_path t pos ! Suc k))"
    using Suc.prems by (intro edge_votes_mono [OF ok ok tn_all_path_edge [OF all at] small]) auto
  with Suc show ?case by force
qed

section \<open>Checkpoints\<close>

lemma epoch_start_prefix:
  assumes "node_at root pos = Some n" and "epoch_blocks \<noteq> 0"
  shows "\<exists>q. epoch_start p epoch_blocks root pos = Some q \<and> prefix q pos"
proof -
  obtain up where "tn_path root pos = n # up" using node_at_path [OF assms(1)] by blast
  with assms(2) show ?thesis
    by (simp add: epoch_start_def Let_def take_is_prefix)
qed

lemma node_at_prefix: "node_at t pos = Some n \<Longrightarrow> prefix q pos \<Longrightarrow> \<exists>m. node_at t q = Some m"
  using node_at_take [of t pos n "length q"] by (metis append_eq_conv_conj prefix_def prefix_length_le)

lemma checkpoints_confirmed_total:
  assumes "g_epoch_blocks (cfg_genesis cfg) \<noteq> 0"
  shows "checkpoints_confirmed cfg ch root \<noteq> None"
proof -
  have step: "\<exists>q m. epoch_start p (g_epoch_blocks (cfg_genesis cfg)) root pos = Some q \<and> node_at root q = Some m"
    if "node_at root pos = Some n" for p pos n
    using epoch_start_prefix [OF that assms] node_at_prefix [OF that] by blast
  have parent: "\<exists>m. node_at root (butlast pos) = Some m" if "node_at root pos = Some n" for pos n
    using node_at_prefix [OF that] by (simp add: butlast_conv_take take_is_prefix)
  obtain n0 where "node_at root (tn_head root [] root) = Some n0"
    using tn_head_leaf [of root "[]" root] by auto
  then obtain hs n1 where hs: "epoch_start (cfg_params cfg) (g_epoch_blocks (cfg_genesis cfg)) root (tn_head root [] root) = Some hs"
    and "node_at root hs = Some n1" using step by blast
  then obtain q1 n2 where q1: "epoch_start (cfg_params cfg) (g_epoch_blocks (cfg_genesis cfg)) root (butlast hs) = Some q1"
    and "node_at root q1 = Some n2" using step parent by metis
  then obtain q2 where "epoch_start (cfg_params cfg) (g_epoch_blocks (cfg_genesis cfg)) root (butlast q1) = Some q2"
    using step parent by metis
  with hs q1 show ?thesis by (auto simp: checkpoints_confirmed_def Let_def)
qed

section \<open>No operation panics by itself\<close>

lemma find_finalizable_total:
  assumes "g_epoch_blocks (cfg_genesis cfg) \<noteq> 0"
  shows "find_finalizable_from cfg ch i ts \<noteq> None"
  using assms
proof (induction cfg ch i ts rule: find_finalizable_from.induct)
  case (2 cfg ch i root rest)
  obtain r where "checkpoints_confirmed cfg ch root = Some r"
    using checkpoints_confirmed_total [OF 2(3)] by blast
  with 2 show ?case by (cases r) auto
qed simp

text \<open>
  The \<open>assert!\<close> of \<open>Finalized::apply\<close> always holds, so only a storage error stops a finalization.
\<close>

lemma try_finalize_total:
  assumes inv: "chain_inv cfg ch" and eb: "g_epoch_blocks (cfg_genesis cfg) \<noteq> 0"
    and store: "\<And>d s. cfg_store_apply cfg d s \<noteq> None"
  shows "try_finalize_roots cfg ch \<noteq> None"
proof (cases "find_finalizable_root cfg ch")
  case None
  then show ?thesis using find_finalizable_total [OF eb] by (simp add: find_finalizable_root_def)
next
  case (Some r)
  show ?thesis
  proof (cases r)
    case None
    with Some show ?thesis by (simp add: try_finalize_roots_def)
  next
    case i: (Some i)
    let ?v = "tn_value (ch_forktrees ch ! i)"
    have "i < length (ch_forktrees ch)" using find_finalizable_root_Some Some i by blast
    then have "bl_parent (vb_produced ?v) = finalized_hash cfg ch"
      using inv by (simp add: chain_inv_def root_ok_def)
    moreover obtain st where "cfg_store_apply cfg (bo_state (ex_output (vb_block ?v))) (ch_store ch) = Some st"
      using store by blast
    ultimately show ?thesis
      using Some i eb by (simp add: try_finalize_roots_def finalize_root_def finalized_apply_def epoch_def Let_def)
  qed
qed

lemma finalize_loop_total:
  assumes "g_epoch_blocks (cfg_genesis cfg) \<noteq> 0" and "\<And>d s. cfg_store_apply cfg d s \<noteq> None"
  shows "chain_inv cfg ch \<Longrightarrow> finalize_loop cfg ch \<noteq> None"
proof (induction "length (forest_values (ch_forktrees ch))" arbitrary: ch rule: less_induct)
  case less
  obtain more c where step: "try_finalize_roots cfg ch = Some (more, c)"
    using try_finalize_total [OF less.prems assms] by (metis not_None_eq surj_pair)
  show ?case
  proof (cases more)
    case True
    with step have step: "try_finalize_roots cfg ch = Some (True, c)" by simp
    have "finalize_loop cfg c \<noteq> None"
      using less.hyps [OF forest_shrinks [OF step]] try_finalize_inv [OF less.prems step] by blast
    then show ?thesis unfolding finalize_loop_True [OF step] .
  next
    case False
    with step show ?thesis by (simp add: finalize_loop_False)
  qed
qed

lemma post_block_included_total:
  assumes "chain_inv cfg ch" and "g_epoch_blocks (cfg_genesis cfg) \<noteq> 0"
    and "\<And>d s. cfg_store_apply cfg d s \<noteq> None"
  shows "post_block_included cfg now b ch \<noteq> None"
proof -
  let ?ch1 = "count_votes cfg (bl_votes b) ch"
  obtain votes os where c: "consume_votes (block_hash (cfg_params cfg) b) (ch_orphans ?ch1) = (votes, os)"
    by (cases "consume_votes (block_hash (cfg_params cfg) b) (ch_orphans ?ch1)")
  have ch1: "chain_inv cfg ?ch1" unfolding count_votes_def by (rule fold_injest_vote_inv [OF assms(1)])
  then have "orphans_invar (cfg_params cfg) os"
    using consume_votes_invar [OF c] by (simp add: chain_inv_def)
  with ch1 have ch2: "chain_inv cfg (?ch1\<lparr>ch_orphans := os\<rparr>)" by simp
  let ?ch3 = "case votes of Some vs \<Rightarrow> fold (injest_vote cfg) vs (?ch1\<lparr>ch_orphans := os\<rparr>) | None \<Rightarrow> ?ch1\<lparr>ch_orphans := os\<rparr>"
  have "chain_inv cfg ?ch3" using ch2 by (auto split: option.split intro: fold_injest_vote_inv)
  then obtain ch4 where "finalize_loop cfg ?ch3 = Some ch4"
    using finalize_loop_total [OF assms(2,3)] by blast
  then show ?thesis by (simp add: post_block_included_def Let_def c split: prod.split)
qed

lemma poll_next_total:
  assumes "chain_inv cfg ch" and "g_epoch_blocks (cfg_genesis cfg) \<noteq> 0"
    and "\<And>d s. cfg_store_apply cfg d s \<noteq> None"
  shows "poll_next cfg now ch \<noteq> None"
proof -
  let ?ch0 = "ch\<lparr>ch_events := butlast (ch_events ch)\<rparr>"
  have "chain_inv cfg ?ch0" using assms(1) by simp
  then have "post_block_included cfg now b ?ch0 \<noteq> None" for b
    using post_block_included_total assms(2,3) by blast
  moreover have "post_block_finalized cfg b ?ch0 \<noteq> None" for b
    using assms(2) by (simp add: post_block_finalized_def epoch_def Let_def)
  ultimately show ?thesis
    unfolding poll_next_def Let_def by (cases "last (ch_events ch)") simp_all
qed

text \<open>Including a block panics only when the execution of a payload does.\<close>

lemma add_child_total:
  assumes "node_at t pos = Some n" and "bl_parent (vb_produced b) = vb_hash p (tn_value n)"
  shows "add_child p t pos b \<noteq> None"
  using assms by (simp add: add_child_def)

lemma try_include_total:
  assumes "\<And>st. cfg_run cfg st (bl_data b) \<noteq> None"
  shows "try_include cfg b ch \<noteq> None"
proof -
  have run: "executed_new (cfg_crypto cfg) (cfg_run cfg) st b = None \<longleftrightarrow> False" for st
    using assms [of st] by (auto simp: executed_new_def bind_comp_eq_None split: if_splits)
  have child: "add_child (cfg_params cfg) (ch_forktrees ch ! i) pos (volatile_new e) \<noteq> None"
    if get: "forest_get (cfg_params cfg) (bl_parent b) 0 (ch_forktrees ch) = Some (i, pos)"
      and e: "executed_new (cfg_crypto cfg) (cfg_run cfg) st b = ret e" for i pos e st
  proof -
    obtain n where "node_at (ch_forktrees ch ! i) pos = Some n" "vb_hash (cfg_params cfg) (tn_value n) = bl_parent b"
      using forest_getE [OF get] by blast
    then show ?thesis
      using executed_new_ok [OF e] by (intro add_child_total) (auto simp: volatile_new_def)
  qed
  show ?thesis
  proof
    assume "try_include cfg b ch = None"
    then show False
      unfolding try_include_def Let_def
      by (auto simp: bind_comp_eq_None run dest: child split: if_split_asm option.split_asm)
  qed
qed

lemma include_one_total:
  assumes "\<And>st. cfg_run cfg st (bl_data b) \<noteq> None" and "g_epoch_blocks (cfg_genesis cfg) \<noteq> 0"
  shows "include_one cfg now b ch \<noteq> None"
proof -
  have cv: "commit_and_vote cfg h c = None \<longleftrightarrow> False" for h c
    using assms(2) by (simp add: commit_and_vote_def epoch_def Let_def split: option.split)
  show ?thesis
    using try_include_total [of cfg b ch, OF assms(1)]
    by (auto simp: include_one_def Let_def cv split: option.split sum.split prod.split)
qed

text \<open>The blocks that wait in the orphans. What an inclusion releases and keeps waiting was waiting before, or is the block itself.\<close>

fun on_blocks :: "'d orphan_node \<Rightarrow> 'd produced set" where
  "on_blocks (ONode at b cs) = insert b (\<Union>(k, n) \<in> set cs. on_blocks n)"

definition orphan_blocks :: "'d orphans \<Rightarrow> 'd produced set" where
  "orphan_blocks os = (\<Union>(k, n) \<in> set (or_blocks os). on_blocks n)"

lemma set_flatten: "set (flatten_loop q) = (\<Union>n \<in> set q. on_blocks n)"
  by (induction q rule: flatten_loop.induct) (auto simp: case_prod_unfold)

lemma on_insert_blocks:
  "on_insert p now new n = Some n' \<Longrightarrow> on_blocks n' \<subseteq> insert new (on_blocks n)"
  "on_insert_any p now new cs = Some cs' \<Longrightarrow> (\<Union>(k, n) \<in> set cs'. on_blocks n) \<subseteq> insert new (\<Union>(k, n) \<in> set cs. on_blocks n)"
proof (induction p now new n and p now new cs arbitrary: n' and cs' rule: on_insert_on_insert_any.induct)
  case (1 p now new at b cs)
  then show ?case by (auto simp: on_new_def split: if_splits option.splits dest!: set_hm_insert) fastforce+
qed (fastforce split: option.splits)+

lemma orphan_blocks_add: "orphan_blocks (orphans_add_block p now b os) \<subseteq> insert b (orphan_blocks os)"
proof (cases "on_insert_any p now b (or_blocks os)")
  case None
  have new: "(\<Union>(k, n) \<in> set (hm_insert h (on_new now b) bs). on_blocks n) \<subseteq> insert b (\<Union>(k, n) \<in> set bs. on_blocks n)" for h bs
  proof
    fix x assume "x \<in> (\<Union>(k, n) \<in> set (hm_insert h (on_new now b) bs). on_blocks n)"
    then obtain k n where "(k, n) \<in> set (hm_insert h (on_new now b) bs)" "x \<in> on_blocks n" by auto
    then show "x \<in> insert b (\<Union>(k, n) \<in> set bs. on_blocks n)" using set_hm_insert by (fastforce simp: on_new_def)
  qed
  have blocks: "or_blocks (orphans_add_block p now b os) =
      (if map_of (or_blocks os) (bl_parent b) = None then hm_insert (bl_parent b) (on_new now b) (or_blocks os) else or_blocks os)"
    using None by (simp add: orphans_add_block_def)
  show ?thesis
    unfolding orphan_blocks_def blocks
    by (cases "map_of (or_blocks os) (bl_parent b) = None") (simp_all only: simp_thms if_True if_False new subset_insertI)
next
  case (Some cs)
  then show ?thesis using on_insert_blocks(2) [OF Some] by (simp add: orphans_add_block_def orphan_blocks_def)
qed

lemma orphan_blocks_consume:
  assumes "consume_blocks h os = (r, os')"
  shows "orphan_blocks os' \<subseteq> orphan_blocks os" and "r = Some bs \<Longrightarrow> set bs \<subseteq> orphan_blocks os"
  using assms by (force simp: consume_blocks_def orphan_blocks_def on_flatten_def set_flatten dest!: set_hm_remove map_of_SomeD)+

lemma include_one_blocks:
  assumes "include_one cfg now b ch = Some (bs, ch')"
  shows "set bs \<union> orphan_blocks (ch_orphans ch') \<subseteq> insert b (orphan_blocks (ch_orphans ch))"
  using assms
proof (cases rule: include_one_cases)
  case orphan
  then show ?thesis using orphan_blocks_add by simp
next
  case (consumed ch1 ch2)
  obtain r os where c: "consume_blocks (block_hash (cfg_params cfg) b) (ch_orphans ch2) = (r, os)" by fastforce
  have "ch_orphans ch2 = ch_orphans ch" using consumed(5) commit_and_vote_orphans try_include_orphans [OF consumed(4)] by metis
  then show ?thesis using consumed(6,7) orphan_blocks_consume [OF c] c by (cases r) auto
qed auto

text \<open>An inclusion returns when executing its payload and the payloads of the waiting orphans returns.\<close>

lemma include_all_returns:
  assumes "g_epoch_blocks (cfg_genesis cfg) \<noteq> 0"
    and "\<And>b st. b \<in> set bs \<union> orphan_blocks (ch_orphans ch) \<Longrightarrow> cfg_run cfg st (bl_data b) \<noteq> None"
  shows "include_all cfg now bs ch \<noteq> None"
  using assms
proof (induction cfg now bs ch rule: include_all.induct)
  case (2 cfg now b rest ch)
  have "include_one cfg now b ch \<noteq> None" using 2(2,3) by (intro include_one_total) auto
  then obtain os ch' where r: "include_one cfg now b ch = Some (os, ch')" by auto
  have "include_all cfg now (os @ rest) ch' \<noteq> None"
    using include_one_blocks [OF r] 2(2,3) by (intro 2(1) [OF r refl]) auto
  then show ?case using r by simp
qed simp

lemma include_all_total:
  assumes "\<And>st d. cfg_run cfg st d \<noteq> None" and "g_epoch_blocks (cfg_genesis cfg) \<noteq> 0"
  shows "include_all cfg now bs ch \<noteq> None"
  using assms by (intro include_all_returns) auto

section \<open>Own votes\<close>

text \<open>
  A vote is cast only for the block asked for, justified by the last finalized block; when the
  validator has already voted in that epoch, the new target descends from the earlier one.
\<close>

lemma commit_and_vote_cast:
  assumes "commit_and_vote cfg h ch = Some ch'" and "ch_events ch' \<noteq> ch_events ch"
  obtains i pos n ep where "forest_get (cfg_params cfg) h 0 (ch_forktrees ch) = Some (i, pos)"
    and "node_at (ch_forktrees ch ! i) pos = Some n" and "vb_hash (cfg_params cfg) (tn_value n) = h"
    and "epoch cfg (bl_height (vb_produced (tn_value n))) = Some ep"
    and "ch' = push_front (Vote h (finalized_hash cfg ch))
           (ch\<lparr>ch_ownvotes := hm_insert ep (finalized_hash cfg ch, h) (ch_ownvotes ch)\<rparr>)"
    and "\<And>j t. map_of (ch_ownvotes ch) ep = Some (j, t) \<Longrightarrow>
           in_finalized_history cfg ch j \<and> is_descendant_of (cfg_params cfg) (ch_forktrees ch ! i) pos t"
proof (cases "forest_get (cfg_params cfg) h 0 (ch_forktrees ch)")
  case None
  with assms show thesis by (simp add: commit_and_vote_def)
next
  case (Some ip)
  then obtain i pos where get: "forest_get (cfg_params cfg) h 0 (ch_forktrees ch) = Some (i, pos)"
    by (cases ip) auto
  obtain n where n: "node_at (ch_forktrees ch ! i) pos = Some n" "node_ref (ch_forktrees ch ! i) pos = n"
    "vb_hash (cfg_params cfg) (tn_value n) = h"
    using forest_getE [OF get] by blast
  obtain ep where ep: "epoch cfg (bl_height (vb_produced (tn_value n))) = Some ep"
    using assms(1) get n by (auto simp: commit_and_vote_def Let_def split: option.splits)
  let ?refused = "case map_of (ch_ownvotes ch) ep of None \<Rightarrow> False
     | Some (j, t) \<Rightarrow> (j \<noteq> finalized_hash cfg ch \<and> \<not> in_finalized_history cfg ch j)
         \<or> \<not> is_descendant_of (cfg_params cfg) (ch_forktrees ch ! i) pos t"
  have run: "ch' = (if ?refused then ch else push_front (Vote h (finalized_hash cfg ch))
      (ch\<lparr>ch_ownvotes := hm_insert ep (finalized_hash cfg ch, h) (ch_ownvotes ch)\<rparr>))"
    using assms(1) get n ep by (simp add: commit_and_vote_def Let_def cong: if_cong)
  have nref: "\<not> ?refused" using assms(2) run by auto
  show thesis
  proof (rule that [OF get n(1,3) ep])
    show "ch' = push_front (Vote h (finalized_hash cfg ch))
        (ch\<lparr>ch_ownvotes := hm_insert ep (finalized_hash cfg ch, h) (ch_ownvotes ch)\<rparr>)"
      using run nref by simp
  next
    fix j t assume "map_of (ch_ownvotes ch) ep = Some (j, t)"
    with nref show "in_finalized_history cfg ch j \<and> is_descendant_of (cfg_params cfg) (ch_forktrees ch ! i) pos t"
      by (auto simp: in_finalized_history_def)
  qed
qed

end
