(* ===== verification/Rensa_Demo.thy ===== *)
theory Rensa_Demo
  imports Rensa_Builtins Rensa_Safety
begin

text \<open>
  Small concrete instances on which the witnesses of the properties are evaluated: a transparent
  cryptography (a hash is the length of its input, a signature is the key followed by the message, keys start with
  byte 0), a chain with one validator and epochs of one block, and a currency with two wallets.
\<close>

definition demo_sha3 :: "bytes \<Rightarrow> bytes" where
  "demo_sha3 bs = [7, of_nat (length bs)]"

definition demo_crypto :: crypto where
  "demo_crypto = \<lparr>sha3_256 = demo_sha3, mh_wrap = (\<lambda>bs. bs), on_curve = (\<lambda>k. k \<noteq> [] \<and> hd k = 0),
     ed_verify = (\<lambda>k m s. s = k @ m), ed_public = (\<lambda>k. k), ed_sign = (\<lambda>k m. k @ m), b58_encode = (\<lambda>bs. ''b58'')\<rparr>"

lemma demo_crypto_simps [simp]:
  "sha3_256 demo_crypto = demo_sha3" "mh_wrap demo_crypto = (\<lambda>bs. bs)"
  "on_curve demo_crypto = (\<lambda>k. k \<noteq> [] \<and> hd k = 0)" "ed_verify demo_crypto = (\<lambda>k m s. s = k @ m)"
  "ed_public demo_crypto = (\<lambda>k. k)" "ed_sign demo_crypto = (\<lambda>k m. k @ m)" "b58_encode demo_crypto = (\<lambda>bs. ''b58'')"
  by (simp_all add: demo_crypto_def)

lemma demo_signing: "signing_correct demo_crypto"
  by (simp add: signing_correct_def)

definition demo_limits :: limits where
  "demo_limits = \<lparr>max_justification_age = 9, minimum_stake = 10, max_input_accounts = 8, max_account_size = 64,
     max_log_size = 32, max_logs_count = 9, max_block_transactions = 9, max_contract_size = 64,
     max_block_size = 64, max_transaction_params_size = 9\<rparr>"

section \<open>A chain\<close>

text \<open>Payloads are bytes and execute to the empty output.\<close>

definition demo_params :: "byte block_params" where
  "demo_params = \<lparr>bp_crypto = demo_crypto, bp_serialize = (\<lambda>d. [d])\<rparr>"

definition demo_genesis :: genesis where
  "demo_genesis = \<lparr>g_chain_id = ''x'', g_genesis_time = 0, g_slot_interval = 0, g_epoch_blocks = 1,
     g_limits = demo_limits, g_builtins = [],
     g_validators = [Validator [0, 1] 100],
     g_system_coin = [], g_state = []\<rparr>"

definition demo_cfg :: "(byte, unit) chain_cfg" where
  "demo_cfg = \<lparr>cfg_params = demo_params, cfg_genesis = demo_genesis,
     cfg_run = (\<lambda>st d. ret block_output_empty), cfg_store_get = (\<lambda>s a. None), cfg_store_apply = (\<lambda>d s. Some s)\<rparr>"

lemma demo_genesis_hash: "genesis_hash demo_crypto demo_genesis = [7, 115]"
  by (simp add: genesis_hash_def sha3_multihash_def demo_sha3_def demo_genesis_def demo_limits_def Let_def
      str_bytes_def le_bytes_u128_def le_bytes_usize_def)

lemma demo_output_hash: "bo_hash demo_crypto block_output_empty = [7, 6]"
  by (simp add: bo_hash_def sd_hash_def logs_hash_def errors_hash_def block_output_empty_def sd_default_def
      sha3_multihash_def demo_sha3_def)

definition demo_vote :: "multihash \<Rightarrow> vote" where
  "demo_vote target = vote_new demo_crypto [0, 1] target [7, 115]"

text \<open>
  Block \<open>n + 1\<close> extends block \<open>n\<close> and carries the validator's vote on it, repeated to give every block
  its own hash.
\<close>

definition demo_block :: "u64 \<Rightarrow> multihash \<Rightarrow> vote list \<Rightarrow> byte produced" where
  "demo_block height parent votes = produced_new demo_params [0, 1] height parent 5 [7, 6] votes"

definition demo_b1 :: "byte produced" where
  "demo_b1 = demo_block 1 [7, 115] []"

definition demo_b2 :: "byte produced" where
  "demo_b2 = demo_block 2 [7, 16] [demo_vote [7, 16]]"

definition demo_b3 :: "byte produced" where
  "demo_b3 = demo_block 3 [7, 18] [demo_vote [7, 18], demo_vote [7, 18]]"

definition demo_b4 :: "byte produced" where
  "demo_b4 = demo_block 4 [7, 20] [demo_vote [7, 20], demo_vote [7, 20], demo_vote [7, 20]]"

lemmas demo_blocks = demo_b1_def demo_b2_def demo_b3_def demo_b4_def

lemma demo_block_hash: "length votes < 100 \<Longrightarrow> block_hash demo_params (demo_block h par votes) =
    [7, of_nat (14 + length par + 2 * length votes)]"
proof -
  have "length (concat (map (vote_hash demo_crypto) votes)) = 2 * length votes"
    by (induction votes) (simp_all add: vote_hash_def sha3_multihash_def demo_sha3_def)
  then show ?thesis
    by (simp add: demo_block_def block_hash_new hash_parts_def data_hash_def demo_params_def sha3_multihash_def
        demo_sha3_def)
qed

lemma demo_hashes [simp]:
  "block_hash demo_params demo_b1 = [7, 16]" "block_hash demo_params demo_b2 = [7, 18]"
  "block_hash demo_params demo_b3 = [7, 20]" "block_hash demo_params demo_b4 = [7, 22]"
  by (simp_all add: demo_blocks demo_block_hash)

lemma demo_fields [simp]:
  "bl_parent demo_b1 = [7, 115]" "bl_parent demo_b2 = [7, 16]" "bl_parent demo_b3 = [7, 18]" "bl_parent demo_b4 = [7, 20]"
  "bl_height demo_b1 = 1" "bl_height demo_b2 = 2" "bl_height demo_b3 = 3" "bl_height demo_b4 = 4"
  "bl_state_hash demo_b1 = [7, 6]" "bl_state_hash demo_b2 = [7, 6]" "bl_state_hash demo_b3 = [7, 6]"
  "bl_state_hash demo_b4 = [7, 6]"
  "fst (bl_signature demo_b1) = [0, 1]" "fst (bl_signature demo_b2) = [0, 1]"
  "fst (bl_signature demo_b3) = [0, 1]" "fst (bl_signature demo_b4) = [0, 1]"
  "bl_votes demo_b1 = []" "bl_votes demo_b2 = [demo_vote [7, 16]]"
  "bl_votes demo_b3 = [demo_vote [7, 18], demo_vote [7, 18]]"
  "bl_votes demo_b4 = [demo_vote [7, 20], demo_vote [7, 20], demo_vote [7, 20]]"
  by (simp_all add: demo_blocks demo_block_def produced_new_def demo_params_def Let_def)

lemma demo_signatures [simp]:
  "block_verify_signature demo_params demo_b1" "block_verify_signature demo_params demo_b2"
  "block_verify_signature demo_params demo_b3" "block_verify_signature demo_params demo_b4"
  by (simp_all add: block_verify_signature_def demo_blocks demo_block_def block_hash_def produced_new_def demo_params_def Let_def)

lemma demo_vote_simps [simp]:
  "vote_verify_signature demo_crypto (demo_vote h)" "vote_validator (demo_vote h) = [0, 1]"
  "vote_target (demo_vote h) = h" "vote_justification (demo_vote h) = [7, 115]"
  by (simp_all add: demo_vote_def vote_verify_signature_def vote_new_def)

definition demo_start :: "(byte, unit) chain" where
  "demo_start = \<lparr>ch_stakes = [([0, 1], 100)], ch_finalized = GenesisBlock demo_genesis,
     ch_store = (), ch_forktrees = [], ch_orphans = orphans_new 0, ch_ownvotes = [], ch_events = [],
     ch_finalized_history = []\<rparr>"

lemma demo_start_new: "chain_new demo_cfg (GenesisBlock demo_genesis) () = Some demo_start"
  by (simp add: chain_new_def demo_start_def demo_cfg_def demo_genesis_def genesis_stakes_def hm_insert_def)

lemma f64_majority_100: "f64_majority 100 = 67"
  by (simp add: f64_majority_def mul_067_ceil_def round53_def f64_067_def bit_length.simps)

definition demo_include :: "byte produced \<Rightarrow> (byte, unit) chain \<Rightarrow> (byte, unit) chain" where
  "demo_include b ch = the (include_block demo_cfg 0 b ch)"

primrec demo_polls :: "nat \<Rightarrow> (byte, unit) chain \<Rightarrow> (byte, unit) chain" where
  "demo_polls 0 ch = ch"
| "demo_polls (Suc n) ch = demo_polls n (snd (the (poll_next demo_cfg 0 ch)))"

lemma demo_cfg_simps [simp]:
  "cfg_params demo_cfg = demo_params" "cfg_genesis demo_cfg = demo_genesis"
  "cfg_run demo_cfg st d \<noteq> None" "cfg_store_apply demo_cfg df s \<noteq> None"
  "g_epoch_blocks demo_genesis \<noteq> 0" "bp_crypto demo_params = demo_crypto"
  by (simp_all add: demo_cfg_def demo_genesis_def demo_params_def)

lemma demo_start_reachable: "reachable demo_cfg (GenesisBlock demo_genesis) demo_start"
  using demo_start_new by (rule reach_new)

lemma demo_include_reachable:
  assumes "reachable demo_cfg fin ch"
  shows "reachable demo_cfg fin (demo_include b ch)"
proof -
  have "include_block demo_cfg 0 b ch \<noteq> None"
    unfolding include_block_def by (rule include_all_total) simp_all
  then show ?thesis using assms by (metis demo_include_def option.collapse reach_include)
qed

lemma demo_polls_reachable: "reachable demo_cfg fin ch \<Longrightarrow> reachable demo_cfg fin (demo_polls n ch)"
proof (induction n arbitrary: ch)
  case (Suc n)
  have inv: "chain_inv demo_cfg ch" using reachable_inv [OF Suc.prems] by simp
  have "poll_next demo_cfg 0 ch \<noteq> None" by (rule poll_next_total [OF inv]) simp_all
  then have "reachable demo_cfg fin (snd (the (poll_next demo_cfg 0 ch)))"
    using Suc.prems by (metis option.collapse prod.collapse reach_poll)
  then show ?case using Suc.IH by simp
qed simp

text \<open>The four blocks included and polled one after the other.\<close>

definition demo_exec :: "byte produced \<Rightarrow> byte executed" where
  "demo_exec b = \<lparr>ex_underlying = b, ex_output = block_output_empty\<rparr>"

lemma demo_exec_simps [simp]: "ex_underlying (demo_exec b) = b" "ex_output (demo_exec b) = block_output_empty"
  by (simp_all add: demo_exec_def)

lemma demo_executed_new:
  "executed_new demo_crypto (cfg_run demo_cfg) st b =
     (if bl_state_hash b = [7, 6] then ret (demo_exec b) else throw InconsistentStateHash)"
  by (simp add: executed_new_def demo_cfg_def demo_output_hash demo_exec_def)

lemma demo_majority: "ch_stakes ch = [([0, 1], 100)] \<Longrightarrow> minimum_majority_stake demo_cfg ch = 67"
  by (simp add: minimum_majority_stake_def total_stake_def demo_genesis_def demo_limits_def f64_majority_100)

lemma demo_epoch: "epoch demo_cfg h = Some h" "g_epoch_blocks demo_genesis = 1" "minimum_stake (g_limits demo_genesis) = 10"
  "node_epoch 1 n = bl_height (vb_produced (tn_value n))"
  by (simp_all add: epoch_def demo_genesis_def demo_limits_def node_epoch_def)

lemma demo_no_finalize:
  "find_finalizable_root demo_cfg ch = Some None \<Longrightarrow> finalize_loop demo_cfg ch = Some ch"
  by (rule finalize_loop_False) (simp add: try_finalize_roots_def)

lemmas demo_eval = include_block_def include_one_def try_include_def get_block_node_def demo_include_def
  demo_executed_new demo_epoch push_front_def tn_new_def with_head_def sorted_heads_def
  commit_and_vote_def consume_blocks_def consume_votes_def orphans_new_def hm_insert_def hm_remove_def poll_next_def
  post_block_included_def count_votes_def injest_vote_def demo_genesis_hash in_finalized_history_def missing_blocks_def
  is_descendant_of_def newly_confirmed_def confirmed_def demo_majority demo_no_finalize find_finalizable_root_def
  vb_add_votes_def add_child_def tn_state_def checkpoints_confirmed_def epoch_start_def tn_depth_def Let_def

abbreviation demo_node :: "byte produced \<Rightarrow> bool \<Rightarrow> byte tree_node list \<Rightarrow> byte tree_node" where
  "demo_node b voted \<equiv> TreeNode \<lparr>vb_block = demo_exec b, vb_votes = if voted then 100 else 0,
     vb_voters = if voted then {[0, 1]} else {}\<rparr>"

text \<open>The states that occur: no orphans, nothing finalized yet.\<close>

definition demo_at :: "byte tree_node list \<Rightarrow> (u64, multihash \<times> multihash) hash_map \<Rightarrow> byte chain_event list \<Rightarrow> (byte, unit) chain" where
  "demo_at ts own es = demo_start\<lparr>ch_forktrees := ts, ch_ownvotes := own, ch_events := es\<rparr>"

lemma demo_at_simps [simp]:
  "ch_stakes (demo_at ts own es) = [([0, 1], 100)]" "ch_finalized (demo_at ts own es) = GenesisBlock demo_genesis"
  "ch_forktrees (demo_at ts own es) = ts" "ch_ownvotes (demo_at ts own es) = own" "ch_events (demo_at ts own es) = es"
  "ch_orphans (demo_at ts own es) = orphans_new 0" "ch_finalized_history (demo_at ts own es) = []"
  "demo_at ts own es\<lparr>ch_events := es'\<rparr> = demo_at ts own es'"
  "demo_at ts own es\<lparr>ch_forktrees := ts'\<rparr> = demo_at ts' own es"
  "demo_at ts own es\<lparr>ch_ownvotes := own'\<rparr> = demo_at ts own' es"
  "demo_at ts own es\<lparr>ch_orphans := orphans_new 0\<rparr> = demo_at ts own es"
  by (simp_all add: demo_at_def demo_start_def)

lemma demo_orphans [simp]:
  "consume_blocks h (orphans_new 0) = (None, orphans_new 0)" "consume_votes h (orphans_new 0) = (None, orphans_new 0)"
  "missing_blocks now m (orphans_new 0) = ([], orphans_new 0)"
  by (simp_all add: consume_blocks_def consume_votes_def missing_blocks_def orphans_new_def hm_remove_def)

lemma demo_poll_included:
  assumes "count_votes demo_cfg (bl_votes b) (demo_at ts own es) = demo_at ts' own es'"
    and "find_finalizable_root demo_cfg (demo_at ts' own es') = Some None"
  shows "poll_next demo_cfg 0 (demo_at ts own (es @ [BlockIncluded (demo_exec b)])) =
    Some (Some (BlockIncluded (demo_exec b)), demo_at ts' own es')"
proof -
  have "post_block_included demo_cfg 0 b (demo_at ts own es) = Some (demo_at ts' own es')"
    unfolding post_block_included_def Let_def assms(1) by (simp add: demo_no_finalize [OF assms(2)])
  then show ?thesis by (simp add: poll_next_def Let_def)
qed

definition demo_c1 :: "(byte, unit) chain" where
  "demo_c1 = demo_at [demo_node demo_b1 False []] [(1, [7, 115], [7, 16])] []"

definition demo_c2 :: "(byte, unit) chain" where
  "demo_c2 = demo_at [demo_node demo_b1 True [demo_node demo_b2 False []]]
     [(1, [7, 115], [7, 16]), (2, [7, 115], [7, 18])]
     [Vote [7, 18] [7, 115], BlockConfirmed (demo_exec demo_b1) 100]"

lemma demo_include_b1:
  "demo_include demo_b1 demo_start = demo_at [demo_node demo_b1 False []] [(1, [7, 115], [7, 16])]
     ([Vote [7, 16] [7, 115]] @ [BlockIncluded (demo_exec demo_b1)])"
  by (simp add: demo_eval demo_at_def demo_start_def volatile_new_def)

lemma demo_polls_b1: "demo_polls 2 (demo_include demo_b1 demo_start) = demo_c1"
proof -
  have "poll_next demo_cfg 0 (demo_include demo_b1 demo_start) = Some (Some (BlockIncluded (demo_exec demo_b1)),
      demo_at [demo_node demo_b1 False []] [(1, [7, 115], [7, 16])] [Vote [7, 16] [7, 115]])"
    unfolding demo_include_b1
    by (rule demo_poll_included) (simp_all add: count_votes_def find_finalizable_root_def demo_majority)
  then show ?thesis by (simp add: numeral_2_eq_2 poll_next_def demo_c1_def)
qed

lemma demo_include_b2:
  "demo_include demo_b2 demo_c1 = demo_at [demo_node demo_b1 False [demo_node demo_b2 False []]]
     [(1, [7, 115], [7, 16]), (2, [7, 115], [7, 18])]
     ([Vote [7, 18] [7, 115]] @ [BlockIncluded (demo_exec demo_b2)])"
  by (simp add: demo_eval demo_c1_def volatile_new_def)

lemma demo_polls_b2: "demo_polls 1 (demo_include demo_b2 demo_c1) = demo_c2"
proof -
  have "poll_next demo_cfg 0 (demo_include demo_b2 demo_c1) = Some (Some (BlockIncluded (demo_exec demo_b2)),
      demo_at [demo_node demo_b1 True [demo_node demo_b2 False []]] [(1, [7, 115], [7, 16]), (2, [7, 115], [7, 18])]
        [Vote [7, 18] [7, 115], BlockConfirmed (demo_exec demo_b1) 100])"
    unfolding demo_include_b2
    by (rule demo_poll_included) (simp_all add: demo_eval)
  then show ?thesis by (simp add: demo_c2_def)
qed

lemma demo_c2_reachable: "reachable demo_cfg (GenesisBlock demo_genesis) demo_c2"
  using demo_start_reachable demo_include_reachable demo_polls_reachable demo_polls_b1 demo_polls_b2 by metis

text \<open>The third block's votes confirm the second one: the first can be finalized.\<close>

abbreviation demo_own3 :: "(u64, multihash \<times> multihash) hash_map" where
  "demo_own3 \<equiv> [(1, [7, 115], [7, 16]), (2, [7, 115], [7, 18]), (3, [7, 115], [7, 20])]"

definition demo_c3 :: "(byte, unit) chain" where
  "demo_c3 = demo_at [demo_node demo_b1 True [demo_node demo_b2 True [demo_node demo_b3 False []]]] demo_own3
     [BlockConfirmed (demo_exec demo_b2) 100]"

lemma demo_include_b3:
  "demo_include demo_b3 (demo_c2\<lparr>ch_events := []\<rparr>) =
     demo_at [demo_node demo_b1 True [demo_node demo_b2 False [demo_node demo_b3 False []]]] demo_own3
     [Vote [7, 20] [7, 115], BlockIncluded (demo_exec demo_b3)]"
  by (simp add: demo_eval demo_c2_def volatile_new_def)

lemma demo_c3_votes:
  "count_votes demo_cfg (bl_votes demo_b3) (demo_include demo_b3 (demo_c2\<lparr>ch_events := []\<rparr>)\<lparr>ch_events := []\<rparr>) = demo_c3"
  unfolding demo_include_b3 demo_c3_def by (simp add: demo_eval)

lemma demo_c3_inv: "chain_inv demo_cfg demo_c3"
proof -
  have "chain_inv demo_cfg demo_c2" using reachable_inv [OF demo_c2_reachable] by simp
  then have inv: "chain_inv demo_cfg (demo_c2\<lparr>ch_events := []\<rparr>)" by simp
  have "include_all demo_cfg 0 [demo_b3] (demo_c2\<lparr>ch_events := []\<rparr>) =
      Some (demo_include demo_b3 (demo_c2\<lparr>ch_events := []\<rparr>))"
    using include_all_total [of demo_cfg 0 "[demo_b3]"]
    by (metis demo_cfg_simps(2,3,5) demo_include_def include_block_def option.collapse)
  from include_all_inv [OF inv this]
  have "chain_inv demo_cfg (count_votes demo_cfg (bl_votes demo_b3)
      (demo_include demo_b3 (demo_c2\<lparr>ch_events := []\<rparr>)\<lparr>ch_events := []\<rparr>))"
    unfolding count_votes_def by (intro fold_injest_vote_inv) simp
  then show ?thesis by (simp only: demo_c3_votes)
qed

lemma demo_c3_finalizable: "find_finalizable_root demo_cfg demo_c3 = Some (Some 0)"
  by (simp add: demo_eval demo_c3_def)

lemma demo_stake: "electorate_stake demo_cfg [([0, 1], 100)] = 100"
proof -
  have "electorate demo_cfg [([0, 1], 100)] = {[0, 1]}"
    by (auto simp: eligible_def demo_genesis_def demo_limits_def split: if_splits)
  then show ?thesis by (simp add: electorate_stake_def stake_of_def)
qed

lemma demo_genesis_stakes: "genesis_stakes demo_genesis = [([0, 1], 100)]"
  by (simp add: genesis_stakes_def demo_genesis_def hm_insert_def)

end
