(* ===== verification/Rensa_Accountable.thy ===== *)
theory Rensa_Accountable
  imports Rensa_Safety
begin

text \<open>
  Who is behind a confirmed block. Every voter a chain records on a block has signed a vote whose target
  is that block or one of its descendants, in every reachable state; so the validators that two confirmed
  blocks share have signed a vote on each of them, and when the blocks are on different branches the two
  votes have different targets.
\<close>

section \<open>Voters with signed votes\<close>

definition signed_voters :: "'d block_params \<Rightarrow> 'd tree_node \<Rightarrow> bool" where
  "signed_voters p n \<longleftrightarrow>
     (\<forall>k \<in> vb_voters (tn_value n). \<exists>w. vote_validator w = k \<and> vote_verify_signature (bp_crypto p) w
        \<and> vote_target w \<in> set (tn_hashes p n))"

fun genuine :: "'d block_params \<Rightarrow> 'd tree_node \<Rightarrow> bool" where
  "genuine p (TreeNode v cs) \<longleftrightarrow> signed_voters p (TreeNode v cs) \<and> (\<forall>c \<in> set cs. genuine p c)"

abbreviation forest_genuine :: "('d, 's) chain_cfg \<Rightarrow> ('d, 's) chain \<Rightarrow> bool" where
  "forest_genuine cfg ch \<equiv> \<forall>t \<in> set (ch_forktrees ch). genuine (cfg_params cfg) t"

lemma signed_votersD:
  "signed_voters p n \<Longrightarrow> k \<in> vb_voters (tn_value n) \<Longrightarrow>
     \<exists>w. vote_validator w = k \<and> vote_verify_signature (bp_crypto p) w \<and> vote_target w \<in> set (tn_hashes p n)"
  by (simp add: signed_voters_def)

text \<open>A node stays accounted for when its block gains descendants and no voters.\<close>

lemma signed_voters_mono:
  "signed_voters p n \<Longrightarrow> vb_voters (tn_value m) \<subseteq> vb_voters (tn_value n) \<Longrightarrow>
     set (tn_hashes p n) \<subseteq> set (tn_hashes p m) \<Longrightarrow> signed_voters p m"
  unfolding signed_voters_def by blast

lemma signed_voters_insert:
  assumes "signed_voters p n" and "vb_voters (tn_value m) \<subseteq> insert (vote_validator w) (vb_voters (tn_value n))"
    and "tn_hashes p m = tn_hashes p n" and "vote_verify_signature (bp_crypto p) w"
    and "vote_target w \<in> set (tn_hashes p n)"
  shows "signed_voters p m"
  unfolding signed_voters_def assms(3) using assms(1,2,4,5) unfolding signed_voters_def by blast

lemma genuine_node_at: "genuine p t \<Longrightarrow> node_at t pos = Some n \<Longrightarrow> signed_voters p n"
proof (induction t pos rule: node_at.induct)
  case (1 t)
  then show ?case by (cases t) simp
qed (auto split: if_splits)

lemma genuine_update:
  "\<forall>u \<in> set ts. genuine p u \<Longrightarrow> genuine p t \<Longrightarrow> \<forall>u \<in> set (ts[i := t]). genuine p u"
  by (auto dest!: set_update_subset_insert [THEN subsetD])

section \<open>Preservation\<close>

lemma genuine_add_votes:
  assumes "vote_validator w = k" and "vote_verify_signature (bp_crypto p) w"
  shows "genuine p t \<Longrightarrow> node_at t pos = Some n \<Longrightarrow> vb_hash p (tn_value n) = vote_target w \<Longrightarrow>
    genuine p (add_votes s k t pos)"
proof (induction t pos rule: tn_path.induct)
  case (1 t)
  then show ?case using assms by (cases t) (auto simp: signed_voters_def)
next
  case (2 v cs i pos)
  from 2(3) have i: "i < length cs" and n: "node_at (cs ! i) pos = Some n" by (auto split: if_splits)
  have "genuine p (add_votes s k (cs ! i) pos)" using 2(1) [OF i] 2(2,4) i n by simp
  then have children: "\<forall>c \<in> set (cs[i := add_votes s k (cs ! i) pos]). genuine p c"
    using 2(2) by (intro genuine_update) simp_all
  have hashes: "tn_hashes p (add_votes s k (TreeNode v cs) (i # pos)) = tn_hashes p (TreeNode v cs)"
    by (rule hashes_add_votes)
  have "vote_target w \<in> set (tn_hashes p (TreeNode v cs))"
    unfolding 2(4) [symmetric] set_map by (rule imageI) (use node_at_values [OF 2(3)] tn_value_in in blast)
  with assms 2(2) have "signed_voters p (add_votes s k (TreeNode v cs) (i # pos))"
    by (intro signed_voters_insert [OF _ _ hashes, where w = w]) (auto simp del: tn_values.simps)
  with children i show ?case by simp
qed

lemma genuine_new: "genuine p (tn_new (volatile_new e))"
  by (simp add: tn_new_def volatile_new_def signed_voters_def)

lemma genuine_add_child:
  assumes "vb_voters b = {}"
  shows "genuine p t \<Longrightarrow> node_at t pos = Some n \<Longrightarrow>
    genuine p (update_at (\<lambda>n. TreeNode (tn_value n) (tn_children n @ [TreeNode b []])) t pos)"
proof (induction t pos rule: tn_path.induct)
  case (1 t)
  obtain v cs where t: "t = TreeNode v cs" by (cases t)
  with 1(1) have gen: "genuine p (TreeNode v cs)" by (simp only:)
  then have "signed_voters p (TreeNode v cs)" by simp
  then have "signed_voters p (TreeNode v (cs @ [TreeNode b []]))"
    by (rule signed_voters_mono) (simp_all add: subset_insertI2)
  then show ?case using assms gen t by (simp add: signed_voters_def)
next
  case (2 v cs i pos)
  let ?f = "\<lambda>n. TreeNode (tn_value n) (tn_children n @ [TreeNode b []])"
  from 2(3) have i: "i < length cs" and n: "node_at (cs ! i) pos = Some n" by (auto split: if_splits)
  have "genuine p (update_at ?f (cs ! i) pos)" using 2(1) [OF i] 2(2) i n by simp
  then have children: "\<forall>c \<in> set (cs[i := update_at ?f (cs ! i) pos]). genuine p c"
    using 2(2) by (intro genuine_update) simp_all
  have "set (tn_values (update_at ?f (TreeNode v cs) (i # pos))) = insert b (set (tn_values (TreeNode v cs)))"
    using arg_cong [OF values_update_child [OF 2(3)], of set_mset]
    unfolding set_mset_mset set_mset_add_mset_insert .
  then have "set (tn_values (TreeNode v cs)) \<subseteq> set (tn_values (update_at ?f (TreeNode v cs) (i # pos)))"
    by blast
  then have hashes: "set (tn_hashes p (TreeNode v cs)) \<subseteq> set (tn_hashes p (update_at ?f (TreeNode v cs) (i # pos)))"
    unfolding set_map by (rule image_mono)
  have "signed_voters p (TreeNode v cs)" using 2(2) by simp
  then have "signed_voters p (update_at ?f (TreeNode v cs) (i # pos))"
    by (rule signed_voters_mono [OF _ _ hashes]) simp
  with children i show ?case by simp
qed

lemma injest_vote_genuine:
  assumes "forest_genuine cfg ch"
  shows "forest_genuine cfg (injest_vote cfg v ch)"
proof (cases rule: injest_vote_cases [of cfg v ch])
  case (counted s i pos)
  obtain n where i: "i < length (ch_forktrees ch)" and n: "node_at (ch_forktrees ch ! i) pos = Some n"
    "vb_hash (cfg_params cfg) (tn_value n) = vote_target v"
    using forest_getE [OF counted(4)] by blast
  have "genuine (cfg_params cfg) (add_votes s (vote_validator v) (ch_forktrees ch ! i) pos)"
    using i by (intro genuine_add_votes [OF refl counted(3) _ n] bspec [OF assms]) simp
  then show ?thesis unfolding counted(6) using genuine_update [OF assms] by simp
qed (use assms in simp_all)

lemma fold_injest_vote_genuine:
  "forest_genuine cfg ch \<Longrightarrow> forest_genuine cfg (fold (injest_vote cfg) vs ch)"
proof (induction vs arbitrary: ch)
  case (Cons v vs)
  show ?case unfolding fold_simps by (rule Cons.IH [OF injest_vote_genuine [OF Cons.prems]])
qed simp

lemma try_include_genuine:
  assumes "forest_genuine cfg ch" and ok: "try_include cfg b ch = ret (r, ch')"
  shows "forest_genuine cfg ch'"
  using ok
proof (cases rule: try_includeE)
  case (root e)
  then show ?thesis using assms(1) genuine_new by (auto simp: push_front_def)
next
  case (child i pos n e root')
  obtain i: "i < length (ch_forktrees ch)" using forest_getE [OF child(1)] by blast
  have "root' = update_at (\<lambda>n. TreeNode (tn_value n) (tn_children n @ [TreeNode (volatile_new e) []])) (ch_forktrees ch ! i) pos"
    using child(7) by (auto elim!: add_childE)
  then have "genuine (cfg_params cfg) root'"
    using i by (simp, intro genuine_add_child [OF _ _ child(2)] bspec [OF assms(1)]) (simp_all add: volatile_new_def)
  then show ?thesis unfolding child(8) using genuine_update [OF assms(1)] by (simp add: push_front_def)
qed (use assms in simp)

lemma include_one_genuine:
  assumes "forest_genuine cfg ch" and ok: "include_one cfg now b ch = Some (bs, ch')"
  shows "forest_genuine cfg ch'"
  using ok
proof (cases rule: include_one_cases)
  case (consumed ch1 ch2)
  have "forest_genuine cfg ch1" by (rule try_include_genuine [OF assms(1) consumed(4)])
  moreover have "ch_forktrees ch' = ch_forktrees ch1"
    using consumed(5,6) by (auto dest: commit_and_vote_frame)
  ultimately show ?thesis by simp
qed (use assms in simp_all)

lemma include_all_genuine:
  "forest_genuine cfg ch \<Longrightarrow> include_all cfg now bs ch = Some ch' \<Longrightarrow> forest_genuine cfg ch'"
proof (induction cfg now bs ch rule: include_all.induct)
  case (2 cfg now b rest ch)
  then obtain os c where one: "include_one cfg now b ch = Some (os, c)"
    and rest: "include_all cfg now (os @ rest) c = Some ch'"
    by (auto split: option.split_asm prod.split_asm)
  show ?case by (rule 2(1) [OF one refl include_one_genuine [OF 2(2) one] rest])
qed simp

lemma try_finalize_genuine:
  assumes "forest_genuine cfg ch" and ok: "try_finalize_roots cfg ch = Some (True, ch')"
  shows "forest_genuine cfg ch'"
  using ok
proof (cases rule: try_finalize_rootsE)
  case (1 i v cs store ep)
  have "genuine (cfg_params cfg) (TreeNode v cs)" using assms(1) 1(1,2) by (metis nth_mem)
  then show ?thesis unfolding 1(8) by simp
qed

lemma poll_next_genuine:
  assumes gen: "forest_genuine cfg ch" and ok: "poll_next cfg now ch = Some (ev, ch')"
  shows "forest_genuine cfg ch'"
  using ok
proof (cases rule: poll_next_cases)
  case (incl e)
  from incl(4) show ?thesis
  proof (cases rule: post_block_includedE)
    case (1 votes os ch4)
    have "forest_genuine cfg (fold (injest_vote cfg) (case votes of Some vs \<Rightarrow> vs | None \<Rightarrow> [])
        (count_votes cfg (bl_votes (ex_underlying e)) (ch\<lparr>ch_events := butlast (ch_events ch)\<rparr>)\<lparr>ch_orphans := os\<rparr>))"
      unfolding count_votes_def by (intro fold_injest_vote_genuine) (simp, intro fold_injest_vote_genuine, simp add: gen)
    then have "forest_genuine cfg ch4" by (rule finalize_loop_induct [OF 1(2)]) (rule try_finalize_genuine)
    with 1(3) show ?thesis by simp
  qed
next
  case (final e votes)
  then show ?thesis using gen post_block_finalized_frame by fastforce
qed (use gen in simp_all)

lemma reachable_genuine: "reachable cfg fin ch \<Longrightarrow> forest_genuine cfg ch"
proof (induction rule: reachable.induct)
  case (reach_new store ch)
  then show ?case by (auto simp: chain_new_def Let_def split: if_splits)
next
  case (reach_include ch now b ch')
  show ?case by (rule include_all_genuine [OF reach_include.IH reach_include.hyps(2) [unfolded include_block_def]])
next
  case (reach_poll ch now ev ch')
  show ?case by (rule poll_next_genuine [OF reach_poll.IH reach_poll.hyps(2)])
qed

section \<open>Branches\<close>

text \<open>Blocks of one list and blocks of another with the same hash have the same parent.\<close>

definition collision_free :: "'d block_params \<Rightarrow> 'd volatile_block list \<Rightarrow> 'd volatile_block list \<Rightarrow> bool" where
  "collision_free p us vs \<longleftrightarrow>
     (\<forall>u \<in> set us. \<forall>v \<in> set vs. vb_hash p u = vb_hash p v \<longrightarrow> bl_parent (vb_produced u) = bl_parent (vb_produced v))"

text \<open>Two blocks are on different branches when neither is in the other's subtree.\<close>

definition branches :: "'d block_params \<Rightarrow> 'd tree_node \<Rightarrow> 'd tree_node \<Rightarrow> bool" where
  "branches p n m \<longleftrightarrow> vb_hash p (tn_value n) \<notin> set (tn_hashes p m) \<and> vb_hash p (tn_value m) \<notin> set (tn_hashes p n)"

text \<open>Every block of a subtree is its root or has its parent in the subtree.\<close>

lemma subtree_parent:
  "tn_all P (edge_ok p) t \<Longrightarrow> v \<in> set (tn_values t) \<Longrightarrow>
     v = tn_value t \<or> (\<exists>u \<in> set (tn_values t). bl_parent (vb_produced v) = vb_hash p u)"
proof (induction t rule: tn_values.induct)
  case (1 w cs)
  show ?case
  proof (cases "v = w")
    case False
    with 1(3) obtain c where c: "c \<in> set cs" "v \<in> set (tn_values c)" by auto
    then have "edge_ok p w (tn_value c)" "tn_all P (edge_ok p) c" using 1(2) by auto
    with 1(1) [OF c(1)] c consider "v = tn_value c" "bl_parent (vb_produced v) = vb_hash p w"
      | u where "u \<in> set (tn_values c)" "bl_parent (vb_produced v) = vb_hash p u"
      unfolding edge_ok_def [of p w] by blast
    then show ?thesis using c(1) by cases auto
  qed simp
qed

text \<open>The position of a block below the root of its subtree, for the induction below.\<close>

lemma branches_disjoint_at:
  assumes "tn_all P (edge_ok p) n" and "tn_all Q (edge_ok p) m" and "branches p n m"
    and "collision_free p (tn_values n) (tn_values m)"
  shows "node_at n pos = Some a \<Longrightarrow> v \<in> set (tn_values m) \<Longrightarrow> vb_hash p (tn_value a) \<noteq> vb_hash p v"
proof (induction pos arbitrary: a v rule: rev_induct)
  case Nil
  then show ?case using assms(3) by (auto simp: branches_def)
next
  case (snoc i pos)
  obtain b where b: "node_at n pos = Some b" using node_at_take [OF snoc.prems(1), of "length pos"] by auto
  then have "node_at b [i] = Some a" using node_at_append snoc.prems(1) by metis
  then have "edge_ok p (tn_value b) (tn_value a)"
    using tn_all_node_at [OF assms(1) b] by (cases b) (auto split: if_splits)
  then have up: "bl_parent (vb_produced (tn_value a)) = vb_hash p (tn_value b)" by (simp add: edge_ok_def)
  have a: "tn_value a \<in> set (tn_values n)" using node_at_values [OF snoc.prems(1)] by auto
  show ?case
  proof
    assume eq: "vb_hash p (tn_value a) = vb_hash p v"
    then have par: "bl_parent (vb_produced v) = vb_hash p (tn_value b)"
      using assms(4) a snoc.prems(2) up by (simp add: collision_free_def)
    have "vb_hash p (tn_value a) \<in> set (tn_hashes p n)" using a by simp
    then have "v \<noteq> tn_value m" using assms(3) eq by (auto simp: branches_def)
    then obtain u where "u \<in> set (tn_values m)" "bl_parent (vb_produced v) = vb_hash p u"
      using subtree_parent [OF assms(2) snoc.prems(2)] by auto
    with snoc.IH [OF b] par show False by metis
  qed
qed

lemma values_node_at: "v \<in> set (tn_values t) \<Longrightarrow> \<exists>pos n. node_at t pos = Some n \<and> tn_value n = v"
proof (induction t rule: tn_values.induct)
  case (1 w cs)
  show ?case
  proof (cases "v = w")
    case True
    then show ?thesis by (intro exI [of _ "[]"]) simp
  next
    case False
    with 1(2) obtain c where c: "c \<in> set cs" "v \<in> set (tn_values c)" by auto
    then obtain i pos n where "i < length cs" "cs ! i = c" "node_at c pos = Some n" "tn_value n = v"
      using 1(1) by (metis in_set_conv_nth)
    then show ?thesis by (intro exI [of _ "i # pos"] exI [of _ n]) simp
  qed
qed

lemma branches_disjoint:
  assumes "tn_all P (edge_ok p) n" and "tn_all Q (edge_ok p) m" and "branches p n m"
    and "collision_free p (tn_values n) (tn_values m)"
  shows "set (tn_hashes p n) \<inter> set (tn_hashes p m) = {}"
  using branches_disjoint_at [OF assms] values_node_at by fastforce

lemma reachable_subtree:
  assumes "reachable cfg fin ch" and "t \<in> set (ch_forktrees ch)" and "node_at t pos = Some n"
  shows "tn_all (node_ok cfg (ch_stakes ch)) (edge_ok (cfg_params cfg)) n \<and> signed_voters (cfg_params cfg) n
    \<and> tn_value n \<in> set (forest_values (ch_forktrees ch))"
proof -
  have "tn_all (node_ok cfg (ch_stakes ch)) (edge_ok (cfg_params cfg)) n"
    using reachable_inv [OF assms(1)] assms(2) tn_all_node_at [OF _ assms(3)]
    by (auto simp: chain_inv_def root_ok_def)
  moreover have "signed_voters (cfg_params cfg) n"
    using reachable_genuine [OF assms(1)] assms(2) genuine_node_at [OF _ assms(3)] by blast
  moreover have "tn_value n \<in> set (forest_values (ch_forktrees ch))"
    using node_at_values [OF assms(3)] tn_value_in assms(2) by (fastforce simp: forest_values_def)
  ultimately show ?thesis by blast
qed

section \<open>Certificates of the reported blocks\<close>

text \<open>
  What stands behind a block that the chain reports as confirmed or finalized: the subtree of the block
  when it was reported, with a quorum of voters that have all signed a vote into it.
\<close>

definition certificate :: "('d, 's) chain_cfg \<Rightarrow> 'd executed \<Rightarrow> 'd tree_node \<Rightarrow> bool" where
  "certificate cfg e n \<longleftrightarrow>
     vb_block (tn_value n) = e \<and> tn_all (\<lambda>_. True) (edge_ok (cfg_params cfg)) n
     \<and> voter_quorum cfg (genesis_stakes (cfg_genesis cfg)) (vb_voters (tn_value n))
     \<and> signed_voters (cfg_params cfg) n"

definition reports :: "'d chain_event \<Rightarrow> 'd executed \<Rightarrow> bool" where
  "reports ev e \<longleftrightarrow> (\<exists>votes. ev = BlockConfirmed e votes \<or> ev = BlockFinalized e votes)"

definition events_certified :: "('d, 's) chain_cfg \<Rightarrow> 'd chain_event list \<Rightarrow> bool" where
  "events_certified cfg es \<longleftrightarrow> (\<forall>ev \<in> set es. \<forall>e. reports ev e \<longrightarrow> (\<exists>n. certificate cfg e n))"

lemma reports_simps [simp]:
  "reports (Vote h j) e = False" "reports (BlockDiscarded b) e = False" "reports (BlockMissing h) e = False"
  "reports (BlockIncluded x) e = False" "reports (BlockConfirmed x votes) e = (e = x)"
  "reports (BlockFinalized x votes) e = (e = x)"
  by (auto simp: reports_def)

lemma events_certified_simps [simp]:
  "events_certified cfg []"
  "events_certified cfg (ev # es) \<longleftrightarrow> (\<forall>e. reports ev e \<longrightarrow> (\<exists>n. certificate cfg e n)) \<and> events_certified cfg es"
  "events_certified cfg (es @ fs) \<longleftrightarrow> events_certified cfg es \<and> events_certified cfg fs"
  by (auto simp: events_certified_def)

lemma events_certified_quiet: "(\<And>ev e. ev \<in> set es \<Longrightarrow> \<not> reports ev e) \<Longrightarrow> events_certified cfg es"
  by (auto simp: events_certified_def)

lemma events_certified_butlast: "events_certified cfg es \<Longrightarrow> events_certified cfg (butlast es)"
  by (auto simp: events_certified_def dest: in_set_butlastD)

lemma tn_all_mono: "tn_all P R t \<Longrightarrow> (\<And>v. P v \<Longrightarrow> Q v) \<Longrightarrow> tn_all Q R t"
  by (induction P R t rule: tn_all.induct) auto

lemma genuine_path: "genuine p t \<Longrightarrow> n \<in> set (tn_path t pos) \<Longrightarrow> genuine p n"
  by (induction t pos rule: tn_path.induct) (auto split: if_splits)

text \<open>The chain's invariant with the votes and the reported blocks accounted for.\<close>

definition accounted :: "('d, 's) chain_cfg \<Rightarrow> ('d, 's) chain \<Rightarrow> bool" where
  "accounted cfg ch \<longleftrightarrow> chain_inv cfg ch \<and> ch_stakes ch = genesis_stakes (cfg_genesis cfg)
     \<and> forest_genuine cfg ch \<and> events_certified cfg (ch_events ch)"

definition stake_fits :: "('d, 's) chain_cfg \<Rightarrow> bool" where
  "stake_fits cfg \<longleftrightarrow> 0 < electorate_stake cfg (genesis_stakes (cfg_genesis cfg))
     \<and> electorate_stake cfg (genesis_stakes (cfg_genesis cfg)) < 2 ^ 64"

lemma confirmed_certificate:
  assumes "stake_fits cfg" and "ch_stakes ch = genesis_stakes (cfg_genesis cfg)"
    and "tn_all (node_ok cfg (ch_stakes ch)) (edge_ok (cfg_params cfg)) n" and "genuine (cfg_params cfg) n"
    and "confirmed cfg ch (tn_value n)"
  shows "certificate cfg (vb_block (tn_value n)) n"
proof -
  have "node_ok cfg (ch_stakes ch) (tn_value n)" using assms(3) by (cases n) simp
  then have "voter_quorum cfg (ch_stakes ch) (vb_voters (tn_value n))"
    using assms(1,2,5) genesis_stakes_invar by (intro confirmed_quorum) (auto simp: stake_fits_def)
  moreover have "signed_voters (cfg_params cfg) n" using assms(4) by (cases n) simp
  ultimately show ?thesis using assms(2) tn_all_mono [OF assms(3)] by (simp add: certificate_def)
qed

lemma injest_vote_accounted:
  assumes fits: "stake_fits cfg" and ok: "accounted cfg ch"
  shows "accounted cfg (injest_vote cfg v ch)"
proof -
  let ?ch' = "injest_vote cfg v ch"
  have inv: "chain_inv cfg ?ch'" and gen: "forest_genuine cfg ?ch'"
    and st: "ch_stakes ?ch' = genesis_stakes (cfg_genesis cfg)"
    using ok injest_vote_inv [of cfg ch v] injest_vote_genuine [of ch cfg v] injest_vote_frame [of cfg v ch]
    unfolding accounted_def by simp_all
  have "events_certified cfg (ch_events ?ch')"
  proof (cases rule: injest_vote_cases [of cfg v ch])
    case (counted s i pos)
    let ?t = "add_votes s (vote_validator v) (ch_forktrees ch ! i) pos"
    obtain "i < length (ch_forktrees ch)" using forest_getE [OF counted(4)] by blast
    then have t: "?t \<in> set (ch_forktrees ?ch')" unfolding counted(6) by (simp add: set_update_memI)
    have "\<exists>n. certificate cfg (vb_block b) n"
      if "b \<in> set (newly_confirmed cfg ch vs (map tn_value (tn_path ?t pos)))" for vs b
    proof -
      from that obtain n where n: "n \<in> set (tn_path ?t pos)" "b = tn_value n" "confirmed cfg ch b"
        by (auto simp: newly_confirmed_def dest!: set_zip_rightD)
      have "minimum_majority_stake cfg ?ch' = minimum_majority_stake cfg ch"
        using injest_vote_frame [of cfg v ch] by (simp add: minimum_majority_stake_def total_stake_def)
      then have "confirmed cfg ?ch' (tn_value n)" using n by (simp add: confirmed_def)
      then have "certificate cfg (vb_block (tn_value n)) n"
        using t n(1) inv gen st by (intro confirmed_certificate [OF fits st])
          (auto simp: chain_inv_def root_ok_def intro: tn_all_path genuine_path)
      with n(2) show ?thesis by blast
    qed
    then show ?thesis using ok unfolding counted(6) by (auto simp: accounted_def events_certified_def)
  qed (use ok in \<open>simp_all add: accounted_def\<close>)
  with inv gen st show ?thesis by (simp add: accounted_def)
qed

lemma fold_injest_vote_accounted:
  "stake_fits cfg \<Longrightarrow> accounted cfg ch \<Longrightarrow> accounted cfg (fold (injest_vote cfg) vs ch)"
  by (induction vs arbitrary: ch) (simp_all add: injest_vote_accounted)

lemma accounted_orphans: "accounted cfg ch \<Longrightarrow> orphans_invar (cfg_params cfg) os \<Longrightarrow> accounted cfg (ch\<lparr>ch_orphans := os\<rparr>)"
  by (simp add: accounted_def)

lemma include_one_events:
  assumes "events_certified cfg (ch_events ch)" and ok: "include_one cfg now b ch = Some (bs, ch')"
  shows "events_certified cfg (ch_events ch')"
  using ok
proof (cases rule: include_one_cases)
  case (consumed ch1 ch2)
  have "events_certified cfg (ch_events ch1)"
    using consumed(4) by (rule try_includeE) (auto simp: push_front_def assms(1))
  moreover have "ch_events ch2 = ch_events ch1 \<or> (\<exists>h j. ch_events ch2 = Vote h j # ch_events ch1)"
    using consumed(5) by (auto simp: commit_and_vote_def push_front_def Let_def split: option.splits if_splits)
  ultimately show ?thesis using consumed(6) by auto
qed (use assms in simp_all)

lemma include_all_accounted:
  "accounted cfg ch \<Longrightarrow> include_all cfg now bs ch = Some ch' \<Longrightarrow> accounted cfg ch'"
proof (induction cfg now bs ch rule: include_all.induct)
  case (2 cfg now b rest ch)
  then obtain os c where one: "include_one cfg now b ch = Some (os, c)"
    and rest: "include_all cfg now (os @ rest) c = Some ch'"
    by (auto split: option.split_asm prod.split_asm)
  have "accounted cfg c"
    using 2(2) include_one_inv [OF _ one] include_one_frame [OF one] include_one_genuine [OF _ one]
      include_one_events [OF _ one] unfolding accounted_def by simp
  from 2(1) [OF one refl this rest] show ?case .
qed simp

lemma try_finalize_accounted:
  assumes fits: "stake_fits cfg" and ok: "accounted cfg ch" and step: "try_finalize_roots cfg ch = Some (True, ch')"
  shows "accounted cfg ch'"
proof -
  have "events_certified cfg (ch_events ch')"
    using step
  proof (cases rule: try_finalize_rootsE)
    case (1 i v cs store ep)
    have t: "TreeNode v cs \<in> set (ch_forktrees ch)" using 1(1,2) by (metis nth_mem)
    then have "certificate cfg (vb_block (tn_value (TreeNode v cs))) (TreeNode v cs)"
      using ok 1(3) by (intro confirmed_certificate [OF fits])
        (auto simp: accounted_def chain_inv_def root_ok_def confirmed_def)
    moreover have "events_certified cfg (rev (map (BlockDiscarded \<circ> vb_produced) vs))" for vs
      by (rule events_certified_quiet) auto
    ultimately show ?thesis using ok unfolding 1(8) by (auto simp: accounted_def)
  qed
  then show ?thesis
    using ok try_finalize_inv [OF _ step] try_finalize_genuine [OF _ step] by (auto simp: accounted_def)
qed

lemma poll_next_accounted:
  assumes fits: "stake_fits cfg" and acc: "accounted cfg ch" and ok: "poll_next cfg now ch = Some (ev, ch')"
  shows "accounted cfg ch'"
proof -
  let ?ch0 = "ch\<lparr>ch_events := butlast (ch_events ch)\<rparr>"
  have acc0: "accounted cfg ?ch0" using acc by (simp add: accounted_def events_certified_butlast)
  have "events_certified cfg (ch_events ch')"
    using ok
  proof (cases rule: poll_next_cases)
    case (incl e)
    from incl(4) show ?thesis
    proof (cases rule: post_block_includedE)
      case (1 votes os ch4)
      have ch1: "accounted cfg (count_votes cfg (bl_votes (ex_underlying e)) ?ch0)"
        unfolding count_votes_def by (rule fold_injest_vote_accounted [OF fits acc0])
      then have "orphans_invar (cfg_params cfg) os"
        using consume_votes_invar [OF 1(1)] by (simp add: accounted_def chain_inv_def)
      then have "accounted cfg (fold (injest_vote cfg) (case votes of Some vs \<Rightarrow> vs | None \<Rightarrow> [])
          (count_votes cfg (bl_votes (ex_underlying e)) ?ch0\<lparr>ch_orphans := os\<rparr>))"
        by (intro fold_injest_vote_accounted [OF fits] accounted_orphans [OF ch1])
      then have "accounted cfg ch4"
        by (rule finalize_loop_induct [OF 1(2)]) (rule try_finalize_accounted [OF fits])
      moreover have "events_certified cfg (rev (map BlockMissing hs))" for hs
        by (rule events_certified_quiet) auto
      ultimately show ?thesis unfolding 1(3) by (simp add: accounted_def)
    qed
  next
    case (final e votes)
    have "ch_events ch' = butlast (ch_events ch)"
      using final(4) by (auto simp: post_block_finalized_def Let_def split: option.splits)
    then show ?thesis using acc0 by (simp add: accounted_def)
  qed (use acc acc0 in \<open>simp_all add: accounted_def\<close>)
  then show ?thesis
    using acc poll_next_inv [OF _ ok] poll_next_genuine [OF _ ok] by (simp add: accounted_def)
qed

lemma reachable_accounted: "reachable cfg fin ch \<Longrightarrow> stake_fits cfg \<Longrightarrow> accounted cfg ch"
proof (induction rule: reachable.induct)
  case (reach_new store ch)
  then have "ch_forktrees ch = [] \<and> ch_events ch = []" by (auto simp: chain_new_def Let_def split: if_splits)
  then show ?case using chain_new_inv [OF reach_new(1)] by (simp add: accounted_def)
next
  case (reach_include ch now b ch')
  then show ?case unfolding include_block_def by (blast intro: include_all_accounted)
next
  case (reach_poll ch now ev ch')
  then show ?case by (blast intro: poll_next_accounted)
qed

lemma reported_certificate:
  assumes "reachable cfg fin ch" and "stake_fits cfg" and "poll_next cfg now ch = Some (Some ev, ch')"
    and "reports ev e"
  shows "\<exists>n. certificate cfg e n"
proof -
  have "events_certified cfg (ch_events ch)" using reachable_accounted [OF assms(1,2)] by (simp add: accounted_def)
  moreover have "ev \<in> set (ch_events ch)" using assms(3) by (cases rule: poll_next_cases) (auto dest: last_in_set)
  ultimately show ?thesis using assms(4) by (auto simp: events_certified_def)
qed

text \<open>
  The validators that two certificates have in common: more than a third of the stake, each with a
  signed vote into either subtree; on different branches the two votes have different targets.
\<close>

definition voted_into :: "'d block_params \<Rightarrow> 'd tree_node \<Rightarrow> pubkey \<Rightarrow> vote \<Rightarrow> bool" where
  "voted_into p n k w \<longleftrightarrow>
     vote_validator w = k \<and> vote_verify_signature (bp_crypto p) w \<and> vote_target w \<in> set (tn_hashes p n)"

lemma certificates_accountable:
  assumes c1: "certificate cfg e1 n1" and c2: "certificate cfg e2 n2"
  shows "electorate_stake cfg (genesis_stakes (cfg_genesis cfg)) <
      3 * sum (stake_nat (genesis_stakes (cfg_genesis cfg))) (vb_voters (tn_value n1) \<inter> vb_voters (tn_value n2))"
    and "k \<in> vb_voters (tn_value n1) \<inter> vb_voters (tn_value n2) \<Longrightarrow>
      \<exists>w1 w2. voted_into (cfg_params cfg) n1 k w1 \<and> voted_into (cfg_params cfg) n2 k w2"
    and "branches (cfg_params cfg) n1 n2 \<Longrightarrow> collision_free (cfg_params cfg) (tn_values n1) (tn_values n2) \<Longrightarrow>
      voted_into (cfg_params cfg) n1 k w1 \<Longrightarrow> voted_into (cfg_params cfg) n2 k w2 \<Longrightarrow> vote_target w1 \<noteq> vote_target w2"
proof -
  show "electorate_stake cfg (genesis_stakes (cfg_genesis cfg)) <
      3 * sum (stake_nat (genesis_stakes (cfg_genesis cfg))) (vb_voters (tn_value n1) \<inter> vb_voters (tn_value n2))"
    unfolding electorate_stake_def [of cfg "genesis_stakes (cfg_genesis cfg)"]
    using c1 c2 by (intro voters.quorum_overlap) (simp_all add: certificate_def)
next
  assume "k \<in> vb_voters (tn_value n1) \<inter> vb_voters (tn_value n2)"
  then show "\<exists>w1 w2. voted_into (cfg_params cfg) n1 k w1 \<and> voted_into (cfg_params cfg) n2 k w2"
    using c1 c2 signed_votersD [of "cfg_params cfg" n1 k] signed_votersD [of "cfg_params cfg" n2 k]
    by (auto simp: certificate_def voted_into_def)
next
  assume "branches (cfg_params cfg) n1 n2" and "collision_free (cfg_params cfg) (tn_values n1) (tn_values n2)"
    and v: "voted_into (cfg_params cfg) n1 k w1" "voted_into (cfg_params cfg) n2 k w2"
  then have "set (tn_hashes (cfg_params cfg) n1) \<inter> set (tn_hashes (cfg_params cfg) n2) = {}"
    using c1 c2 by (intro branches_disjoint [where P = "\<lambda>_. True" and Q = "\<lambda>_. True"]) (simp_all add: certificate_def)
  with v show "vote_target w1 \<noteq> vote_target w2" unfolding voted_into_def by (metis disjoint_iff)
qed

end
