(* ===== verification/Rensa_Fork_Demo.thy ===== *)
theory Rensa_Fork_Demo
  imports Rensa_Demo Rensa_Accountable
begin

text \<open>
  A second concrete chain, with two branches: a validator with most of the stake that only votes, and two
  more validators that each build a branch from the genesis block. The hash of this instance is the sum
  of its input's bytes, so that payloads tell blocks apart.
\<close>

definition fork_crypto :: crypto where
  "fork_crypto = demo_crypto\<lparr>sha3_256 := (\<lambda>bs. [7, sum_list bs])\<rparr>"

lemma fork_crypto_simps [simp]:
  "sha3_256 fork_crypto = (\<lambda>bs. [7, sum_list bs])" "mh_wrap fork_crypto = (\<lambda>bs. bs)"
  "ed_verify fork_crypto = (\<lambda>k m s. s = k @ m)" "ed_public fork_crypto = (\<lambda>k. k)"
  "ed_sign fork_crypto = (\<lambda>k m. k @ m)"
  by (simp_all add: fork_crypto_def)

definition fork_params :: "byte block_params" where
  "fork_params = \<lparr>bp_crypto = fork_crypto, bp_serialize = (\<lambda>d. [d])\<rparr>"

definition fork_genesis :: genesis where
  "fork_genesis = demo_genesis\<lparr>g_validators := [Validator [0, 1] 100, Validator [0, 2] 10, Validator [0, 3] 10]\<rparr>"

definition fork_cfg :: "(byte, unit) chain_cfg" where
  "fork_cfg = demo_cfg\<lparr>cfg_params := fork_params, cfg_genesis := fork_genesis\<rparr>"

abbreviation fork_start_hash :: multihash where
  "fork_start_hash \<equiv> genesis_hash fork_crypto fork_genesis"

lemma fork_genesis_hash: "fork_start_hash = [7, 4]"
  by (simp add: genesis_hash_def sha3_multihash_def fork_genesis_def demo_genesis_def demo_limits_def Let_def
      str_bytes_def le_bytes_u128_def le_bytes_usize_def le_bytes_def upt_rec)

lemma fork_output_hash: "bo_hash fork_crypto block_output_empty = [7, 21]"
  by (simp add: bo_hash_def sd_hash_def logs_hash_def errors_hash_def block_output_empty_def sd_default_def
      sha3_multihash_def)

section \<open>The two branches\<close>

text \<open>
  The votes are the ones the voting validator casts below. A branch carries one of them: the first has
  the vote on its second block in its third, the other the vote on its third block in its fourth.
\<close>

definition fork_vote :: "multihash \<Rightarrow> vote" where
  "fork_vote target = vote_new fork_crypto [0, 1] target [7, 4]"

definition fork_block :: "bytes \<Rightarrow> byte \<Rightarrow> u64 \<Rightarrow> multihash \<Rightarrow> vote list \<Rightarrow> byte produced" where
  "fork_block key d height parent votes = produced_new fork_params key height parent d [7, 21] votes"

definition fork_a1 :: "byte produced" where
  "fork_a1 = fork_block [0, 2] 10 1 [7, 4] []"

definition fork_a2 :: "byte produced" where
  "fork_a2 = fork_block [0, 2] 10 2 [7, 59] []"

definition fork_a3 :: "byte produced" where
  "fork_a3 = fork_block [0, 2] 10 3 [7, 115] [fork_vote [7, 115]]"

definition fork_b1 :: "byte produced" where
  "fork_b1 = fork_block [0, 3] 20 1 [7, 4] []"

definition fork_b2 :: "byte produced" where
  "fork_b2 = fork_block [0, 3] 20 2 [7, 70] []"

definition fork_b3 :: "byte produced" where
  "fork_b3 = fork_block [0, 3] 20 3 [7, 137] []"

definition fork_b4 :: "byte produced" where
  "fork_b4 = fork_block [0, 3] 20 4 [7, 205] [fork_vote [7, 205]]"

lemmas fork_blocks = fork_a1_def fork_a2_def fork_a3_def fork_b1_def fork_b2_def fork_b3_def fork_b4_def

lemma fork_block_simps [simp]:
  "bl_parent (fork_block k d h par vs) = par" "bl_height (fork_block k d h par vs) = h"
  "bl_state_hash (fork_block k d h par vs) = [7, 21]" "fst (bl_signature (fork_block k d h par vs)) = k"
  "bl_votes (fork_block k d h par vs) = vs" "bl_data (fork_block k d h par vs) = d"
  "block_verify_signature fork_params (fork_block k d h par vs)"
  by (simp_all add: fork_block_def produced_new_def Let_def block_verify_signature_def block_hash_def fork_params_def)

lemma fork_vote_simps [simp]:
  "vote_verify_signature fork_crypto (fork_vote h)" "vote_validator (fork_vote h) = [0, 1]"
  "vote_target (fork_vote h) = h" "vote_justification (fork_vote h) = [7, 4]"
  by (simp_all add: fork_vote_def vote_verify_signature_def vote_new_def)

lemma fork_block_hash:
  "block_hash fork_params (fork_block k d h par vs) =
     [7, sum_list k + sum_list par + 28 + sum_list (le_bytes h) + 7 + d
        + sum_list (concat (map (vote_hash fork_crypto) vs))]"
  by (simp add: fork_block_def block_hash_new hash_parts_def data_hash_def fork_params_def sha3_multihash_def add_ac)

lemma fork_vote_hash: "vote_hash fork_crypto (fork_vote h) = [7, 24 + 2 * sum_list h]"
  by (simp add: vote_hash_def sha3_multihash_def fork_vote_def vote_new_def vote_message_def)

lemma fork_hashes [simp]:
  "block_hash fork_params fork_a1 = [7, 59]" "block_hash fork_params fork_a2 = [7, 115]"
  "block_hash fork_params fork_a3 = [7, 191]" "block_hash fork_params fork_b1 = [7, 70]"
  "block_hash fork_params fork_b2 = [7, 137]" "block_hash fork_params fork_b3 = [7, 205]"
  "block_hash fork_params fork_b4 = [7, 217]"
  by (simp_all add: fork_blocks fork_block_hash fork_vote_hash le_bytes_def upt_rec)

section \<open>Running the chain\<close>

definition fork_at :: "byte any_block \<Rightarrow> byte tree_node list \<Rightarrow> (u64, multihash \<times> multihash) hash_map \<Rightarrow>
    byte chain_event list \<Rightarrow> (byte, unit) chain" where
  "fork_at f ts own es = \<lparr>ch_stakes = [([0, 1], 100), ([0, 2], 10), ([0, 3], 10)], ch_finalized = f,
     ch_store = (), ch_forktrees = ts, ch_orphans = orphans_new 0, ch_ownvotes = own, ch_events = es,
     ch_finalized_history = []\<rparr>"

lemma fork_at_simps [simp]:
  "ch_stakes (fork_at f ts own es) = [([0, 1], 100), ([0, 2], 10), ([0, 3], 10)]"
  "ch_finalized (fork_at f ts own es) = f" "ch_forktrees (fork_at f ts own es) = ts"
  "ch_ownvotes (fork_at f ts own es) = own" "ch_events (fork_at f ts own es) = es"
  "ch_orphans (fork_at f ts own es) = orphans_new 0" "ch_finalized_history (fork_at f ts own es) = []"
  "fork_at f ts own es\<lparr>ch_events := es'\<rparr> = fork_at f ts own es'"
  "fork_at f ts own es\<lparr>ch_forktrees := ts'\<rparr> = fork_at f ts' own es"
  "fork_at f ts own es\<lparr>ch_ownvotes := own'\<rparr> = fork_at f ts own' es"
  "fork_at f ts own es\<lparr>ch_orphans := orphans_new 0\<rparr> = fork_at f ts own es"
  "fork_at f ts own es\<lparr>ch_finalized := f'\<rparr> = fork_at f' ts own es"
  "fork_at f ts own es\<lparr>ch_store := u\<rparr> = fork_at f ts own es"
  by (simp_all add: fork_at_def)

abbreviation fork_start :: "(byte, unit) chain" where
  "fork_start \<equiv> fork_at (GenesisBlock fork_genesis) [] [] []"

lemma fork_start_new: "chain_new fork_cfg (GenesisBlock fork_genesis) () = Some fork_start"
  by (simp add: chain_new_def fork_at_def fork_cfg_def demo_cfg_def fork_genesis_def demo_genesis_def
      genesis_stakes_def hm_insert_def)

lemma fork_cfg_simps [simp]:
  "cfg_params fork_cfg = fork_params" "cfg_genesis fork_cfg = fork_genesis" "bp_crypto fork_params = fork_crypto"
  "cfg_run fork_cfg st d = ret block_output_empty" "cfg_store_apply fork_cfg df u = Some u"
  "g_epoch_blocks fork_genesis = 1" "minimum_stake (g_limits fork_genesis) = 10"
  "max_justification_age (g_limits fork_genesis) = 9" "epoch fork_cfg h = Some h"
  "node_epoch 1 n = bl_height (vb_produced (tn_value n))"
  by (simp_all add: fork_cfg_def demo_cfg_def fork_genesis_def demo_genesis_def fork_params_def demo_limits_def
      epoch_def node_epoch_def)

lemma fork_executed_new:
  "bl_state_hash b = [7, 21] \<Longrightarrow> executed_new fork_crypto (cfg_run fork_cfg) st b = ret (demo_exec b)"
  by (simp add: executed_new_def fork_output_hash demo_exec_def)

lemma f64_majority_120: "f64_majority 120 = 81"
  by (simp add: f64_majority_def mul_067_ceil_def round53_def f64_067_def bit_length.simps)

lemma fork_majority: "minimum_majority_stake fork_cfg (fork_at f ts own es) = 81"
  by (simp add: minimum_majority_stake_def total_stake_def f64_majority_120)

lemma fork_fields [simp]:
  "bl_parent fork_a1 = [7, 4]" "bl_parent fork_a2 = [7, 59]" "bl_parent fork_a3 = [7, 115]"
  "bl_parent fork_b1 = [7, 4]" "bl_parent fork_b2 = [7, 70]" "bl_parent fork_b3 = [7, 137]" "bl_parent fork_b4 = [7, 205]"
  "bl_height fork_a1 = 1" "bl_height fork_a2 = 2" "bl_height fork_a3 = 3"
  "bl_height fork_b1 = 1" "bl_height fork_b2 = 2" "bl_height fork_b3 = 3" "bl_height fork_b4 = 4"
  "bl_votes fork_a1 = []" "bl_votes fork_a2 = []" "bl_votes fork_a3 = [fork_vote [7, 115]]"
  "bl_votes fork_b1 = []" "bl_votes fork_b2 = []" "bl_votes fork_b3 = []" "bl_votes fork_b4 = [fork_vote [7, 205]]"
  by (simp_all add: fork_blocks)

lemma fork_signed [simp]:
  "block_verify_signature fork_params fork_a1" "bl_state_hash fork_a1 = [7, 21]" "fst (bl_signature fork_a1) = [0, 2]"
  "block_verify_signature fork_params fork_a2" "bl_state_hash fork_a2 = [7, 21]" "fst (bl_signature fork_a2) = [0, 2]"
  "block_verify_signature fork_params fork_a3" "bl_state_hash fork_a3 = [7, 21]" "fst (bl_signature fork_a3) = [0, 2]"
  "block_verify_signature fork_params fork_b1" "bl_state_hash fork_b1 = [7, 21]" "fst (bl_signature fork_b1) = [0, 3]"
  "block_verify_signature fork_params fork_b2" "bl_state_hash fork_b2 = [7, 21]" "fst (bl_signature fork_b2) = [0, 3]"
  "block_verify_signature fork_params fork_b3" "bl_state_hash fork_b3 = [7, 21]" "fst (bl_signature fork_b3) = [0, 3]"
  "block_verify_signature fork_params fork_b4" "bl_state_hash fork_b4 = [7, 21]" "fst (bl_signature fork_b4) = [0, 3]"
  by (simp_all add: fork_blocks)

definition fork_include :: "byte produced \<Rightarrow> (byte, unit) chain \<Rightarrow> (byte, unit) chain" where
  "fork_include b ch = the (include_block fork_cfg 0 b ch)"

primrec fork_polls :: "nat \<Rightarrow> (byte, unit) chain \<Rightarrow> (byte, unit) chain" where
  "fork_polls 0 ch = ch"
| "fork_polls (Suc n) ch = fork_polls n (snd (the (poll_next fork_cfg 0 ch)))"

lemma fork_start_reachable: "reachable fork_cfg (GenesisBlock fork_genesis) fork_start"
  using fork_start_new by (rule reach_new)

lemma fork_include_reachable:
  assumes "reachable fork_cfg fin ch"
  shows "reachable fork_cfg fin (fork_include b ch)"
proof -
  have "include_block fork_cfg 0 b ch \<noteq> None"
    unfolding include_block_def by (rule include_all_total) simp_all
  then show ?thesis using assms by (metis fork_include_def option.collapse reach_include)
qed

lemma fork_polls_reachable: "reachable fork_cfg fin ch \<Longrightarrow> reachable fork_cfg fin (fork_polls n ch)"
proof (induction n arbitrary: ch)
  case (Suc n)
  have inv: "chain_inv fork_cfg ch" using reachable_inv [OF Suc.prems] by simp
  have "poll_next fork_cfg 0 ch \<noteq> None" by (rule poll_next_total [OF inv]) simp_all
  then have "reachable fork_cfg fin (snd (the (poll_next fork_cfg 0 ch)))"
    using Suc.prems by (metis option.collapse prod.collapse reach_poll)
  then show ?case using Suc.IH by simp
qed simp

lemmas fork_eval = include_block_def include_one_def try_include_def get_block_node_def fork_include_def
  fork_executed_new push_front_def tn_new_def with_head_def sorted_heads_def commit_and_vote_def hm_insert_def
  fork_genesis_hash in_finalized_history_def is_descendant_of_def volatile_new_def add_child_def tn_state_def
  tn_depth_def Let_def

abbreviation fork_node :: "byte produced \<Rightarrow> bool \<Rightarrow> byte tree_node list \<Rightarrow> byte tree_node" where
  "fork_node b voted \<equiv> TreeNode \<lparr>vb_block = demo_exec b, vb_votes = if voted then 100 else 0,
     vb_voters = if voted then {[0, 1]} else {}\<rparr>"

text \<open>The first branch, then the second.\<close>

lemma fork_include_a1:
  "fork_include fork_a1 fork_start = fork_at (GenesisBlock fork_genesis) [fork_node fork_a1 False []]
     [(1, [7, 4], [7, 59])] [Vote [7, 59] [7, 4], BlockIncluded (demo_exec fork_a1)]"
  by (simp add: fork_eval)

abbreviation fork_gen :: "byte tree_node list \<Rightarrow> (u64, multihash \<times> multihash) hash_map \<Rightarrow>
    byte chain_event list \<Rightarrow> (byte, unit) chain" where
  "fork_gen \<equiv> fork_at (GenesisBlock fork_genesis)"

abbreviation incl :: "byte produced \<Rightarrow> byte chain_event" where
  "incl b \<equiv> BlockIncluded (demo_exec b)"

abbreviation fork_own_a :: "(u64, multihash \<times> multihash) hash_map" where
  "fork_own_a \<equiv> [(1, [7, 4], [7, 59]), (2, [7, 4], [7, 115])]"

abbreviation fork_events_a :: "byte chain_event list" where
  "fork_events_a \<equiv> [Vote [7, 115] [7, 4], incl fork_a2, Vote [7, 59] [7, 4], incl fork_a1]"

lemma fork_include_a2:
  "fork_include fork_a2 (fork_include fork_a1 fork_start) =
     fork_gen [fork_node fork_a1 False [fork_node fork_a2 False []]] fork_own_a fork_events_a"
  unfolding fork_include_a1 by (simp add: fork_eval)

text \<open>
  The voting validator receives two blocks of the first branch and votes on both. Then the second branch
  arrives and grows longer: no vote on its first two blocks, whose epochs have one already, but one on
  the third.
\<close>

definition fork_voter :: "(byte, unit) chain" where
  "fork_voter = fold fork_include [fork_a1, fork_a2, fork_b1, fork_b2, fork_b3] fork_start"

lemma fork_include_b1:
  "fork_include fork_b1 (fork_gen [fork_node fork_a1 False [fork_node fork_a2 False []]] fork_own_a es) =
     fork_gen [fork_node fork_a1 False [fork_node fork_a2 False []], fork_node fork_b1 False []] fork_own_a (incl fork_b1 # es)"
  by (simp add: fork_eval)

lemma fork_include_b2:
  "fork_include fork_b2 (fork_gen [fork_node fork_a1 False [fork_node fork_a2 False []], fork_node fork_b1 False []]
       fork_own_a es) =
     fork_gen [fork_node fork_a1 False [fork_node fork_a2 False []], fork_node fork_b1 False [fork_node fork_b2 False []]]
       fork_own_a (incl fork_b2 # es)"
  by (simp add: fork_eval)

lemma fork_include_b3:
  "fork_include fork_b3 (fork_gen [fork_node fork_a1 False [fork_node fork_a2 False []],
       fork_node fork_b1 False [fork_node fork_b2 False []]] fork_own_a es) =
     fork_gen [fork_node fork_a1 False [fork_node fork_a2 False []],
       fork_node fork_b1 False [fork_node fork_b2 False [fork_node fork_b3 False []]]]
       (fork_own_a @ [(3, [7, 4], [7, 205])]) (Vote [7, 205] [7, 4] # incl fork_b3 # es)"
  by (simp add: fork_eval)

lemma fork_voter_events:
  "ch_events fork_voter = [Vote [7, 205] [7, 4], incl fork_b3, incl fork_b2, incl fork_b1] @ fork_events_a"
  unfolding fork_voter_def fold_simps fork_include_a2 fork_include_b1 fork_include_b2 fork_include_b3 by simp

lemma fork_fold_reachable:
  "reachable fork_cfg fin ch \<Longrightarrow> reachable fork_cfg fin (fold fork_include bs ch)"
  by (induction bs arbitrary: ch) (simp_all add: fork_include_reachable)

section \<open>Two nodes\<close>

text \<open>A node that receives the first branch only, and one that receives the second only.\<close>

lemma fork_poll_quiet:
  assumes "bl_votes b = []" and "find_finalizable_root fork_cfg (fork_at f ts own es) = Some None"
  shows "snd (the (poll_next fork_cfg 0 (fork_at f ts own (es @ [incl b])))) = fork_at f ts own es"
proof -
  have "finalize_loop fork_cfg (fork_at f ts own es) = Some (fork_at f ts own es)"
    by (rule finalize_loop_False) (simp add: try_finalize_roots_def assms(2))
  then have "post_block_included fork_cfg 0 b (fork_at f ts own es) = Some (fork_at f ts own es)"
    by (simp add: post_block_included_def count_votes_def assms(1))
  then show ?thesis by (simp add: poll_next_def Let_def)
qed

lemma fork_poll_vote: "snd (the (poll_next fork_cfg 0 (fork_at f ts own (es @ [Vote h j])))) = fork_at f ts own es"
  by (simp add: poll_next_def Let_def)

lemma fork_poll_counted:
  assumes "count_votes fork_cfg (bl_votes b) (fork_at f ts own es) = fork_at f ts' own es'"
    and "finalize_loop fork_cfg (fork_at f ts' own es') = Some (fork_at f2 ts2 own2 es2)"
  shows "snd (the (poll_next fork_cfg 0 (fork_at f ts own (es @ [incl b])))) = fork_at f2 ts2 own2 es2"
proof -
  have "post_block_included fork_cfg 0 b (fork_at f ts own es) = Some (fork_at f2 ts2 own2 es2)"
    by (simp add: post_block_included_def assms)
  then show ?thesis by (simp add: poll_next_def Let_def)
qed

lemmas fork_final = find_finalizable_root_def checkpoints_confirmed_def epoch_start_def fork_majority
  try_finalize_roots_def finalize_root_def finalized_apply_def hm_remove_def fork_genesis_hash push_front_def Let_def

definition fork_left :: "(byte, unit) chain" where
  "fork_left = fork_polls 5 (fold fork_include [fork_a1, fork_a2, fork_a3] fork_start)"

lemma fork_include_a3:
  "fork_include fork_a3 (fork_gen [fork_node fork_a1 False [fork_node fork_a2 False []]] fork_own_a fork_events_a) =
     fork_gen [fork_node fork_a1 False [fork_node fork_a2 False [fork_node fork_a3 False []]]]
       (fork_own_a @ [(3, [7, 4], [7, 191])]) (Vote [7, 191] [7, 4] # incl fork_a3 # fork_events_a)"
  by (simp add: fork_eval)

lemma fork_left_votes:
  "count_votes fork_cfg (bl_votes fork_a3) (fork_gen [fork_node fork_a1 False [fork_node fork_a2 False [fork_node fork_a3 False []]]] own es) =
     fork_gen [fork_node fork_a1 True [fork_node fork_a2 True [fork_node fork_a3 False []]]] own
       (es @ [BlockConfirmed (demo_exec fork_a2) 100, BlockConfirmed (demo_exec fork_a1) 100])"
  by (simp add: count_votes_def injest_vote_def fork_eval newly_confirmed_def confirmed_def fork_majority vb_add_votes_def)

lemma fork_left_finalize:
  "finalize_loop fork_cfg (fork_gen [fork_node fork_a1 True [fork_node fork_a2 True [fork_node fork_a3 False []]]] own es) =
     Some (fork_at (ProducedBlock fork_a1) [fork_node fork_a2 True [fork_node fork_a3 False []]] (hm_remove 1 own)
       (BlockFinalized (demo_exec fork_a1) 100 # es))"
proof -
  let ?c = "fork_at (ProducedBlock fork_a1) [fork_node fork_a2 True [fork_node fork_a3 False []]] (hm_remove 1 own)
       (BlockFinalized (demo_exec fork_a1) 100 # es)"
  have "try_finalize_roots fork_cfg (fork_gen [fork_node fork_a1 True [fork_node fork_a2 True [fork_node fork_a3 False []]]] own es) =
      Some (True, ?c)"
    by (simp add: fork_final)
  moreover have "finalize_loop fork_cfg ?c = Some ?c"
    by (rule finalize_loop_False) (simp add: fork_final)
  ultimately show ?thesis by (simp add: finalize_loop_True)
qed

text \<open>While no root has a majority, votes and blocks without votes are polled and nothing else happens.\<close>

fun quiet :: "byte chain_event \<Rightarrow> bool" where
  "quiet (Vote h j) = True"
| "quiet (BlockIncluded e) = (bl_votes (ex_underlying e) = [] \<and> e = demo_exec (ex_underlying e))"
| "quiet _ = False"

lemma fork_no_majority:
  assumes "\<forall>t \<in> set ts. vb_votes (tn_value t) < 81"
  shows "find_finalizable_root fork_cfg (fork_at f ts own es) = Some None"
proof -
  have "find_finalizable_from fork_cfg (fork_at f ts own es) i us = Some None"
    if "\<forall>t \<in> set us. vb_votes (tn_value t) < 81" for i us
    using that by (induction us arbitrary: i) (auto simp: fork_majority not_le)
  with assms show ?thesis by (simp add: find_finalizable_root_def)
qed

lemma fork_polls_quiet:
  assumes "\<forall>t \<in> set ts. vb_votes (tn_value t) < 81"
  shows "list_all quiet qs \<Longrightarrow> fork_polls (length qs) (fork_at f ts own (es @ qs)) = fork_at f ts own es"
proof (induction qs rule: rev_induct)
  case (snoc ev qs)
  have "snd (the (poll_next fork_cfg 0 (fork_at f ts own ((es @ qs) @ [ev])))) = fork_at f ts own (es @ qs)"
    using snoc.prems fork_no_majority [OF assms] fork_poll_quiet fork_poll_vote
    by (cases ev) (simp_all del: append_assoc, metis)
  with snoc show ?case by simp
qed simp

lemma fork_polls_Suc: "fork_polls (Suc n) c = snd (the (poll_next fork_cfg 0 (fork_polls n c)))"
  by (induction n arbitrary: c) simp_all

text \<open>Polling up to and including the first block with votes.\<close>

lemma fork_polls_counted:
  assumes "es0 = es @ incl b # qs" and "length qs = n" and "list_all quiet qs"
    and "\<forall>t \<in> set ts. vb_votes (tn_value t) < 81"
    and "count_votes fork_cfg (bl_votes b) (fork_at f ts own es) = fork_at f ts' own es'"
    and "finalize_loop fork_cfg (fork_at f ts' own es') = Some (fork_at f2 ts2 own2 es2)"
  shows "fork_polls (Suc n) (fork_at f ts own es0) = fork_at f2 ts2 own2 es2"
proof -
  have "fork_polls n (fork_at f ts own es0) = fork_at f ts own (es @ [incl b])"
    using fork_polls_quiet [OF assms(4,3), of f own "es @ [incl b]"] assms(1,2) by simp
  then show ?thesis unfolding fork_polls_Suc using fork_poll_counted [OF assms(5,6)] by simp
qed

lemma fork_left_state:
  "fork_left = fork_at (ProducedBlock fork_a1) [fork_node fork_a2 True [fork_node fork_a3 False []]]
     [(2, [7, 4], [7, 115]), (3, [7, 4], [7, 191])]
     [BlockFinalized (demo_exec fork_a1) 100, Vote [7, 191] [7, 4],
      BlockConfirmed (demo_exec fork_a2) 100, BlockConfirmed (demo_exec fork_a1) 100]"
proof -
  have five: "(5::nat) = Suc 4" by simp
  have "fork_left = fork_at (ProducedBlock fork_a1) [fork_node fork_a2 True [fork_node fork_a3 False []]]
     (hm_remove 1 (fork_own_a @ [(3, [7, 4], [7, 191])]))
     [BlockFinalized (demo_exec fork_a1) 100, Vote [7, 191] [7, 4],
      BlockConfirmed (demo_exec fork_a2) 100, BlockConfirmed (demo_exec fork_a1) 100]"
    unfolding fork_left_def fold_simps fork_include_a2 fork_include_a3 five
    by (rule fork_polls_counted [where es = "[Vote [7, 191] [7, 4]]" and qs = fork_events_a, OF _ _ _ _ fork_left_votes])
      (simp_all only: fork_left_finalize append.simps, simp_all)
  then show ?thesis by (simp add: hm_remove_def)
qed

definition fork_right :: "(byte, unit) chain" where
  "fork_right = fork_polls 7 (fold fork_include [fork_b1, fork_b2, fork_b3, fork_b4] fork_start)"

abbreviation fork_events_b :: "byte chain_event list" where
  "fork_events_b \<equiv> [Vote [7, 205] [7, 4], incl fork_b3, Vote [7, 137] [7, 4], incl fork_b2,
     Vote [7, 70] [7, 4], incl fork_b1]"

abbreviation fork_own_b :: "(u64, multihash \<times> multihash) hash_map" where
  "fork_own_b \<equiv> [(1, [7, 4], [7, 70]), (2, [7, 4], [7, 137]), (3, [7, 4], [7, 205]), (4, [7, 4], [7, 217])]"

abbreviation fork_branch_b :: "bool \<Rightarrow> byte tree_node" where
  "fork_branch_b voted \<equiv> fork_node fork_b1 voted [fork_node fork_b2 voted [fork_node fork_b3 voted [fork_node fork_b4 False []]]]"

lemma fork_right_includes:
  "fold fork_include [fork_b1, fork_b2, fork_b3, fork_b4] fork_start =
     fork_gen [fork_branch_b False] fork_own_b (Vote [7, 217] [7, 4] # incl fork_b4 # fork_events_b)"
  by (simp add: fork_eval)

lemma fork_right_votes:
  "count_votes fork_cfg (bl_votes fork_b4) (fork_gen [fork_branch_b False] own es) =
     fork_gen [fork_branch_b True] own
       (es @ [BlockConfirmed (demo_exec fork_b3) 100, BlockConfirmed (demo_exec fork_b2) 100, BlockConfirmed (demo_exec fork_b1) 100])"
  by (simp add: count_votes_def injest_vote_def fork_eval newly_confirmed_def confirmed_def fork_majority vb_add_votes_def)

lemma fork_right_finalize:
  "finalize_loop fork_cfg (fork_gen [fork_branch_b True] own es) =
     Some (fork_at (ProducedBlock fork_b2) [fork_node fork_b3 True [fork_node fork_b4 False []]] (hm_remove 2 (hm_remove 1 own))
       (BlockFinalized (demo_exec fork_b2) 100 # BlockFinalized (demo_exec fork_b1) 100 # es))"
proof -
  let ?c1 = "fork_at (ProducedBlock fork_b1) [fork_node fork_b2 True [fork_node fork_b3 True [fork_node fork_b4 False []]]]
    (hm_remove 1 own) (BlockFinalized (demo_exec fork_b1) 100 # es)"
  let ?c2 = "fork_at (ProducedBlock fork_b2) [fork_node fork_b3 True [fork_node fork_b4 False []]] (hm_remove 2 (hm_remove 1 own))
       (BlockFinalized (demo_exec fork_b2) 100 # BlockFinalized (demo_exec fork_b1) 100 # es)"
  have "try_finalize_roots fork_cfg (fork_gen [fork_branch_b True] own es) = Some (True, ?c1)"
    by (simp add: fork_final)
  moreover have "try_finalize_roots fork_cfg ?c1 = Some (True, ?c2)" by (simp add: fork_final)
  moreover have "finalize_loop fork_cfg ?c2 = Some ?c2"
    by (rule finalize_loop_False) (simp add: fork_final)
  ultimately show ?thesis by (simp add: finalize_loop_True)
qed

lemma fork_right_state:
  "fork_right = fork_at (ProducedBlock fork_b2) [fork_node fork_b3 True [fork_node fork_b4 False []]]
     [(3, [7, 4], [7, 205]), (4, [7, 4], [7, 217])]
     [BlockFinalized (demo_exec fork_b2) 100, BlockFinalized (demo_exec fork_b1) 100, Vote [7, 217] [7, 4],
      BlockConfirmed (demo_exec fork_b3) 100, BlockConfirmed (demo_exec fork_b2) 100, BlockConfirmed (demo_exec fork_b1) 100]"
proof -
  have seven: "(7::nat) = Suc 6" by simp
  have "fork_right = fork_at (ProducedBlock fork_b2) [fork_node fork_b3 True [fork_node fork_b4 False []]]
     (hm_remove 2 (hm_remove 1 fork_own_b))
     [BlockFinalized (demo_exec fork_b2) 100, BlockFinalized (demo_exec fork_b1) 100, Vote [7, 217] [7, 4],
      BlockConfirmed (demo_exec fork_b3) 100, BlockConfirmed (demo_exec fork_b2) 100, BlockConfirmed (demo_exec fork_b1) 100]"
    unfolding fork_right_def fork_right_includes seven
    by (rule fork_polls_counted [where es = "[Vote [7, 217] [7, 4]]" and qs = fork_events_b, OF _ _ _ _ fork_right_votes])
      (simp_all only: fork_right_finalize append.simps, simp_all)
  then show ?thesis by (simp add: hm_remove_def)
qed

lemma fork_nodes_reachable:
  "reachable fork_cfg (GenesisBlock fork_genesis) fork_voter"
  "reachable fork_cfg (GenesisBlock fork_genesis) fork_left"
  "reachable fork_cfg (GenesisBlock fork_genesis) fork_right"
  unfolding fork_voter_def fork_left_def fork_right_def
  by (intro fork_polls_reachable fork_fold_reachable fork_start_reachable)+

lemma fork_stake_fits: "stake_fits fork_cfg"
proof -
  have st: "genesis_stakes fork_genesis = [([0, 1], 100), ([0, 2], 10), ([0, 3], 10)]"
    by (simp add: genesis_stakes_def fork_genesis_def hm_insert_def)
  have "electorate fork_cfg [([0, 1], 100), ([0, 2], 10), ([0, 3], 10)] = {[0, 1], [0, 2], [0, 3]}"
    by (auto simp: eligible_def split: if_splits)
  then show ?thesis by (simp add: stake_fits_def st electorate_stake_def stake_of_def)
qed

end
