(* ===== verification/Rensa_Epochs.thy ===== *)
theory Rensa_Epochs
  imports Rensa_Safety
begin

text \<open>
  The finalization rule of \<open>src/consensus/chain.rs\<close> in terms of epochs: \<open>epoch_begin\<close> says what the start of an epoch on a path is
  without walking up the path, \<open>TreeNode::epoch_start\<close> finds it, and the two checkpoints of \<open>find_finalizable_root\<close> are the starts of the two
  epochs before the epoch of the head. The votes of the checkpoints are those the rule itself looks at: nothing here uses that a vote
  on a block also counts for its ancestors.
\<close>

section \<open>The start of an epoch\<close>

text \<open>
  \<open>q\<close> is the start of the epoch of \<open>pos\<close>: on the way from \<open>q\<close> to \<open>pos\<close> all blocks are of that epoch, and \<open>q\<close> is the root or the block
  before it is of another one.
\<close>

definition epoch_begin :: "u64 \<Rightarrow> 'd tree_node \<Rightarrow> position \<Rightarrow> position \<Rightarrow> bool" where
  "epoch_begin epoch_blocks root pos q \<longleftrightarrow>
     prefix q pos
     \<and> (\<forall>r. prefix q r \<longrightarrow> prefix r pos \<longrightarrow> node_epoch epoch_blocks (node_ref root r) = node_epoch epoch_blocks (node_ref root pos))
     \<and> (q \<noteq> [] \<longrightarrow> node_epoch epoch_blocks (node_ref root (butlast q)) \<noteq> node_epoch epoch_blocks (node_ref root pos))"

lemma distinct_path:
  "distinct (tn_hashes p t) \<Longrightarrow> node_at t pos = Some n \<Longrightarrow> distinct (map (\<lambda>m. vb_hash p (tn_value m)) (tn_path t pos))"
proof (induction t pos rule: tn_path.induct)
  case (2 v cs i pos)
  then have i: "i < length cs" and n: "node_at (cs ! i) pos = Some n" by (simp_all split: if_splits)
  have sub: "set (tn_hashes p (cs ! i)) \<subseteq> set (concat (map (tn_hashes p) cs))" using i by (fastforce simp: in_set_conv_nth)
  have path: "m \<in> set (tn_path u q) \<Longrightarrow> tn_value m \<in> set (tn_values u)" for m :: "'a tree_node" and u q
    by (induction u q rule: tn_path.induct) (auto split: if_splits)
  have "distinct (tn_hashes p (cs ! i))"
    using "2.prems"(1) nth_mem [OF i] by (auto simp: map_concat comp_def distinct_concat_iff)
  moreover have "vb_hash p v \<notin> set (map (\<lambda>m. vb_hash p (tn_value m)) (tn_path (cs ! i) pos))"
    using "2.prems"(1) sub path [of _ "cs ! i" pos] by (force simp: map_concat comp_def)
  ultimately show ?case using "2.IH" [OF i _ n] i by simp
qed simp

lemma node_ref_up:
  assumes "node_at t pos = Some n" and "k \<le> length pos"
  shows "node_ref t (take (length pos - k) pos) = tn_path t pos ! k"
proof -
  obtain up where "tn_path t pos = n # up" "length up = length pos" using node_at_path [OF assms(1)] by blast
  then show ?thesis using tn_path_take [OF assms] assms(2) by (simp add: hd_drop_conv_nth)
qed

lemma epoch_start_begin:
  fixes t :: "'d tree_node"
  assumes n: "node_at t pos = Some n" and d: "distinct (tn_hashes p t)" and q: "epoch_start p eb t pos = Some q"
  shows "epoch_begin eb t pos q"
proof -
  obtain up where path: "tn_path t pos = n # up" "length up = length pos" using node_at_path [OF n] by blast
  define same where "same = (\<lambda>m :: 'd tree_node. node_epoch eb m = node_epoch eb n)"
  define steps where "steps = length (takeWhile same up)"
  have steps: "steps \<le> length pos" using path(2) length_takeWhile_le [of same up] by (simp add: steps_def)
  have up: "node_ref t (take (length pos - k) pos) = (n # up) ! k" if "k \<le> length pos" for k
    using node_ref_up [OF n that] path(1) by simp
  have self: "node_ref t pos = n" using up [of 0] by simp
  have "q = take (length pos - steps) pos"
  proof (cases "steps = 0")
    case False
    have "\<forall>m \<in> set up. vb_hash p (tn_value n) \<noteq> vb_hash p (tn_value m)"
      using distinct_path [OF d n] path(1) by (auto simp: image_iff)
    moreover have "(n # up) ! steps \<in> set up" using False steps path(2) by (simp add: nth_Cons')
    ultimately have "vb_hash p (tn_value ((n # up) ! steps)) \<noteq> vb_hash p (tn_value n)" by (metis (no_types))
    then show ?thesis using q path(1) by (auto simp: epoch_start_def Let_def steps_def same_def split: if_splits)
  qed (use q path(1) in \<open>auto simp: epoch_start_def Let_def steps_def same_def split: if_splits\<close>)
  moreover have "node_epoch eb (node_ref t r) = node_epoch eb n" if pre: "prefix q r" "prefix r pos" for r
  proof -
    obtain k where k: "r = take (length pos - k) pos" "k \<le> length pos"
      using pre(2) by (metis append_eq_conv_conj diff_diff_cancel diff_le_self prefix_def prefix_length_le)
    have "length pos - steps \<le> length pos - k"
      using prefix_length_le [OF pre(1)] k \<open>q = _\<close> by simp
    then have "k \<le> steps" using k(2) steps by linarith
    moreover have "same ((n # up) ! Suc j)" if "Suc j \<le> steps" for j
      using that nth_mem [of j "takeWhile same up"] takeWhile_nth [of j same up] set_takeWhileD [of _ same up]
      by (simp add: steps_def Suc_le_eq)
    ultimately show ?thesis using up [OF k(2)] k(1) by (cases k) (auto simp: same_def)
  qed
  moreover have "node_epoch eb (node_ref t (butlast q)) \<noteq> node_epoch eb n" if "q \<noteq> []"
  proof -
    have less: "steps < length up" using that steps path(2) \<open>q = _\<close> by (cases "steps = length pos") auto
    have "butlast q = take (length pos - Suc steps) pos"
      using less path(2) unfolding \<open>q = _\<close> by (simp add: butlast_take)
    then have "node_ref t (butlast q) = up ! steps" using up [of "Suc steps"] less path(2) by simp
    then show ?thesis using nth_length_takeWhile [of same up] less by (simp add: steps_def same_def)
  qed
  ultimately show ?thesis unfolding epoch_begin_def self by (simp add: take_is_prefix)
qed

section \<open>The rule\<close>

text \<open>The forest as far as the rule relies on it: hashes identify blocks, and the votes of a block are the stakes of its voters.\<close>

definition counts_ok :: "('d, 's) chain_cfg \<Rightarrow> ('d, 's) chain \<Rightarrow> bool" where
  "counts_ok cfg ch \<longleftrightarrow>
     distinct (forest_hashes (cfg_params cfg) (ch_forktrees ch))
     \<and> (\<forall>v \<in> set (forest_values (ch_forktrees ch)). node_ok cfg (ch_stakes ch) v)"

lemma chain_inv_counts: "chain_inv cfg ch \<Longrightarrow> counts_ok cfg ch"
  by (auto simp: chain_inv_def counts_ok_def root_ok_def forest_values_def dest: tn_all_values)

lemma counts_ok_tree:
  assumes "counts_ok cfg ch" and "t \<in> set (ch_forktrees ch)"
  shows "distinct (tn_hashes (cfg_params cfg) t)" and "\<forall>v \<in> set (tn_values t). node_ok cfg (ch_stakes ch) v"
  using assms by (auto simp: counts_ok_def forest_values_def map_concat comp_def distinct_concat_iff)

lemma node_at_value: "node_at t pos = Some n \<Longrightarrow> tn_value n \<in> set (tn_values t)"
proof (induction t pos rule: tn_path.induct)
  case (1 t)
  then show ?case by (cases t) simp
qed (fastforce split: if_splits)

lemma checkpoints_confirmed_begin:
  assumes ok: "checkpoints_confirmed cfg ch t = Some True" and d: "distinct (tn_hashes (cfg_params cfg) t)"
  obtains hs q1 q2 n1 n2 where "epoch_begin (g_epoch_blocks (cfg_genesis cfg)) t (tn_head t [] t) hs" and "hs \<noteq> []"
    and "epoch_begin (g_epoch_blocks (cfg_genesis cfg)) t (butlast hs) q1" and "q1 \<noteq> []"
    and "epoch_begin (g_epoch_blocks (cfg_genesis cfg)) t (butlast q1) q2"
    and "node_at t q1 = Some n1" and "minimum_majority_stake cfg ch \<le> vb_votes (tn_value n1)"
    and "node_at t q2 = Some n2" and "minimum_majority_stake cfg ch \<le> vb_votes (tn_value n2)"
proof -
  let ?start = "epoch_start (cfg_params cfg) (g_epoch_blocks (cfg_genesis cfg)) t"
  from ok obtain hs q1 q2 where starts: "?start (tn_head t [] t) = Some hs" "hs \<noteq> []" "?start (butlast hs) = Some q1" "q1 \<noteq> []"
      "?start (butlast q1) = Some q2"
    and votes: "minimum_majority_stake cfg ch \<le> vb_votes (tn_value (node_ref t q1))"
      "minimum_majority_stake cfg ch \<le> vb_votes (tn_value (node_ref t q2))"
    unfolding checkpoints_confirmed_def Let_def by (auto split: option.split_asm if_split_asm)
  have start: "epoch_begin (g_epoch_blocks (cfg_genesis cfg)) t pos q \<and> (\<exists>m. node_at t q = Some m) \<and> (\<exists>m. node_at t (butlast q) = Some m)"
    if "node_at t pos = Some n" "?start pos = Some q" for pos q n
  proof -
    have first: "epoch_begin (g_epoch_blocks (cfg_genesis cfg)) t pos q" by (rule epoch_start_begin [OF that(1) d that(2)])
    then have "prefix q pos" "prefix (butlast q) pos" by (auto simp: epoch_begin_def intro: prefix_order.trans [OF prefixeq_butlast])
    with first show ?thesis using node_at_prefix [OF that(1)] by blast
  qed
  obtain n where "node_at t (tn_head t [] t) = Some n" using tn_head_leaf [of t "[]" t] by auto
  from start [OF this starts(1)] obtain m where hs: "epoch_begin (g_epoch_blocks (cfg_genesis cfg)) t (tn_head t [] t) hs"
    "node_at t (butlast hs) = Some m" by blast
  from start [OF hs(2) starts(3)] obtain n1 m1 where q1: "epoch_begin (g_epoch_blocks (cfg_genesis cfg)) t (butlast hs) q1"
    "node_at t q1 = Some n1" "node_at t (butlast q1) = Some m1" by blast
  from start [OF q1(3) starts(5)] obtain n2 where q2: "epoch_begin (g_epoch_blocks (cfg_genesis cfg)) t (butlast q1) q2"
    "node_at t q2 = Some n2" by blast
  have "node_ref t q1 = n1" "node_ref t q2 = n2" using node_at_path [OF q1(2)] node_at_path [OF q2(2)] by auto
  then show thesis using that [OF hs(1) starts(2) q1(1) starts(4) q2(1) q1(2) _ q2(2)] votes by simp
qed

end
