(* ===== verification/Rensa_Consensus_Properties.thy ===== *)
theory Rensa_Consensus_Properties
  imports Rensa_Fork_Demo Rensa_Epochs
begin

text \<open>
  The properties of the consensus component (\<open>src/consensus\<close>), each with a witness on a
  concrete chain of \<open>Rensa_Demo\<close> or \<open>Rensa_Fork_Demo\<close> where it has hypotheses.
\<close>

section \<open>Safety\<close>

text \<open>
  Whenever two validators of the same chain each consider some block confirmed, the two blocks
  share voters that hold more than a third of the whole stake; so conflicting confirmations need more
  than a third of the stake to vote on both. The stake must be positive and fit a \<open>u64\<close>.
\<close>

theorem confirmed_overlap:
  assumes "reachable cfg fin1 ch1" and "reachable cfg fin2 ch2"
    and "v1 \<in> set (forest_values (ch_forktrees ch1))" and "confirmed cfg ch1 v1"
    and "v2 \<in> set (forest_values (ch_forktrees ch2))" and "confirmed cfg ch2 v2"
    and "0 < electorate_stake cfg (genesis_stakes (cfg_genesis cfg))"
    and "electorate_stake cfg (genesis_stakes (cfg_genesis cfg)) < 2 ^ 64"
  shows "electorate_stake cfg (genesis_stakes (cfg_genesis cfg)) <
    3 * sum (stake_nat (genesis_stakes (cfg_genesis cfg))) (vb_voters v1 \<inter> vb_voters v2)"
  unfolding electorate_stake_def [of cfg "genesis_stakes (cfg_genesis cfg)"]
  by (rule voters.quorum_overlap [OF reachable_confirmed_quorum [OF assms(1,3,4,7,8)]
        reachable_confirmed_quorum [OF assms(2,5,6,7,8)]])

theorem confirmed_overlap_witness:
  "confirmed demo_cfg demo_c2 (hd (forest_values (ch_forktrees demo_c2)))
   \<and> (100::nat) < 3 * sum (stake_nat [([0, 1], 100)]) (vb_voters (hd (forest_values (ch_forktrees demo_c2))))"
proof -
  let ?v = "hd (forest_values (ch_forktrees demo_c2))"
  have "confirmed demo_cfg demo_c2 ?v" by (simp add: confirmed_def demo_majority demo_c2_def)
  moreover have "?v \<in> set (forest_values (ch_forktrees demo_c2))" by (simp add: demo_c2_def)
  ultimately show ?thesis
    using confirmed_overlap [OF demo_c2_reachable demo_c2_reachable, of ?v ?v]
    by (simp add: demo_genesis_stakes demo_stake)
qed

text \<open>
  C2. Every reachable state of a chain satisfies the invariant: the forest extends the finalized block
  by parent hashes and consecutive heights, holds no block twice, every block of it is signed by an
  eligible validator and carries the output of executing its payload, with the hash the block claims, its
  votes are the stakes of its voters counted once each, and the voters of a block are among those of its
  parent; the orphan trees are linked.
\<close>

theorem reachable_invariant: "reachable cfg fin ch \<Longrightarrow> chain_inv cfg ch"
  using reachable_inv by blast

theorem reachable_invariant_witness: "chain_inv demo_cfg demo_c2"
  by (rule reachable_invariant [OF demo_c2_reachable])

text \<open>
  C3. Finalized blocks are never reverted: whatever blocks are included and whatever events are polled,
  the finalized block stays or moves to a descendant, through parents with consecutive heights.
\<close>

theorem finalized_never_reverted:
  assumes "reachable cfg fin ch" and "chain_steps cfg ch ch'"
  shows "finalized_from (cfg_params cfg) (ch_finalized ch) (ch_finalized ch')"
  using chain_steps_inv [OF assms(2)] reachable_inv [OF assms(1)] by blast

theorem finalized_never_reverted_witness:
  "finalized_from demo_params (ch_finalized demo_c2) (ch_finalized (demo_include demo_b3 demo_c2))"
proof -
  have "include_block demo_cfg 0 demo_b3 demo_c2 \<noteq> None"
    unfolding include_block_def by (rule include_all_total) simp_all
  then have "include_block demo_cfg 0 demo_b3 demo_c2 = Some (demo_include demo_b3 demo_c2)"
    by (simp add: demo_include_def)
  from finalized_never_reverted [OF demo_c2_reachable steps_include [OF steps_refl this]] show ?thesis by simp
qed

text \<open>
  C4. A root is finalized only on the evidence of two earlier epochs: on the path of its head, the epoch of the head begins after the root,
  and the root, the start of the epoch before it and the start of the epoch before that each have a quorum of voters of their own, that
  is more than two thirds of the stake. The starts are determined by the epochs of the blocks on the path. Of the forest it is assumed only that hashes
  identify blocks and that votes are the stakes of voters (\<open>chain_inv\<close> implies it), not that votes count for ancestors.
\<close>

theorem finalization_needs_quorums:
  assumes counts: "counts_ok cfg ch" and st: "hm_invar (ch_stakes ch)"
    and pos: "0 < electorate_stake cfg (ch_stakes ch)" and small: "electorate_stake cfg (ch_stakes ch) < 2 ^ 64"
    and ok: "try_finalize_roots cfg ch = Some (True, ch')"
  shows "\<exists>t hs q1 q2 n1 n2. t \<in> set (ch_forktrees ch) \<and> ch_finalized ch' = ProducedBlock (vb_produced (tn_value t))
    \<and> epoch_begin (g_epoch_blocks (cfg_genesis cfg)) t (tn_head t [] t) hs \<and> hs \<noteq> []
    \<and> epoch_begin (g_epoch_blocks (cfg_genesis cfg)) t (butlast hs) q1 \<and> q1 \<noteq> []
    \<and> epoch_begin (g_epoch_blocks (cfg_genesis cfg)) t (butlast q1) q2
    \<and> node_at t q1 = Some n1 \<and> node_at t q2 = Some n2
    \<and> voter_quorum cfg (ch_stakes ch) (vb_voters (tn_value t))
    \<and> voter_quorum cfg (ch_stakes ch) (vb_voters (tn_value n1))
    \<and> voter_quorum cfg (ch_stakes ch) (vb_voters (tn_value n2))"
  using ok
proof (cases rule: try_finalize_rootsE)
  case (1 i v cs store ep)
  let ?t = "TreeNode v cs"
  have t: "?t \<in> set (ch_forktrees ch)" using 1(1,2) by (metis nth_mem)
  note tree = counts_ok_tree [OF counts t]
  have quorum: "voter_quorum cfg (ch_stakes ch) (vb_voters (tn_value n))"
    if "node_at ?t q = Some n" and "minimum_majority_stake cfg ch \<le> vb_votes (tn_value n)" for q n
    using node_at_value [OF that(1)] tree(2) that(2) st pos small by (intro confirmed_quorum) (auto simp: confirmed_def)
  from 1(4) tree(1) show ?thesis
  proof (rule checkpoints_confirmed_begin)
    fix hs q1 q2 n1 n2
    assume e: "epoch_begin (g_epoch_blocks (cfg_genesis cfg)) ?t (tn_head ?t [] ?t) hs" "hs \<noteq> []"
        "epoch_begin (g_epoch_blocks (cfg_genesis cfg)) ?t (butlast hs) q1" "q1 \<noteq> []"
        "epoch_begin (g_epoch_blocks (cfg_genesis cfg)) ?t (butlast q1) q2"
      and n: "node_at ?t q1 = Some n1" "minimum_majority_stake cfg ch \<le> vb_votes (tn_value n1)"
        "node_at ?t q2 = Some n2" "minimum_majority_stake cfg ch \<le> vb_votes (tn_value n2)"
    have "voter_quorum cfg (ch_stakes ch) (vb_voters (tn_value ?t))" using quorum [of "[]" ?t] 1(3) by simp
    moreover have "ch_finalized ch' = ProducedBlock (vb_produced (tn_value ?t))" unfolding 1(8) by simp
    ultimately show ?thesis using t e n quorum [OF n(1,2)] quorum [OF n(3,4)] by blast
  qed
qed

theorem finalization_needs_quorums_witness:
  "\<exists>ch' t hs q1 q2 n1 n2. try_finalize_roots demo_cfg demo_c3 = Some (True, ch')
    \<and> t \<in> set (ch_forktrees demo_c3) \<and> ch_finalized ch' = ProducedBlock (vb_produced (tn_value t))
    \<and> epoch_begin (g_epoch_blocks demo_genesis) t (tn_head t [] t) hs \<and> hs \<noteq> []
    \<and> epoch_begin (g_epoch_blocks demo_genesis) t (butlast hs) q1 \<and> q1 \<noteq> []
    \<and> epoch_begin (g_epoch_blocks demo_genesis) t (butlast q1) q2
    \<and> node_at t q1 = Some n1 \<and> node_at t q2 = Some n2
    \<and> voter_quorum demo_cfg (ch_stakes demo_c3) (vb_voters (tn_value t))
    \<and> voter_quorum demo_cfg (ch_stakes demo_c3) (vb_voters (tn_value n1))
    \<and> voter_quorum demo_cfg (ch_stakes demo_c3) (vb_voters (tn_value n2))"
proof -
  have "try_finalize_roots demo_cfg demo_c3 \<noteq> None"
    by (rule try_finalize_total [OF demo_c3_inv]) simp_all
  then obtain ch' where ok: "try_finalize_roots demo_cfg demo_c3 = Some (True, ch')"
    using demo_c3_finalizable by (auto simp: try_finalize_roots_def Let_def split: option.splits)
  have "hm_invar (ch_stakes demo_c3)" "0 < electorate_stake demo_cfg (ch_stakes demo_c3)"
    "electorate_stake demo_cfg (ch_stakes demo_c3) < 2 ^ 64"
    by (simp_all add: demo_c3_def demo_stake hm_invar_def)
  from finalization_needs_quorums [OF chain_inv_counts [OF demo_c3_inv] this ok] ok show ?thesis
    unfolding demo_cfg_simps by blast
qed

section \<open>Accountability\<close>

text \<open>
  C1. Accountability of the reported blocks: whenever two nodes of a chain each report a block as confirmed
  or finalized, each report stands on the block's subtree at that moment with a quorum of voters, every one of
  whom has signed a vote on the block or a descendant of it; the two quorums share validators that hold more
  than a third of the stake, who have therefore signed a vote into each of the two subtrees; and when the two
  blocks are on different branches, and no two blocks of the subtrees have the same hash but different parents,
  any two such votes have different targets. The stake must be positive and fit a \<open>u64\<close>.
\<close>

theorem reports_accountable:
  assumes "reachable cfg fin1 ch1" and "reachable cfg fin2 ch2" and "stake_fits cfg"
    and "poll_next cfg now1 ch1 = Some (Some ev1, ch1')" and "reports ev1 e1"
    and "poll_next cfg now2 ch2 = Some (Some ev2, ch2')" and "reports ev2 e2"
  shows "\<exists>n1 n2. certificate cfg e1 n1 \<and> certificate cfg e2 n2
    \<and> (let p = cfg_params cfg; stakes = genesis_stakes (cfg_genesis cfg);
           both = vb_voters (tn_value n1) \<inter> vb_voters (tn_value n2)
       in electorate_stake cfg stakes < 3 * sum (stake_nat stakes) both
          \<and> (\<forall>k \<in> both. (\<exists>w1. voted_into p n1 k w1) \<and> (\<exists>w2. voted_into p n2 k w2))
          \<and> (branches p n1 n2 \<longrightarrow> collision_free p (tn_values n1) (tn_values n2) \<longrightarrow>
               (\<forall>k w1 w2. voted_into p n1 k w1 \<longrightarrow> voted_into p n2 k w2 \<longrightarrow> vote_target w1 \<noteq> vote_target w2)))"
proof -
  obtain n1 where c1: "certificate cfg e1 n1" using reported_certificate [OF assms(1,3,4,5)] by blast
  obtain n2 where c2: "certificate cfg e2 n2" using reported_certificate [OF assms(2,3,6,7)] by blast
  note acc = certificates_accountable [OF c1 c2]
  show ?thesis
    unfolding Let_def using c1 c2 acc by (intro exI [of _ n1] exI [of _ n2]) blast
qed

theorem reports_accountable_witness:
  "\<exists>n1 n2. certificate fork_cfg (demo_exec fork_a1) n1 \<and> certificate fork_cfg (demo_exec fork_b1) n2
    \<and> (\<exists>k \<in> vb_voters (tn_value n1) \<inter> vb_voters (tn_value n2).
         (\<exists>w1. voted_into fork_params n1 k w1) \<and> (\<exists>w2. voted_into fork_params n2 k w2))"
proof -
  obtain l where l: "poll_next fork_cfg 0 fork_left = Some (Some (BlockConfirmed (demo_exec fork_a1) 100), l)"
    by (simp add: poll_next_def fork_left_state Let_def)
  obtain r where r: "poll_next fork_cfg 0 fork_right = Some (Some (BlockConfirmed (demo_exec fork_b1) 100), r)"
    by (simp add: poll_next_def fork_right_state Let_def)
  obtain n1 n2 where n: "certificate fork_cfg (demo_exec fork_a1) n1" "certificate fork_cfg (demo_exec fork_b1) n2"
      "electorate_stake fork_cfg (genesis_stakes fork_genesis) <
         3 * sum (stake_nat (genesis_stakes fork_genesis)) (vb_voters (tn_value n1) \<inter> vb_voters (tn_value n2))"
      "\<forall>k \<in> vb_voters (tn_value n1) \<inter> vb_voters (tn_value n2).
         (\<exists>w1. voted_into fork_params n1 k w1) \<and> (\<exists>w2. voted_into fork_params n2 k w2)"
    using reports_accountable [OF fork_nodes_reachable(2,3) fork_stake_fits l _ r, of "demo_exec fork_a1" "demo_exec fork_b1"]
    unfolding Let_def fork_cfg_simps(1,2) by auto
  moreover from n(3) have "vb_voters (tn_value n1) \<inter> vb_voters (tn_value n2) \<noteq> {}" by (metis mult_0_right not_less0 sum.empty)
  ultimately show ?thesis by blast
qed

text \<open>
  C5. Finality does not follow from honest voting: a validator with more than two thirds of the stake that
  only ever casts the votes \<open>commit_and_vote\<close> gives it votes on the second block of one branch and, in a later
  epoch, on the third block of another; a node that receives the first branch with the first vote finalizes
  the first block of that branch, a node that receives the second branch with the second vote finalizes the first
  block of the other, at the same height on the same parent. The rules compare a vote only with the
  validator's vote of the same epoch, and counting ignores the justification beyond its being known.
\<close>

theorem conflicting_finality:
  "reachable fork_cfg (GenesisBlock fork_genesis) fork_voter
   \<and> reachable fork_cfg (GenesisBlock fork_genesis) fork_left
   \<and> reachable fork_cfg (GenesisBlock fork_genesis) fork_right
   \<and> set (concat (map bl_votes [fork_a1, fork_a2, fork_a3, fork_b1, fork_b2, fork_b3, fork_b4])) \<subseteq>
       (\<lambda>(target, justification). vote_new fork_crypto [0, 1] target justification) `
         {(target, justification). Vote target justification \<in> set (ch_events fork_voter)}
   \<and> BlockFinalized (demo_exec fork_a1) 100 \<in> set (ch_events fork_left)
   \<and> BlockFinalized (demo_exec fork_b1) 100 \<in> set (ch_events fork_right)
   \<and> bl_parent fork_a1 = bl_parent fork_b1 \<and> bl_height fork_a1 = bl_height fork_b1
   \<and> block_hash fork_params fork_a1 \<noteq> block_hash fork_params fork_b1"
proof -
  have "set (concat (map bl_votes [fork_a1, fork_a2, fork_a3, fork_b1, fork_b2, fork_b3, fork_b4])) =
      {fork_vote [7, 115], fork_vote [7, 205]}" by auto
  moreover have "{fork_vote [7, 115], fork_vote [7, 205]} \<subseteq>
      (\<lambda>(target, justification). vote_new fork_crypto [0, 1] target justification) `
         {(target, justification). Vote target justification \<in> set (ch_events fork_voter)}"
    by (auto simp: fork_voter_events fork_vote_def image_iff)
  ultimately show ?thesis
    using fork_nodes_reachable by (simp add: fork_left_state fork_right_state del: set_concat)
qed

section \<open>Progress\<close>

text \<open>
  C6. Polling never panics: in every reachable state it returns, the loop that finalizes roots included,
  and the assertion of \<open>Finalized::apply\<close> holds each time, provided epochs have at least one block and
  the storage engine does not fail.
\<close>

theorem poll_never_panics:
  assumes "reachable cfg fin ch" and "g_epoch_blocks (cfg_genesis cfg) \<noteq> 0"
    and "\<And>d s. cfg_store_apply cfg d s \<noteq> None"
  shows "\<exists>ev ch'. poll_next cfg now ch = Some (ev, ch')"
  using poll_next_total [OF _ assms(2,3)] reachable_inv [OF assms(1)] by (metis not_None_eq surj_pair)

theorem poll_never_panics_witness: "\<exists>ev ch'. poll_next demo_cfg 0 demo_c2 = Some (ev, ch')"
  by (rule poll_never_panics [OF demo_c2_reachable]) simp_all

section \<open>Votes\<close>

text \<open>
  C14. The majority threshold, computed by the code in double-precision arithmetic, is more than two
  thirds of the total stake and at most the total stake, for every \<open>u64\<close> total: rounding never makes
  the threshold unsafe or unreachable.
\<close>

theorem majority_threshold:
  "2 * unat (total_stake cfg ch) \<le> 3 * unat (minimum_majority_stake cfg ch)
   \<and> (total_stake cfg ch = 0 \<or> 2 * unat (total_stake cfg ch) < 3 * unat (minimum_majority_stake cfg ch))
   \<and> minimum_majority_stake cfg ch \<le> total_stake cfg ch"
proof -
  let ?t = "total_stake cfg ch"
  have "unat ?t = 0 \<or> 2 * unat ?t < 3 * mul_067_ceil (unat ?t)" using mul_067_ceil_lower by blast
  moreover have "mul_067_ceil (unat ?t) \<le> unat ?t" by (rule mul_067_ceil_upper)
  ultimately show ?thesis
    by (auto simp: minimum_majority_stake_def unat_f64_majority word_le_nat_alt unat_eq_0)
qed

text \<open>
  A vote counts once: ingesting a vote whose target is in the forest a second time changes
  nothing, neither the votes nor the events.
\<close>

theorem vote_counted_once:
  assumes "forest_get (cfg_params cfg) (vote_target v) 0 (ch_forktrees ch) \<noteq> None"
  shows "injest_vote cfg v (injest_vote cfg v ch) = injest_vote cfg v ch"
  using assms by (rule injest_vote_twice)

theorem vote_counted_once_witness:
  "injest_vote demo_cfg (demo_vote [7, 16]) (injest_vote demo_cfg (demo_vote [7, 16]) demo_c1) =
     injest_vote demo_cfg (demo_vote [7, 16]) demo_c1
   \<and> injest_vote demo_cfg (demo_vote [7, 16]) demo_c1 \<noteq> demo_c1"
proof
  show "injest_vote demo_cfg (demo_vote [7, 16]) (injest_vote demo_cfg (demo_vote [7, 16]) demo_c1) =
     injest_vote demo_cfg (demo_vote [7, 16]) demo_c1"
    by (rule vote_counted_once) (simp add: demo_c1_def)
  have "ch_events (injest_vote demo_cfg (demo_vote [7, 16]) demo_c1) \<noteq> ch_events demo_c1"
    by (simp add: demo_eval demo_c1_def)
  then show "injest_vote demo_cfg (demo_vote [7, 16]) demo_c1 \<noteq> demo_c1" by metis
qed

text \<open>
  C24. A validator's own votes do not conflict within an epoch: \<open>commit_and_vote\<close> casts at most one vote, for the block it
  was asked to vote on and justified by the last finalized block, and when the validator voted before in the same
  epoch the new target descends from the earlier target and the earlier justification is finalized.
\<close>

theorem own_votes_consistent:
  assumes "commit_and_vote cfg h ch = Some ch'"
  shows "ch' = ch \<or>
    (\<exists>i pos n ep. forest_get (cfg_params cfg) h 0 (ch_forktrees ch) = Some (i, pos)
       \<and> node_at (ch_forktrees ch ! i) pos = Some n
       \<and> epoch cfg (bl_height (vb_produced (tn_value n))) = Some ep
       \<and> ch_events ch' = Vote h (finalized_hash cfg ch) # ch_events ch
       \<and> map_of (ch_ownvotes ch') ep = Some (finalized_hash cfg ch, h)
       \<and> (case map_of (ch_ownvotes ch) ep of
            None \<Rightarrow> True
          | Some (j, t) \<Rightarrow> in_finalized_history cfg ch j
              \<and> is_descendant_of (cfg_params cfg) (ch_forktrees ch ! i) pos t))"
proof (cases "ch_events ch' = ch_events ch")
  case True
  then have "ch' = ch"
    using assms by (auto simp: commit_and_vote_def push_front_def Let_def split: option.splits if_splits)
  then show ?thesis by simp
next
  case False
  with assms show ?thesis
  proof (cases rule: commit_and_vote_cast)
    case (1 i pos n ep)
    have "ch_events ch' = Vote h (finalized_hash cfg ch) # ch_events ch
        \<and> map_of (ch_ownvotes ch') ep = Some (finalized_hash cfg ch, h)"
      unfolding 1(5) by (simp add: push_front_def map_of_hm_insert)
    moreover have "case map_of (ch_ownvotes ch) ep of None \<Rightarrow> True
        | Some (j, t) \<Rightarrow> in_finalized_history cfg ch j
            \<and> is_descendant_of (cfg_params cfg) (ch_forktrees ch ! i) pos t"
      using 1(6) by (auto split: option.split)
    ultimately show ?thesis using 1(1,2,4) by blast
  qed
qed

theorem own_votes_consistent_witness:
  "\<exists>ch'. commit_and_vote demo_cfg [7, 18] (demo_c2\<lparr>ch_ownvotes := []\<rparr>) = Some ch'
    \<and> ch' \<noteq> demo_c2\<lparr>ch_ownvotes := []\<rparr>
    \<and> (\<exists>ep. map_of (ch_ownvotes ch') ep = Some (finalized_hash demo_cfg (demo_c2\<lparr>ch_ownvotes := []\<rparr>), [7, 18]))"
proof -
  let ?ch = "demo_c2\<lparr>ch_ownvotes := []\<rparr>"
  obtain ch' where ok: "commit_and_vote demo_cfg [7, 18] ?ch = Some ch'" and "ch_events ch' \<noteq> ch_events ?ch"
    by (simp add: demo_eval demo_c2_def)
  then have "ch' \<noteq> ?ch" by metis
  with own_votes_consistent [OF ok] ok show ?thesis by blast
qed

text \<open>
  A vote on a block is a vote on its ancestors: along the path from any node of a reachable forest to its
  root the votes never decrease, so all ancestors of a confirmed block are confirmed.
\<close>

theorem confirmed_ancestors:
  assumes "reachable cfg fin ch" and "electorate_stake cfg (genesis_stakes (cfg_genesis cfg)) < 2 ^ 64"
    and "t \<in> set (ch_forktrees ch)" and "node_at t pos = Some n" and "confirmed cfg ch (tn_value n)"
    and "a \<in> set (tn_path t pos)"
  shows "confirmed cfg ch (tn_value a)"
proof -
  have inv: "chain_inv cfg ch" "ch_stakes ch = genesis_stakes (cfg_genesis cfg)"
    using reachable_inv [OF assms(1)] by auto
  then have all: "tn_all (node_ok cfg (ch_stakes ch)) (edge_ok (cfg_params cfg)) t"
    using assms(3) by (simp add: chain_inv_def root_ok_def)
  obtain k where "k < length (tn_path t pos)" "tn_path t pos ! k = a"
    using assms(6) by (auto simp: in_set_conv_nth)
  then have "vb_votes (tn_value n) \<le> vb_votes (tn_value a)"
    using path_votes_mono [OF all assms(4)] assms(2) inv(2) by auto
  then show ?thesis using assms(5) by (simp add: confirmed_def)
qed

theorem confirmed_ancestors_witness:
  "confirmed demo_cfg demo_c2 (tn_value (hd (ch_forktrees demo_c2)))"
  using confirmed_ancestors [OF demo_c2_reachable, of "hd (ch_forktrees demo_c2)" "[]" "hd (ch_forktrees demo_c2)"
      "hd (ch_forktrees demo_c2)"]
  by (simp add: demo_c2_def demo_genesis_stakes demo_stake confirmed_def demo_majority)

section \<open>The forest\<close>

text \<open>
  C25. A finalization loses no block: the blocks of the forest before it are exactly the finalized block,
  the blocks reported by \<open>BlockDiscarded\<close> events and the blocks of the forest after it.
\<close>

theorem finalization_accounting:
  assumes "chain_inv cfg ch" and "try_finalize_roots cfg ch = Some (True, ch')"
  shows "\<exists>v discarded. ch_finalized ch' = ProducedBlock (vb_produced v)
    \<and> ch_events ch' = BlockFinalized (vb_block v) (vb_votes v) # map BlockDiscarded discarded @ ch_events ch
    \<and> mset (map vb_produced (forest_values (ch_forktrees ch))) =
        add_mset (vb_produced v) (mset discarded + mset (map vb_produced (forest_values (ch_forktrees ch'))))"
  using assms by (rule try_finalize_accounting)

theorem finalization_accounting_witness:
  "\<exists>ch' v discarded. try_finalize_roots demo_cfg demo_c3 = Some (True, ch')
    \<and> ch_finalized ch' = ProducedBlock (vb_produced v)
    \<and> ch_events ch' = BlockFinalized (vb_block v) (vb_votes v) # map BlockDiscarded discarded @ ch_events demo_c3
    \<and> mset (map vb_produced (forest_values (ch_forktrees demo_c3))) =
        add_mset (vb_produced v) (mset discarded + mset (map vb_produced (forest_values (ch_forktrees ch'))))"
proof -
  have "try_finalize_roots demo_cfg demo_c3 \<noteq> None"
    by (rule try_finalize_total [OF demo_c3_inv]) simp_all
  then obtain ch' where ok: "try_finalize_roots demo_cfg demo_c3 = Some (True, ch')"
    using demo_c3_finalizable by (auto simp: try_finalize_roots_def Let_def split: option.splits)
  from finalization_accounting [OF demo_c3_inv ok] ok show ?thesis by blast
qed

text \<open>
  Including a block is the recursion of the source: the block itself, then each orphan that was
  waiting for it, in order, each with everything it releases in turn.
\<close>

theorem include_is_recursion:
  "include_block cfg now b ch =
     (case include_one cfg now b ch of
        None \<Rightarrow> None
      | Some (orphans, ch') \<Rightarrow>
          foldl (\<lambda>r orphan. case r of None \<Rightarrow> None | Some c \<Rightarrow> include_block cfg now orphan c) (Some ch') orphans)"
  by (rule include_block_rec)

text \<open>
  Insert and look up: a new block that \<open>try_include\<close> consumed is found under its hash afterwards.
\<close>

theorem included_block_lookup:
  assumes "try_include cfg b ch = ret (None, ch')" and "get_block_node cfg ch (block_hash (cfg_params cfg) b) = None"
  shows "\<exists>e. chain_get cfg ch' (block_hash (cfg_params cfg) b) = Some e \<and> ex_underlying e = b"
  using assms by (rule try_include_lookup)

theorem included_block_lookup_witness:
  "\<exists>ch' e. try_include demo_cfg demo_b2 demo_c1 = ret (None, ch')
    \<and> chain_get demo_cfg ch' [7, 18] = Some e \<and> ex_underlying e = demo_b2"
proof -
  have new: "get_block_node demo_cfg demo_c1 (block_hash (cfg_params demo_cfg) demo_b2) = None"
    by (simp add: get_block_node_def demo_c1_def demo_genesis_hash)
  obtain ch' where ok: "try_include demo_cfg demo_b2 demo_c1 = ret (None, ch')"
    by (simp add: demo_eval demo_c1_def volatile_new_def)
  from included_block_lookup [OF ok new] ok show ?thesis by auto
qed

text \<open>
  A block is refused, and the chain left as it was, when its producer has no or too little stake,
  when it is not above the finalized height, when its signature does not verify, or when the
  virtual machine or the height check rejects it.
\<close>

theorem rejected_blocks:
  assumes "\<not> eligible cfg (ch_stakes ch) (fst (bl_signature b)) \<or> bl_height b \<le> finalized_height ch
    \<or> \<not> block_verify_signature (cfg_params cfg) b \<or> (\<exists>e. try_include cfg b ch = throw e)"
  shows "include_block cfg now b ch = Some ch"
proof -
  have "include_one cfg now b ch = Some ([], ch)"
    using assms by (auto simp: include_one_def eligible_def Let_def not_less split: option.split)
  then show ?thesis by (simp add: include_block_def)
qed

theorem rejected_blocks_witness:
  "include_block demo_cfg 0 (demo_b1\<lparr>bl_height := 0\<rparr>) demo_c1 = Some demo_c1"
  by (rule rejected_blocks) simp

section \<open>Orphans\<close>

text \<open>
  The orphans released by a block come in an order in which every parent is before its
  children, starting from the block itself.
\<close>

theorem orphans_in_order:
  assumes "orphans_invar p os" and "consume_blocks h os = (Some bs, os')"
  shows "parents_first p {h} bs \<and> length bs + orphan_count os' \<le> orphan_count os"
  using consume_blocks_parents_first [OF assms] orphan_count_consume(1) [OF assms(2)] by blast

theorem orphans_in_order_witness:
  "parents_first demo_params {[7, 16]} [demo_b2]"
proof -
  let ?os = "orphans_add_block demo_params 0 demo_b2 (orphans_new 0)"
  have inv: "orphans_invar demo_params ?os"
    by (rule orphans_invar_add) (simp add: orphans_invar_def orphans_new_def)
  have "consume_blocks [7, 16] ?os = (Some [demo_b2], orphans_new 0)"
    by (simp add: consume_blocks_def orphans_add_block_def orphans_new_def on_new_def hm_insert_def hm_remove_def on_flatten_def)
  from orphans_in_order [OF inv this] show ?thesis by simp
qed

text \<open>
  The head of a tree is a leaf, and at every branching the descent goes to a child with the most
  votes, the first one among equals.
\<close>

theorem head_is_ghost:
  assumes "node_at root pos = Some (TreeNode v cs)"
  shows "\<exists>q n. tn_head root pos (TreeNode v cs) = pos @ q \<and> node_at root (pos @ q) = Some n \<and> tn_children n = []
    \<and> (cs \<noteq> [] \<longrightarrow> (\<exists>i < length cs. tn_head root pos (TreeNode v cs) = tn_head root (pos @ [i]) (cs ! i)
         \<and> (\<forall>j < length cs. vb_votes (tn_value (cs ! j)) \<le> vb_votes (tn_value (cs ! i)))
         \<and> (\<forall>j < i. vb_votes (tn_value (cs ! j)) < vb_votes (tn_value (cs ! i)))))"
  using tn_head_leaf [OF assms] tn_head_ghost [OF assms] by blast

theorem head_is_ghost_witness:
  "\<exists>q. tn_head (demo_node demo_b1 True [demo_node demo_b2 False []]) [] (demo_node demo_b1 True [demo_node demo_b2 False []])
     = [] @ q"
  using head_is_ghost [of "demo_node demo_b1 True [demo_node demo_b2 False []]" "[]"] by auto

text \<open>
  Of two orphans waiting for the same missing parent, the second is dropped when it does not
  belong into an orphan tree that is already there.
\<close>

theorem orphan_sibling_dropped:
  assumes "on_insert_any p now b (or_blocks os) = None" and "map_of (or_blocks os) (bl_parent b) \<noteq> None"
  shows "orphans_add_block p now b os = os"
  using assms by (auto simp: orphans_add_block_def)

theorem orphan_sibling_dropped_witness:
  "orphans_add_block demo_params 0 (demo_block 2 [7, 16] []) (orphans_add_block demo_params 0 demo_b2 (orphans_new 0))
     = orphans_add_block demo_params 0 demo_b2 (orphans_new 0)"
  by (rule orphan_sibling_dropped)
    (simp_all add: orphans_add_block_def orphans_new_def on_new_def hm_insert_def demo_block_def produced_new_def Let_def)

end
