(* ===== verification/Rensa_VM_Properties.thy ===== *)
theory Rensa_VM_Properties
  imports Rensa_Demo
begin

text \<open>
  The properties of the virtual machine (\<open>src/vm\<close>) and the primitives, each with a witness on a
  concrete machine and currency where it has hypotheses.
\<close>

section \<open>A concrete machine\<close>

definition demo_vm :: machine where
  "demo_vm = \<lparr>vm_crypto = demo_crypto, vm_limits = demo_limits, vm_builtins = [([9], sha3_contract demo_crypto)],
     vm_runtime = (\<lambda>bs. Inl AccountIsNotExecutable), vm_wasm_addr = [8]\<rparr>"

text \<open>A transaction of the key \<open>[0, 1]\<close> that stores a hash in its own account.\<close>

definition demo_tx :: transaction where
  "demo_tx = tx_new demo_crypto [9] 1 [0, 1] [\<lparr>ref_address = [0, 1], ref_writable = True, ref_signer = True\<rparr>] [5] [[0, 1]]"

lemma demo_tx_signed: "tx_verify_signatures demo_crypto demo_tx = Inr ()"
  by (simp add: tx_verify_signatures_def demo_tx_def tx_new_def Let_def tx_fields_hash_def tx_signing_accounts_def)

definition demo_view :: state_view where
  "demo_view a = (if a = [0, 1] then Some (account_default\<lparr>acc_nonce := 1\<rparr>) else None)"

lemma demo_run: "\<exists>out. run_transaction 1 demo_vm demo_tx demo_view = ret out"
  using demo_tx_signed
  by (simp add: run_transaction_def unit_new_def demo_vm_def demo_limits_def state_nonce_def demo_view_def
      account_default_def resolve_entrypoint_def machine_builtin_def create_environment_def create_account_view_def
      view_writable_def has_private_key_def unit_invoke_def sha3_contract_def demo_sha3_def data_too_large_def
      modify_account_def set_account_def state_output_def to_merge_def to_default_def
      demo_tx_def tx_new_def Let_def)

lemma demo_bump: "overlayed_get (\<lambda>a. None) (sd_get (bump_payer (\<lambda>a. None) sd_default [0, 1])) = demo_view"
  by (rule ext) (simp add: bump_payer_def overlayed_get_def sd_put_eq sd_get_def sd_default_def demo_view_def)

lemma demo_tx_payer [simp]: "tx_payer demo_tx = [0, 1]"
  by (simp add: demo_tx_def tx_new_def Let_def)

lemma demo_execute: "\<exists>out. execute_block 1 demo_vm (\<lambda>a. None) [demo_tx] = ret out"
  using demo_run demo_bump
  by (auto simp: execute_block_def verify_transactions_order_def execute_transaction_def block_output_empty_def Let_def)

lemma unit_new_wrong_nonce:
  "tx_nonce tx \<noteq> state_nonce st (tx_payer tx) \<Longrightarrow> \<exists>e. unit_new vm tx st = Inl e"
  using unit_new_nonce by (cases "unit_new vm tx st") auto

section \<open>Blocks of transactions\<close>

text \<open>
  C11. Replay protection across blocks: executing a block increases the nonce of every address by exactly
  the number of transactions it pays for in the block, failed ones included, and no contract can change
  a nonce.
\<close>

theorem block_nonces:
  assumes "execute_block fuel vm st txs = ret out"
  shows "state_nonce (overlayed_get st (sd_get (bo_state out))) a = state_nonce st a + of_nat (paid_by a txs)"
  using assms by (rule execute_block_nonce)

theorem block_nonces_witness:
  "\<exists>out. execute_block 1 demo_vm (\<lambda>a. None) [demo_tx] = ret out
     \<and> state_nonce (overlayed_get (\<lambda>a. None) (sd_get (bo_state out))) [0, 1] = 1"
proof -
  obtain out where ok: "execute_block 1 demo_vm (\<lambda>a. None) [demo_tx] = ret out" using demo_execute by blast
  from block_nonces [OF ok, of "[0, 1]"] ok show ?thesis by (simp add: state_nonce_def)
qed

text \<open>
  C12. Isolation: every change that a successful transaction makes, nested calls included, was asked for by an output of a unit that
  ran and had the right to make it. The right: a reference of that unit's call marks the address writable; an address with a private key is
  marked as signer there; without one, an account that exists is a non-executable account of the contract that this very unit
  runs. A new account belongs to that contract, starts at nonce 0, and is executable only when the WASM builtin creates it; of an
  existing account only the data changes; only accounts of that contract are deleted; the data is within the limits. At the top level the references are those
  of the transaction, whose signatures were verified and whose nonce is the payer's; in a nested call they are the ones that the calling
  contract chose.
\<close>

theorem vm_isolation:
  assumes "run_transaction fuel vm tx st = ret out"
  shows "\<exists>u. unit_new vm tx st = Inr u \<and> eu_state u = st \<and> eu_contract u = tx_contract tx
    \<and> tx_verify_signatures (vm_crypto vm) tx = Inr () \<and> tx_nonce tx = state_nonce st (tx_payer tx)
    \<and> diff_ok vm u (tx_accounts tx) (to_state_diff out)"
proof -
  obtain u where u: "unit_new vm tx st = Inr u" "eu_state u = st" "diff_ok vm u (tx_accounts tx) (to_state_diff out)"
    using run_transaction_ok [OF assms] by blast
  moreover from u(1) have "eu_contract u = tx_contract tx" "tx_verify_signatures (vm_crypto vm) tx = Inr ()"
    "tx_nonce tx = state_nonce st (tx_payer tx)"
    by (auto simp: unit_new_def split: if_splits sum.splits)
  ultimately show ?thesis by blast
qed

lemma demo_run_writes: "run_transaction 1 demo_vm demo_tx demo_view = ret out \<Longrightarrow> \<exists>acc. sd_get (to_state_diff out) [0, 1] = Some acc"
  using demo_tx_signed
  by (auto simp: run_transaction_def unit_new_def demo_vm_def demo_limits_def state_nonce_def demo_view_def
      account_default_def resolve_entrypoint_def machine_builtin_def create_environment_def create_account_view_def
      view_writable_def has_private_key_def unit_invoke_def sha3_contract_def demo_sha3_def data_too_large_def
      modify_account_def set_account_def state_output_def to_merge_def to_default_def sd_get_merge sd_get_put
      demo_tx_def tx_new_def Let_def)

theorem vm_isolation_witness:
  "\<exists>out u v refs acc. run_transaction 1 demo_vm demo_tx demo_view = ret out \<and> diff_ok demo_vm u (tx_accounts demo_tx) (to_state_diff out)
    \<and> sd_get (to_state_diff out) [0, 1] = Some acc \<and> calls demo_vm u (tx_accounts demo_tx) v refs \<and> write_ok demo_vm v refs [0, 1] acc"
proof -
  obtain out where ok: "run_transaction 1 demo_vm demo_tx demo_view = ret out" using demo_run by blast
  moreover obtain u where u: "diff_ok demo_vm u (tx_accounts demo_tx) (to_state_diff out)" using vm_isolation [OF ok] by blast
  moreover obtain acc where acc: "sd_get (to_state_diff out) [0, 1] = Some acc" using demo_run_writes [OF ok] by blast
  moreover obtain v refs where "calls demo_vm u (tx_accounts demo_tx) v refs" "write_ok demo_vm v refs [0, 1] acc"
    using u acc unfolding diff_ok_def by blast
  ultimately show ?thesis by blast
qed

text \<open>
  C30. No replay inside a block: once a transaction has succeeded, the same transaction fails when it is
  executed again later in the block, as long as its payer pays for fewer than \<open>2^64 - 1\<close> transactions in
  between; it only increments the nonce again and leaves no log.
\<close>

theorem no_replay_in_block:
  assumes inv: "sd_invar (bo_state acc)"
    and first: "run_transaction fuel vm tx (overlayed_get st (sd_get (bump_payer st (bo_state acc) (tx_payer tx)))) = ret out"
    and acc1: "execute_transaction fuel vm st tx acc = Some acc1"
    and between: "execute_transactions fuel vm st mid acc1 = Some acc2"
    and few: "paid_by (tx_payer tx) mid < 2 ^ 64 - 1"
    and again: "execute_transaction fuel vm st tx acc2 = Some acc3"
  shows "bo_logs acc3 = bo_logs acc2 \<and> bo_state acc3 = bump_payer st (bo_state acc2) (tx_payer tx)"
proof -
  let ?nonce = "\<lambda>acc. state_nonce (overlayed_get st (sd_get (bo_state acc))) (tx_payer tx)"
  have n0: "tx_nonce tx = ?nonce acc + 1"
    using run_transaction_ret [OF first] inv by (simp add: state_nonce_bump)
  have inv1: "sd_invar (bo_state acc1)" and n1: "?nonce acc1 = ?nonce acc + 1"
    using execute_transaction_nonce [OF inv acc1, of "tx_payer tx"] by auto
  have inv2: "sd_invar (bo_state acc2)" and n2: "?nonce acc2 = ?nonce acc1 + of_nat (paid_by (tx_payer tx) mid)"
    using execute_transactions_nonce [OF inv1 between, of "tx_payer tx"] by auto
  from inv2 again show ?thesis
  proof (cases rule: execute_transaction_cases)
    case (ok out')
    then have "?nonce acc + 1 = ?nonce acc + 1 + of_nat (paid_by (tx_payer tx) mid) + 1"
      using n0 n1 n2 by simp
    then have "(of_nat (Suc (paid_by (tx_payer tx) mid)) :: u64) = 0" by (simp add: algebra_simps)
    then have "unat (of_nat (Suc (paid_by (tx_payer tx) mid)) :: u64) = 0" by (simp only: unsigned_0)
    moreover have "unat (of_nat (Suc (paid_by (tx_payer tx) mid)) :: u64) = Suc (paid_by (tx_payer tx) mid)"
      using few by (simp only: unsigned_of_nat) (simp add: take_bit_nat_eq_self)
    ultimately show ?thesis by simp
  next
    case (error e)
    then show ?thesis by simp
  qed
qed

theorem no_replay_in_block_witness:
  "\<exists>acc1 acc3. execute_transaction 1 demo_vm (\<lambda>a. None) demo_tx block_output_empty = Some acc1
     \<and> execute_transaction 1 demo_vm (\<lambda>a. None) demo_tx acc1 = Some acc3 \<and> bo_logs acc3 = bo_logs acc1"
proof -
  obtain out where run: "run_transaction 1 demo_vm demo_tx
      (overlayed_get (\<lambda>a. None) (sd_get (bump_payer (\<lambda>a. None) (bo_state block_output_empty) (tx_payer demo_tx)))) = ret out"
    using demo_run demo_bump by (auto simp: block_output_empty_def)
  then obtain acc1 where acc1: "execute_transaction 1 demo_vm (\<lambda>a. None) demo_tx block_output_empty = Some acc1"
    by (simp add: execute_transaction_def)
  have "state_nonce (overlayed_get (\<lambda>a. None) (sd_get (bo_state acc1))) [0, 1] = 1"
    using execute_transaction_nonce [OF _ acc1, of "[0, 1]"] by (simp add: block_output_empty_def state_nonce_def)
  then have "state_nonce (overlayed_get (\<lambda>a. None) (sd_get (bump_payer (\<lambda>a. None) (bo_state acc1) [0, 1]))) [0, 1] = 2"
    using execute_transaction_nonce [OF _ acc1, of "[0, 1]"] by (simp add: state_nonce_bump)
  moreover have "tx_nonce demo_tx = 1" by (simp add: demo_tx_def tx_new_def Let_def)
  ultimately obtain e where "unit_new demo_vm demo_tx
      (overlayed_get (\<lambda>a. None) (sd_get (bump_payer (\<lambda>a. None) (bo_state acc1) [0, 1]))) = Inl e"
    using unit_new_wrong_nonce [of demo_tx
        "overlayed_get (\<lambda>a. None) (sd_get (bump_payer (\<lambda>a. None) (bo_state acc1) [0, 1]))" demo_vm] by auto
  then obtain acc3 where acc3: "execute_transaction 1 demo_vm (\<lambda>a. None) demo_tx acc1 = Some acc3"
    by (simp add: execute_transaction_def run_transaction_def)
  from no_replay_in_block [OF _ run acc1 _ _ acc3, of "[]"] acc1 acc3 show ?thesis by auto
qed

text \<open>
  A transaction either succeeds, with the nonce after its payer's and valid signatures, or it leaves
  an error under its hash and changes nothing but its payer's nonce: logs, other errors and all other
  accounts stay as they were.
\<close>

theorem failed_transaction:
  assumes "sd_invar (bo_state acc)" and "execute_transaction fuel vm st tx acc = Some acc'"
    and "tx_nonce tx \<noteq> state_nonce (overlayed_get st (sd_get (bo_state acc))) (tx_payer tx) + 1
      \<or> tx_verify_signatures (vm_crypto vm) tx \<noteq> Inr ()"
  shows "bo_logs acc' = bo_logs acc
    \<and> (\<exists>e. bo_errors acc' = hm_insert (tx_hash (vm_crypto vm) tx) e (bo_errors acc))
    \<and> (\<forall>a. a \<noteq> tx_payer tx \<longrightarrow> sd_get (bo_state acc') a = sd_get (bo_state acc) a)
    \<and> sd_deletes (bo_state acc') = bs_remove (tx_payer tx) (sd_deletes (bo_state acc))"
  using assms(1,2)
proof (cases rule: execute_transaction_cases)
  case (ok out)
  with assms(3) run_transaction_ret [OF ok(1)] show ?thesis by simp
next
  case (error e)
  have "sd_get (bump_payer st (bo_state acc) (tx_payer tx)) a = sd_get (bo_state acc) a" if "a \<noteq> tx_payer tx" for a
    using that assms(1) by (simp add: bump_payer_def sd_get_put split: option.split)
  then show ?thesis
    using error(2) by (auto simp: bump_payer_def sd_put_eq split: option.split)
qed

theorem failed_transaction_witness:
  "\<exists>acc'. execute_transaction 1 demo_vm (\<lambda>a. None) (demo_tx\<lparr>tx_nonce := 7\<rparr>) block_output_empty = Some acc'
     \<and> bo_logs acc' = []"
proof -
  let ?tx = "demo_tx\<lparr>tx_nonce := 7\<rparr>"
  obtain e where "unit_new demo_vm ?tx demo_view = Inl e"
    using unit_new_wrong_nonce [of ?tx demo_view demo_vm] by (auto simp: demo_view_def state_nonce_def)
  then obtain acc' where acc': "execute_transaction 1 demo_vm (\<lambda>a. None) ?tx block_output_empty = Some acc'"
    using demo_bump by (simp add: execute_transaction_def run_transaction_def block_output_empty_def)
  from failed_transaction [OF _ acc'] acc' show ?thesis by (simp add: state_nonce_def block_output_empty_def)
qed

text \<open>
  The check of the transaction order accepts every block in which no transaction is by the payer of
  the one before it with that one's nonce minus one, whatever the hashes are: blocks are not sorted by
  hash, as the documentation says.
\<close>

theorem order_check_vacuous:
  assumes "\<And>i. Suc i < length txs \<Longrightarrow> \<not> is_within_payer_group (txs ! Suc i) (txs ! i)"
  shows "verify_transactions_order c txs"
proof (cases txs)
  case (Cons first rest)
  have "verify_order_loop c first None rest"
    using assms unfolding Cons by (rule verify_order_loop_new_groups)
  then show ?thesis by (simp add: verify_transactions_order_def Cons)
qed (simp add: verify_transactions_order_def)

theorem order_check_vacuous_witness:
  "verify_transactions_order demo_crypto [demo_tx, demo_tx\<lparr>tx_nonce := 2\<rparr>]
   \<and> verify_transactions_order demo_crypto [demo_tx\<lparr>tx_nonce := 3\<rparr>, demo_tx]"
proof
  show "verify_transactions_order demo_crypto [demo_tx, demo_tx\<lparr>tx_nonce := 2\<rparr>]"
    by (rule order_check_vacuous) (simp add: is_within_payer_group_def demo_tx_def tx_new_def Let_def)
  show "verify_transactions_order demo_crypto [demo_tx\<lparr>tx_nonce := 3\<rparr>, demo_tx]"
    by (rule order_check_vacuous) (simp add: is_within_payer_group_def demo_tx_def tx_new_def Let_def)
qed

section \<open>Execution units\<close>

text \<open>The limits on logs hold for every successful unit, nested calls included.\<close>

lemma process_outputs_logs:
  "process_outputs nested vm u xs acc = ret out \<Longrightarrow> length (to_log_entries acc) \<le> max_logs_count (vm_limits vm)
   \<Longrightarrow> length (to_log_entries out) \<le> max_logs_count (vm_limits vm)"
proof (induction xs arbitrary: acc)
  case (Cons x xs)
  then show ?case by (auto elim!: bind_retE simp: Let_def not_less split: if_split_asm)
qed simp

theorem log_limits:
  assumes "unit_execute n vm u = ret out"
  shows "length (to_log_entries out) \<le> max_logs_count (vm_limits vm)"
  using assms by (cases n) (auto elim!: bind_retE dest!: process_outputs_logs simp: to_default_def)

theorem log_limits_witness:
  "\<exists>u out. unit_execute 1 demo_vm u = ret out \<and> length (to_log_entries out) \<le> 9"
proof -
  obtain out where "run_transaction 1 demo_vm demo_tx demo_view = ret out" using demo_run by blast
  then obtain u where u: "unit_execute 1 demo_vm u = ret out"
    by (auto simp: run_transaction_def split: sum.splits)
  from log_limits [OF u] u show ?thesis by (auto simp: demo_vm_def demo_limits_def)
qed

text \<open>
  C38. WASM contracts cannot be deployed: for the 32-byte address of the builtin, no instruction of the
  deployment contract ever succeeds in an environment the virtual machine builds.
\<close>

theorem wasm_deploy_fails:
  assumes "length address = 32" and "env = create_environment vm st refs address caller"
  shows "wasm_contract (vm_crypto vm) k env params lim \<noteq> ret outs"
proof -
  have "length (env_address env) = 32" using assms by (simp add: create_environment_def)
  then show ?thesis
    using process_install_fails [OF assms(2)]
    by (auto simp: wasm_contract_def process_allocate_32 process_upload_32 split: option.split wasm_instruction.split)
qed

theorem wasm_deploy_fails_witness:
  "\<forall>outs. wasm_contract demo_crypto
     \<lparr>dec_wasm_instruction = (\<lambda>bs. Some (Install [] None)), enc_bytecode = (\<lambda>b. Inr []), dec_bytecode = (\<lambda>b. None)\<rparr>
     (create_environment demo_vm demo_view [] (replicate 32 8) None) [] demo_limits \<noteq> ret outs"
proof
  fix outs
  have "vm_crypto demo_vm = demo_crypto" by (simp add: demo_vm_def)
  with wasm_deploy_fails [of "replicate 32 8" _ demo_vm demo_view "[]" None
      "\<lparr>dec_wasm_instruction = (\<lambda>bs. Some (Install [] None)), enc_bytecode = (\<lambda>b. Inr []), dec_bytecode = (\<lambda>b. None)\<rparr>"
      "[]" demo_limits outs]
  show "wasm_contract demo_crypto
     \<lparr>dec_wasm_instruction = (\<lambda>bs. Some (Install [] None)), enc_bytecode = (\<lambda>b. Inr []), dec_bytecode = (\<lambda>b. None)\<rparr>
     (create_environment demo_vm demo_view [] (replicate 32 8) None) [] demo_limits \<noteq> ret outs"
    by simp
qed

section \<open>State\<close>

text \<open>
  C32. Persisting a diff and reading it back agrees with reading the overlayed view, with two
  exceptions: deleted addresses are gone, and the executable flag is lost. (The overlayed view
  still shows deleted accounts.)
\<close>

theorem persisted_state:
  assumes "bt_invar db" and "sd_invar d"
    and "\<And>acc. sd_get d a = Some acc \<Longrightarrow>
      dec_fields k (enc_fields k (acc_nonce acc, acc_owner acc, acc_data acc)) = Some (acc_nonce acc, acc_owner acc, acc_data acc)"
  shows "persistent_get k (persistent_apply k d db) a =
    (if a \<in> set (sd_deletes d) then Some None
     else case sd_get d a of
            Some acc \<Rightarrow> Some (Some (acc\<lparr>acc_executable := False\<rparr>))
          | None \<Rightarrow> persistent_get k db a)"
  using assms
  by (auto simp: persistent_get_def map_of_persistent_apply ser_account_def de_account_def split: option.split)

theorem persisted_state_witness:
  "persistent_get \<lparr>enc_fields = (\<lambda>(n, ow, d). [ucast n]), dec_fields = (\<lambda>bs. Some (5, None, None))\<rparr>
     (persistent_apply \<lparr>enc_fields = (\<lambda>(n, ow, d). [ucast n]), dec_fields = (\<lambda>bs. Some (5, None, None))\<rparr>
       (sd_put [1] \<lparr>acc_executable = True, acc_nonce = 5, acc_owner = None, acc_data = None\<rparr> sd_default) []) [1]
   = Some (Some \<lparr>acc_executable = False, acc_nonce = 5, acc_owner = None, acc_data = None\<rparr>)"
  by (subst persisted_state) (auto simp: sd_get_put set_sd_deletes_put)

text \<open>
  Merging diffs is composing views: reading through the merge of two diffs is reading through the
  newer one over the older one, and the deletions of the older diff survive unless the newer diff
  writes the address.
\<close>

theorem merged_views:
  assumes "sd_invar d" and "sd_invar e"
  shows "overlayed_get st (sd_get (sd_merge d e)) = overlayed_get (overlayed_get st (sd_get d)) (sd_get e)
    \<and> set (sd_deletes (sd_merge d e)) = (set (sd_deletes d) - dom (sd_get e)) \<union> set (sd_deletes e)
    \<and> sd_invar (sd_merge d e)"
  using assms by (simp add: overlayed_merge set_sd_deletes_merge)

theorem merged_views_witness:
  "set (sd_deletes (sd_merge (sd_del [1] sd_default) (sd_put [1] account_default sd_default))) = {}"
  using merged_views [of "sd_del [1] sd_default" "sd_put [1] account_default sd_default" "\<lambda>a. None"]
  by (auto simp: set_sd_deletes_del set_sd_deletes_put sd_get_put dom_def)

section \<open>Transactions, blocks and addresses\<close>

text \<open>
  C33. The signature check accepts a transaction exactly when its first signature is the payer's on
  the hash of its fields and the following ones are, in order, those of the accounts marked as signers;
  further signatures are not looked at.
\<close>

theorem tx_signatures_checked:
  "tx_verify_signatures c tx = Inr () \<longleftrightarrow>
     (\<exists>first others. tx_signatures tx = first # others
        \<and> ed_verify c (tx_payer tx) (tx_fields_hash c tx) first
        \<and> length (tx_signing_accounts tx) \<le> length others
        \<and> list_all2 (\<lambda>k sig. ed_verify c k (tx_fields_hash c tx) sig) (tx_signing_accounts tx)
            (take (length (tx_signing_accounts tx)) others))"
  unfolding tx_verify_signatures_ok list_all2_conv_all_nth by fastforce

text \<open>
  Signing and checking round trip: a transaction built with the secret keys of its signing accounts,
  in their order, passes the signature check.
\<close>

theorem tx_new_verifies:
  assumes "signing_correct c"
    and "map (ed_public c) signers = map ref_address (filter ref_signer accounts)"
  shows "tx_verify_signatures c (tx_new c contract nonce payer accounts params signers) = Inr ()"
proof -
  let ?tx = "tx_new c contract nonce payer accounts params signers"
  let ?h = "tx_hash_fields c contract nonce (ed_public c payer) accounts params"
  have h: "tx_fields_hash c ?tx = ?h" by (simp add: tx_fields_hash_def tx_new_def Let_def)
  have sig: "tx_signatures ?tx = ed_sign c payer ?h # map (\<lambda>s. ed_sign c s ?h) signers"
    by (simp add: tx_new_def Let_def)
  have keys: "tx_signing_accounts ?tx = map (ed_public c) signers"
    using assms(2) by (simp add: tx_signing_accounts_def tx_new_def Let_def)
  have payer: "tx_payer ?tx = ed_public c payer" by (simp add: tx_new_def Let_def)
  show ?thesis
    unfolding tx_verify_signatures_ok h sig keys payer using assms(1) by (simp add: signing_correct_def)
qed

theorem tx_new_verifies_witness:
  "tx_verify_signatures demo_crypto (tx_new demo_crypto [9] 1 [0, 1]
     [\<lparr>ref_address = [0, 2], ref_writable = True, ref_signer = True\<rparr>] [5] [[0, 2]]) = Inr ()"
  by (rule tx_new_verifies [OF demo_signing]) simp

text \<open>
  Derived addresses: the search for an address ends as soon as one of the \<open>2^64\<close> candidates is off
  the curve, and the address it returns has no private key.
\<close>

theorem derived_addresses:
  assumes "\<not> has_private_key c (derive_key c self seeds b)"
  shows "\<exists>k. derive c self seeds = Some k \<and> \<not> has_private_key c k"
  using derive_total [OF assms] derive_off_curve by blast

theorem derived_addresses_witness:
  "\<exists>k. derive demo_crypto [8] [[1]] = Some k \<and> \<not> has_private_key demo_crypto k"
  by (rule derived_addresses [of _ _ _ 0]) (simp add: has_private_key_def derive_key_def demo_sha3_def)

text \<open>
  Blocks and votes made with a secret key verify, and a block's hash does not depend on its
  signature bytes.
\<close>

theorem produced_and_votes_verify:
  assumes "signing_correct (bp_crypto p)"
  shows "block_verify_signature p (produced_new p key height parent d state_hash votes)
    \<and> vote_verify_signature (bp_crypto p) (vote_new (bp_crypto p) key target justification)
    \<and> produced_eq p b (b\<lparr>bl_signature := (fst (bl_signature b), sig)\<rparr>)"
  using assms
  by (simp add: block_verify_signature_def block_hash_new produced_new_def vote_verify_signature_def vote_new_def
      signing_correct_def produced_eq_def Let_def block_hash_def)

theorem produced_and_votes_verify_witness:
  "block_verify_signature demo_params (produced_new demo_params [0, 1] 1 [] 5 [] [])
    \<and> vote_verify_signature demo_crypto (vote_new demo_crypto [0, 1] [2] [3])
    \<and> produced_eq demo_params demo_b1 (demo_b1\<lparr>bl_signature := (fst (bl_signature demo_b1), [])\<rparr>)"
  using produced_and_votes_verify [of demo_params "[0, 1]" 1 "[]" 5 "[]" "[]" "[2]" "[3]" demo_b1 "[]"] demo_signing
  by simp

end
