(* ===== verification/Rensa_Currency_Properties.thy ===== *)
theory Rensa_Currency_Properties
  imports Rensa_Demo
begin

text \<open>
  The properties of the currency contract (\<open>src/vm/builtin/currency.rs\<close>): who may call what, what is
  conserved, and what the virtual machine makes of its outputs. What the Borsh codec promises, that a
  decoder reads back what the encoder wrote, is the hypothesis \<open>codec_ok\<close>.
\<close>

definition codec_ok :: "currency_codec \<Rightarrow> bool" where
  "codec_ok k \<longleftrightarrow> (\<forall>coin d. enc_coin k coin = Inr d \<longrightarrow> dec_coin k d = Some coin)
     \<and> (\<forall>m d. enc_mint k m = Inr d \<longrightarrow> dec_mint k d = Some m)"

text \<open>The balance stored in an account's data, 0 when there is none.\<close>

definition coin_value :: "currency_codec \<Rightarrow> bytes option \<Rightarrow> nat" where
  "coin_value k data =
     (case data of None \<Rightarrow> 0 | Some d \<Rightarrow> (case dec_coin k d of Some coin \<Rightarrow> unat (coin_balance coin) | None \<Rightarrow> 0))"

definition mint_value :: "currency_codec \<Rightarrow> bytes option \<Rightarrow> nat" where
  "mint_value k data =
     (case data of None \<Rightarrow> 0 | Some d \<Rightarrow> (case dec_mint k d of Some m \<Rightarrow> unat (mint_supply m) | None \<Rightarrow> 0))"

lemma coin_value_enc: "codec_ok k \<Longrightarrow> enc_coin k coin = Inr d \<Longrightarrow> coin_value k (Some d) = unat (coin_balance coin)"
  by (simp add: coin_value_def codec_ok_def)

lemma mint_value_enc: "codec_ok k \<Longrightarrow> enc_mint k m = Inr d \<Longrightarrow> mint_value k (Some d) = unat (mint_supply m)"
  by (simp add: mint_value_def codec_ok_def)

lemma coin_value_read:
  "read_coin_account c k addr acc mint_addr wallet env = ret r \<Longrightarrow>
     coin_value k (av_data acc) = (case r of None \<Rightarrow> 0 | Some coin \<Rightarrow> unat (coin_balance coin))"
  by (drule read_coin_account_ret) (auto simp: coin_value_def split: option.splits)

lemma mint_value_read:
  "read_coin_mint c k addr acc env = ret m \<Longrightarrow> mint_value k (av_data acc) = unat (mint_supply m)"
  by (drule read_coin_mint_ret) (auto simp: mint_value_def)

lemma u64_less: "unat (w :: u64) < 2 ^ 64"
  using unsigned_less [of w] by simp

text \<open>What a call writes into a coin account that receives an amount.\<close>

lemma credited_value:
  assumes "codec_ok k" and "read_coin_account c k addr acc mint_addr wallet env = ret r"
    and "case r of
           Some coin \<Rightarrow> \<exists>d. enc_coin k (coin\<lparr>coin_balance := saturating_add (coin_balance coin) amount\<rparr>)
              = Inr d \<and> out = WriteAccountData addr (Some d)
         | None \<Rightarrow> \<exists>d. enc_coin k \<lparr>coin_mint = mint_addr, coin_owner = wallet, coin_balance = amount\<rparr>
              = Inr d \<and> out = CreateOwnedAccount addr (Some d)"
  obtains d where "out = WriteAccountData addr (Some d) \<or> out = CreateOwnedAccount addr (Some d)"
    and "coin_value k (Some d) = min (coin_value k (av_data acc) + unat amount) (2 ^ 64 - 1)"
proof (cases r)
  case None
  with assms show thesis
    using coin_value_read [OF assms(2)] u64_less [of amount]
    by (auto simp: coin_value_enc intro!: that)
next
  case (Some coin)
  with assms obtain d where "enc_coin k (coin\<lparr>coin_balance := saturating_add (coin_balance coin) amount\<rparr>) = Inr d"
    "out = WriteAccountData addr (Some d)" by auto
  with assms(1) Some coin_value_read [OF assms(2)] show thesis
    by (intro that [of d]) (auto simp: coin_value_enc unat_saturating_add)
qed

section \<open>Transfers\<close>

text \<open>
  C13. A transfer needs the signature of the sender's wallet and enough balance, takes the amount from the
  sender's coin account and adds it to the recipient's (creating it when needed); unless the recipient's
  balance overflows, the two balances written add up to the two balances read.
\<close>

theorem transfer_conserves:
  assumes codec: "codec_ok k" and ok: "process_transfer c k env amount = ret outs"
    and accs: "env_accounts env = [m, (sw, sw_acc), (sc, sc_acc), rw, (rc, rc_acc)]"
    and fits: "coin_value k (av_data rc_acc) + unat amount < 2 ^ 64"
  shows "av_signer sw_acc \<and> (\<exists>sd rd. WriteAccountData sc (Some sd) \<in> set outs
    \<and> last outs \<in> {WriteAccountData rc (Some rd), CreateOwnedAccount rc (Some rd)}
    \<and> coin_value k (Some sd) + unat amount = coin_value k (av_data sc_acc)
    \<and> coin_value k (Some sd) + coin_value k (Some rd) = coin_value k (av_data sc_acc) + coin_value k (av_data rc_acc))"
  using ok
proof (cases rule: process_transferE)
  case (1 mint_addr mint_acc sw' sw_acc' sc' sc_acc' rw' rw_acc rc' rc_acc' mint sender sender_bytes recipient rc_out)
  with accs have eqs: "sw' = sw" "sw_acc' = sw_acc" "sc' = sc" "sc_acc' = sc_acc" "rc' = rc" "rc_acc' = rc_acc" by auto
  obtain rd where rd: "rc_out = WriteAccountData rc (Some rd) \<or> rc_out = CreateOwnedAccount rc (Some rd)"
    "coin_value k (Some rd) = coin_value k (av_data rc_acc) + unat amount"
    using credited_value [OF codec 1(8,9)] fits unfolding eqs by (metis less_imp_le_nat min_absorb1 less_Suc_eq_le Suc_diff_1 zero_less_numeral zero_less_power)
  have sd: "coin_value k (Some sender_bytes) + unat amount = unat (coin_balance sender)"
    using coin_value_enc [OF codec 1(7)] 1(6) by (simp add: unat_saturating_sub word_le_nat_alt)
  have "coin_value k (av_data sc_acc) = unat (coin_balance sender)"
    using coin_value_read [OF 1(4)] unfolding eqs by simp
  with sd rd 1(5,10) show ?thesis unfolding eqs by auto
qed

text \<open>
  A concrete currency: the mint \<open>[7, 3]\<close> of the contract \<open>[8]\<close>, wallets \<open>[0, 1]\<close> and \<open>[0, 2, 2]\<close> with coin
  accounts \<open>[7, 13]\<close> and \<open>[7, 14]\<close>. A coin is encoded by its wallet's second byte and its balance in unary.
\<close>

definition demo_codec :: currency_codec where
  "demo_codec = \<lparr>
     enc_mint = (\<lambda>m. if mint_authority m \<in> {None, Some [0, 1]} \<and> mint_decimals m = 2 \<and> mint_name m = None \<and> mint_symbol m = None
        then Inr ((if mint_authority m = None then 0 else 1) # replicate (unat (mint_supply m)) 0) else Inl ''unsupported''),
     dec_mint = (\<lambda>d. case d of [] \<Rightarrow> None | w # xs \<Rightarrow> Some \<lparr>mint_authority = if w = 0 then None else Some [0, 1],
        mint_supply = of_nat (length xs), mint_decimals = 2, mint_name = None, mint_symbol = None\<rparr>),
     enc_coin = (\<lambda>coin. if coin_mint coin = [7, 3] \<and> coin_owner coin \<in> {[0, 1], [0, 2, 2]}
        then Inr (coin_owner coin ! 1 # replicate (unat (coin_balance coin)) 0) else Inl ''unsupported''),
     dec_coin = (\<lambda>d. case d of [] \<Rightarrow> None | w # xs \<Rightarrow> Some \<lparr>coin_mint = [7, 3],
        coin_owner = if w = 1 then [0, 1] else [0, 2, 2], coin_balance = of_nat (length xs)\<rparr>),
     dec_currency_instruction = (\<lambda>bs. case bs of [b] \<Rightarrow> Some (Transfer (ucast b)) | _ \<Rightarrow> None)\<rparr>"

lemma demo_codec_ok: "codec_ok demo_codec"
  by (auto simp: codec_ok_def demo_codec_def split: if_splits)

definition demo_view_of :: "bool \<Rightarrow> bytes option \<Rightarrow> account_view" where
  "demo_view_of signer d = \<lparr>av_signer = signer, av_writable = True, av_executable = False,
     av_owner = (if d = None then None else Some [8]), av_data = d\<rparr>"

definition demo_env :: "(pubkey \<times> account_view) list \<Rightarrow> environment" where
  "demo_env accounts = \<lparr>env_caller = None, env_address = [8], env_accounts = accounts\<rparr>"

lemma demo_derive:
  "derive demo_crypto [8] [[7, 3], [0, 1]] = Some [7, 13]" "derive demo_crypto [8] [[7, 3], [0, 2, 2]] = Some [7, 14]"
  "derive demo_crypto [8] [[5]] = Some [7, 10]"
  by (subst derive_def, subst derive_from.simps, simp add: derive_key_def demo_sha3_def has_private_key_def)+

lemmas demo_currency = demo_env_def demo_view_of_def read_coin_mint_def read_coin_account_def derive_comp_def demo_derive
  has_private_key_def demo_codec_def try_to_vec_def saturating_add_def saturating_sub_def

theorem transfer_conserves_witness:
  "\<exists>outs. process_transfer demo_crypto demo_codec (demo_env [([7, 3], demo_view_of False (Some [1])),
      ([0, 1], demo_view_of True None), ([7, 13], demo_view_of False (Some [1, 0, 0, 0])),
      ([0, 2, 2], demo_view_of False None), ([7, 14], demo_view_of False (Some [2, 0]))]) 2 = ret outs
    \<and> (\<exists>sd rd. WriteAccountData [7, 13] (Some sd) \<in> set outs
        \<and> coin_value demo_codec (Some sd) + coin_value demo_codec (Some rd) = 4)"
proof -
  let ?env = "demo_env [([7, 3], demo_view_of False (Some [1])),
      ([0, 1], demo_view_of True None), ([7, 13], demo_view_of False (Some [1, 0, 0, 0])),
      ([0, 2, 2], demo_view_of False None), ([7, 14], demo_view_of False (Some [2, 0]))]"
  obtain outs where ok: "process_transfer demo_crypto demo_codec ?env 2 = ret outs"
    by (simp add: process_transfer_def demo_currency Let_def)
  have v: "coin_value demo_codec (Some [1, 0, 0, 0]) = 3" "coin_value demo_codec (Some [2, 0]) = 1"
    by (simp_all add: coin_value_def demo_codec_def)
  from transfer_conserves [OF demo_codec_ok ok] ok v show ?thesis
    by (fastforce simp: demo_env_def demo_view_of_def)
qed

section \<open>Minting, burning and the authority\<close>

text \<open>
  Minting needs the signature of the mint's current authority, which must not have been removed; it
  adds the amount to the supply and to the coin account of the named wallet, both saturating at the
  largest \<open>u64\<close>.
\<close>

theorem mint_by_authority:
  assumes codec: "codec_ok k" and ok: "process_mint c k env amount = ret outs"
    and accs: "env_accounts env = [(mint_addr, mint_acc), (authority, authority_acc), (wallet, w_acc), (coin, coin_acc)]"
  shows "av_signer authority_acc \<and> amount \<noteq> 0 \<and> derive c (env_address env) [mint_addr, wallet] = Some coin
    \<and> (\<exists>md d m. av_data mint_acc = Some d \<and> dec_mint k d = Some m \<and> mint_authority m = Some authority
        \<and> last outs = WriteAccountData mint_addr (Some md)
        \<and> mint_value k (Some md) = min (mint_value k (av_data mint_acc) + unat amount) (2 ^ 64 - 1))
    \<and> (\<exists>cd. (WriteAccountData coin (Some cd) \<in> set outs \<or> CreateOwnedAccount coin (Some cd) \<in> set outs)
        \<and> coin_value k (Some cd) = min (coin_value k (av_data coin_acc) + unat amount) (2 ^ 64 - 1))"
  using ok
proof (cases rule: process_mintE)
  case (1 ma mint_acc' au au_acc w w_acc' ca coin_acc' mint existing coin_out mint_bytes)
  with accs have eqs: "ma = mint_addr" "mint_acc' = mint_acc" "au = authority" "au_acc = authority_acc" "w = wallet"
    "ca = coin" "coin_acc' = coin_acc" by auto
  obtain cd where cd: "coin_out = WriteAccountData coin (Some cd) \<or> coin_out = CreateOwnedAccount coin (Some cd)"
    "coin_value k (Some cd) = min (coin_value k (av_data coin_acc) + unat amount) (2 ^ 64 - 1)"
    using credited_value [OF codec 1(6,7)] unfolding eqs by metis
  have "mint_value k (Some mint_bytes) = min (mint_value k (av_data mint_acc) + unat amount) (2 ^ 64 - 1)"
    using mint_value_enc [OF codec 1(8)] mint_value_read [OF 1(3)] unfolding eqs by (simp add: unat_saturating_add)
  with cd 1(2,4,5,9) read_coin_mint_ret [OF 1(3)] read_coin_account_ret [OF 1(6)] show ?thesis unfolding eqs by auto
qed

theorem mint_by_authority_witness:
  "\<exists>outs md. process_mint demo_crypto demo_codec (demo_env [([7, 3], demo_view_of False (Some [1, 0])),
      ([0, 1], demo_view_of True None), ([0, 2, 2], demo_view_of False None), ([7, 14], demo_view_of False None)]) 2 = ret outs
    \<and> last outs = WriteAccountData [7, 3] (Some md) \<and> mint_value demo_codec (Some md) = 3"
proof -
  let ?env = "demo_env [([7, 3], demo_view_of False (Some [1, 0])),
      ([0, 1], demo_view_of True None), ([0, 2, 2], demo_view_of False None), ([7, 14], demo_view_of False None)]"
  obtain outs where ok: "process_mint demo_crypto demo_codec ?env 2 = ret outs"
    by (simp add: process_mint_def demo_currency Let_def)
  have v: "mint_value demo_codec (Some [1, 0]) = 1" by (simp add: mint_value_def demo_codec_def)
  from mint_by_authority [OF demo_codec_ok ok] ok v show ?thesis
    by (fastforce simp: demo_env_def demo_view_of_def)
qed

text \<open>
  Burning needs the signature of the wallet that owns the coin account and enough balance; it takes the
  amount from the balance and from the supply (which stops at 0), and deletes the coin account exactly
  when its balance becomes 0.
\<close>

theorem burn_updates:
  assumes codec: "codec_ok k" and ok: "process_burn c k env amount = ret outs"
    and accs: "env_accounts env = [(mint_addr, mint_acc), (wallet, w_acc), (coin, coin_acc)]"
  shows "av_signer w_acc \<and> unat amount \<le> coin_value k (av_data coin_acc)
    \<and> (\<exists>md cd. WriteAccountData mint_addr (Some md) \<in> set outs \<and> WriteAccountData coin (Some cd) \<in> set outs
        \<and> mint_value k (Some md) = mint_value k (av_data mint_acc) - unat amount
        \<and> coin_value k (Some cd) + unat amount = coin_value k (av_data coin_acc))
    \<and> (DeleteOwnedAccount coin \<in> set outs \<longleftrightarrow> unat amount = coin_value k (av_data coin_acc))"
  using ok
proof (cases rule: process_burnE)
  case (1 ma mint_acc' w w_acc' ca coin_acc' mint cn mint_bytes coin_bytes)
  with accs have eqs: "ma = mint_addr" "mint_acc' = mint_acc" "w = wallet" "w_acc' = w_acc" "ca = coin"
    "coin_acc' = coin_acc" by auto
  have bal: "coin_value k (av_data coin_acc) = unat (coin_balance cn)"
    using coin_value_read [OF 1(4)] unfolding eqs by simp
  have le: "unat amount \<le> unat (coin_balance cn)" using 1(6) by (simp add: word_le_nat_alt)
  have "coin_value k (Some coin_bytes) + unat amount = coin_value k (av_data coin_acc)"
    using coin_value_enc [OF codec 1(8)] bal le by (simp add: unat_saturating_sub)
  moreover have "mint_value k (Some mint_bytes) = mint_value k (av_data mint_acc) - unat amount"
    using mint_value_enc [OF codec 1(7)] mint_value_read [OF 1(3)] unfolding eqs by (simp add: unat_saturating_sub)
  moreover have "saturating_sub (coin_balance cn) amount = 0 \<longleftrightarrow> unat amount = unat (coin_balance cn)"
    using le unat_saturating_sub [of "coin_balance cn" amount] by (auto simp: unat_eq_0 [symmetric])
  ultimately show ?thesis using 1(5,9) bal le unfolding eqs by auto
qed

theorem burn_updates_witness:
  "\<exists>outs. process_burn demo_crypto demo_codec (demo_env [([7, 3], demo_view_of False (Some [1, 0, 0])),
      ([0, 1], demo_view_of True None), ([7, 13], demo_view_of False (Some [1, 0, 0]))]) 2 = ret outs
    \<and> DeleteOwnedAccount [7, 13] \<in> set outs"
proof -
  let ?env = "demo_env [([7, 3], demo_view_of False (Some [1, 0, 0])),
      ([0, 1], demo_view_of True None), ([7, 13], demo_view_of False (Some [1, 0, 0]))]"
  obtain outs where ok: "process_burn demo_crypto demo_codec ?env 2 = ret outs"
    by (simp add: process_burn_def demo_currency Let_def)
  have v: "coin_value demo_codec (Some [1, 0, 0]) = 2" by (simp add: coin_value_def demo_codec_def)
  from burn_updates [OF demo_codec_ok ok] ok v show ?thesis
    by (fastforce simp: demo_env_def demo_view_of_def)
qed

text \<open>
  Only the current authority of a mint can hand the authority over or remove it, and nothing else in
  the mint changes; once removed, it stays removed.
\<close>

theorem set_authority_guard:
  assumes codec: "codec_ok k" and ok: "process_set_authority c k env new = ret outs"
    and accs: "env_accounts env = [(mint_addr, mint_acc), (current, current_acc)]"
  shows "av_signer current_acc \<and> (\<exists>d m md. av_data mint_acc = Some d \<and> dec_mint k d = Some m
    \<and> mint_authority m = Some current \<and> last outs = WriteAccountData mint_addr (Some md)
    \<and> dec_mint k md = Some (m\<lparr>mint_authority := new\<rparr>))"
  using ok
proof (cases rule: process_set_authorityE)
  case (1 ma mint_acc' cu cu_acc mint mint_bytes)
  with accs have eqs: "ma = mint_addr" "mint_acc' = mint_acc" "cu = current" "cu_acc = current_acc" by auto
  have "dec_mint k mint_bytes = Some (mint\<lparr>mint_authority := new\<rparr>)"
    using codec 1(5) unfolding codec_ok_def by blast
  with 1(3,4,6) read_coin_mint_ret [OF 1(2)] show ?thesis unfolding eqs by auto
qed

theorem set_authority_guard_witness:
  "\<exists>outs md m. process_set_authority demo_crypto demo_codec (demo_env [([7, 3], demo_view_of False (Some [1])),
      ([0, 1], demo_view_of True None)]) None = ret outs
    \<and> last outs = WriteAccountData [7, 3] (Some md) \<and> dec_mint demo_codec md = Some m \<and> mint_authority m = None"
proof -
  let ?env = "demo_env [([7, 3], demo_view_of False (Some [1])), ([0, 1], demo_view_of True None)]"
  obtain outs where ok: "process_set_authority demo_crypto demo_codec ?env None = ret outs"
    by (simp add: process_set_authority_def demo_currency Let_def)
  from set_authority_guard [OF demo_codec_ok ok] ok show ?thesis
    by (fastforce simp: demo_env_def)
qed

text \<open>
  Creating a currency needs a fresh account at the address derived from the seed; the new mint has
  the given authority, no supply and at most 20 decimals.
\<close>

theorem create_fresh:
  assumes codec: "codec_ok k" and ok: "process_create c k env seed authority decimals name symbol = ret outs"
  shows "\<exists>addr view md m. env_accounts env = [(addr, view)] \<and> derive c (env_address env) [seed] = Some addr
    \<and> \<not> has_private_key c addr \<and> av_data view = None \<and> av_owner view = None
    \<and> hd outs = CreateOwnedAccount addr (Some md) \<and> dec_mint k md = Some m
    \<and> mint_authority m = Some authority \<and> mint_supply m = 0 \<and> mint_decimals m \<le> 20"
  using ok
proof (cases rule: process_createE)
  case (1 addr acc bs)
  have d: "derive c (env_address env) [seed] = Some addr"
    using 1(2) by (simp add: derive_comp_def split: option.splits)
  have "dec_mint k bs = Some \<lparr>mint_authority = Some authority, mint_supply = 0, mint_decimals = decimals,
      mint_name = name, mint_symbol = symbol\<rparr>"
    using codec 1(6) unfolding codec_ok_def by blast
  with 1 d derive_off_curve [OF d] show ?thesis by auto
qed

theorem create_fresh_witness:
  "\<exists>outs m. process_create demo_crypto demo_codec (demo_env [([7, 10], demo_view_of False None)]) [5] [0, 1] 2 None None = ret outs
    \<and> hd outs = CreateOwnedAccount [7, 10] (Some m) \<and> mint_value demo_codec (Some m) = 0"
proof -
  let ?env = "demo_env [([7, 10], demo_view_of False None)]"
  obtain outs where ok: "process_create demo_crypto demo_codec ?env [5] [0, 1] 2 None None = ret outs"
    by (simp add: process_create_def demo_currency Let_def)
  from create_fresh [OF demo_codec_ok ok] ok show ?thesis
    by (fastforce simp: demo_env_def mint_value_def)
qed

section \<open>The contract inside the virtual machine\<close>

lemma process_outputs_append:
  "process_outputs nested vm u (xs @ ys) acc =
     bind_comp (process_outputs nested vm u xs acc) (process_outputs nested vm u ys)"
proof (induction xs arbitrary: acc)
  case (Cons x xs)
  then show ?case
    by (cases "process_output nested vm u x") (auto simp: bind_comp_def Let_def split: sum.split)
qed simp

text \<open>The last output of a unit decides what is stored at its address.\<close>

lemma unit_execute_last_write:
  assumes wf: "unit_wf vm u" and inv: "unit_invoke vm u = ret (outs @ [WriteAccountData a (Some d)])"
    and ok: "unit_execute n vm u = ret out"
  shows "\<exists>acc. sd_get (to_state_diff out) a = Some acc \<and> acc_data acc = Some d"
proof -
  obtain n' where n: "n = Suc n'" using ok by (cases n) auto
  let ?run = "process_outputs (unit_execute n' vm) vm u"
  obtain a1 where a1: "?run outs to_default = ret a1" and rest: "?run [WriteAccountData a (Some d)] a1 = ret out"
    using ok inv unfolding n by (auto simp: process_outputs_append elim!: bind_retE)
  obtain refs where on: "unit_on vm refs u" using wf by (auto simp: unit_wf_def unit_on_def)
  have "diff_ok vm u refs (to_state_diff a1)"
    by (rule process_outputs_ok [OF on inv unit_execute_ok a1]) (auto simp: to_default_def)
  then have i1: "sd_invar (to_state_diff a1)" by (simp add: diff_ok_def)
  obtain e where e: "modify_account u a (Some d) = Inr e"
    "out = to_merge a1 \<lparr>to_state_diff = e, to_log_entries = []\<rparr>"
    using rest by (auto elim!: bind_retE simp: state_output_def Let_def split: sum.split_asm if_split_asm)
  have set_in: "set_account_in vs a acc = Inr e \<Longrightarrow> e = sd_put a acc sd_default" for vs acc
    by (induction vs a acc rule: set_account_in.induct) (auto split: if_splits)
  obtain old where "e = sd_put a (old\<lparr>acc_data := Some d\<rparr>) sd_default"
    using e(1) set_in by (auto simp: modify_account_def set_account_def split: option.splits)
  then show ?thesis using i1 by (simp add: e(2) to_merge_def sd_get_merge sd_get_put)
qed

text \<open>
  C37. Transferring to oneself creates money: when sender and recipient wallet are the same, a successful
  transfer leaves the single coin account with its old balance plus the amount.
\<close>

theorem self_transfer_inflates:
  assumes codec: "codec_ok k" and wf: "unit_wf vm u" and entry: "eu_entrypoint u = Native (currency_contract c k)"
    and instr: "dec_currency_instruction k (eu_params u) = Some (Transfer amount)"
    and accs: "env_accounts (eu_env u) = [m, (w, wa), (a, ca), (w, wb), (a, cb)]"
    and ok: "unit_execute n vm u = ret out" and fits: "coin_value k (av_data ca) + unat amount < 2 ^ 64"
  shows "\<exists>acc. sd_get (to_state_diff out) a = Some acc
    \<and> coin_value k (acc_data acc) = coin_value k (av_data ca) + unat amount"
proof -
  have same: "av_data ca = av_data cb"
    using wf accs by (auto simp: unit_wf_def create_environment_def create_account_view_def Let_def)
  obtain outs where outs: "unit_invoke vm u = ret outs" using ok by (cases n) (auto elim!: bind_retE)
  then have "process_transfer c k (eu_env u) amount = ret outs"
    using entry instr by (simp add: unit_invoke_def currency_contract_def)
  then show ?thesis
  proof (cases rule: process_transferE)
    case (1 ma mint_acc sw sw_acc sc sc_acc rw rw_acc rc rc_acc mint sender sender_bytes recipient rc_out)
    with accs have eqs: "sc = a" "sc_acc = ca" "rc = a" "rc_acc = cb" by auto
    obtain coin where r: "recipient = Some coin"
      using read_coin_account_ret [OF 1(4)] read_coin_account_ret [OF 1(8)] same unfolding eqs by (cases recipient) auto
    then obtain d where d: "rc_out = WriteAccountData a (Some d)"
      "coin_value k (Some d) = min (coin_value k (av_data cb) + unat amount) (2 ^ 64 - 1)"
      using credited_value [OF codec 1(8,9)] 1(9) unfolding eqs by fastforce
    obtain pre where "outs = pre @ [rc_out]" using 1(10) by auto
    then obtain acc where "sd_get (to_state_diff out) a = Some acc" "acc_data acc = Some d"
      using unit_execute_last_write [OF wf _ ok] outs d(1) by blast
    then show ?thesis using d(2) same fits by (intro exI [of _ acc]) simp
  qed
qed

text \<open>The same unit, concretely: a wallet with three coins sends itself two.\<close>

definition currency_vm :: machine where
  "currency_vm = \<lparr>vm_crypto = demo_crypto, vm_limits = demo_limits, vm_builtins = [([8], currency_contract demo_crypto demo_codec)],
     vm_runtime = (\<lambda>bs. Inl AccountIsNotExecutable), vm_wasm_addr = [9]\<rparr>"

definition currency_state :: state_view where
  "currency_state a =
     (if a = [7, 3] then Some \<lparr>acc_executable = False, acc_nonce = 0, acc_owner = Some [8], acc_data = Some [1]\<rparr>
      else if a = [7, 13] then Some \<lparr>acc_executable = False, acc_nonce = 0, acc_owner = Some [8], acc_data = Some [1, 0, 0, 0]\<rparr>
      else None)"

definition currency_unit :: exec_unit where
  "currency_unit = \<lparr>eu_entrypoint = Native (currency_contract demo_crypto demo_codec),
     eu_env = create_environment currency_vm currency_state
       (map (\<lambda>(a, w, s). \<lparr>ref_address = a, ref_writable = w, ref_signer = s\<rparr>)
          [([7, 3], False, False), ([0, 1], False, True), ([7, 13], True, False), ([0, 1], False, True), ([7, 13], True, False)])
       [8] None,
     eu_state = currency_state, eu_contract = [8], eu_params = [2]\<rparr>"

lemma currency_unit_wf: "unit_wf currency_vm currency_unit"
  unfolding unit_wf_def currency_unit_def by simp blast

lemma currency_unit_accounts: "env_accounts (eu_env currency_unit) =
    [([7, 3], demo_view_of False (Some [1])\<lparr>av_writable := False\<rparr>), ([0, 1], demo_view_of True None\<lparr>av_writable := False\<rparr>),
     ([7, 13], demo_view_of False (Some [1, 0, 0, 0])), ([0, 1], demo_view_of True None\<lparr>av_writable := False\<rparr>),
     ([7, 13], demo_view_of False (Some [1, 0, 0, 0]))]"
  by (simp add: currency_unit_def create_environment_def create_account_view_def currency_state_def view_writable_def
      demo_view_of_def currency_vm_def has_private_key_def Let_def)

lemma currency_unit_runs: "\<exists>out. unit_execute 1 currency_vm currency_unit = ret out"
proof -
  have env: "env_address (eu_env currency_unit) = [8]" by (simp add: currency_unit_def create_environment_def)
  have "unit_invoke currency_vm currency_unit = process_transfer demo_crypto demo_codec (eu_env currency_unit) 2"
    by (simp add: unit_invoke_def currency_unit_def currency_contract_def) (simp add: demo_codec_def)
  moreover have "process_transfer demo_crypto demo_codec (eu_env currency_unit) 2 =
      ret [LogEntry ''action'' ''transfer'', LogEntry ''from'' ''b58'', LogEntry ''coin'' ''b58'', LogEntry ''to'' ''b58'',
           LogEntry ''amount'' (show_u64 2), WriteAccountData [7, 13] (Some [1, 0]), WriteAccountData [7, 13] (Some (1 # replicate 5 0))]"
    by (simp add: process_transfer_def currency_unit_accounts env demo_currency Let_def)
  moreover have "length (show_u64 2) = 1" by (simp add: show_u64_def show_nat.simps)
  moreover have "eu_state currency_unit [7, 13] \<noteq> None" by (simp add: currency_unit_def currency_state_def)
  moreover have "set_account currency_unit [7, 13] acc = Inr (sd_put [7, 13] acc sd_default)" for acc
    by (simp add: set_account_def currency_unit_accounts demo_view_of_def)
  ultimately show ?thesis
    by (auto simp: currency_vm_def demo_limits_def data_too_large_def modify_account_def state_output_def
        to_merge_def to_default_def Let_def)
qed

theorem self_transfer_inflates_witness:
  "\<exists>out acc. unit_execute 1 currency_vm currency_unit = ret out \<and> sd_get (to_state_diff out) [7, 13] = Some acc
     \<and> coin_value demo_codec (acc_data acc) = 5"
proof -
  obtain out where ok: "unit_execute 1 currency_vm currency_unit = ret out" using currency_unit_runs by blast
  have v: "coin_value demo_codec (Some [1, 0, 0, 0]) = 3" by (simp add: coin_value_def demo_codec_def)
  have instr: "dec_currency_instruction demo_codec (eu_params currency_unit) = Some (Transfer 2)"
    by (simp add: demo_codec_def currency_unit_def)
  have entry: "eu_entrypoint currency_unit = Native (currency_contract demo_crypto demo_codec)"
    by (simp add: currency_unit_def)
  from self_transfer_inflates [OF demo_codec_ok currency_unit_wf entry instr currency_unit_accounts ok] ok v
  show ?thesis by (auto simp: demo_view_of_def)
qed

text \<open>
  The currency contract always returns: when the search for derived addresses ends, every call of it
  ends with a result that one level of nesting is enough for.
\<close>

theorem currency_terminates:
  assumes "\<And>address seeds. derive c address seeds \<noteq> None" and "eu_entrypoint u = Native (currency_contract c k)"
  shows "\<exists>r. \<forall>n. unit_execute (Suc n) vm u = Some r"
  by (rule currency.leaf_returns [OF assms(2) currency_contract_total [OF assms(1)]])

theorem currency_terminates_witness: "\<exists>r. \<forall>n. unit_execute (Suc n) currency_vm currency_unit = Some r"
proof (rule currency_terminates)
  show "eu_entrypoint currency_unit = Native (currency_contract demo_crypto demo_codec)" by (simp add: currency_unit_def)
  show "derive demo_crypto address seeds \<noteq> None" for address seeds
    by (subst derive_def, subst derive_from.simps) (simp add: derive_key_def demo_sha3_def has_private_key_def Let_def)
qed

end
