(* ===== verification/Rensa_Node.thy ===== *)
theory Rensa_Node
  imports Rensa_Consensus Rensa_Builtins
begin

text \<open>
  The start-up of a validator in \<open>src/main.rs\<close>: the chain of transaction blocks runs on the virtual
  machine of the genesis configuration and over the persistent accounts database. The database and the
  latest finalized block found on disk are arguments, as are the builtin table and the WASM runtime.
\<close>

section \<open>The configuration of a node\<close>

text \<open>\<open>PersistentState::get\<close> as a view; \<open>store_ok\<close> below rules out its panic.\<close>

definition persistent_view :: "account_codec \<Rightarrow> accounts_db \<Rightarrow> state_view" where
  "persistent_view k db address = (case persistent_get k db address of Some acc \<Rightarrow> acc | None \<Rightarrow> None)"

definition node_cfg ::
    "transaction list block_params \<Rightarrow> genesis \<Rightarrow> nat \<Rightarrow> machine \<Rightarrow> account_codec
     \<Rightarrow> (transaction list, accounts_db) chain_cfg" where
  "node_cfg p g fuel vm k =
     \<lparr>cfg_params = p, cfg_genesis = g, cfg_run = execute_block fuel vm,
      cfg_store_get = persistent_view k, cfg_store_apply = (\<lambda>diff db. Some (persistent_apply k diff db))\<rparr>"

text \<open>
  \<open>PersistentState::new\<close>, \<open>Finalized::new\<close> on the latest stored block or genesis, \<open>Machine::new\<close>,
  \<open>Chain::new\<close>; the inner \<open>None\<close> is the panic of \<open>Chain::new\<close>.
\<close>

definition node_start ::
    "transaction list block_params \<Rightarrow> account_codec \<Rightarrow> (bytes \<Rightarrow> contract_error + contract_entrypoint) \<Rightarrow> pubkey
     \<Rightarrow> (pubkey, native_entrypoint) hash_map \<Rightarrow> nat \<Rightarrow> genesis \<Rightarrow> transaction list produced option \<Rightarrow> accounts_db
     \<Rightarrow> machine_error + (transaction list, accounts_db) chain_cfg \<times> (transaction list, accounts_db) chain option" where
  "node_start p k runtime wasm_addr table fuel g latest db =
     (let storage = persistent_new k (g_state g) db;
          latest_block = (case latest of Some b \<Rightarrow> ProducedBlock b | None \<Rightarrow> GenesisBlock g)
      in case machine_new (bp_crypto p) runtime wasm_addr table (g_builtins g) (g_limits g) of
           Inl e \<Rightarrow> Inl e
         | Inr vm \<Rightarrow> (let cfg = node_cfg p g fuel vm k in Inr (cfg, chain_new cfg latest_block storage)))"

section \<open>The store stays well formed\<close>

text \<open>Every stored value decodes, and the database is a sorted map.\<close>

definition store_ok :: "account_codec \<Rightarrow> accounts_db \<Rightarrow> bool" where
  "store_ok k db \<longleftrightarrow> bt_invar db \<and> (\<forall>a v. map_of db a = Some v \<longrightarrow> dec_fields k v \<noteq> None)"

text \<open>What the serializer promises: the fields are read back as they were written.\<close>

definition account_codec_ok :: "account_codec \<Rightarrow> bool" where
  "account_codec_ok k \<longleftrightarrow> (\<forall>f. dec_fields k (enc_fields k f) = Some f)"

lemma store_ok_empty [simp]: "store_ok k []"
  by (simp add: store_ok_def)

lemma store_ok_insert: "account_codec_ok k \<Longrightarrow> store_ok k db \<Longrightarrow> store_ok k (bt_insert a (ser_account k acc) db)"
  by (auto simp: store_ok_def account_codec_ok_def ser_account_def btree.look_ins btree.invar_ins)

lemma store_ok_remove: "store_ok k db \<Longrightarrow> store_ok k (bt_remove a db)"
  by (auto simp: store_ok_def btree.look_del btree.invar_del)

lemma store_ok_new:
  assumes "account_codec_ok k" and "store_ok k db"
  shows "store_ok k (persistent_new k accounts db)"
proof -
  have "store_ok k db' \<Longrightarrow> store_ok k (fold (\<lambda>(addr, acc) db.
      if map_of db addr = None then bt_insert addr (ser_account k acc) db else db) accounts db')" for db'
    by (induction accounts arbitrary: db') (auto simp: store_ok_insert [OF assms(1)])
  then show ?thesis using assms(2) by (simp add: persistent_new_def)
qed

lemma store_ok_apply:
  assumes "account_codec_ok k" and "store_ok k db"
  shows "store_ok k (persistent_apply k d db)"
proof -
  have "store_ok k db' \<Longrightarrow> store_ok k (fold (\<lambda>(addr, acc) db. case acc of
      Some a \<Rightarrow> bt_insert addr (ser_account k a) db | None \<Rightarrow> bt_remove addr db) xs db')" for xs db'
    by (induction xs arbitrary: db') (auto simp: store_ok_insert [OF assms(1)] store_ok_remove split: option.split)
  then show ?thesis using assms(2) by (simp add: persistent_apply_def)
qed

lemma store_ok_get: "store_ok k db \<Longrightarrow> persistent_get k db a \<noteq> None"
  unfolding store_ok_def persistent_get_def de_account_def
  by (cases "map_of db a") (force split: option.split)+

lemma persistent_get_view: "store_ok k db \<Longrightarrow> persistent_get k db a = Some (persistent_view k db a)"
  using store_ok_get by (fastforce simp: persistent_view_def split: option.split)

text \<open>Reading after a diff was applied.\<close>

lemma persistent_view_apply:
  assumes codec: "account_codec_ok k" and db: "bt_invar db" and d: "sd_invar d"
  shows "persistent_view k (persistent_apply k d db) a =
    (if a \<in> set (sd_deletes d) then None
     else case sd_get d a of Some acc \<Rightarrow> Some (acc\<lparr>acc_executable := False\<rparr>) | None \<Rightarrow> persistent_view k db a)"
  using codec
  by (auto simp: persistent_view_def persistent_get_def map_of_persistent_apply [OF db d] ser_account_def
      de_account_def account_codec_ok_def split: option.split)

section \<open>Steps of the chain and the store\<close>

text \<open>The store changes only by \<open>apply\<close>: what \<open>apply\<close> keeps, every operation of the chain keeps.\<close>

lemma finalize_loop_store:
  assumes keep: "\<forall>d s s'. cfg_store_apply cfg d s = Some s' \<longrightarrow> P s \<longrightarrow> P s'"
    and "finalize_loop cfg ch = Some ch'" and "P (ch_store ch)"
  shows "P (ch_store ch')"
proof (rule finalize_loop_induct [OF assms(2)])
  fix a b
  assume "P (ch_store a)" and "try_finalize_roots cfg a = Some (True, b)"
  then show "P (ch_store b)" using keep by (elim try_finalize_rootsE) auto
qed (rule assms(3))

lemma post_block_included_store:
  assumes keep: "\<forall>d s s'. cfg_store_apply cfg d s = Some s' \<longrightarrow> P s \<longrightarrow> P s'"
    and ok: "post_block_included cfg now b ch = Some ch'" and P: "P (ch_store ch)"
  shows "P (ch_store ch')"
  using ok
proof (cases rule: post_block_includedE)
  case (1 votes os ch4)
  have "P (ch_store ch4)"
  proof (rule finalize_loop_store [where P = P, OF keep 1(2)])
    show "P (ch_store (fold (injest_vote cfg) (case votes of Some vs \<Rightarrow> vs | None \<Rightarrow> [])
        (count_votes cfg (bl_votes b) ch\<lparr>ch_orphans := os\<rparr>)))"
      using P by (simp add: fold_injest_vote_frame count_votes_def)
  qed
  then show ?thesis unfolding 1(3) by simp
qed

lemma poll_next_store:
  assumes keep: "\<forall>d s s'. cfg_store_apply cfg d s = Some s' \<longrightarrow> P s \<longrightarrow> P s'"
    and ok: "poll_next cfg now ch = Some (ev, ch')" and P: "P (ch_store ch)"
  shows "P (ch_store ch')"
  using ok
proof (cases rule: poll_next_cases)
  case (incl e)
  show ?thesis by (rule post_block_included_store [where P = P, OF keep incl(4)]) (simp add: P)
next
  case (final e votes)
  show ?thesis using post_block_finalized_frame [OF final(4)] P by simp
qed (simp_all add: P)

lemma chain_steps_store:
  assumes keep: "\<forall>d s s'. cfg_store_apply cfg d s = Some s' \<longrightarrow> P s \<longrightarrow> P s'"
  shows "chain_steps cfg ch c \<Longrightarrow> P (ch_store ch) \<Longrightarrow> P (ch_store c)"
proof (induction rule: chain_steps.induct)
  case (steps_include a now b c)
  then show ?case using include_all_frame unfolding include_block_def by metis
next
  case (steps_poll a now ev c)
  from poll_next_store [where P = P, OF keep steps_poll.hyps(2) steps_poll.IH [OF steps_poll.prems]] show ?case .
qed simp

lemma node_start_chain:
  assumes "node_start p k runtime wasm_addr table fuel g latest db = Inr (cfg, Some ch)"
  obtains vm where "cfg = node_cfg p g fuel vm k" and "ch_store ch = persistent_new k (g_state g) db"
    and "chain_inv cfg ch"
proof -
  obtain vm fin where "cfg = node_cfg p g fuel vm k" and "chain_new cfg fin (persistent_new k (g_state g) db) = Some ch"
    using assms by (auto simp: node_start_def Let_def split: sum.split_asm)
  then show thesis
    using that chain_new_inv by (fastforce simp: chain_new_def Let_def split: if_split_asm)
qed

text \<open>Outputs of executed blocks are sorted maps.\<close>

lemma node_outputs_invar:
  assumes "chain_inv (node_cfg p g fuel vm k) ch" and "v \<in> set (forest_values (ch_forktrees ch))"
  shows "sd_invar (bo_state (ex_output (vb_block v)))"
proof -
  obtain t where "t \<in> set (ch_forktrees ch)" and "v \<in> set (tn_values t)"
    using assms(2) by (auto simp: forest_values_def)
  then have "node_ok (node_cfg p g fuel vm k) (ch_stakes ch) v"
    using assms(1) tn_all_values by (fastforce simp: chain_inv_def root_ok_def)
  then obtain st where "execute_block fuel vm st (bl_data (vb_produced v)) = ret (ex_output (vb_block v))"
    by (auto simp: node_ok_def node_cfg_def)
  then show ?thesis
    using execute_transactions_nonce [OF _ execute_block_ret] by (fastforce simp: block_output_empty_def)
qed

text \<open>The store and the diffs of all blocks in the forest are well formed.\<close>

definition node_wf :: "account_codec \<Rightarrow> ('d, accounts_db) chain \<Rightarrow> bool" where
  "node_wf k ch \<longleftrightarrow> store_ok k (ch_store ch)
     \<and> (\<forall>v \<in> set (forest_values (ch_forktrees ch)). sd_invar (bo_state (ex_output (vb_block v))))"

lemma node_steps_wf:
  assumes codec: "account_codec_ok k" and db: "store_ok k db"
    and start: "node_start p k runtime wasm_addr table fuel g latest db = Inr (cfg, Some ch0)"
    and steps: "chain_steps cfg ch0 ch"
  shows "node_wf k ch"
proof (rule node_start_chain [OF start])
  fix vm
  assume cfg: "cfg = node_cfg p g fuel vm k" and s0: "ch_store ch0 = persistent_new k (g_state g) db"
    and inv: "chain_inv cfg ch0"
  have "store_ok k (ch_store ch)"
  proof (rule chain_steps_store [OF _ steps])
    show "\<forall>d s s'. cfg_store_apply cfg d s = Some s' \<longrightarrow> store_ok k s \<longrightarrow> store_ok k s'"
      using store_ok_apply [OF codec] by (simp add: cfg node_cfg_def)
    show "store_ok k (ch_store ch0)" unfolding s0 by (rule store_ok_new [OF codec db])
  qed
  moreover have "chain_inv (node_cfg p g fuel vm k) ch" using chain_steps_inv [OF steps inv] cfg by simp
  ultimately show ?thesis using node_outputs_invar by (fastforce simp: node_wf_def)
qed

section \<open>Views before and after a finalization\<close>

lemma cascading_append:
  "cascading_get (xs @ ys) = overlayed_get (cascading_get ys) (cascading_get xs)"
proof
  show "cascading_get (xs @ ys) a = overlayed_get (cascading_get ys) (cascading_get xs) a" for a
    by (induction xs) (auto simp: overlayed_get_def split: option.split)
qed

lemma overlayed_assoc: "overlayed_get (overlayed_get s d) e = overlayed_get s (overlayed_get d e)"
  by (rule ext) (simp add: overlayed_get_def split: option.split)

lemma tn_state_child:
  "i < length cs \<Longrightarrow> tn_state (TreeNode v cs) (i # pos) =
     overlayed_get (executed_state (vb_block v)) (tn_state (cs ! i) pos)"
  by (auto simp: tn_state_def cascading_append overlayed_get_def split: option.split)

text \<open>What a block below the finalized root sees, in terms of what it saw before.\<close>

lemma finalized_root_view:
  assumes codec: "account_codec_ok k" and wf: "node_wf k ch"
    and ok: "try_finalize_roots (node_cfg p g fuel vm k) ch = Some (True, ch')"
  obtains v cs where "TreeNode v cs \<in> set (ch_forktrees ch)" and "ch_finalized ch' = ProducedBlock (vb_produced v)"
    and "ch_forktrees ch' = cs"
    and "\<And>a. finalized_state (node_cfg p g fuel vm k) ch' a =
      (let d = bo_state (ex_output (vb_block v)) in
       if a \<in> set (sd_deletes d) then None
       else case sd_get d a of Some acc \<Rightarrow> Some (acc\<lparr>acc_executable := False\<rparr>)
            | None \<Rightarrow> finalized_state (node_cfg p g fuel vm k) ch a)"
  using ok
proof (cases rule: try_finalize_rootsE)
  case (1 i v cs st ep)
  let ?d = "bo_state (ex_output (vb_block v))"
  have t: "TreeNode v cs \<in> set (ch_forktrees ch)" using 1(1,2) by (metis nth_mem)
  then have "v \<in> set (forest_values (ch_forktrees ch))"
    by (auto simp: forest_values_def intro!: bexI [of _ "TreeNode v cs"])
  then have "sd_invar ?d" using wf by (simp add: node_wf_def)
  moreover have "st = persistent_apply k ?d (ch_store ch)" using 1(6) by (simp add: node_cfg_def)
  moreover have "bt_invar (ch_store ch)" using wf by (simp add: node_wf_def store_ok_def)
  ultimately have "finalized_state (node_cfg p g fuel vm k) ch' a =
      (if a \<in> set (sd_deletes ?d) then None
       else case sd_get ?d a of Some acc \<Rightarrow> Some (acc\<lparr>acc_executable := False\<rparr>)
            | None \<Rightarrow> finalized_state (node_cfg p g fuel vm k) ch a)" for a
    unfolding 1(8) by (auto simp: node_cfg_def persistent_view_apply [OF codec] split: option.split)
  then show thesis using that [OF t] 1(8) by (simp add: Let_def)
qed

section \<open>Calls that return\<close>

text \<open>The builtins currency and sha3 are settled, the staking builtin is not.\<close>

lemma settled_sha3: "machine_builtin vm a = Some (sha3_contract c) \<Longrightarrow> settled vm a"
  by (rule settled_builtin [OF sha3.leaf_contract_axioms sha3_contract_total])

lemma settled_currency:
  "(\<And>address seeds. derive c address seeds \<noteq> None) \<Longrightarrow> machine_builtin vm a = Some (currency_contract c k) \<Longrightarrow> settled vm a"
  by (rule settled_builtin [OF currency.leaf_contract_axioms currency_contract_total])

lemma staking_not_settled: "machine_builtin vm a = Some staking_contract \<Longrightarrow> \<not> settled vm a"
  by (simp add: settled_def resolve_entrypoint_def entry_result_def staking_contract_def)

end
