(* ===== verification/Rensa_Node_Properties.thy ===== *)
theory Rensa_Node_Properties
  imports Rensa_Node Rensa_Demo
begin

text \<open>
  The properties of the composed node: the consensus state over the persistent accounts database.
\<close>

section \<open>A concrete node\<close>

text \<open>
  A self-delimiting encoding of an account's fields: the nonce in unary, then for the owner and the data
  a flag and every byte behind a marker.
\<close>

definition enc_some :: "bytes \<Rightarrow> bytes" where
  "enc_some bs = concat (map (\<lambda>b. [1, b]) bs) @ [2]"

fun dec_some :: "bytes \<Rightarrow> bytes \<times> bytes" where
  "dec_some (t # b # rest) =
     (if t = 1 then (case dec_some rest of (bs, rest') \<Rightarrow> (b # bs, rest')) else ([], b # rest))"
| "dec_some bs = ([], drop 1 bs)"

definition enc_opt :: "bytes option \<Rightarrow> bytes" where
  "enc_opt x = (case x of None \<Rightarrow> [0] | Some bs \<Rightarrow> 1 # enc_some bs)"

definition dec_opt :: "bytes \<Rightarrow> bytes option \<times> bytes" where
  "dec_opt bs = (if hd bs = 0 then (None, tl bs) else (case dec_some (tl bs) of (x, rest) \<Rightarrow> (Some x, rest)))"

definition demo_account_codec :: account_codec where
  "demo_account_codec = \<lparr>
     enc_fields = (\<lambda>(n, ow, d). replicate (unat n) 1 @ 0 # enc_opt ow @ enc_opt d),
     dec_fields = (\<lambda>bs. case dec_opt (tl (dropWhile (\<lambda>b. b = 1) bs)) of (ow, rest) \<Rightarrow>
        Some (of_nat (length (takeWhile (\<lambda>b. b = 1) bs)), ow, fst (dec_opt rest)))\<rparr>"

lemma dec_enc_some: "dec_some (enc_some bs @ rest) = (bs, rest)"
proof (induction bs)
  case Nil
  then show ?case by (cases rest) (simp_all add: enc_some_def)
next
  case (Cons b bs)
  then show ?case by (simp add: enc_some_def)
qed

lemma dec_enc_opt: "dec_opt (enc_opt x @ rest) = (x, rest)"
  by (simp add: dec_opt_def enc_opt_def dec_enc_some split: option.split)

lemma demo_account_codec_ok: "account_codec_ok demo_account_codec"
proof -
  have "takeWhile (\<lambda>b. b = 1) (replicate n 1 @ 0 # xs) = replicate n 1"
    "dropWhile (\<lambda>b. b = 1) (replicate n 1 @ 0 # xs) = 0 # xs" for n and xs :: bytes
    by (induction n) simp_all
  then show ?thesis
    using dec_enc_opt [of _ "[]"] by (auto simp: account_codec_ok_def demo_account_codec_def dec_enc_opt)
qed

text \<open>Three blocks in a row, the first two with all votes; the diff of the first one is given.\<close>

definition node_params :: "transaction list block_params" where
  "node_params = \<lparr>bp_crypto = demo_crypto, bp_serialize = (\<lambda>d. [])\<rparr>"

definition node_block :: "u64 \<Rightarrow> multihash \<Rightarrow> multihash \<Rightarrow> state_diff \<Rightarrow> bool \<Rightarrow> transaction list volatile_block" where
  "node_block height parent state_hash d voted =
     \<lparr>vb_block = \<lparr>ex_underlying = \<lparr>bl_parent = parent, bl_state_hash = state_hash, bl_height = height,
        bl_signature = ([0, 1], []), bl_data = [], bl_votes = []\<rparr>, ex_output = \<lparr>bo_state = d, bo_logs = [], bo_errors = []\<rparr>\<rparr>,
      vb_votes = if voted then 100 else 0, vb_voters = if voted then {[0, 1]} else {}\<rparr>"

definition node_tree :: "state_diff \<Rightarrow> transaction list tree_node" where
  "node_tree d = TreeNode (node_block 1 [7, 115] [] d True)
     [TreeNode (node_block 2 [] [0] sd_default True) [TreeNode (node_block 3 [] [0, 0] sd_default False) []]]"

definition node_vm :: machine where
  "node_vm = \<lparr>vm_crypto = demo_crypto, vm_limits = demo_limits, vm_builtins = [],
     vm_runtime = (\<lambda>bs. Inl AccountIsNotExecutable), vm_wasm_addr = [8]\<rparr>"

definition demo_node_cfg :: "(transaction list, accounts_db) chain_cfg" where
  "demo_node_cfg = node_cfg node_params demo_genesis 1 node_vm demo_account_codec"

definition node_chain :: "state_diff \<Rightarrow> accounts_db \<Rightarrow> (transaction list, accounts_db) chain" where
  "node_chain d db = \<lparr>ch_stakes = [([0, 1], 100)], ch_finalized = GenesisBlock demo_genesis, ch_store = db,
     ch_forktrees = [node_tree d], ch_orphans = orphans_new 0, ch_ownvotes = [], ch_events = [], ch_finalized_history = []\<rparr>"

lemma node_chain_simps [simp]:
  "ch_stakes (node_chain d db) = [([0, 1], 100)]" "ch_finalized (node_chain d db) = GenesisBlock demo_genesis"
  "ch_store (node_chain d db) = db" "ch_forktrees (node_chain d db) = [node_tree d]"
  by (simp_all add: node_chain_def)

lemma demo_node_cfg_simps [simp]:
  "cfg_params demo_node_cfg = node_params" "cfg_genesis demo_node_cfg = demo_genesis"
  "cfg_store_apply demo_node_cfg d s = Some (persistent_apply demo_account_codec d s)"
  "cfg_store_get demo_node_cfg = persistent_view demo_account_codec" "bp_crypto node_params = demo_crypto"
  by (simp_all add: demo_node_cfg_def node_cfg_def node_params_def)

lemma node_block_simps [simp]:
  "vb_votes (node_block h par sh d voted) = (if voted then 100 else 0)"
  "bl_height (vb_produced (node_block h par sh d voted)) = h"
  "bl_parent (vb_produced (node_block h par sh d voted)) = par"
  "vb_hash node_params (node_block h par sh d voted) = [7, of_nat (12 + length par + length sh)]"
  "bo_state (ex_output (vb_block (node_block h par sh d voted))) = d"
  by (simp_all add: node_block_def block_hash_def hash_parts_def data_hash_def sha3_multihash_def demo_sha3_def
      node_params_def)

lemma node_finalizes: "\<exists>ch'. try_finalize_roots demo_node_cfg (node_chain d db) = Some (True, ch')"
proof -
  have maj: "minimum_majority_stake demo_node_cfg (node_chain d db) = 67"
    by (simp add: minimum_majority_stake_def total_stake_def demo_genesis_def demo_limits_def f64_majority_100)
  have ep: "epoch demo_node_cfg h = Some h" for h by (simp add: epoch_def demo_genesis_def)
  have "find_finalizable_root demo_node_cfg (node_chain d db) = Some (Some 0)"
    by (simp add: find_finalizable_root_def maj checkpoints_confirmed_def epoch_start_def demo_epoch Let_def
        node_tree_def tn_depth_def)
  then show ?thesis
    by (simp add: try_finalize_roots_def finalize_root_def finalized_apply_def ep Let_def demo_genesis_hash
        node_tree_def)
qed

lemma node_chain_wf: "sd_invar d \<Longrightarrow> store_ok demo_account_codec db \<Longrightarrow> node_wf demo_account_codec (node_chain d db)"
  by (auto simp: node_wf_def node_tree_def forest_values_def)

section \<open>Properties\<close>

text \<open>
  The accounts database stays readable: in every state a started node can get to, the database is a
  sorted map in which every value decodes, so that reading an account never panics, and the diff of
  every block in the forest is well formed. The serializer must read back what it wrote.
\<close>

theorem node_storage_sound:
  assumes "account_codec_ok k" and "store_ok k db"
    and "node_start p k runtime wasm_addr table fuel g latest db = Inr (cfg, Some ch0)" and "chain_steps cfg ch0 ch"
  shows "node_wf k ch \<and> persistent_get k (ch_store ch) a \<noteq> None"
  using node_steps_wf [OF assms] store_ok_get by (simp add: node_wf_def)

theorem node_storage_sound_witness:
  "\<exists>cfg ch. node_start node_params demo_account_codec (\<lambda>bs. Inl AccountIsNotExecutable) [8] [] 1
       (demo_genesis\<lparr>g_state := [([1], account_default)]\<rparr>) None [] = Inr (cfg, Some ch)
     \<and> persistent_get demo_account_codec (ch_store ch) [1] \<noteq> None"
proof -
  obtain cfg ch where start: "node_start node_params demo_account_codec (\<lambda>bs. Inl AccountIsNotExecutable) [8] [] 1
      (demo_genesis\<lparr>g_state := [([1], account_default)]\<rparr>) None [] = Inr (cfg, Some ch)"
    by (simp add: node_start_def machine_new_def chain_new_def demo_genesis_def node_cfg_def Let_def)
  from node_storage_sound [OF demo_account_codec_ok _ start steps_refl] start show ?thesis by auto
qed

text \<open>
  C31. Finalizing a root does not change what the blocks below it see: for every account that the
  finalized block neither deletes nor writes as executable, the view of a descendant through the new
  forest and the updated database is its view before.
\<close>

theorem finalization_keeps_views:
  assumes "account_codec_ok k" and "node_wf k ch"
    and "try_finalize_roots (node_cfg p g fuel vm k) ch = Some (True, ch')"
  shows "\<exists>v cs. TreeNode v cs \<in> set (ch_forktrees ch) \<and> ch_finalized ch' = ProducedBlock (vb_produced v)
    \<and> (\<forall>i pos a. i < length cs \<and> a \<notin> set (sd_deletes (bo_state (ex_output (vb_block v))))
          \<and> (\<forall>acc. executed_state (vb_block v) a = Some acc \<longrightarrow> \<not> acc_executable acc) \<longrightarrow>
        overlayed_get (finalized_state (node_cfg p g fuel vm k) ch') (tn_state (ch_forktrees ch' ! i) pos) a =
        overlayed_get (finalized_state (node_cfg p g fuel vm k) ch) (tn_state (TreeNode v cs) (i # pos)) a)"
  using assms
proof (rule finalized_root_view)
  fix v :: "transaction list volatile_block" and cs
  let ?d = "bo_state (ex_output (vb_block v))" and ?fin = "finalized_state (node_cfg p g fuel vm k)"
  assume t: "TreeNode v cs \<in> set (ch_forktrees ch)" "ch_finalized ch' = ProducedBlock (vb_produced v)"
    and cs: "ch_forktrees ch' = cs"
    and view: "\<And>a. ?fin ch' a = (let d = ?d in if a \<in> set (sd_deletes d) then None
       else case sd_get d a of Some acc \<Rightarrow> Some (acc\<lparr>acc_executable := False\<rparr>) | None \<Rightarrow> ?fin ch a)"
  have "?fin ch' a = overlayed_get (?fin ch) (executed_state (vb_block v)) a"
    if "a \<notin> set (sd_deletes ?d)" "\<forall>acc. executed_state (vb_block v) a = Some acc \<longrightarrow> \<not> acc_executable acc" for a
    using that unfolding view by (simp add: overlayed_get_def executed_state_def split: option.split)
  then show ?thesis
    using t by (intro exI [of _ v] exI [of _ cs])
      (auto simp: cs tn_state_child overlayed_assoc [symmetric] overlayed_get_def split: option.split)
qed

theorem finalization_keeps_views_witness:
  "\<exists>ch'. try_finalize_roots demo_node_cfg (node_chain (sd_put [1] account_default sd_default) []) = Some (True, ch')
     \<and> overlayed_get (finalized_state demo_node_cfg ch') (tn_state (ch_forktrees ch' ! 0) []) [1] = Some account_default"
proof -
  let ?d = "sd_put [1] account_default sd_default"
  let ?ch = "node_chain ?d []"
  obtain ch' where ok: "try_finalize_roots demo_node_cfg ?ch = Some (True, ch')" using node_finalizes by blast
  then have "try_finalize_roots (node_cfg node_params demo_genesis 1 node_vm demo_account_codec) ?ch = Some (True, ch')"
    by (simp add: demo_node_cfg_def)
  from finalization_keeps_views [OF demo_account_codec_ok node_chain_wf this]
  obtain v cs where t: "TreeNode v cs \<in> set (ch_forktrees ?ch)"
    and view: "0 < length cs \<and> [1] \<notin> set (sd_deletes (bo_state (ex_output (vb_block v))))
      \<and> (\<forall>acc. executed_state (vb_block v) [1] = Some acc \<longrightarrow> \<not> acc_executable acc) \<longrightarrow>
      overlayed_get (finalized_state demo_node_cfg ch') (tn_state (ch_forktrees ch' ! 0) []) [1] =
      overlayed_get (finalized_state demo_node_cfg ?ch) (tn_state (TreeNode v cs) [0]) [1]"
    unfolding demo_node_cfg_def [symmetric] by (metis sd_invar_default sd_invar_put store_ok_empty)
  have "[1] \<notin> set (sd_deletes ?d)" by (simp add: set_sd_deletes_put)
  moreover have "\<not> acc_executable acc" if "sd_get ?d [1] = Some acc" for acc
    using that by (auto simp: sd_get_put account_default_def)
  ultimately have "overlayed_get (finalized_state demo_node_cfg ch') (tn_state (ch_forktrees ch' ! 0) []) [1] =
      overlayed_get (finalized_state demo_node_cfg ?ch) (tn_state (node_tree ?d) [0]) [1]"
    using t view by (auto simp: node_tree_def executed_state_def)
  also have "\<dots> = Some account_default"
    by (simp add: tn_state_def node_tree_def overlayed_get_def executed_state_def sd_get_put)
  finally show ?thesis using ok by blast
qed

text \<open>
  Deletions are only seen after finalization: an account that a block deletes is still there for its
  descendants until the block is finalized, and gone for them afterwards. A validator that executes
  a descendant before the finalization and one that executes it afterwards work on different states.
\<close>

theorem finalization_hides_deleted:
  assumes "account_codec_ok k" and "node_wf k ch"
    and "try_finalize_roots (node_cfg p g fuel vm k) ch = Some (True, ch')"
  shows "\<exists>v cs. TreeNode v cs \<in> set (ch_forktrees ch) \<and> ch_finalized ch' = ProducedBlock (vb_produced v)
    \<and> (\<forall>i pos a. i < length cs \<and> a \<in> set (sd_deletes (bo_state (ex_output (vb_block v))))
          \<and> finalized_state (node_cfg p g fuel vm k) ch a \<noteq> None \<and> tn_state (cs ! i) pos a = None \<longrightarrow>
        overlayed_get (finalized_state (node_cfg p g fuel vm k) ch) (tn_state (TreeNode v cs) (i # pos)) a \<noteq> None
        \<and> overlayed_get (finalized_state (node_cfg p g fuel vm k) ch') (tn_state (ch_forktrees ch' ! i) pos) a = None)"
  using assms
proof (rule finalized_root_view)
  fix v :: "transaction list volatile_block" and cs
  let ?d = "bo_state (ex_output (vb_block v))" and ?fin = "finalized_state (node_cfg p g fuel vm k)"
  assume t: "TreeNode v cs \<in> set (ch_forktrees ch)" "ch_finalized ch' = ProducedBlock (vb_produced v)"
    and cs: "ch_forktrees ch' = cs"
    and view: "\<And>a. ?fin ch' a = (let d = ?d in if a \<in> set (sd_deletes d) then None
       else case sd_get d a of Some acc \<Rightarrow> Some (acc\<lparr>acc_executable := False\<rparr>) | None \<Rightarrow> ?fin ch a)"
  show ?thesis
    using t by (intro exI [of _ v] exI [of _ cs])
      (auto simp: cs tn_state_child view overlayed_get_def split: option.split)
qed

theorem finalization_hides_deleted_witness:
  "\<exists>ch'. try_finalize_roots demo_node_cfg (node_chain (sd_del [1] sd_default)
         (persistent_new demo_account_codec [([1], account_default)] [])) = Some (True, ch')
     \<and> overlayed_get (finalized_state demo_node_cfg ch') (tn_state (ch_forktrees ch' ! 0) []) [1] = None"
proof -
  let ?d = "sd_del [1] sd_default" and ?db = "persistent_new demo_account_codec [([1], account_default)] []"
  let ?ch = "node_chain ?d ?db"
  obtain ch' where ok: "try_finalize_roots demo_node_cfg ?ch = Some (True, ch')" using node_finalizes by blast
  then have ok': "try_finalize_roots (node_cfg node_params demo_genesis 1 node_vm demo_account_codec) ?ch = Some (True, ch')"
    by (simp add: demo_node_cfg_def)
  have db: "store_ok demo_account_codec ?db" by (rule store_ok_new [OF demo_account_codec_ok]) simp
  have here: "persistent_view demo_account_codec ?db [1] \<noteq> None"
    using demo_account_codec_ok
    by (simp add: persistent_view_def persistent_get_def persistent_new_def ser_account_def de_account_def account_codec_ok_def)
  obtain v cs where t: "TreeNode v cs \<in> set (ch_forktrees ?ch)"
    and view: "0 < length cs \<and> [1] \<in> set (sd_deletes (bo_state (ex_output (vb_block v))))
        \<and> finalized_state demo_node_cfg ?ch [1] \<noteq> None \<and> tn_state (cs ! 0) [] [1] = None \<longrightarrow>
      overlayed_get (finalized_state demo_node_cfg ch') (tn_state (ch_forktrees ch' ! 0) []) [1] = None"
    using finalization_hides_deleted [OF demo_account_codec_ok node_chain_wf [OF _ db] ok']
    unfolding demo_node_cfg_def [symmetric] by (metis sd_invar_default sd_invar_del)
  have "overlayed_get (finalized_state demo_node_cfg ch') (tn_state (ch_forktrees ch' ! 0) []) [1] = None"
    using t view here by (auto simp: node_tree_def set_sd_deletes_del tn_state_def executed_state_def)
  then show ?thesis using ok by blast
qed

end
