(* ===== verification/Rensa_Events.thy ===== *)
theory Rensa_Events
  imports Rensa_Node
begin

text \<open>
  The event queue of the chain: which events every operation adds, that all executed blocks the chain
  holds or reports share a property established at their execution, and that finalized blocks are
  reported in the order of their heights without a gap.
\<close>

section \<open>Blocks of events\<close>

fun event_block :: "'d chain_event \<Rightarrow> 'd executed option" where
  "event_block (BlockIncluded e) = Some e"
| "event_block (BlockConfirmed e votes) = Some e"
| "event_block (BlockFinalized e votes) = Some e"
| "event_block _ = None"

fun event_finalized :: "'d chain_event \<Rightarrow> 'd executed option" where
  "event_finalized (BlockFinalized e votes) = Some e"
| "event_finalized _ = None"

text \<open>The finalized blocks of the queue in the order in which \<open>poll_next\<close> takes them.\<close>

definition pending_finalized :: "'d chain_event list \<Rightarrow> 'd executed list" where
  "pending_finalized evs = rev (List.map_filter event_finalized evs)"

lemma pending_finalized_simps [simp]:
  "pending_finalized [] = []"
  "pending_finalized (ev # evs) = pending_finalized evs @ (case event_finalized ev of Some e \<Rightarrow> [e] | None \<Rightarrow> [])"
  by (simp_all add: pending_finalized_def map_filter_simps split: option.split)

lemma pending_finalized_append [simp]:
  "pending_finalized (xs @ ys) = pending_finalized ys @ pending_finalized xs"
  by (simp add: pending_finalized_def map_filter_def)

lemma pending_finalized_none: "(\<And>ev. ev \<in> set evs \<Longrightarrow> event_finalized ev = None) \<Longrightarrow> pending_finalized evs = []"
  by (induction evs) auto

lemma pending_confirmed [simp]: "pending_finalized (map (\<lambda>b. BlockConfirmed (f b) (g b)) bs) = []"
  by (rule pending_finalized_none) auto

lemma pending_missing [simp]:
  "pending_finalized (rev (map BlockMissing hs)) = []" "pending_finalized (rev (map (BlockDiscarded \<circ> f) vs)) = []"
  by (rule pending_finalized_none; auto)+

section \<open>A property of all executed blocks\<close>

text \<open>\<open>G\<close> holds of every block of the forest and of every block the queue reports.\<close>

definition all_executed :: "('d executed \<Rightarrow> bool) \<Rightarrow> ('d, 's) chain \<Rightarrow> bool" where
  "all_executed G ch \<longleftrightarrow>
     (\<forall>v \<in> set (forest_values (ch_forktrees ch)). G (vb_block v))
     \<and> (\<forall>ev \<in> set (ch_events ch). \<forall>e. event_block ev = Some e \<longrightarrow> G e)"

text \<open>What the execution of a block above genesis establishes.\<close>

definition executed_holds :: "('d, 's) chain_cfg \<Rightarrow> ('d executed \<Rightarrow> bool) \<Rightarrow> bool" where
  "executed_holds cfg G \<longleftrightarrow>
     (\<forall>st b e. 0 < bl_height b \<longrightarrow> executed_new (cfg_crypto cfg) (cfg_run cfg) st b = ret e \<longrightarrow> G e)"

lemma forest_blocks_votes:
  assumes "i < length ts"
  shows "vb_block ` set (forest_values (ts[i := add_votes s w (ts ! i) pos])) = vb_block ` set (forest_values ts)"
proof -
  have "map vb_block (forest_values (ts[i := add_votes s w (ts ! i) pos])) = map vb_block (forest_values ts)"
    unfolding forest_values_def using assms by (intro map_concat_update) (auto simp: values_add_votes)
  then show ?thesis by (metis list.set_map)
qed

lemma newly_confirmed_subset: "set (newly_confirmed cfg ch old new) \<subseteq> set new"
  by (auto simp: newly_confirmed_def dest: set_zip_rightD)

lemma path_values: "node_at t pos = Some n \<Longrightarrow> tn_value ` set (tn_path t pos) \<subseteq> set (tn_values t)"
proof (induction t pos rule: tn_path.induct)
  case (1 t)
  then show ?case by simp
next
  case (2 v cs i pos)
  then have i: "i < length cs" and "tn_value ` set (tn_path (cs ! i) pos) \<subseteq> set (tn_values (cs ! i))"
    by (auto split: if_splits)
  then show ?case using nth_mem [OF i] by auto
qed

lemma injest_vote_executed:
  assumes "all_executed G ch"
  shows "all_executed G (injest_vote cfg v ch)
    \<and> pending_finalized (ch_events (injest_vote cfg v ch)) = pending_finalized (ch_events ch)"
proof (cases rule: injest_vote_cases [of cfg v ch])
  case (counted s i pos)
  let ?t = "ch_forktrees ch ! i"
  let ?new = "newly_confirmed cfg ch (map tn_value (tn_path ?t pos)) (map tn_value (tn_path (add_votes s (vote_validator v) ?t pos) pos))"
  obtain n where i: "i < length (ch_forktrees ch)" and n: "node_at ?t pos = Some n" using forest_getE [OF counted(4)] by blast
  have "set (tn_values ?t) \<subseteq> set (forest_values (ch_forktrees ch))"
    using nth_mem [OF i] by (auto simp: forest_values_def)
  then have old: "G (vb_block x)" if "x \<in> set (map tn_value (tn_path ?t pos))" for x
    using path_values [OF n] that assms by (auto simp: all_executed_def)
  have "G (vb_block x)" if "x \<in> set ?new" for x
  proof -
    have "x \<in> set (map (vb_add_votes s (vote_validator v)) (map tn_value (tn_path ?t pos)))"
      using subsetD [OF newly_confirmed_subset that] path_add_votes [OF n, of s "vote_validator v"] by simp
    then show ?thesis using old by auto
  qed
  moreover have "G (vb_block x)"
    if "x \<in> set (forest_values ((ch_forktrees ch)[i := add_votes s (vote_validator v) ?t pos]))" for x
  proof -
    have "vb_block x \<in> vb_block ` set (forest_values (ch_forktrees ch))"
      using that forest_blocks_votes [OF i, of s "vote_validator v" pos] by blast
    then show ?thesis using assms by (auto simp: all_executed_def)
  qed
  ultimately show ?thesis using assms unfolding counted(6) by (auto simp: all_executed_def)
qed (use assms in \<open>auto simp: all_executed_def\<close>)

lemma fold_injest_vote_executed:
  "all_executed G ch \<Longrightarrow> all_executed G (fold (injest_vote cfg) vs ch)
     \<and> pending_finalized (ch_events (fold (injest_vote cfg) vs ch)) = pending_finalized (ch_events ch)"
  by (induction vs arbitrary: ch) (auto simp: injest_vote_executed)

lemma all_executed_frame [simp]:
  "all_executed G (ch\<lparr>ch_orphans := os\<rparr>) = all_executed G ch"
  "all_executed G (ch\<lparr>ch_ownvotes := ov\<rparr>) = all_executed G ch"
  "all_executed G (push_front (Vote t j) ch) = all_executed G ch"
  by (simp_all add: all_executed_def push_front_def)

lemma commit_and_vote_executed:
  "commit_and_vote cfg h ch = Some ch' \<Longrightarrow> all_executed G ch' = all_executed G ch
     \<and> pending_finalized (ch_events ch') = pending_finalized (ch_events ch)"
  by (auto simp: commit_and_vote_def Let_def split: option.splits if_splits) (auto simp: push_front_def)

lemma try_include_executed:
  assumes G: "executed_holds cfg G" and all: "all_executed G ch" and h: "0 < bl_height b"
    and ok: "try_include cfg b ch = ret (r, ch')"
  shows "all_executed G ch' \<and> pending_finalized (ch_events ch') = pending_finalized (ch_events ch)"
  using ok
proof (cases rule: try_includeE)
  case same
  then show ?thesis using all by simp
next
  case (root e)
  have "G e" using G h root(4) by (auto simp: executed_holds_def)
  then show ?thesis using all unfolding root(6)
    by (auto simp: all_executed_def push_front_def tn_new_def volatile_new_def)
next
  case (child i pos n e root')
  have e: "G e" using G h child(5) by (auto simp: executed_holds_def)
  obtain i: "i < length (ch_forktrees ch)" using forest_getE [OF child(1)] by blast
  have root': "root' = update_at (\<lambda>n. TreeNode (tn_value n) (tn_children n @ [TreeNode (volatile_new e) []])) (ch_forktrees ch ! i) pos"
    using child(7) by (auto elim!: add_childE)
  have "mset (forest_values ((ch_forktrees ch)[i := root'])) = add_mset (volatile_new e) (mset (forest_values (ch_forktrees ch)))"
    unfolding forest_values_def root' by (rule mset_concat_update [OF i values_update_child [OF child(2)]])
  then have "set (forest_values ((ch_forktrees ch)[i := root'])) = insert (volatile_new e) (set (forest_values (ch_forktrees ch)))"
    by (metis set_mset_add_mset_insert set_mset_mset)
  then show ?thesis using all e unfolding child(8)
    by (auto simp: all_executed_def push_front_def volatile_new_def)
qed

lemma include_one_executed:
  assumes G: "executed_holds cfg G" and all: "all_executed G ch" and ok: "include_one cfg now b ch = Some (bs, ch')"
  shows "all_executed G ch' \<and> pending_finalized (ch_events ch') = pending_finalized (ch_events ch)"
  using ok
proof (cases rule: include_one_cases)
  case (consumed ch1 ch2)
  have "0 < bl_height b" using consumed(2) by (meson order.strict_trans1 word_zero_le)
  then have "all_executed G ch1 \<and> pending_finalized (ch_events ch1) = pending_finalized (ch_events ch)"
    using try_include_executed [OF G all _ consumed(4)] by blast
  then show ?thesis using consumed(5,6) commit_and_vote_executed [of cfg _ ch1 ch2 G] by auto
qed (use all in auto)

lemma include_all_executed:
  assumes "executed_holds cfg G"
  shows "include_all cfg now bs ch = Some ch' \<Longrightarrow> all_executed G ch \<Longrightarrow>
    all_executed G ch' \<and> pending_finalized (ch_events ch') = pending_finalized (ch_events ch)"
  using assms
proof (induction cfg now bs ch rule: include_all.induct)
  case (2 cfg now b rest ch)
  then obtain os ch1 where "include_one cfg now b ch = Some (os, ch1)" "include_all cfg now (os @ rest) ch1 = Some ch'"
    by (auto split: option.splits prod.splits)
  then show ?case using 2 include_one_executed by fastforce
qed simp

section \<open>Finalized blocks come in order\<close>

text \<open>Heights \<open>h + 1\<close>, \<open>h + 2\<close>, ... up to \<open>t\<close>.\<close>

fun consecutive :: "u64 \<Rightarrow> u64 list \<Rightarrow> u64 \<Rightarrow> bool" where
  "consecutive h [] t \<longleftrightarrow> h = t"
| "consecutive h (x # xs) t \<longleftrightarrow> x = h + 1 \<and> consecutive x xs t"

lemma consecutive_append: "consecutive h (xs @ ys) t \<longleftrightarrow> (\<exists>m. consecutive h xs m \<and> consecutive m ys t)"
  by (induction xs arbitrary: h) auto

lemma consecutive_Cons: "consecutive h (x # xs) t \<Longrightarrow> x = h + 1 \<and> consecutive (h + 1) xs t"
  by auto

abbreviation ex_height :: "'d executed \<Rightarrow> u64" where
  "ex_height e \<equiv> bl_height (ex_underlying e)"

text \<open>The queue reports the finalized blocks from height \<open>h\<close> on, up to the finalized block of the chain.\<close>

definition reports_from :: "u64 \<Rightarrow> ('d, 's) chain \<Rightarrow> bool" where
  "reports_from h ch \<longleftrightarrow> consecutive h (map ex_height (pending_finalized (ch_events ch))) (finalized_height ch)"

lemma try_finalize_executed:
  assumes inv: "chain_inv cfg ch" and all: "all_executed G ch" and rep: "reports_from h ch"
    and ok: "try_finalize_roots cfg ch = Some (True, ch')"
  shows "all_executed G ch' \<and> reports_from h ch'"
  using ok
proof (cases rule: try_finalize_rootsE)
  case (1 i v cs store ep)
  have t: "TreeNode v cs \<in> set (ch_forktrees ch)" using 1(1,2) by (metis nth_mem)
  then have sub: "insert v (set (forest_values cs)) \<subseteq> set (forest_values (ch_forktrees ch))"
  proof -
    have "set (tn_values (TreeNode v cs)) \<subseteq> set (forest_values (ch_forktrees ch))"
      using t by (auto simp: forest_values_def simp del: tn_values.simps)
    then show ?thesis by (simp add: forest_values_def)
  qed
  have "root_ok cfg ch (TreeNode v cs)" using inv t by (simp add: chain_inv_def)
  then have height: "bl_height (vb_produced v) = finalized_height ch + 1" by (simp add: root_ok_def)
  have "G (vb_block v)" using all sub by (simp add: all_executed_def)
  moreover obtain ds where evs: "ch_events ch' = BlockFinalized (vb_block v) (vb_votes v) # map BlockDiscarded ds @ ch_events ch"
  proof -
    have "\<exists>ds. rev (map (BlockDiscarded \<circ> vb_produced) vs) = map BlockDiscarded ds" for vs :: "'a volatile_block list"
      by (intro exI [of _ "rev (map vb_produced vs)"]) (simp add: rev_map)
    then show thesis using that unfolding 1(8) by (simp del: map_map rev_append filter_append map_append forest_values_simps) metis
  qed
  moreover have "event_block ev = None" if "ev \<in> set (map BlockDiscarded ds)" for ev using that by auto
  ultimately have "\<forall>ev \<in> set (ch_events ch'). \<forall>e. event_block ev = Some e \<longrightarrow> G e"
    using all by (auto simp: all_executed_def)
  moreover have "\<forall>x \<in> set (forest_values (ch_forktrees ch')). G (vb_block x)"
    using all sub unfolding 1(8) by (simp add: all_executed_def subset_iff)
  ultimately have "all_executed G ch'" by (simp add: all_executed_def)
  moreover have "reports_from h ch'"
    using rep height unfolding 1(8) by (simp add: reports_from_def consecutive_append)
  ultimately show ?thesis by simp
qed

lemma finalize_loop_executed:
  assumes "chain_inv cfg ch" and "all_executed G ch" and "reports_from h ch" and "finalize_loop cfg ch = Some ch'"
  shows "all_executed G ch' \<and> reports_from h ch'"
proof -
  have "chain_inv cfg ch' \<and> all_executed G ch' \<and> reports_from h ch'"
  proof (rule finalize_loop_induct [OF assms(4)])
    fix a b
    assume a: "chain_inv cfg a \<and> all_executed G a \<and> reports_from h a" and step: "try_finalize_roots cfg a = Some (True, b)"
    then show "chain_inv cfg b \<and> all_executed G b \<and> reports_from h b"
      using try_finalize_executed [OF _ _ _ step] try_finalize_inv [OF _ step] by blast
  qed (simp add: assms)
  then show ?thesis by simp
qed

lemma post_block_included_executed:
  assumes inv: "chain_inv cfg ch" and all: "all_executed G ch" and rep: "reports_from h ch"
    and ok: "post_block_included cfg now b ch = Some ch'"
  shows "all_executed G ch' \<and> reports_from h ch'"
  using ok
proof (cases rule: post_block_includedE)
  case (1 votes os ch4)
  let ?ch1 = "count_votes cfg (bl_votes b) ch"
  let ?ch3 = "fold (injest_vote cfg) (case votes of Some vs \<Rightarrow> vs | None \<Rightarrow> []) (?ch1\<lparr>ch_orphans := os\<rparr>)"
  have ch1: "chain_inv cfg ?ch1" unfolding count_votes_def by (rule fold_injest_vote_inv [OF inv])
  then have "orphans_invar (cfg_params cfg) os"
    using consume_votes_invar [OF 1(1)] by (simp add: chain_inv_def)
  with ch1 have inv3: "chain_inv cfg ?ch3" by (intro fold_injest_vote_inv) simp
  have c1: "all_executed G ?ch1 \<and> pending_finalized (ch_events ?ch1) = pending_finalized (ch_events ch)"
    unfolding count_votes_def by (rule fold_injest_vote_executed [OF all])
  then have "all_executed G ?ch3 \<and> pending_finalized (ch_events ?ch3) = pending_finalized (ch_events ch)"
    using fold_injest_vote_executed [of G "?ch1\<lparr>ch_orphans := os\<rparr>" cfg] by simp
  moreover have "ch_finalized ?ch3 = ch_finalized ch" by (simp add: fold_injest_vote_frame count_votes_def)
  ultimately have "all_executed G ?ch3" "reports_from h ?ch3" using rep by (simp_all add: reports_from_def)
  then have "all_executed G ch4 \<and> reports_from h ch4" by (rule finalize_loop_executed [OF inv3 _ _ 1(2)])
  then show ?thesis unfolding 1(3) by (auto simp: reports_from_def all_executed_def)
qed

lemma reports_from_cong:
  "ch_events ch' = ch_events ch \<Longrightarrow> ch_finalized ch' = ch_finalized ch \<Longrightarrow> reports_from h ch' = reports_from h ch"
  by (simp add: reports_from_def)

lemma post_block_finalized_events: "post_block_finalized cfg b ch = Some ch' \<Longrightarrow> ch_events ch' = ch_events ch"
  by (auto simp: post_block_finalized_def Let_def split: option.splits)

text \<open>A poll: the next finalized block it reports has the next height.\<close>

lemma poll_next_executed:
  assumes inv: "chain_inv cfg ch" and all: "all_executed G ch" and rep: "reports_from h ch"
    and ok: "poll_next cfg now ch = Some (ev, ch')"
  shows "all_executed G ch' \<and> (case ev of Some ev' \<Rightarrow> \<forall>e. event_block ev' = Some e \<longrightarrow> G e | None \<Rightarrow> True)
    \<and> (case ev of
         Some (BlockFinalized e votes) \<Rightarrow> ex_height e = h + 1 \<and> reports_from (h + 1) ch'
       | _ \<Rightarrow> reports_from h ch')"
proof -
  have popped: "all_executed G (ch\<lparr>ch_events := butlast (ch_events ch)\<rparr>)"
    using all by (auto simp: all_executed_def dest: in_set_butlastD)
  have lastG: "\<forall>e. event_block (last (ch_events ch)) = Some e \<longrightarrow> G e" if "ch_events ch \<noteq> []"
    using all that by (auto simp: all_executed_def)
  have split: "pending_finalized (ch_events ch) =
      (case event_finalized (last (ch_events ch)) of Some e \<Rightarrow> [e] | None \<Rightarrow> []) @ pending_finalized (butlast (ch_events ch))"
    if "ch_events ch \<noteq> []"
    using pending_finalized_append [of "butlast (ch_events ch)" "[last (ch_events ch)]"] that by simp
  show ?thesis
    using ok
  proof (cases rule: poll_next_cases)
    case pending
    then show ?thesis using all rep by simp
  next
    case (incl e)
    have "reports_from h (ch\<lparr>ch_events := butlast (ch_events ch)\<rparr>)"
      using rep split [OF incl(1)] incl(2) by (simp add: reports_from_def)
    then have "all_executed G ch' \<and> reports_from h ch'"
      using post_block_included_executed [OF _ popped _ incl(4)] inv by simp
    then show ?thesis using lastG incl by simp
  next
    case (final e votes)
    have "consecutive h (ex_height e # map ex_height (pending_finalized (butlast (ch_events ch)))) (finalized_height ch)"
      using rep split [OF final(1)] final(2) by (simp add: reports_from_def del: consecutive.simps)
    from consecutive_Cons [OF this]
    have "ex_height e = h + 1 \<and> reports_from (h + 1) ch'"
      using post_block_finalized_frame [OF final(4)] post_block_finalized_events [OF final(4)] by (simp add: reports_from_def)
    moreover have "all_executed G ch'"
      using popped post_block_finalized_frame [OF final(4)] post_block_finalized_events [OF final(4)] by (simp add: all_executed_def)
    ultimately show ?thesis using lastG final by auto
  next
    case other
    show ?thesis
    proof (cases "event_finalized (last (ch_events ch))")
      case None
      then have "reports_from h ch'" using rep split other by (simp add: reports_from_def)
      moreover have "case ev of Some (BlockFinalized e votes) \<Rightarrow> False | _ \<Rightarrow> True"
        using None other(2) by (auto split: chain_event.split)
      ultimately show ?thesis using popped lastG other by (auto split: chain_event.split)
    next
      case (Some e)
      then obtain votes where l: "last (ch_events ch) = BlockFinalized e votes" by (cases "last (ch_events ch)") auto
      have "consecutive h (ex_height e # map ex_height (pending_finalized (butlast (ch_events ch)))) (finalized_height ch)"
        using rep split [OF other(1)] l by (simp add: reports_from_def del: consecutive.simps)
      from consecutive_Cons [OF this]
      have "ex_height e = h + 1 \<and> reports_from (h + 1) ch'" using other(3) by (simp add: reports_from_def)
      then show ?thesis using popped lastG other l by auto
    qed
  qed
qed

end
