(* ===== verification/Rensa_Producer.thy ===== *)
theory Rensa_Producer
  imports Rensa_Node "HOL-Library.Multiset"
begin

text \<open>
  \<open>src/producer.rs\<close>: the mempool of votes and transactions and the block producer.

  The concurrent maps are association lists; the order of such a list is the order in which the source
  iterates over the map, which nothing restricts, so what is shown for every mempool holds for every
  order of iteration. \<open>produce\<close> returns \<open>None\<close> where the source panics.
\<close>

section \<open>The mempool\<close>

record mempool =
  mp_validators :: "pubkey set"
  mp_votes :: "(signature, vote) hash_map"
  mp_txs :: "(multihash, transaction) hash_map"

definition mempool_new :: "pubkey set \<Rightarrow> mempool" where
  "mempool_new validators = \<lparr>mp_validators = validators, mp_votes = [], mp_txs = []\<rparr>"

definition add_vote :: "vote \<Rightarrow> mempool \<Rightarrow> mempool" where
  "add_vote v mp =
     (if vote_validator v \<in> mp_validators mp
      then mp\<lparr>mp_votes := hm_insert (vote_signature v) v (mp_votes mp)\<rparr> else mp)"

definition add_transaction :: "crypto \<Rightarrow> transaction \<Rightarrow> mempool \<Rightarrow> mempool" where
  "add_transaction c tx mp =
     (case tx_verify_signatures c tx of
        Inr _ \<Rightarrow> mp\<lparr>mp_txs := hm_insert (tx_hash c tx) tx (mp_txs mp)\<rparr>
      | Inl _ \<Rightarrow> mp)"

definition take_votes :: "mempool \<Rightarrow> vote list \<times> mempool" where
  "take_votes mp = (map snd (mp_votes mp), mp\<lparr>mp_votes := []\<rparr>)"

text \<open>\<open>Itertools::group_by\<close>: runs of consecutive elements with the same key.\<close>

fun group_by :: "('a \<Rightarrow> 'k) \<Rightarrow> 'a list \<Rightarrow> 'a list list" where
  "group_by f [] = []"
| "group_by f (x # xs) =
     (case group_by f xs of
        [] \<Rightarrow> [[x]]
      | g # gs \<Rightarrow> if f x = f (hd g) then (x # g) # gs else [x] # g # gs)"

text \<open>The loop that fills the map \<open>output\<close>: each group by nonce, under the hash of its first transaction.\<close>

definition insert_group :: "crypto \<Rightarrow> transaction list \<Rightarrow> (multihash, transaction list) btree_map
    \<Rightarrow> (multihash, transaction list) btree_map" where
  "insert_group c g out =
     (let txs = sort_key tx_nonce g
      in case txs of [] \<Rightarrow> out | first # _ \<Rightarrow> bt_insert (tx_hash c first) txs out)"

definition ordered_transactions :: "crypto \<Rightarrow> mempool \<Rightarrow> transaction list" where
  "ordered_transactions c mp =
     concat (map snd (fold (insert_group c) (group_by tx_payer (map snd (mp_txs mp))) []))"

definition take_transactions :: "crypto \<Rightarrow> nat \<Rightarrow> mempool \<Rightarrow> transaction list \<times> mempool" where
  "take_transactions c limit mp =
     (let out = take limit (ordered_transactions c mp)
      in (out, mp\<lparr>mp_txs := fold (\<lambda>tx. hm_remove (tx_hash c tx)) out (mp_txs mp)\<rparr>))"

section \<open>The producer\<close>

record producer =
  pr_keypair :: bytes
  pr_limits :: limits
  pr_mempool :: mempool
  pr_pending :: "transaction list produced option"

definition producer_new :: "genesis \<Rightarrow> bytes \<Rightarrow> producer" where
  "producer_new g keypair =
     \<lparr>pr_keypair = keypair, pr_limits = g_limits g,
      pr_mempool = mempool_new (val_pubkey ` set (g_validators g)), pr_pending = None\<rparr>"

text \<open>\<open>produce\<close>; the \<open>unwrap\<close> on the execution of the payload is the only source of a panic.\<close>

definition produce ::
    "transaction list block_params \<Rightarrow> nat \<Rightarrow> machine \<Rightarrow> state_view \<Rightarrow> transaction list any_block \<Rightarrow> producer
     \<Rightarrow> producer option" where
  "produce p fuel vm state prev pr =
     (let prevheight = any_height prev; prevhash = any_hash p prev;
          (votes, mp1) = take_votes (pr_mempool pr);
          (txs, mp2) = take_transactions (bp_crypto p) (max_block_transactions (pr_limits pr)) mp1
      in case execute_block fuel vm state txs of
           Some (Inr blockoutput) \<Rightarrow>
             Some (pr\<lparr>pr_mempool := mp2,
                      pr_pending := Some (produced_new p (pr_keypair pr) (prevheight + 1) prevhash txs
                        (bo_hash (bp_crypto p) blockoutput) votes)\<rparr>)
         | _ \<Rightarrow> None)"

definition record_vote :: "vote \<Rightarrow> producer \<Rightarrow> producer" where
  "record_vote v pr = pr\<lparr>pr_mempool := add_vote v (pr_mempool pr)\<rparr>"

definition record_transaction :: "crypto \<Rightarrow> transaction \<Rightarrow> producer \<Rightarrow> producer" where
  "record_transaction c tx pr =
     (case tx_verify_limits tx (pr_limits pr) of
        Inr _ \<Rightarrow> pr\<lparr>pr_mempool := add_transaction c tx (pr_mempool pr)\<rparr>
      | Inl _ \<Rightarrow> pr)"

definition reuse_discarded :: "crypto \<Rightarrow> transaction list produced \<Rightarrow> producer \<Rightarrow> producer" where
  "reuse_discarded c b pr = fold (record_transaction c) (bl_data b) (fold record_vote (bl_votes b) pr)"

text \<open>\<open>Stream::poll_next\<close>: the pending block, once.\<close>

definition producer_poll :: "producer \<Rightarrow> transaction list produced option \<times> producer" where
  "producer_poll pr = (pr_pending pr, pr\<lparr>pr_pending := None\<rparr>)"

text \<open>\<open>Commitment\<close> of \<open>src/consumer.rs\<close>, and what the producer does with a consumed block.\<close>

datatype commitment = Included | Confirmed | Finalized

definition producer_consume :: "crypto \<Rightarrow> transaction list executed \<Rightarrow> commitment \<Rightarrow> producer \<Rightarrow> producer" where
  "producer_consume c e commit pr =
     (case commit of
        Included \<Rightarrow>
          let mp = pr_mempool pr; b = ex_underlying e
          in pr\<lparr>pr_mempool := mp\<lparr>mp_votes := fold (\<lambda>v. hm_remove (vote_signature v)) (bl_votes b) (mp_votes mp),
                                 mp_txs := fold (\<lambda>tx. hm_remove (tx_hash c tx)) (bl_data b) (mp_txs mp)\<rparr>\<rparr>
      | _ \<Rightarrow> pr)"

section \<open>The invariant of the mempool\<close>

text \<open>
  Votes come from validators and are kept under their signature, transactions have valid signatures and are
  kept under their hash.
\<close>

definition mempool_inv :: "crypto \<Rightarrow> mempool \<Rightarrow> bool" where
  "mempool_inv c mp \<longleftrightarrow>
     hm_invar (mp_votes mp) \<and> hm_invar (mp_txs mp)
     \<and> (\<forall>s v. map_of (mp_votes mp) s = Some v \<longrightarrow> s = vote_signature v \<and> vote_validator v \<in> mp_validators mp)
     \<and> (\<forall>h tx. map_of (mp_txs mp) h = Some tx \<longrightarrow> h = tx_hash c tx \<and> tx_verify_signatures c tx = Inr ())"

lemma mempool_inv_new [simp]: "mempool_inv c (mempool_new vs)"
  by (simp add: mempool_inv_def mempool_new_def)

lemma mempool_inv_add_vote: "mempool_inv c mp \<Longrightarrow> mempool_inv c (add_vote v mp)"
  by (simp add: mempool_inv_def add_vote_def hm_invar_insert map_of_hm_insert)

lemma mempool_inv_add_transaction: "mempool_inv c mp \<Longrightarrow> mempool_inv c (add_transaction c tx mp)"
  by (simp add: mempool_inv_def add_transaction_def hm_invar_insert map_of_hm_insert split: sum.split)

text \<open>Removing what a list of elements maps to.\<close>

lemma map_of_fold_hm_remove:
  "map_of (fold (\<lambda>x. hm_remove (f x)) xs m) k = (if k \<in> f ` set xs then None else map_of m k)"
  by (induction xs arbitrary: m) (auto simp: map_of_hm_remove)

lemma hm_invar_fold_remove: "hm_invar m \<Longrightarrow> hm_invar (fold (\<lambda>x. hm_remove (f x)) xs m)"
  by (induction xs arbitrary: m) (simp_all add: hm_invar_remove)

lemma mempool_inv_take_votes: "mempool_inv c mp \<Longrightarrow> mempool_inv c (snd (take_votes mp))"
  by (simp add: mempool_inv_def take_votes_def)

lemma mempool_inv_take: "mempool_inv c mp \<Longrightarrow> mempool_inv c (snd (take_transactions c n mp))"
  by (simp add: mempool_inv_def take_transactions_def Let_def hm_invar_fold_remove map_of_fold_hm_remove)

lemma mempool_inv_consume:
  "mempool_inv c (pr_mempool pr) \<Longrightarrow> mempool_inv c (pr_mempool (producer_consume c e commit pr))"
  by (simp add: mempool_inv_def producer_consume_def Let_def hm_invar_fold_remove map_of_fold_hm_remove split: commitment.split)

lemma mempool_inv_record:
  "mempool_inv c (pr_mempool pr) \<Longrightarrow> mempool_inv c (pr_mempool (record_vote v pr))"
  "mempool_inv c (pr_mempool pr) \<Longrightarrow> mempool_inv c (pr_mempool (record_transaction c tx pr))"
  by (auto simp: record_vote_def record_transaction_def mempool_inv_add_vote mempool_inv_add_transaction split: sum.split)

lemma mempool_inv_reuse: "mempool_inv c (pr_mempool pr) \<Longrightarrow> mempool_inv c (pr_mempool (reuse_discarded c b pr))"
proof -
  have votes: "mempool_inv c (pr_mempool pr) \<Longrightarrow> mempool_inv c (pr_mempool (fold record_vote vs pr))" for vs pr
    by (induction vs arbitrary: pr) (simp_all add: mempool_inv_record)
  have txs: "mempool_inv c (pr_mempool pr) \<Longrightarrow> mempool_inv c (pr_mempool (fold (record_transaction c) ts pr))" for ts pr
    by (induction ts arbitrary: pr) (simp_all add: mempool_inv_record)
  assume "mempool_inv c (pr_mempool pr)"
  then show ?thesis unfolding reuse_discarded_def by (intro votes txs)
qed

section \<open>What is taken from the mempool\<close>

lemma concat_group_by [simp]: "concat (group_by f xs) = xs"
  by (induction xs) (auto split: list.split if_split)

lemma group_by_nonempty: "[] \<notin> set (group_by f xs)"
  by (induction xs) (auto split: list.split if_split)

lemma mset_bt_insert: "k \<notin> fst ` set m \<Longrightarrow> mset (bt_insert k v m) = add_mset (k, v) (mset m)"
  by (induction k v m rule: bt_insert.induct) auto

text \<open>Groups with different first hashes all stay in the map.\<close>

lemma insert_group_eq:
  "g \<noteq> [] \<Longrightarrow> insert_group c g out = bt_insert (tx_hash c (hd (sort_key tx_nonce g))) (sort_key tx_nonce g) out"
proof -
  assume "g \<noteq> []"
  then have "length (sort_key tx_nonce g) \<noteq> 0" by simp
  then show ?thesis by (cases "sort_key tx_nonce g") (simp_all add: insert_group_def)
qed

lemma fold_insert_groups:
  assumes "[] \<notin> set gs" and "distinct (map (tx_hash c \<circ> hd \<circ> sort_key tx_nonce) gs)"
    and "(tx_hash c \<circ> hd \<circ> sort_key tx_nonce) ` set gs \<inter> fst ` set m = {}"
  shows "mset (map snd (fold (insert_group c) gs m)) = mset (map (sort_key tx_nonce) gs) + mset (map snd m)"
  using assms
proof (induction gs arbitrary: m)
  case (Cons g gs)
  let ?k = "tx_hash c (hd (sort_key tx_nonce g))"
  let ?m = "bt_insert ?k (sort_key tx_nonce g) m"
  have keys: "fst ` set ?m = insert ?k (fst ` set m)" by (rule keys_bt_insert)
  have "mset ?m = add_mset (?k, sort_key tx_nonce g) (mset m)"
    using Cons.prems(3) by (intro mset_bt_insert) auto
  moreover have "mset (map snd (fold (insert_group c) gs ?m)) = mset (map (sort_key tx_nonce) gs) + mset (map snd ?m)"
    using Cons.prems keys by (intro Cons.IH) auto
  moreover have "insert_group c g m = ?m" using Cons.prems(1) by (intro insert_group_eq) auto
  ultimately show ?case by (simp add: mset_map)
qed simp

lemma distinct_heads:
  "[] \<notin> set gs \<Longrightarrow> distinct (map f (concat gs)) \<Longrightarrow> (\<And>g. g \<in> set gs \<Longrightarrow> h g \<in> set g) \<Longrightarrow> distinct (map (f \<circ> h) gs)"
proof (induction gs)
  case (Cons g gs)
  have "f (h g) \<noteq> f (h g')" if g': "g' \<in> set gs" for g'
  proof -
    have "f ` set g \<inter> f ` set (concat gs) = {}" using Cons.prems(2) by simp
    moreover have "h g \<in> set g" and "h g' \<in> set (concat gs)" using Cons.prems(3) g' by auto
    ultimately show ?thesis by blast
  qed
  moreover have "distinct (map (f \<circ> h) gs)" using Cons.prems by (intro Cons.IH) auto
  ultimately show ?case by (auto simp: comp_def)
qed simp

text \<open>The transactions of the mempool, each once.\<close>

lemma mempool_txs_distinct:
  assumes "mempool_inv c mp"
  shows "distinct (map (tx_hash c) (map snd (mp_txs mp)))"
proof -
  have inv: "distinct (map fst (mp_txs mp))" using assms by (simp add: mempool_inv_def hm_invar_def)
  moreover have "fst e = tx_hash c (snd e)" if "e \<in> set (mp_txs mp)" for e
    using assms map_of_is_SomeI [OF inv, of "fst e" "snd e"] that by (simp add: mempool_inv_def)
  then have "map fst (mp_txs mp) = map (tx_hash c) (map snd (mp_txs mp))" by simp
  ultimately show ?thesis by simp
qed

lemma hd_sort_key_in: "g \<noteq> [] \<Longrightarrow> hd (sort_key f g) \<in> set g"
  by (metis length_0_conv length_sort hd_in_set set_sort)

lemma group_heads_distinct:
  assumes "mempool_inv c mp"
  shows "distinct (map (tx_hash c \<circ> hd \<circ> sort_key tx_nonce) (group_by tx_payer (map snd (mp_txs mp))))"
proof -
  let ?gs = "group_by tx_payer (map snd (mp_txs mp))"
  have "distinct (map (tx_hash c \<circ> (hd \<circ> sort_key tx_nonce)) ?gs)"
  proof (rule distinct_heads [OF group_by_nonempty])
    show "distinct (map (tx_hash c) (concat ?gs))" using mempool_txs_distinct [OF assms] by simp
    show "(hd \<circ> sort_key tx_nonce) g \<in> set g" if "g \<in> set ?gs" for g
      using that group_by_nonempty [of tx_payer] by (auto intro!: hd_sort_key_in)
  qed
  then show ?thesis by (simp add: comp_assoc)
qed

lemma mset_ordered_transactions:
  assumes "mempool_inv c mp"
  shows "mset (ordered_transactions c mp) = mset (map snd (mp_txs mp))"
proof -
  let ?gs = "group_by tx_payer (map snd (mp_txs mp))"
  have "mset (map snd (fold (insert_group c) ?gs [])) = mset (map (sort_key tx_nonce) ?gs)"
    using fold_insert_groups [OF group_by_nonempty group_heads_distinct [OF assms], of "[]"] by simp
  then have "mset (concat (map snd (fold (insert_group c) ?gs []))) = mset (concat (map (sort_key tx_nonce) ?gs))"
    by (metis mset_concat mset_map sum_mset_sum_list)
  also have "\<dots> = mset (concat ?gs)" by (simp only: mset_concat map_map comp_def mset_sort)
  finally show ?thesis by (simp add: ordered_transactions_def)
qed

lemma take_transactions_partition:
  assumes inv: "mempool_inv c mp" and take: "take_transactions c n mp = (txs, mp')"
  shows "mset txs + mset (map snd (mp_txs mp')) = mset (map snd (mp_txs mp))"
proof -
  let ?all = "ordered_transactions c mp"
  have txs: "txs = take n ?all" and mp': "mp_txs mp' = fold (\<lambda>tx. hm_remove (tx_hash c tx)) txs (mp_txs mp)"
    using take by (auto simp: take_transactions_def Let_def)
  have dist: "distinct (map (tx_hash c) ?all)"
    using mempool_txs_distinct [OF inv] mset_ordered_transactions [OF inv]
    by (metis mset_eq_imp_distinct_iff mset_map)
  have inv': "mempool_inv c mp'" using mempool_inv_take [OF inv, of n] take by simp
  have elem: "tx \<in> set (map snd (mp_txs m)) \<longleftrightarrow> map_of (mp_txs m) (tx_hash c tx) = Some tx" if "mempool_inv c m" for tx m
  proof -
    have d: "distinct (map fst (mp_txs m))" using that by (simp add: mempool_inv_def hm_invar_def)
    have "h = tx_hash c tx" if "(h, tx) \<in> set (mp_txs m)" for h
      using \<open>mempool_inv c m\<close> map_of_is_SomeI [OF d that] by (simp add: mempool_inv_def)
    moreover have "tx \<in> set (map snd (mp_txs m)) \<longleftrightarrow> (\<exists>h. (h, tx) \<in> set (mp_txs m))" by force
    ultimately show ?thesis using map_of_is_SomeI [OF d] map_of_SomeD by metis
  qed
  have all: "set ?all = set (map snd (mp_txs mp))" using mset_ordered_transactions [OF inv] by (metis set_mset_mset)
  have sub: "set txs \<subseteq> set ?all" unfolding txs by (rule set_take_subset)
  have inj: "tx = tx'" if "tx \<in> set ?all" "tx' \<in> set ?all" "tx_hash c tx = tx_hash c tx'" for tx tx'
    using dist that by (meson distinct_map inj_onD)
  have "tx \<in> set (map snd (mp_txs mp')) \<longleftrightarrow> tx \<in> set ?all \<and> tx \<notin> set txs" for tx
  proof -
    have "tx \<in> set (map snd (mp_txs mp')) \<longleftrightarrow> tx_hash c tx \<notin> tx_hash c ` set txs \<and> tx \<in> set ?all"
      unfolding elem [OF inv'] all elem [OF inv] by (simp add: mp' map_of_fold_hm_remove)
    also have "\<dots> \<longleftrightarrow> tx \<in> set ?all \<and> tx \<notin> set txs" using inj sub by blast
    finally show ?thesis .
  qed
  then have set_eq: "set (txs @ map snd (mp_txs mp')) = set ?all" "set txs \<inter> set (map snd (mp_txs mp')) = {}"
    using sub by auto
  have "distinct ?all" "distinct (map snd (mp_txs mp'))"
    using dist mempool_txs_distinct [OF inv'] by (meson distinct_map)+
  then have "distinct (txs @ map snd (mp_txs mp'))" using set_eq(2) by (simp add: txs)
  with \<open>distinct ?all\<close> set_eq(1) have "mset (txs @ map snd (mp_txs mp')) = mset ?all"
    using set_eq_iff_mset_eq_distinct by blast
  then show ?thesis using mset_ordered_transactions [OF inv] by simp
qed

section \<open>Producing on the head\<close>

text \<open>A node of a forest without duplicates is found under its own hash.\<close>

lemma tn_get_children_at:
  "i < length cs \<Longrightarrow> (\<And>j. j < i \<Longrightarrow> tn_get p h (cs ! j) = None) \<Longrightarrow> tn_get p h (cs ! i) = Some pos \<Longrightarrow>
     tn_get_children p h k cs = Some ((k + i) # pos)"
proof (induction cs arbitrary: i k)
  case (Cons c cs)
  show ?case
  proof (cases i)
    case (Suc i')
    have "tn_get p h c = None" using Cons.prems(2) [of 0] Suc by simp
    moreover have "tn_get_children p h (Suc k) cs = Some ((Suc k + i') # pos)"
      using Cons.prems Suc Cons.prems(2) [of "Suc j" for j] by (intro Cons.IH) auto
    ultimately show ?thesis by (simp add: Suc)
  qed (use Cons.prems in simp)
qed simp

lemma hash_elsewhere:
  assumes "distinct (map f (concat (map F cs)))" and "i < length cs" and "j < i" and "x \<in> set (F (cs ! i))"
  shows "f x \<notin> f ` set (F (cs ! j))"
proof -
  have "drop i cs = cs ! i # drop (Suc i) cs" using assms(2) by (simp add: Cons_nth_drop_Suc)
  then have "cs = take i cs @ cs ! i # drop (Suc i) cs" by (metis append_take_drop_id)
  then have "distinct (map f (concat (map F (take i cs @ cs ! i # drop (Suc i) cs))))" using assms(1) by simp
  then have "f ` set (concat (map F (take i cs))) \<inter> f ` set (F (cs ! i)) = {}"
    by (simp add: Int_Un_distrib)
  moreover have "cs ! j \<in> set (take i cs)" using assms(2,3) by (auto simp: in_set_conv_nth)
  ultimately show ?thesis using assms(4) by auto
qed

lemma tn_get_at:
  "node_at t pos = Some n \<Longrightarrow> distinct (tn_hashes p t) \<Longrightarrow> tn_get p (vb_hash p (tn_value n)) t = Some pos"
proof (induction t pos rule: tn_path.induct)
  case (1 t)
  then show ?case by (cases n) simp
next
  case (2 v cs i pos)
  let ?h = "vb_hash p (tn_value n)"
  have i: "i < length cs" and n: "node_at (cs ! i) pos = Some n" using 2(2) by (auto split: if_splits)
  have dist: "distinct (map (vb_hash p) (concat (map tn_values cs)))" using 2(3) by simp
  have mem: "tn_value n \<in> set (tn_values (cs ! i))" using node_at_values [OF n] tn_value_in by blast
  have "tn_value n \<in> set (concat (map tn_values cs))" using mem i nth_mem by fastforce
  then have "vb_hash p v \<noteq> ?h" using 2(3) by (auto simp: image_iff)
  moreover have "tn_get_children p ?h 0 cs = Some ((0 + i) # pos)"
  proof (rule tn_get_children_at [OF i])
    show "tn_get p ?h (cs ! j) = None" if "j < i" for j
      using hash_elsewhere [OF dist i that mem] by (simp add: tn_get_None)
    have "distinct (tn_hashes p (cs ! i))"
      using dist i by (simp add: map_concat comp_def distinct_concat_iff)
    then show "tn_get p ?h (cs ! i) = Some pos" by (rule 2(1) [OF i n])
  qed
  ultimately show ?case by simp
qed

lemma forest_get_at:
  "i < length ts \<Longrightarrow> node_at (ts ! i) pos = Some n \<Longrightarrow> distinct (forest_hashes p ts) \<Longrightarrow>
     forest_get p (vb_hash p (tn_value n)) k ts = Some (k + i, pos)"
proof (induction ts arbitrary: i k)
  case (Cons t ts)
  show ?case
  proof (cases i)
    case 0
    then show ?thesis using Cons.prems tn_get_at [of t pos n p] by simp
  next
    case (Suc i')
    have n: "node_at (ts ! i') pos = Some n" and i': "i' < length ts" using Cons.prems Suc by auto
    have "tn_value n \<in> set (tn_values (ts ! i'))" using node_at_values [OF n] tn_value_in by blast
    then have "vb_hash p (tn_value n) \<notin> set (tn_hashes p t)"
      using hash_elsewhere [of "vb_hash p" tn_values "t # ts" "Suc i'" 0 "tn_value n"] Cons.prems i'
      by (simp add: forest_values_def)
    then have "tn_get p (vb_hash p (tn_value n)) t = None" by (simp add: tn_get_None)
    then show ?thesis using Cons.IH [OF i' n, of "Suc k"] Cons.prems(3) Suc by simp
  qed
qed simp

text \<open>The head a block is produced on: the finalized block of an empty forest, or a node of the forest.\<close>

lemma with_head_cases:
  assumes inv: "chain_inv cfg ch" and head: "with_head cfg ch = (st, prev)"
  obtains (finalized) "ch_forktrees ch = []" and "st = finalized_state cfg ch" and "prev = ch_finalized ch"
  | (node) i pos n where "i < length (ch_forktrees ch)" and "node_at (ch_forktrees ch ! i) pos = Some n"
      and "st = overlayed_get (finalized_state cfg ch) (tn_state (ch_forktrees ch ! i) pos)"
      and "prev = ProducedBlock (vb_produced (tn_value n))"
      and "forest_get (cfg_params cfg) (vb_hash (cfg_params cfg) (tn_value n)) 0 (ch_forktrees ch) = Some (i, pos)"
proof (cases "ch_forktrees ch = []")
  case True
  then show thesis using head by (intro finalized) (simp_all add: with_head_def sorted_heads_def Let_def)
next
  case False
  let ?heads = "map (\<lambda>root. (root, tn_head root [] root)) (ch_forktrees ch)"
  have "set (sorted_heads ch) = set ?heads" by (simp add: sorted_heads_def)
  moreover have ne: "sorted_heads ch \<noteq> []" using calculation False by force
  moreover obtain root pos where last: "last (sorted_heads ch) = (root, pos)" by (cases "last (sorted_heads ch)")
  ultimately have root: "root \<in> set (ch_forktrees ch)" and pos: "pos = tn_head root [] root"
    using last_in_set [OF ne] by auto
  obtain i where i: "i < length (ch_forktrees ch)" "ch_forktrees ch ! i = root"
    using root by (auto simp: in_set_conv_nth)
  obtain n where n: "node_at root pos = Some n" using tn_head_leaf [of root "[]" root] pos by auto
  then have "node_ref root pos = n" using node_at_path by fastforce
  moreover have "distinct (forest_hashes (cfg_params cfg) (ch_forktrees ch))" using inv by (simp add: chain_inv_def)
  ultimately show thesis
    using head ne last i n forest_get_at [of i "ch_forktrees ch" pos n "cfg_params cfg" 0]
    by (intro node [of i pos n]) (auto simp: with_head_def Let_def)
qed

lemma produceE:
  assumes "produce p fuel vm st prev pr = Some pr'"
  obtains txs out votes mp where "take_transactions (bp_crypto p) (max_block_transactions (pr_limits pr))
        (snd (take_votes (pr_mempool pr))) = (txs, mp)"
    and "votes = fst (take_votes (pr_mempool pr))"
    and "execute_block fuel vm st txs = ret out"
    and "pr' = pr\<lparr>pr_mempool := mp, pr_pending := Some (produced_new p (pr_keypair pr) (any_height prev + 1)
           (any_hash p prev) txs (bo_hash (bp_crypto p) out) votes)\<rparr>"
  using assms by (auto simp: produce_def Let_def split: prod.splits option.splits sum.splits)

lemma produced_new_verifies:
  "signing_correct (bp_crypto p) \<Longrightarrow> block_verify_signature p (produced_new p keypair height parent d state_hash votes)"
  by (simp add: signing_correct_def block_verify_signature_def block_hash_new) (simp add: produced_new_def Let_def)

text \<open>The chain accepts a block produced on its head: the same state gives the same output hash.\<close>

lemma try_include_produced:
  assumes inv: "chain_inv cfg ch" and run: "cfg_run cfg = execute_block fuel vm"
    and head: "with_head cfg ch = (st, prev)"
    and out: "execute_block fuel vm st txs = ret out"
    and b: "b = produced_new (cfg_params cfg) keypair (any_height prev + 1) (any_hash (cfg_params cfg) prev) txs
        (bo_hash (cfg_crypto cfg) out) votes"
  shows "\<exists>ch'. try_include cfg b ch = ret (None, ch')"
proof (cases "get_block_node cfg ch (block_hash (cfg_params cfg) b) = None")
  case True
  let ?e = "\<lparr>ex_underlying = b, ex_output = out\<rparr>"
  have fields: "bl_parent b = any_hash (cfg_params cfg) prev" "bl_height b = any_height prev + 1"
    "bl_state_hash b = bo_hash (cfg_crypto cfg) out" "bl_data b = txs"
    by (simp_all add: b produced_new_def Let_def)
  have e: "executed_new (cfg_crypto cfg) (cfg_run cfg) st b = ret ?e"
    using out by (simp add: executed_new_ret run fields)
  show ?thesis
    using inv head
  proof (cases rule: with_head_cases)
    case finalized
    then show ?thesis using True fields e by (simp add: try_include_def Let_def)
  next
    case (node i pos n)
    have n: "node_ref (ch_forktrees ch ! i) pos = n" using node_at_path [OF node(2)] by auto
    have "vb_hash (cfg_params cfg) (tn_value n) \<in> set (forest_hashes (cfg_params cfg) (ch_forktrees ch))"
      using forest_get_None node(5) by (metis option.distinct(1))
    then have "vb_hash (cfg_params cfg) (tn_value n) \<noteq> finalized_hash cfg ch"
      using inv by (auto simp: chain_inv_def)
    moreover have "add_child (cfg_params cfg) (ch_forktrees ch ! i) pos (volatile_new ?e) \<noteq> None"
      using fields node(2,4) by (simp add: add_child_def volatile_new_def)
    ultimately show ?thesis
      using True fields e node n by (auto simp: try_include_def Let_def)
  qed
qed (simp add: try_include_def Let_def)

lemma include_one_produced:
  assumes inv: "chain_inv cfg ch" and run: "cfg_run cfg = execute_block fuel vm"
    and head: "with_head cfg ch = (st, prev)"
    and sign: "signing_correct (cfg_crypto cfg)"
    and el: "eligible cfg (ch_stakes ch) (ed_public (cfg_crypto cfg) (pr_keypair pr))"
    and above: "finalized_height ch < any_height prev + 1" and epochs: "g_epoch_blocks (cfg_genesis cfg) \<noteq> 0"
    and prod: "produce (cfg_params cfg) fuel vm st prev pr = Some pr'"
  shows "\<exists>b bs ch'. pr_pending pr' = Some b \<and> include_one cfg now b ch = Some (bs, ch')
    \<and> get_block_node cfg ch' (block_hash (cfg_params cfg) b) \<noteq> None"
  using prod
proof (cases rule: produceE)
  case (1 txs out votes mp)
  define b where "b = produced_new (cfg_params cfg) (pr_keypair pr) (any_height prev + 1)
    (any_hash (cfg_params cfg) prev) txs (bo_hash (cfg_crypto cfg) out) votes"
  let ?h = "block_hash (cfg_params cfg) b"
  obtain ch1 where ch1: "try_include cfg b ch = ret (None, ch1)"
    using try_include_produced [OF inv run head 1(3) b_def] by blast
  have found: "get_block_node cfg ch1 ?h \<noteq> None"
  proof (cases "get_block_node cfg ch ?h")
    case None
    then show ?thesis
      using try_include_lookup [OF ch1] by (auto simp: chain_get_def get_block_node_def split: option.splits)
  next
    case (Some x)
    then have "ch1 = ch" using ch1 by (simp add: try_include_def Let_def)
    with Some show ?thesis by simp
  qed
  have "commit_and_vote cfg ?h ch1 \<noteq> None"
    using epochs by (simp add: commit_and_vote_def epoch_def Let_def split: option.split prod.split)
  then obtain ch2 where ch2: "(if ?h = any_hash (cfg_params cfg) (snd (with_head cfg ch1))
      then commit_and_vote cfg ?h ch1 else Some ch1) = Some ch2"
    by (cases "?h = any_hash (cfg_params cfg) (snd (with_head cfg ch1))") auto
  then have "ch_forktrees ch2 = ch_forktrees ch1 \<and> ch_finalized ch2 = ch_finalized ch1"
    by (auto split: if_splits dest: commit_and_vote_frame)
  then have found2: "get_block_node cfg (ch2\<lparr>ch_orphans := os\<rparr>) ?h \<noteq> None" for os
    using found by (simp add: get_block_node_None)
  have "fst (bl_signature b) = ed_public (cfg_crypto cfg) (pr_keypair pr)" "bl_height b = any_height prev + 1"
    by (simp_all add: b_def produced_new_def Let_def)
  moreover have "block_verify_signature (cfg_params cfg) b" unfolding b_def by (rule produced_new_verifies [OF sign])
  ultimately have "\<exists>bs os. include_one cfg now b ch = Some (bs, ch2\<lparr>ch_orphans := os\<rparr>)"
    using el above ch1 ch2 by (auto simp: include_one_def eligible_def Let_def not_le split: prod.split)
  moreover have "pr_pending pr' = Some b" using 1(4) by (simp add: b_def)
  ultimately show ?thesis using found2 by blast
qed

section \<open>The order check on a produced block\<close>

lemma successively_concat:
  assumes "\<And>g. g \<in> set gs \<Longrightarrow> successively P g" and "sorted_wrt (\<lambda>g h. \<forall>x \<in> set g. \<forall>y \<in> set h. P x y) gs"
  shows "successively P (concat gs)"
  using assms
proof (induction gs)
  case (Cons g gs)
  have "P (last g) (hd (concat gs))" if "g \<noteq> []" "concat gs \<noteq> []"
    using Cons.prems(2) last_in_set [OF that(1)] hd_in_set [OF that(2)] by auto
  moreover have "successively P (concat gs)" using Cons.prems by (intro Cons.IH) auto
  ultimately show ?case using Cons.prems(1) [of g] by (auto simp: successively_append_iff)
qed simp

lemma successively_take: "successively P xs \<Longrightarrow> successively P (take n xs)"
  by (metis append_take_drop_id successively_append_iff)

lemma verify_order_successively:
  assumes "successively (\<lambda>prev tx. \<not> is_within_payer_group tx prev) txs"
  shows "verify_transactions_order c txs"
proof (cases txs)
  case (Cons first rest)
  have "verify_order_loop c first None rest"
    using assms unfolding Cons by (intro verify_order_loop_new_groups) (auto simp: successively_conv_nth)
  then show ?thesis by (simp add: verify_transactions_order_def Cons)
qed (simp add: verify_transactions_order_def)

lemma group_by_keys: "g \<in> set (group_by f xs) \<Longrightarrow> x \<in> set g \<Longrightarrow> f x = f (hd g)"
proof (induction xs arbitrary: g x)
  case (Cons y ys)
  show ?case
  proof (cases "group_by f ys")
    case Nil
    then show ?thesis using Cons.prems by simp
  next
    case (Cons h hs)
    then have "z \<in> set h \<Longrightarrow> f z = f (hd h)" "k \<in> set hs \<Longrightarrow> z \<in> set k \<Longrightarrow> f z = f (hd k)" for z k
      using Cons.IH by auto
    then show ?thesis using Cons.prems Cons by (auto split: if_splits)
  qed
qed simp

text \<open>Within a group the nonces ascend, so the check never sees a successor that counts down.\<close>

lemma ascending_not_within:
  assumes "sorted (map tx_nonce g)" and "\<And>tx. tx \<in> set g \<Longrightarrow> tx_nonce tx \<noteq> u64_max"
  shows "successively (\<lambda>prev tx. \<not> is_within_payer_group tx prev) g"
proof -
  have "\<not> is_within_payer_group (g ! Suc i) (g ! i)" if "Suc i < length g" for i
  proof
    assume "is_within_payer_group (g ! Suc i) (g ! i)"
    then have eq: "tx_nonce (g ! Suc i) = tx_nonce (g ! i) - 1" by (simp add: is_within_payer_group_def)
    moreover have "tx_nonce (g ! i) \<le> tx_nonce (g ! Suc i)"
      using assms(1) that by (auto simp: sorted_iff_nth_Suc)
    ultimately have "tx_nonce (g ! i) < 1" using sub_wrap [of "tx_nonce (g ! i)" 1] by auto
    then have "tx_nonce (g ! i) = 0" by (simp add: word_less_nat_alt unat_eq_0)
    then have "tx_nonce (g ! Suc i) = u64_max" using eq by (simp add: u64_max_def)
    then show False using assms(2) that by (meson nth_mem)
  qed
  then show ?thesis by (auto simp: successively_conv_nth)
qed

text \<open>The iteration of the map visits the transactions of each payer in one run.\<close>

definition payers_together :: "mempool \<Rightarrow> bool" where
  "payers_together mp \<longleftrightarrow> distinct (map (tx_payer \<circ> hd) (group_by tx_payer (map snd (mp_txs mp))))"

lemma taken_in_order:
  assumes inv: "mempool_inv c mp" and together: "payers_together mp"
    and nonces: "\<And>tx. tx \<in> set (map snd (mp_txs mp)) \<Longrightarrow> tx_nonce tx \<noteq> u64_max"
  shows "verify_transactions_order c' (fst (take_transactions c n mp))"
proof -
  let ?gs = "group_by tx_payer (map snd (mp_txs mp))"
  let ?out = "map snd (fold (insert_group c) ?gs [])"
  let ?P = "\<lambda>prev tx. \<not> is_within_payer_group tx prev"
  have m: "mset ?out = mset (map (sort_key tx_nonce) ?gs)"
    using fold_insert_groups [OF group_by_nonempty group_heads_distinct [OF inv], of "[]"] by simp
  then have set_out: "set ?out = sort_key tx_nonce ` set ?gs" by (metis set_map set_mset_mset)
  have gs: "set g \<subseteq> set (map snd (mp_txs mp))" if "g \<in> set ?gs" for g
    using that concat_group_by [of tx_payer "map snd (mp_txs mp)"] by (metis UN_upper set_concat)
  have payer: "tx_payer x = tx_payer (hd h)" if h: "h \<in> set ?out" and x: "x \<in> set h" for h x
  proof -
    obtain g where g: "g \<in> set ?gs" "h = sort_key tx_nonce g" using h unfolding set_out by auto
    then have "g \<noteq> []" using group_by_nonempty by metis
    then have "hd h \<in> set g" "x \<in> set g" using g(2) x hd_sort_key_in by auto
    then show ?thesis using group_by_keys [OF g(1)] by metis
  qed
  have "tx_payer (hd (sort_key tx_nonce g)) = tx_payer (hd g)" if "g \<in> set ?gs" for g
    using group_by_keys [OF that hd_sort_key_in] that group_by_nonempty by metis
  then have "map (tx_payer \<circ> hd) (map (sort_key tx_nonce) ?gs) = map (tx_payer \<circ> hd) ?gs" by simp
  moreover have "mset (map (tx_payer \<circ> hd) ?out) = mset (map (tx_payer \<circ> hd) (map (sort_key tx_nonce) ?gs))"
    using m by (metis mset_map)
  ultimately have "distinct (map (tx_payer \<circ> hd) ?out)"
    using together unfolding payers_together_def by (metis mset_eq_imp_distinct_iff)
  then have "sorted_wrt (\<lambda>g h. tx_payer (hd g) \<noteq> tx_payer (hd h)) ?out"
    by (simp add: distinct_conv_nth sorted_wrt_iff_nth_less)
  then have "sorted_wrt (\<lambda>g h. \<forall>x \<in> set g. \<forall>y \<in> set h. ?P x y) ?out"
  proof (rule sorted_wrt_mono_rel [rotated])
    fix g h
    assume *: "g \<in> set ?out" "h \<in> set ?out" "tx_payer (hd g) \<noteq> tx_payer (hd h)"
    have "tx_payer y \<noteq> tx_payer x" if "x \<in> set g" "y \<in> set h" for x y
      using *(3) payer [OF *(1) that(1)] payer [OF *(2) that(2)] by simp
    then show "\<forall>x \<in> set g. \<forall>y \<in> set h. ?P x y" by (auto simp: is_within_payer_group_def)
  qed
  moreover have "successively ?P h" if h: "h \<in> set ?out" for h
  proof -
    obtain g where "g \<in> set ?gs" "h = sort_key tx_nonce g" using h unfolding set_out by auto
    then show ?thesis using gs nonces by (intro ascending_not_within) auto
  qed
  ultimately have "successively ?P (ordered_transactions c mp)"
    unfolding ordered_transactions_def by (intro successively_concat)
  then have "successively ?P (take n (ordered_transactions c mp))" by (rule successively_take)
  then show ?thesis by (simp add: take_transactions_def Let_def verify_order_successively)
qed

section \<open>Producing and reusing\<close>

text \<open>The invariant of the producer: its transactions also respect the limits of the genesis block.\<close>

definition producer_inv :: "crypto \<Rightarrow> producer \<Rightarrow> bool" where
  "producer_inv c pr \<longleftrightarrow> mempool_inv c (pr_mempool pr)
     \<and> (\<forall>h tx. map_of (mp_txs (pr_mempool pr)) h = Some tx \<longrightarrow> tx_verify_limits tx (pr_limits pr) = Inr ())"

lemma producer_inv_new [simp]: "producer_inv c (producer_new g keypair)"
  by (simp add: producer_inv_def producer_new_def) (simp add: mempool_new_def)

lemma producer_inv_vote: "producer_inv c pr \<Longrightarrow> producer_inv c (record_vote v pr)"
  by (auto simp: producer_inv_def mempool_inv_record) (auto simp: record_vote_def add_vote_def split: if_splits)

lemma producer_inv_transaction: "producer_inv c pr \<Longrightarrow> producer_inv c (record_transaction c tx pr)"
  by (auto simp: producer_inv_def mempool_inv_record)
    (auto simp: record_transaction_def add_transaction_def map_of_hm_insert split: sum.splits if_splits)

lemma producer_inv_reuse: "producer_inv c pr \<Longrightarrow> producer_inv c (reuse_discarded c b pr)"
proof -
  have votes: "producer_inv c pr \<Longrightarrow> producer_inv c (fold record_vote vs pr)" for vs pr
    by (induction vs arbitrary: pr) (simp_all add: producer_inv_vote)
  have txs: "producer_inv c pr \<Longrightarrow> producer_inv c (fold (record_transaction c) ts pr)" for ts pr
    by (induction ts arbitrary: pr) (simp_all add: producer_inv_transaction)
  assume "producer_inv c pr"
  then show ?thesis unfolding reuse_discarded_def by (intro votes txs)
qed

lemma producer_inv_consume: "producer_inv c pr \<Longrightarrow> producer_inv c (producer_consume c e commit pr)"
  by (auto simp: producer_inv_def mempool_inv_consume)
    (auto simp: producer_consume_def Let_def map_of_fold_hm_remove split: commitment.splits if_splits)

lemma producer_inv_poll: "producer_inv c pr \<Longrightarrow> producer_inv c (snd (producer_poll pr))"
  by (simp add: producer_inv_def producer_poll_def)

lemma take_transactions_map:
  "take_transactions c n mp = (txs, mp') \<Longrightarrow>
     map_of (mp_txs mp') h = (if h \<in> tx_hash c ` set txs then None else map_of (mp_txs mp) h)"
  by (auto simp: take_transactions_def Let_def map_of_fold_hm_remove)

lemma take_transactions_votes: "take_transactions c n mp = (txs, mp') \<Longrightarrow>
    mp_votes mp' = mp_votes mp \<and> mp_validators mp' = mp_validators mp"
  by (auto simp: take_transactions_def Let_def)

lemma producer_inv_produce:
  assumes "producer_inv (bp_crypto p) pr" and "produce p fuel vm st prev pr = Some pr'"
  shows "producer_inv (bp_crypto p) pr'"
  using assms(2)
proof (cases rule: produceE)
  case (1 txs out votes mp)
  have "mempool_inv (bp_crypto p) mp"
    using assms(1) mempool_inv_take [OF mempool_inv_take_votes] 1(1) unfolding producer_inv_def by (metis snd_conv)
  then show ?thesis
    using assms(1) take_transactions_map [OF 1(1)] unfolding 1(4) producer_inv_def
    by (auto simp: take_votes_def split: if_splits)
qed

text \<open>Recording what is valid puts it back.\<close>

lemma record_votes_eq:
  assumes "\<And>v. v \<in> set vs \<Longrightarrow> vote_validator v \<in> mp_validators (pr_mempool pr)"
  shows "fold record_vote vs pr = pr\<lparr>pr_mempool := (pr_mempool pr)\<lparr>mp_votes :=
      fold (\<lambda>(k, v). hm_insert k v) (map (\<lambda>v. (vote_signature v, v)) vs) (mp_votes (pr_mempool pr))\<rparr>\<rparr>"
  using assms by (induction vs arbitrary: pr) (simp_all add: record_vote_def add_vote_def)

lemma record_transactions_eq:
  assumes "\<And>tx. tx \<in> set txs \<Longrightarrow> tx_verify_limits tx (pr_limits pr) = Inr () \<and> tx_verify_signatures c tx = Inr ()"
  shows "fold (record_transaction c) txs pr = pr\<lparr>pr_mempool := (pr_mempool pr)\<lparr>mp_txs :=
      fold (\<lambda>(k, v). hm_insert k v) (map (\<lambda>tx. (tx_hash c tx, tx)) txs) (mp_txs (pr_mempool pr))\<rparr>\<rparr>"
  using assms by (induction txs arbitrary: pr) (simp_all add: record_transaction_def add_transaction_def)

lemma map_of_rev_hm: "hm_invar m \<Longrightarrow> map_of (rev m) = map_of m"
  by (simp add: hm_invar_def map_of_inject_set rev_map [symmetric])

lemma keyed_values:
  assumes "hm_invar m" and "\<And>k v. map_of m k = Some v \<Longrightarrow> k = f v"
  shows "map (\<lambda>v. (f v, v)) (map snd m) = m"
proof -
  have "f (snd e) = fst e" if "e \<in> set m" for e
    using assms(2) [of "fst e" "snd e"] map_of_is_SomeI [of m "fst e" "snd e"] assms(1) that by (simp add: hm_invar_def)
  then show ?thesis by (induction m) auto
qed

lemma taken_stored:
  assumes inv: "mempool_inv c mp" and take: "take_transactions c n mp = (txs, mp')" and tx: "tx \<in> set txs"
  shows "map_of (mp_txs mp) (tx_hash c tx) = Some tx"
proof -
  have inv': "hm_invar (mp_txs mp)" using inv by (simp add: mempool_inv_def)
  have "mset txs + mset (map snd (mp_txs mp')) = mset (map snd (mp_txs mp))"
    by (rule take_transactions_partition [OF inv take])
  then have "set txs \<subseteq> set (map snd (mp_txs mp))" by (metis Un_upper1 set_mset_mset set_mset_union)
  then have "(tx_hash c tx, tx) \<in> set (map (\<lambda>tx. (tx_hash c tx, tx)) (map snd (mp_txs mp)))" using tx by force
  also have "map (\<lambda>tx. (tx_hash c tx, tx)) (map snd (mp_txs mp)) = mp_txs mp"
    using inv' by (rule keyed_values) (use inv in \<open>simp add: mempool_inv_def\<close>)
  finally show ?thesis using inv' by (simp add: hm_invar_def)
qed

lemma taken_put_back:
  assumes inv: "mempool_inv c mp" and take: "take_transactions c n mp = (txs, mp')"
  shows "map_of (fold (\<lambda>(k, v). hm_insert k v) (map (\<lambda>tx. (tx_hash c tx, tx)) txs) (mp_txs mp')) h = map_of (mp_txs mp) h"
proof -
  let ?kvs = "rev (map (\<lambda>tx. (tx_hash c tx, tx)) txs)"
  have "mempool_inv c mp'" using mempool_inv_take [OF inv, of n] take by simp
  then have "hm_invar (mp_txs mp')" by (simp add: mempool_inv_def)
  then have eq: "map_of (fold (\<lambda>(k, v). hm_insert k v) (map (\<lambda>tx. (tx_hash c tx, tx)) txs) (mp_txs mp')) h =
      (case map_of ?kvs h of None \<Rightarrow> map_of (mp_txs mp') h | Some v \<Rightarrow> Some v)" by (rule hashmap.look_fold_ins)
  show ?thesis
  proof (cases "map_of ?kvs h")
    case None
    then have "h \<notin> tx_hash c ` set txs" by (simp add: map_of_eq_None_iff image_image)
    then show ?thesis using eq None take_transactions_map [OF take] by simp
  next
    case (Some tx)
    then have "tx \<in> set txs" "h = tx_hash c tx" by (auto dest: map_of_SomeD)
    then show ?thesis using eq Some taken_stored [OF inv take] by simp
  qed
qed

lemma votes_put_back:
  assumes inv: "mempool_inv c mp"
  shows "map_of (fold (\<lambda>(k, v). hm_insert k v) (map (\<lambda>v. (vote_signature v, v)) (fst (take_votes mp))) []) s =
    map_of (mp_votes mp) s"
proof -
  have hv: "hm_invar (mp_votes mp)" using inv by (simp add: mempool_inv_def)
  have "map (\<lambda>v. (vote_signature v, v)) (map snd (mp_votes mp)) = mp_votes mp"
    using hv by (rule keyed_values) (use inv in \<open>simp add: mempool_inv_def\<close>)
  then have "map (\<lambda>v. (vote_signature v, v)) (fst (take_votes mp)) = mp_votes mp" by (simp add: take_votes_def)
  then show ?thesis by (simp only: hashmap.look_fold_ins hm_invar_Nil map_of_rev_hm [OF hv]) (simp split: option.split)
qed

text \<open>A discarded block gives the mempool back what its production took.\<close>

lemma reuse_produced:
  assumes inv: "producer_inv (bp_crypto p) pr" and prod: "produce p fuel vm st prev pr = Some pr'"
    and b: "pr_pending pr' = Some b"
  shows "map_of (mp_votes (pr_mempool (reuse_discarded (bp_crypto p) b pr'))) s = map_of (mp_votes (pr_mempool pr)) s"
    and "map_of (mp_txs (pr_mempool (reuse_discarded (bp_crypto p) b pr'))) h = map_of (mp_txs (pr_mempool pr)) h"
proof -
  let ?c = "bp_crypto p" and ?mp = "pr_mempool pr"
  obtain txs votes mp where tk: "take_transactions ?c (max_block_transactions (pr_limits pr)) (snd (take_votes ?mp)) = (txs, mp)"
    and votes: "votes = fst (take_votes ?mp)" and b': "bl_votes b = votes" "bl_data b = txs"
    and pr': "pr_mempool pr' = mp" "pr_limits pr' = pr_limits pr"
    using prod by (rule produceE) (use b in \<open>auto simp: produced_new_def Let_def\<close>)
  have mi: "mempool_inv ?c ?mp" using inv by (simp add: producer_inv_def)
  note mi' = mempool_inv_take_votes [OF mi]
  have tv: "mp_votes mp = []" "mp_validators mp = mp_validators ?mp" and st: "mp_txs (snd (take_votes ?mp)) = mp_txs ?mp"
    using take_transactions_votes [OF tk] by (simp_all add: take_votes_def)
  have vv: "vote_validator v \<in> mp_validators (pr_mempool pr')" if "v \<in> set votes" for v
    using mi that unfolding votes pr' tv by (force simp: mempool_inv_def hm_invar_def take_votes_def)
  have vt: "tx_verify_limits tx (pr_limits pr) = Inr () \<and> tx_verify_signatures ?c tx = Inr ()" if "tx \<in> set txs" for tx
    using taken_stored [OF mi' tk that] inv unfolding st by (simp add: producer_inv_def mempool_inv_def)
  have rv: "fold record_vote votes pr' = pr'\<lparr>pr_mempool := mp\<lparr>mp_votes :=
      fold (\<lambda>(k, v). hm_insert k v) (map (\<lambda>v. (vote_signature v, v)) votes) []\<rparr>\<rparr>"
    by (subst record_votes_eq) (use vv in \<open>simp_all add: pr' tv\<close>)
  have eq: "reuse_discarded ?c b pr' = pr'\<lparr>pr_mempool := mp
      \<lparr>mp_votes := fold (\<lambda>(k, v). hm_insert k v) (map (\<lambda>v. (vote_signature v, v)) votes) [],
       mp_txs := fold (\<lambda>(k, v). hm_insert k v) (map (\<lambda>tx. (tx_hash ?c tx, tx)) txs) (mp_txs mp)\<rparr>\<rparr>"
    unfolding reuse_discarded_def b' rv by (subst record_transactions_eq) (simp_all add: vt pr')
  show "map_of (mp_votes (pr_mempool (reuse_discarded ?c b pr'))) s = map_of (mp_votes ?mp) s"
    unfolding eq votes by (simp add: votes_put_back [OF mi] del: fold_simps)
  show "map_of (mp_txs (pr_mempool (reuse_discarded ?c b pr'))) h = map_of (mp_txs ?mp) h"
    unfolding eq using taken_put_back [OF mi' tk] by (simp add: st)
qed

end
