(* ===== verification/Rensa_Blockstore.thy ===== *)
theory Rensa_Blockstore
  imports Rensa_Producer
begin

text \<open>
  \<open>src/storage/blocks.rs\<close>: the database of confirmed and finalized blocks.

  A \<open>sled\<close> tree is an ordered map from byte strings to byte strings; blocks and outputs are kept under the
  big-endian bytes of their height. The \<open>bincode\<close> serializer is a parameter. An operation that writes returns
  \<open>Inl s\<close> when it panics, with the database \<open>s\<close> as the panic leaves it; one that reads returns \<open>None\<close> when
  it panics. Errors of the disk, on which every operation panics, are left out. The three parts of \<open>consume\<close> have no
  suspension point, so that \<open>tokio::join!\<close> runs them one after the other.
\<close>

section \<open>Heights as keys\<close>

text \<open>\<open>u64::to_be_bytes\<close> and \<open>u64::from_be_bytes\<close> (\<open>None\<close> is the panic on a wrong length).\<close>

definition be_bytes :: "u64 \<Rightarrow> bytes" where
  "be_bytes w = rev (le_bytes w)"

definition from_be_bytes :: "bytes \<Rightarrow> u64 option" where
  "from_be_bytes bs = (if length bs = 8 then Some (of_nat (fold (\<lambda>b n. 256 * n + unat b) bs 0)) else None)"

section \<open>State\<close>

record executed_transaction =
  et_block :: u64
  et_transaction :: transaction
  et_output :: "contract_error + (string \<times> string) list"

record block_codec =
  enc_block :: "transaction list produced \<Rightarrow> bytes"
  dec_block :: "bytes \<Rightarrow> transaction list produced option"
  enc_output :: "block_output \<Rightarrow> bytes"
  dec_output :: "bytes \<Rightarrow> block_output option"
  enc_tx :: "executed_transaction \<Rightarrow> bytes"
  dec_tx :: "bytes \<Rightarrow> executed_transaction option"

type_synonym sled_tree = "(bytes, bytes) btree_map"

record block_store =
  bs_detailed :: bool
  bs_history_len :: u64
  bs_confirmed :: sled_tree
  bs_finalized :: sled_tree
  bs_outputs :: sled_tree
  bs_hashes :: sled_tree
  bs_transactions :: sled_tree

text \<open>What \<open>BlockStore::new\<close> opens on an empty directory.\<close>

definition block_store_new :: "u64 \<Rightarrow> bool \<Rightarrow> block_store" where
  "block_store_new history_len detailed =
     \<lparr>bs_detailed = detailed, bs_history_len = history_len, bs_confirmed = [], bs_finalized = [],
      bs_outputs = [], bs_hashes = [], bs_transactions = []\<rparr>"

section \<open>Queries\<close>

definition tree_last :: "block_codec \<Rightarrow> sled_tree \<Rightarrow> transaction list produced option" where
  "tree_last k tree = (if tree = [] then None else dec_block k (snd (last tree)))"

definition bs_latest :: "block_codec \<Rightarrow> commitment \<Rightarrow> block_store \<Rightarrow> transaction list produced option" where
  "bs_latest k commit s =
     (case commit of
        Included \<Rightarrow> None
      | Confirmed \<Rightarrow> tree_last k (bs_confirmed s)
      | Finalized \<Rightarrow> tree_last k (bs_finalized s))"

definition bs_get_by_height ::
    "block_codec \<Rightarrow> u64 \<Rightarrow> block_store \<Rightarrow> (transaction list executed \<times> commitment) option option" where
  "bs_get_by_height k height s =
     (let key = be_bytes height;
          block = (case map_of (bs_confirmed s) key of
              Some v \<Rightarrow> map_option (\<lambda>b. Some (b, Confirmed)) (dec_block k v)
            | None \<Rightarrow> (case map_of (bs_finalized s) key of
                Some v \<Rightarrow> map_option (\<lambda>b. Some (b, Finalized)) (dec_block k v)
              | None \<Rightarrow> Some None))
      in case block of
           None \<Rightarrow> None
         | Some None \<Rightarrow> Some None
         | Some (Some (b, commit)) \<Rightarrow>
             (case map_of (bs_outputs s) key of
                None \<Rightarrow> Some None
              | Some v \<Rightarrow> map_option (\<lambda>out. Some (executed_recreate b out, commit)) (dec_output k v)))"

definition bs_get_by_hash ::
    "block_codec \<Rightarrow> multihash \<Rightarrow> block_store \<Rightarrow> (transaction list executed \<times> commitment) option option" where
  "bs_get_by_hash k h s =
     (case map_of (bs_hashes s) h of
        None \<Rightarrow> Some None
      | Some v \<Rightarrow> (case from_be_bytes v of None \<Rightarrow> None | Some height \<Rightarrow> bs_get_by_height k height s))"

definition bs_get_block_commitment :: "u64 \<Rightarrow> block_store \<Rightarrow> commitment option" where
  "bs_get_block_commitment height s =
     (if map_of (bs_confirmed s) (be_bytes height) \<noteq> None then Some Confirmed
      else if map_of (bs_finalized s) (be_bytes height) \<noteq> None then Some Finalized
      else None)"

definition bs_get_transaction :: "block_codec \<Rightarrow> multihash \<Rightarrow> block_store \<Rightarrow> executed_transaction option option" where
  "bs_get_transaction k h s =
     (if \<not> bs_detailed s then None
      else case map_of (bs_transactions s) h of
             None \<Rightarrow> Some None
           | Some v \<Rightarrow> map_option Some (dec_tx k v))"

section \<open>Storing a block\<close>

type_synonym written = "block_store + block_store"

definition then_write :: "written \<Rightarrow> (block_store \<Rightarrow> written) \<Rightarrow> written" where
  "then_write r f = (case r of Inl s \<Rightarrow> Inl s | Inr s \<Rightarrow> f s)"

definition store_raw_block ::
    "block_codec \<Rightarrow> transaction list produced \<Rightarrow> commitment \<Rightarrow> block_store \<Rightarrow> written" where
  "store_raw_block k b commit s =
     (let key = be_bytes (bl_height b)
      in case commit of
           Included \<Rightarrow> Inr s
         | Confirmed \<Rightarrow> Inr (s\<lparr>bs_confirmed := bt_insert key (enc_block k b) (bs_confirmed s)\<rparr>)
         | Finalized \<Rightarrow>
             let latest_height = (case bs_latest k commit s of Some l \<Rightarrow> bl_height l | None \<Rightarrow> 0)
             in if bl_height b \<noteq> latest_height + 1 then Inl s
                else Inr (s\<lparr>bs_confirmed := bt_remove key (bs_confirmed s),
                            bs_finalized := bt_insert key (enc_block k b) (bs_finalized s)\<rparr>))"

text \<open>The record of one transaction; \<open>None\<close> is the \<open>unwrap\<close> on a transaction with neither error nor logs.\<close>

definition executed_tx :: "crypto \<Rightarrow> transaction list executed \<Rightarrow> transaction \<Rightarrow> executed_transaction option" where
  "executed_tx c e tx =
     (let txhash = tx_hash c tx;
          output = (case map_of (bo_errors (ex_output e)) txhash of
              Some err \<Rightarrow> Some (Inl err)
            | None \<Rightarrow> map_option Inr (map_of (bo_logs (ex_output e)) txhash))
      in map_option (\<lambda>out. \<lparr>et_block = bl_height (ex_underlying e), et_transaction = tx, et_output = out\<rparr>) output)"

primrec tx_batch :: "block_codec \<Rightarrow> crypto \<Rightarrow> transaction list executed \<Rightarrow> transaction list
    \<Rightarrow> (bytes \<times> bytes) list option" where
  "tx_batch k c e [] = Some []"
| "tx_batch k c e (tx # txs) =
     (case executed_tx c e tx of
        None \<Rightarrow> None
      | Some et \<Rightarrow> map_option (\<lambda>rest. (tx_hash c tx, enc_tx k et) # rest) (tx_batch k c e txs))"

text \<open>The attribute \<open>serde(skip)\<close> on the executable flag of an account: it is not written.\<close>

definition skip_executable :: "block_output \<Rightarrow> block_output" where
  "skip_executable out = out\<lparr>bo_state := (bo_state out)\<lparr>sd_data :=
     map (\<lambda>(addr, acc). (addr, acc\<lparr>acc_executable := False\<rparr>)) (sd_data (bo_state out))\<rparr>\<rparr>"

definition store_outputs :: "block_codec \<Rightarrow> crypto \<Rightarrow> transaction list executed \<Rightarrow> block_store \<Rightarrow> written" where
  "store_outputs k c e s =
     (if \<not> bs_detailed s then Inl s
      else let key = be_bytes (bl_height (ex_underlying e));
               s' = (if map_of (bs_outputs s) key = None
                     then s\<lparr>bs_outputs := bt_insert key (enc_output k (skip_executable (ex_output e))) (bs_outputs s)\<rparr> else s)
           in case tx_batch k c e (bl_data (ex_underlying e)) of
                None \<Rightarrow> Inl s'
              | Some batch \<Rightarrow> Inr (s'\<lparr>bs_transactions := fold (\<lambda>(h, v). bt_insert h v) batch (bs_transactions s')\<rparr>))"

section \<open>Pruning\<close>

text \<open>\<open>tree.range(zero..height)\<close>\<close>

definition tree_range :: "bytes \<Rightarrow> bytes \<Rightarrow> sled_tree \<Rightarrow> (bytes \<times> bytes) list" where
  "tree_range lo hi tree = filter (\<lambda>(h, _). lo \<le> h \<and> h < hi) tree"

text \<open>
  The closure \<open>prune_tree\<close>, on the tree that \<open>upd\<close> updates: each entry is removed, and a block takes its
  hash and its transactions with it.
\<close>

primrec prune_entries ::
    "block_codec \<Rightarrow> transaction list block_params \<Rightarrow> ((sled_tree \<Rightarrow> sled_tree) \<Rightarrow> block_store \<Rightarrow> block_store) \<Rightarrow> bool
     \<Rightarrow> (bytes \<times> bytes) list \<Rightarrow> block_store \<Rightarrow> written" where
  "prune_entries k p upd isblock [] s = Inr s"
| "prune_entries k p upd isblock (e # es) s =
     (let s1 = upd (bt_remove (fst e)) s
      in if \<not> isblock then prune_entries k p upd isblock es s1
         else case dec_block k (snd e) of
                None \<Rightarrow> Inl s1
              | Some b \<Rightarrow>
                  let s2 = s1\<lparr>bs_hashes := bt_remove (block_hash p b) (bs_hashes s1)\<rparr>;
                      s3 = (if bs_detailed s2
                            then s2\<lparr>bs_transactions :=
                              fold (\<lambda>tx. bt_remove (tx_hash (bp_crypto p) tx)) (bl_data b) (bs_transactions s2)\<rparr>
                            else s2)
                  in prune_entries k p upd isblock es s3)"

definition prune_tree ::
    "block_codec \<Rightarrow> transaction list block_params \<Rightarrow> (block_store \<Rightarrow> sled_tree)
     \<Rightarrow> ((sled_tree \<Rightarrow> sled_tree) \<Rightarrow> block_store \<Rightarrow> block_store) \<Rightarrow> u64 \<Rightarrow> bool \<Rightarrow> block_store \<Rightarrow> written" where
  "prune_tree k p tree upd height isblock s =
     prune_entries k p upd isblock (tree_range (be_bytes 0) (be_bytes height) (tree s)) s"

definition prune_older_than :: "block_codec \<Rightarrow> transaction list block_params \<Rightarrow> u64 \<Rightarrow> block_store \<Rightarrow> written" where
  "prune_older_than k p height s =
     (if height > 0 then
        then_write (if bs_detailed s then prune_tree k p bs_outputs bs_outputs_update height False s else Inr s) (\<lambda>s1.
        then_write (prune_tree k p bs_confirmed bs_confirmed_update height True s1) (\<lambda>s2.
        prune_tree k p bs_finalized bs_finalized_update height True s2))
      else Inr s)"

section \<open>Consuming blocks\<close>

definition bs_consume ::
    "block_codec \<Rightarrow> transaction list block_params \<Rightarrow> transaction list executed \<Rightarrow> commitment \<Rightarrow> block_store \<Rightarrow> written" where
  "bs_consume k p e commit s =
     (let b = ex_underlying e; height = saturating_sub (bl_height b) (bs_history_len s)
      in if commit = Included then Inr s
         else then_write (store_raw_block k b commit s) (\<lambda>s1.
           then_write (if bs_detailed s then store_outputs k (bp_crypto p) e s1 else Inr s1) (\<lambda>s2.
           then_write (prune_older_than k p height s2) (\<lambda>s3.
             let hashkey = block_hash p b
             in Inr (if map_of (bs_hashes s3) hashkey = None
                     then s3\<lparr>bs_hashes := bt_insert hashkey (be_bytes (bl_height b)) (bs_hashes s3)\<rparr>
                     else s3)))))"

section \<open>Keys\<close>

text \<open>The \<open>n\<close> lowest base-256 digits of a number, highest first.\<close>

primrec be_nat :: "nat \<Rightarrow> nat \<Rightarrow> bytes" where
  "be_nat 0 x = []"
| "be_nat (Suc n) x = of_nat (x div 256 ^ n) # be_nat n x"

lemma mod_power_Suc: "x mod 256 ^ Suc n = 256 ^ n * (x div 256 ^ n mod 256) + x mod (256 ^ n :: nat)"
  using mod_mult2_eq [of x "256 ^ n" 256] by (simp add: mult.commute)

lemma unat_of_nat_byte: "unat (of_nat m :: byte) = m mod 256"
  by (simp add: unsigned_of_nat take_bit_nat_def)

lemma mod_mult_div: "x mod (b * c) div b = x div b mod (c::nat)"
proof (cases "b = 0")
  case False
  have "x mod (b * c) = b * (x div b mod c) + x mod b" by (rule mod_mult2_eq)
  then show ?thesis using False by simp
qed simp

lemma less_div_mod: "(x::nat) < y \<longleftrightarrow> x div b < y div b \<or> x div b = y div b \<and> x mod b < y mod b"
proof (cases "x div b" "y div b" rule: linorder_cases)
  case equal
  have "x = b * (x div b) + x mod b" "y = b * (y div b) + y mod b" by simp_all
  then show ?thesis using equal by (metis nat_add_left_cancel_less less_irrefl)
qed (use div_le_mono linorder_not_less in \<open>metis less_imp_not_less less_irrefl\<close>)+

lemma be_nat_mod: "n \<le> m \<Longrightarrow> be_nat n (x mod 256 ^ m) = be_nat n x"
proof (induction n)
  case (Suc n)
  have "(256 ^ m :: nat) = 256 ^ n * 256 ^ (m - n)" using Suc.prems by (simp flip: power_add)
  then have "x mod 256 ^ m div 256 ^ n = x div 256 ^ n mod 256 ^ (m - n)" by (simp only: mod_mult_div)
  moreover have "(256 :: nat) dvd 256 ^ (m - n)" using Suc.prems by simp
  ultimately have "x mod 256 ^ m div 256 ^ n mod 256 = x div 256 ^ n mod 256" by (simp add: mod_mod_cancel)
  then have "(of_nat (x mod 256 ^ m div 256 ^ n) :: byte) = of_nat (x div 256 ^ n)"
    by (simp only: word_unat_eq_iff unat_of_nat_byte)
  then show ?case using Suc by simp
qed simp

lemma be_nat_less: "x < 256 ^ n \<Longrightarrow> y < 256 ^ n \<Longrightarrow> be_nat n x < be_nat n y \<longleftrightarrow> x < y"
proof (induction n arbitrary: x y)
  case (Suc n)
  let ?B = "256 ^ n :: nat"
  have digit: "unat (of_nat (z div ?B) :: byte) = z div ?B" if "z < 256 ^ Suc n" for z
  proof -
    have "z div ?B < 256" using that by (simp add: less_mult_imp_div_less)
    then show ?thesis by (simp add: unsigned_of_nat take_bit_nat_eq_self)
  qed
  have "be_nat n x < be_nat n y \<longleftrightarrow> x mod ?B < y mod ?B"
    using Suc.IH [of "x mod ?B" "y mod ?B"] by (simp add: be_nat_mod)
  moreover have "x < y \<longleftrightarrow> x div ?B < y div ?B \<or> x div ?B = y div ?B \<and> x mod ?B < y mod ?B"
    by (rule less_div_mod)
  ultimately show ?case
    using digit [OF Suc.prems(1)] digit [OF Suc.prems(2)] by (simp add: word_less_nat_alt word_unat_eq_iff)
qed simp

lemma unat_64: "unat (w :: u64) < 2 ^ 64"
  using unsigned_less [of w] by simp

lemma be_bytes_nat: "be_bytes w = be_nat 8 (unat w)"
proof -
  have "(ucast (drop_bit (8 * i) w) :: byte) = of_nat (unat w div 256 ^ i)" for i
    unfolding word_unat_eq_iff unat_of_nat_byte
    by (simp add: unsigned_ucast_eq unsigned_drop_bit_eq take_bit_nat_def drop_bit_nat_def power_mult)
      (use unat_64 [of w] in simp)
  moreover have "rev (map (\<lambda>i. of_nat (x div 256 ^ i)) [0..<n]) = be_nat n x" for x n by (induction n) simp_all
  ultimately show ?thesis by (simp only: be_bytes_def le_bytes_def)
qed

text \<open>The order of the keys is the order of the heights.\<close>

lemma be_bytes_less: "be_bytes a < be_bytes b \<longleftrightarrow> a < b"
  using be_nat_less [of "unat a" 8 "unat b"] unat_64 [of a] unat_64 [of b]
  by (simp add: be_bytes_nat word_less_nat_alt)

lemma be_bytes_eq [simp]: "be_bytes a = be_bytes b \<longleftrightarrow> a = b"
  using be_bytes_less by (metis linorder_less_linear order_less_irrefl)

lemma fold_be_nat: "fold (\<lambda>b m. 256 * m + unat b) (be_nat n x) a = a * 256 ^ n + x mod 256 ^ n"
proof (induction n arbitrary: a)
  case (Suc n)
  show ?case using Suc mod_power_Suc [of x n] by (simp add: unat_of_nat_byte algebra_simps)
qed simp

lemma from_be_bytes [simp]: "from_be_bytes (be_bytes w) = Some w"
proof -
  have "length (be_bytes w) = 8" by (simp add: be_bytes_def)
  then show ?thesis
    using fold_be_nat [of 8 "unat w" 0] unat_64 [of w] by (simp add: from_be_bytes_def be_bytes_nat)
qed
lemma be_bytes_le: "be_bytes a \<le> be_bytes b \<longleftrightarrow> a \<le> b"
  using be_bytes_less [of b a] by (meson linorder_not_less)

section \<open>Pruning removes a range\<close>

definition removed_blocks :: "block_codec \<Rightarrow> bool \<Rightarrow> (bytes \<times> bytes) list \<Rightarrow> transaction list produced list" where
  "removed_blocks k isblock es = (if isblock then map (the \<circ> dec_block k \<circ> snd) es else [])"

definition decodable :: "block_codec \<Rightarrow> (bytes \<times> bytes) list \<Rightarrow> bool" where
  "decodable k es \<longleftrightarrow> list_all (\<lambda>e. dec_block k (snd e) \<noteq> None) es"

text \<open>What the pruning loop needs of the tree it works on.\<close>

locale tree_field =
  fixes get :: "block_store \<Rightarrow> sled_tree"
    and upd :: "(sled_tree \<Rightarrow> sled_tree) \<Rightarrow> block_store \<Rightarrow> block_store"
  assumes upd_id: "upd (\<lambda>t. t) s = s"
    and upd_get: "upd f s = upd (\<lambda>_. f (get s)) s"
    and upd_upd: "upd f (upd g s) = upd (\<lambda>t. f (g t)) s"
    and upd_hashes: "upd f (s\<lparr>bs_hashes := t\<rparr>) = (upd f s)\<lparr>bs_hashes := t\<rparr>"
    and upd_transactions: "upd f (s\<lparr>bs_transactions := t\<rparr>) = (upd f s)\<lparr>bs_transactions := t\<rparr>"
    and upd_frame: "bs_detailed (upd f s) = bs_detailed s" "bs_hashes (upd f s) = bs_hashes s"
      "bs_transactions (upd f s) = bs_transactions s"
begin

text \<open>When every block decodes the loop ends and has removed all entries, their hashes and transactions.\<close>

lemma prune_entries_eq:
  "(isblock \<longrightarrow> decodable k es) \<Longrightarrow>
     prune_entries k p upd isblock es s =
       Inr ((upd (fold bt_remove (map fst es)) s)
         \<lparr>bs_hashes := fold bt_remove (map (block_hash p) (removed_blocks k isblock es)) (bs_hashes s),
          bs_transactions := (if bs_detailed s
            then fold bt_remove (map (tx_hash (bp_crypto p)) (concat (map bl_data (removed_blocks k isblock es)))) (bs_transactions s)
            else bs_transactions s)\<rparr>)"
proof (induction es arbitrary: s)
  case Nil
  have "s\<lparr>bs_hashes := bs_hashes s, bs_transactions := bs_transactions s\<rparr> = s" by simp
  then show ?case by (simp add: removed_blocks_def upd_id id_def)
next
  case (Cons e es)
  then show ?case
    by (auto simp: removed_blocks_def decodable_def upd_upd upd_hashes upd_transactions upd_frame Let_def fold_map comp_def)
qed

lemmas prune_entries_set = prune_entries_eq [unfolded upd_get [of "fold bt_remove ks" for ks]]

end

interpretation outputs: tree_field bs_outputs bs_outputs_update
  by (unfold_locales; case_tac s) simp_all

interpretation confirmed: tree_field bs_confirmed bs_confirmed_update
  by (unfold_locales; case_tac s) simp_all

interpretation finalized: tree_field bs_finalized bs_finalized_update
  by (unfold_locales; case_tac s) simp_all

section \<open>The invariant\<close>

text \<open>What the serializer promises: what was written is read back.\<close>

definition block_codec_ok :: "block_codec \<Rightarrow> bool" where
  "block_codec_ok k \<longleftrightarrow> (\<forall>b. dec_block k (enc_block k b) = Some b) \<and> (\<forall>out. dec_output k (enc_output k out) = Some out)
     \<and> (\<forall>et. dec_tx k (enc_tx k et) = Some et)"

definition values_ok :: "('a \<Rightarrow> bytes) \<Rightarrow> sled_tree \<Rightarrow> bool" where
  "values_ok enc t \<longleftrightarrow> bt_invar t \<and> (\<forall>key v. map_of t key = Some v \<longrightarrow> v \<in> range enc)"

text \<open>Blocks are kept under their height.\<close>

definition blocks_ok :: "block_codec \<Rightarrow> sled_tree \<Rightarrow> bool" where
  "blocks_ok k t \<longleftrightarrow>
     bt_invar t \<and> (\<forall>key v. map_of t key = Some v \<longrightarrow> (\<exists>b. v = enc_block k b \<and> key = be_bytes (bl_height b)))"

definition has_height :: "sled_tree \<Rightarrow> u64 \<Rightarrow> bool" where
  "has_height t h \<longleftrightarrow> map_of t (be_bytes h) \<noteq> None"

definition contiguous :: "sled_tree \<Rightarrow> bool" where
  "contiguous t \<longleftrightarrow> (\<forall>a b h. has_height t a \<longrightarrow> has_height t b \<longrightarrow> a \<le> h \<longrightarrow> h \<le> b \<longrightarrow> has_height t h)"

definition bs_inv :: "block_codec \<Rightarrow> block_store \<Rightarrow> bool" where
  "bs_inv k s \<longleftrightarrow>
     blocks_ok k (bs_confirmed s) \<and> blocks_ok k (bs_finalized s) \<and> contiguous (bs_finalized s)
     \<and> values_ok (enc_output k) (bs_outputs s) \<and> values_ok be_bytes (bs_hashes s)
     \<and> values_ok (enc_tx k) (bs_transactions s)"

lemma bs_inv_new [simp]: "bs_inv k (block_store_new n detailed)"
  by (simp add: bs_inv_def block_store_new_def blocks_ok_def values_ok_def contiguous_def has_height_def)

lemma values_ok_insert: "values_ok enc t \<Longrightarrow> values_ok enc (bt_insert key (enc x) t)"
  by (auto simp: values_ok_def btree.look_ins btree.invar_ins)

lemma values_ok_remove: "values_ok enc t \<Longrightarrow> values_ok enc (bt_remove key t)"
  by (auto simp: values_ok_def btree.look_del btree.invar_del)

lemma values_ok_fold_remove: "values_ok enc t \<Longrightarrow> values_ok enc (fold bt_remove keys t)"
  by (induction keys arbitrary: t) (auto simp: values_ok_remove)

lemma blocks_ok_insert: "blocks_ok k t \<Longrightarrow> blocks_ok k (bt_insert (be_bytes (bl_height b)) (enc_block k b) t)"
  by (auto simp: blocks_ok_def btree.look_ins btree.invar_ins)

lemma blocks_ok_remove: "blocks_ok k t \<Longrightarrow> blocks_ok k (bt_remove key t)"
  by (auto simp: blocks_ok_def btree.look_del btree.invar_del)

lemma blocks_ok_fold_remove: "blocks_ok k t \<Longrightarrow> blocks_ok k (fold bt_remove keys t)"
  by (induction keys arbitrary: t) (auto simp: blocks_ok_remove)

lemma blocks_ok_decode:
  assumes "block_codec_ok k" and "blocks_ok k t"
  shows "decodable k (tree_range lo hi t)"
proof -
  have "dec_block k (snd e) \<noteq> None" if "e \<in> set t" for e
  proof -
    have "map_of t (fst e) = Some (snd e)"
      using assms(2) that by (auto simp: blocks_ok_def bt_invar_def strict_sorted_iff)
    then show ?thesis using assms unfolding blocks_ok_def block_codec_ok_def by (metis option.distinct(1))
  qed
  then show ?thesis by (auto simp: decodable_def list_all_iff tree_range_def)
qed

lemma map_of_pruned:
  assumes "bt_invar m"
  shows "map_of (fold bt_remove (map fst (tree_range lo hi m)) m) key = (if lo \<le> key \<and> key < hi then None else map_of m key)"
proof -
  have "key \<in> set (map fst (tree_range lo hi m)) \<longleftrightarrow> lo \<le> key \<and> key < hi \<and> map_of m key \<noteq> None"
    by (force simp: tree_range_def map_of_eq_None_iff)
  then show ?thesis using assms by (auto simp: btree.look_fold_del)
qed

lemma has_height_pruned:
  "bt_invar m \<Longrightarrow> has_height (fold bt_remove (map fst (tree_range (be_bytes 0) (be_bytes h) m)) m) a \<longleftrightarrow> has_height m a \<and> h \<le> a"
  by (auto simp: has_height_def map_of_pruned be_bytes_le be_bytes_less)

text \<open>The blocks of a tree below a height, which pruning removes.\<close>

definition pruned_blocks :: "block_codec \<Rightarrow> u64 \<Rightarrow> sled_tree \<Rightarrow> transaction list produced list" where
  "pruned_blocks k h t = removed_blocks k True (tree_range (be_bytes 0) (be_bytes h) t)"

definition prune_range :: "u64 \<Rightarrow> sled_tree \<Rightarrow> sled_tree" where
  "prune_range h t = fold bt_remove (map fst (tree_range (be_bytes 0) (be_bytes h) t)) t"

definition forget_hashes :: "transaction list block_params \<Rightarrow> transaction list produced list \<Rightarrow> sled_tree \<Rightarrow> sled_tree" where
  "forget_hashes p bs t = fold bt_remove (map (block_hash p) bs) t"

definition forget_transactions ::
    "transaction list block_params \<Rightarrow> bool \<Rightarrow> transaction list produced list \<Rightarrow> sled_tree \<Rightarrow> sled_tree" where
  "forget_transactions p detailed bs t =
     (if detailed then fold bt_remove (map (tx_hash (bp_crypto p)) (concat (map bl_data bs))) t else t)"

text \<open>Pruning a well-formed database never panics, and this is what it leaves.\<close>

lemma prune_older_than_eq:
  assumes k: "block_codec_ok k" and inv: "bs_inv k s"
  shows "prune_older_than k p h s =
    (let gone = pruned_blocks k h (bs_confirmed s) @ pruned_blocks k h (bs_finalized s)
     in Inr (if h = 0 then s
         else s\<lparr>bs_confirmed := prune_range h (bs_confirmed s), bs_finalized := prune_range h (bs_finalized s),
                bs_outputs := (if bs_detailed s then prune_range h (bs_outputs s) else bs_outputs s),
                bs_hashes := forget_hashes p gone (bs_hashes s),
                bs_transactions := forget_transactions p (bs_detailed s) gone (bs_transactions s)\<rparr>))"
proof -
  have dec: "decodable k (tree_range lo hi (bs_confirmed s))" "decodable k (tree_range lo hi (bs_finalized s))" for lo hi
    using blocks_ok_decode [OF k] inv by (auto simp: bs_inv_def)
  show ?thesis
    by (cases "bs_detailed s"; cases "h = 0")
      (simp_all add: prune_older_than_def prune_tree_def then_write_def outputs.prune_entries_set Let_def
        confirmed.prune_entries_set finalized.prune_entries_set dec
        pruned_blocks_def prune_range_def forget_hashes_def forget_transactions_def removed_blocks_def word_neq_0_conv)
qed

lemma contiguous_prune: "blocks_ok k t \<Longrightarrow> contiguous t \<Longrightarrow> contiguous (prune_range h t)"
  by (auto simp: contiguous_def prune_range_def has_height_pruned blocks_ok_def intro: order_trans)

lemma prune_older_than_inv:
  assumes k: "block_codec_ok k" and inv: "bs_inv k s" and pr: "prune_older_than k p h s = Inr s'"
  shows "bs_inv k s'"
proof -
  have "blocks_ok k (prune_range h (bs_confirmed s))" "blocks_ok k (prune_range h (bs_finalized s))"
    "contiguous (prune_range h (bs_finalized s))" "values_ok (enc_output k) (prune_range h (bs_outputs s))"
    "\<And>bs. values_ok be_bytes (forget_hashes p bs (bs_hashes s))"
    "\<And>d bs. values_ok (enc_tx k) (forget_transactions p d bs (bs_transactions s))"
    using inv contiguous_prune
    by (auto simp: bs_inv_def prune_range_def forget_hashes_def forget_transactions_def blocks_ok_fold_remove values_ok_fold_remove)
  then show ?thesis
    using pr inv unfolding prune_older_than_eq [OF k inv] by (auto simp: bs_inv_def Let_def)
qed

section \<open>Storing\<close>

lemma sorted_le_last: "sorted xs \<Longrightarrow> x \<in> set xs \<Longrightarrow> x \<le> last xs"
  by (induction xs) (auto split: if_splits)

text \<open>The last entry of the finalized tree has the greatest height.\<close>

lemma bs_latest_finalized:
  assumes k: "block_codec_ok k" and inv: "bs_inv k s"
  shows "(bs_finalized s = [] \<and> bs_latest k Finalized s = None)
    \<or> (\<exists>b. bs_latest k Finalized s = Some b \<and> map_of (bs_finalized s) (be_bytes (bl_height b)) = Some (enc_block k b)
         \<and> (\<forall>h. has_height (bs_finalized s) h \<longrightarrow> h \<le> bl_height b))"
proof (cases "bs_finalized s = []")
  case False
  let ?t = "bs_finalized s"
  have sorted: "sorted_wrt (<) (map fst ?t)" using inv by (simp add: bs_inv_def blocks_ok_def bt_invar_def)
  obtain key v where last: "last ?t = (key, v)" by (cases "last ?t")
  then have "(key, v) \<in> set ?t" using False by (metis last_in_set)
  then have kv: "map_of ?t key = Some v" using sorted by (simp add: strict_sorted_iff)
  then obtain b where b: "v = enc_block k b" "key = be_bytes (bl_height b)" using inv unfolding bs_inv_def blocks_ok_def by blast
  have "x \<le> key" if "x \<in> fst ` set ?t" for x
  proof -
    have "sorted (map fst ?t)" using sorted by (simp add: strict_sorted_iff)
    moreover have "last (map fst ?t) = key" using last False by (simp add: last_map)
    ultimately show ?thesis using that sorted_le_last [of "map fst ?t"] by simp
  qed
  then have "has_height ?t h \<Longrightarrow> h \<le> bl_height b" for h
    unfolding has_height_def b(2) by (metis be_bytes_le map_of_eq_None_iff)
  moreover have "bs_latest k Finalized s = Some b"
    using False last b k by (simp add: bs_latest_def tree_last_def block_codec_ok_def)
  ultimately show ?thesis using kv b by blast
qed (simp add: bs_latest_def tree_last_def)

text \<open>\<open>P\<close> holds of the database a write leaves, whether it panics or not.\<close>

definition written_all :: "(block_store \<Rightarrow> bool) \<Rightarrow> written \<Rightarrow> bool" where
  "written_all P r \<longleftrightarrow> (case r of Inl s \<Rightarrow> P s | Inr s \<Rightarrow> P s)"

lemma written_all_simps [simp]: "written_all P (Inl s) = P s" "written_all P (Inr s) = P s"
  by (simp_all add: written_all_def)

lemma written_all_then:
  "written_all P r \<Longrightarrow> (\<And>s. P s \<Longrightarrow> written_all P (f s)) \<Longrightarrow> written_all P (then_write r f)"
  by (cases r) (simp_all add: then_write_def)

lemma has_height_insert:
  "bt_invar t \<Longrightarrow> has_height (bt_insert (be_bytes h) v t) a \<longleftrightarrow> a = h \<or> has_height t a"
  by (auto simp: has_height_def btree.look_ins)

lemma word_less_inc:
  assumes "l + 1 \<noteq> 0"
  shows "x < l + 1 \<longleftrightarrow> x \<le> (l::u64)"
proof -
  have "l \<noteq> - 1" using assms by auto
  then show ?thesis using inc_less_eq_iff [of l x] by (meson linorder_not_less)
qed

text \<open>Every write keeps the invariant, also the part of it done before a panic.\<close>

definition latest_height :: "block_codec \<Rightarrow> block_store \<Rightarrow> u64" where
  "latest_height k s = (case bs_latest k Finalized s of Some l \<Rightarrow> bl_height l | None \<Rightarrow> 0)"

lemma contiguous_append:
  assumes k: "block_codec_ok k" and inv: "bs_inv k s" and nz: "latest_height k s + 1 \<noteq> 0"
  shows "contiguous (bt_insert (be_bytes (latest_height k s + 1)) v (bs_finalized s))"
proof -
  let ?l = "latest_height k s" and ?t = "bs_finalized s"
  have fin: "bt_invar ?t" "contiguous ?t" using inv by (simp_all add: bs_inv_def blocks_ok_def)
  have le: "a \<le> ?l \<and> has_height ?t ?l" if "has_height ?t a" for a
    using bs_latest_finalized [OF k inv] that by (auto simp: has_height_def latest_height_def)
  have "has_height ?t x \<or> x = ?l + 1" if "a \<le> x" "x \<le> ?l + 1" "has_height ?t a" for a x
  proof (cases "x = ?l + 1")
    case False
    then have "x \<le> ?l" using that(2) word_less_inc [OF nz, of x] by (simp add: order_less_le)
    then show ?thesis using fin(2) le that unfolding contiguous_def by blast
  qed simp
  moreover have "\<not> (?l + 1 \<le> a)" if "has_height ?t a" for a
    using le [OF that] word_less_inc [OF nz, of a] by (simp add: linorder_not_le)
  ultimately show ?thesis
    using fin(2) unfolding contiguous_def has_height_insert [OF fin(1)] by (blast intro: order.antisym dest: order_trans)
qed

lemma store_raw_block_inv:
  assumes k: "block_codec_ok k" and inv: "bs_inv k s" and h: "commit = Finalized \<longrightarrow> bl_height b \<noteq> 0"
  shows "written_all (bs_inv k) (store_raw_block k b commit s)"
proof (cases commit)
  case Finalized
  show ?thesis
  proof (cases "bl_height b = latest_height k s + 1")
    case True
    have "blocks_ok k (bt_insert (be_bytes (bl_height b)) (enc_block k b) (bs_finalized s))"
      using inv by (simp add: bs_inv_def blocks_ok_insert)
    moreover have "contiguous (bt_insert (be_bytes (bl_height b)) (enc_block k b) (bs_finalized s))"
      using contiguous_append [OF k inv] h True Finalized by simp
    ultimately show ?thesis
      using inv Finalized True
      by (simp add: store_raw_block_def Let_def bs_inv_def blocks_ok_remove flip: latest_height_def)
  qed (use inv Finalized in \<open>simp add: store_raw_block_def Let_def flip: latest_height_def\<close>)
qed (use inv in \<open>auto simp: store_raw_block_def Let_def bs_inv_def blocks_ok_insert\<close>)

lemma tx_batch_values: "tx_batch k c e txs = Some batch \<Longrightarrow> snd ` set batch \<subseteq> range (enc_tx k)"
proof (induction txs arbitrary: batch)
  case (Cons tx txs)
  then obtain et rest where "tx_batch k c e txs = Some rest" "batch = (tx_hash c tx, enc_tx k et) # rest"
    by (auto split: option.splits)
  then show ?case using Cons.IH by simp
qed simp

lemma values_ok_batch:
  "values_ok enc t \<Longrightarrow> snd ` set batch \<subseteq> range enc \<Longrightarrow> values_ok enc (fold (\<lambda>(h, v). bt_insert h v) batch t)"
  by (induction batch arbitrary: t) (auto simp: values_ok_insert)

lemma store_outputs_inv:
  assumes "bs_inv k s"
  shows "written_all (bs_inv k) (store_outputs k c e s)"
  using assms tx_batch_values [of k c e "bl_data (ex_underlying e)"]
  by (auto simp: store_outputs_def written_all_def Let_def bs_inv_def values_ok_insert values_ok_batch split: option.split)

lemma bs_consume_inv:
  assumes k: "block_codec_ok k" and inv: "bs_inv k s" and h: "commit = Finalized \<longrightarrow> bl_height (ex_underlying e) \<noteq> 0"
  shows "written_all (bs_inv k) (bs_consume k p e commit s)"
proof -
  have prune: "written_all (bs_inv k) (prune_older_than k p x s2)" if "bs_inv k s2" for x s2
    using prune_older_than_inv [OF k that, of p x] by (simp add: prune_older_than_eq [OF k that] Let_def)
  have hash: "bs_inv k (s3\<lparr>bs_hashes := bt_insert x (be_bytes y) (bs_hashes s3)\<rparr>)" if "bs_inv k s3" for s3 x y
    using that by (simp add: bs_inv_def values_ok_insert)
  have out: "written_all (bs_inv k) (if bs_detailed s then store_outputs k (bp_crypto p) e s1 else Inr s1)"
    if "bs_inv k s1" for s1
    using store_outputs_inv [OF that] that by simp
  show ?thesis
    unfolding bs_consume_def Let_def using inv out prune hash
    by (auto intro!: written_all_then store_raw_block_inv [OF k inv h])
qed

section \<open>When consuming panics\<close>

text \<open>Every transaction of an executed block has logs or an error.\<close>

definition outputs_complete :: "crypto \<Rightarrow> transaction list executed \<Rightarrow> bool" where
  "outputs_complete c e \<longleftrightarrow> list_all (\<lambda>tx. executed_tx c e tx \<noteq> None) (bl_data (ex_underlying e))"

definition has_output :: "block_output \<Rightarrow> multihash \<Rightarrow> bool" where
  "has_output out h \<longleftrightarrow> map_of (bo_errors out) h \<noteq> None \<or> map_of (bo_logs out) h \<noteq> None"

lemma execute_transaction_output:
  "execute_transaction fuel vm st tx acc = Some acc' \<Longrightarrow>
     has_output acc h \<or> h = tx_hash (vm_crypto vm) tx \<Longrightarrow> has_output acc' h"
  by (auto simp: has_output_def execute_transaction_def Let_def map_of_hm_insert split: option.splits sum.splits if_split_asm)

lemma execute_transactions_output:
  "execute_transactions fuel vm st txs acc = Some out \<Longrightarrow>
     has_output acc h \<or> h \<in> tx_hash (vm_crypto vm) ` set txs \<Longrightarrow> has_output out h"
proof (induction txs arbitrary: acc)
  case (Cons tx txs)
  obtain acc' where "execute_transaction fuel vm st tx acc = Some acc'"
    and "execute_transactions fuel vm st txs acc' = Some out"
    using Cons.prems(1) by (auto split: option.splits)
  then show ?case using Cons.IH Cons.prems(2) execute_transaction_output by (metis image_insert insert_iff list.simps(15))
qed simp

lemma execute_block_complete:
  assumes "execute_block fuel vm st (bl_data b) = ret out"
  shows "outputs_complete (vm_crypto vm) \<lparr>ex_underlying = b, ex_output = out\<rparr>"
  using execute_transactions_output [OF execute_block_ret [OF assms]]
  by (force simp: outputs_complete_def executed_tx_def has_output_def list_all_iff Let_def split: option.split)

lemma tx_batch_complete: "list_all (\<lambda>tx. executed_tx c e tx \<noteq> None) txs \<Longrightarrow> tx_batch k c e txs \<noteq> None"
  by (induction txs) auto

lemma store_raw_block_frame:
  "store_raw_block k b commit s = Inr s' \<Longrightarrow>
     bs_detailed s' = bs_detailed s \<and> bs_outputs s' = bs_outputs s \<and> bs_hashes s' = bs_hashes s
     \<and> bs_transactions s' = bs_transactions s \<and> bs_history_len s' = bs_history_len s"
  by (cases commit) (auto simp: store_raw_block_def Let_def split: if_splits)

lemma prune_entries_len:
  "(\<And>f s. bs_history_len (upd f s) = bs_history_len s) \<Longrightarrow> prune_entries k p upd isblock es s = Inr s' \<Longrightarrow>
     bs_history_len s' = bs_history_len s"
  by (induction es arbitrary: s) (auto simp: Let_def split: if_splits option.splits)

lemma prune_older_than_len: "prune_older_than k p h s = Inr s' \<Longrightarrow> bs_history_len s' = bs_history_len s"
  by (auto simp: prune_older_than_def prune_tree_def then_write_def split: if_splits sum.splits dest!: prune_entries_len [rotated])

lemma history_len_consume: "bs_consume k p e commit s = Inr s' \<Longrightarrow> bs_history_len s' = bs_history_len s"
  unfolding bs_consume_def
  by (auto simp: then_write_def Let_def store_outputs_def split: if_splits sum.splits option.splits
      dest!: prune_older_than_len store_raw_block_frame)

text \<open>The database after a block was consumed without a panic, before its hash is recorded.\<close>

lemma bs_consumeE:
  assumes k: "block_codec_ok k" and inv: "bs_inv k s" and h: "commit = Finalized \<longrightarrow> bl_height (ex_underlying e) \<noteq> 0"
    and ok: "bs_consume k p e commit s = Inr s'" and commit: "commit \<noteq> Included"
  obtains s1 s2 s3 where "store_raw_block k (ex_underlying e) commit s = Inr s1"
    and "(if bs_detailed s then store_outputs k (bp_crypto p) e s1 else Inr s1) = Inr s2" and "bs_inv k s2"
    and "prune_older_than k p (saturating_sub (bl_height (ex_underlying e)) (bs_history_len s)) s2 = Inr s3"
    and "s' = (if map_of (bs_hashes s3) (block_hash p (ex_underlying e)) = None
         then s3\<lparr>bs_hashes := bt_insert (block_hash p (ex_underlying e)) (be_bytes (bl_height (ex_underlying e))) (bs_hashes s3)\<rparr>
         else s3)"
proof -
  obtain s1 where s1: "store_raw_block k (ex_underlying e) commit s = Inr s1"
    using ok commit by (cases "store_raw_block k (ex_underlying e) commit s") (auto simp: bs_consume_def then_write_def Let_def)
  obtain s2 where s2: "(if bs_detailed s then store_outputs k (bp_crypto p) e s1 else Inr s1) = Inr s2"
    using ok commit s1 by (cases "if bs_detailed s then store_outputs k (bp_crypto p) e s1 else Inr s1")
      (auto simp: bs_consume_def then_write_def Let_def)
  have "bs_inv k s1" using store_raw_block_inv [OF k inv h] s1 by simp
  then have "bs_inv k s2" using store_outputs_inv [of k s1 "bp_crypto p" e] s2 by (auto split: if_splits)
  then obtain s3 where "prune_older_than k p (saturating_sub (bl_height (ex_underlying e)) (bs_history_len s)) s2 = Inr s3"
    by (simp add: prune_older_than_eq [OF k] Let_def)
  then show thesis using that [OF s1 s2 \<open>bs_inv k s2\<close>] ok commit s1 s2 by (auto simp: bs_consume_def then_write_def Let_def)
qed

lemma bs_consume_detailed:
  assumes "block_codec_ok k" and "bs_inv k s" and "commit = Finalized \<longrightarrow> bl_height (ex_underlying e) \<noteq> 0"
    and "bs_consume k p e commit s = Inr s'" and "commit \<noteq> Included"
  shows "bs_detailed s' = bs_detailed s"
  using assms
proof (cases rule: bs_consumeE)
  case (1 s1 s2 s3)
  then have "bs_detailed s3 = bs_detailed s"
    using store_raw_block_frame [OF 1(1)]
    by (auto simp: prune_older_than_eq [OF assms(1) 1(3)] store_outputs_def Let_def split: if_splits option.splits)
  then show ?thesis using 1(5) by simp
qed

lemma bs_consume_returns:
  assumes k: "block_codec_ok k" and inv: "bs_inv k s" and nz: "bl_height (ex_underlying e) \<noteq> 0"
    and succ: "commit = Finalized \<longrightarrow> bl_height (ex_underlying e) = latest_height k s + 1"
    and out: "bs_detailed s \<longrightarrow> outputs_complete (bp_crypto p) e"
  shows "\<exists>s'. bs_consume k p e commit s = Inr s'"
proof (cases "commit = Included")
  case False
  obtain s1 where s1: "store_raw_block k (ex_underlying e) commit s = Inr s1"
    using succ by (cases commit) (simp_all add: store_raw_block_def Let_def flip: latest_height_def)
  have d: "bs_detailed s1 = bs_detailed s" using store_raw_block_frame [OF s1] by simp
  obtain s2 where s2: "(if bs_detailed s then store_outputs k (bp_crypto p) e s1 else Inr s1) = Inr s2"
    using out tx_batch_complete [of "bp_crypto p" e "bl_data (ex_underlying e)" k] d
    by (cases "bs_detailed s") (auto simp: store_outputs_def outputs_complete_def Let_def)
  have "bs_inv k s1" using store_raw_block_inv [OF k inv, of commit "ex_underlying e"] nz s1 by simp
  then have "bs_inv k s2" using store_outputs_inv [of k s1 "bp_crypto p" e] s2 by (auto split: if_splits)
  then have "\<exists>s3. prune_older_than k p h s2 = Inr s3" for h by (simp add: prune_older_than_eq [OF k] Let_def)
  then show ?thesis using False s1 s2 by (simp add: bs_consume_def then_write_def Let_def) (metis sum.case(2))
qed (simp add: bs_consume_def)

section \<open>Reading back\<close>

lemma saturating_sub_le: "saturating_sub a b \<le> a"
  by (simp add: word_le_nat_alt unat_saturating_sub)

text \<open>Pruning below a height keeps everything from it on.\<close>

lemma prune_older_than_keeps:
  assumes k: "block_codec_ok k" and inv: "bs_inv k s" and pr: "prune_older_than k p h s = Inr s'" and le: "h \<le> a"
  shows "map_of (bs_confirmed s') (be_bytes a) = map_of (bs_confirmed s) (be_bytes a)"
    and "map_of (bs_finalized s') (be_bytes a) = map_of (bs_finalized s) (be_bytes a)"
    and "map_of (bs_outputs s') (be_bytes a) = map_of (bs_outputs s) (be_bytes a)"
proof -
  have "bt_invar (bs_confirmed s)" "bt_invar (bs_finalized s)" "bt_invar (bs_outputs s)"
    using inv by (auto simp: bs_inv_def blocks_ok_def values_ok_def)
  then have "map_of (prune_range h (bs_confirmed s)) (be_bytes a) = map_of (bs_confirmed s) (be_bytes a)"
    "map_of (prune_range h (bs_finalized s)) (be_bytes a) = map_of (bs_finalized s) (be_bytes a)"
    "map_of (prune_range h (bs_outputs s)) (be_bytes a) = map_of (bs_outputs s) (be_bytes a)"
    using le by (auto simp: prune_range_def map_of_pruned be_bytes_less)
  then show "map_of (bs_confirmed s') (be_bytes a) = map_of (bs_confirmed s) (be_bytes a)"
    "map_of (bs_finalized s') (be_bytes a) = map_of (bs_finalized s) (be_bytes a)"
    "map_of (bs_outputs s') (be_bytes a) = map_of (bs_outputs s) (be_bytes a)"
    using pr by (auto simp: prune_older_than_eq [OF k inv] Let_def)
qed

lemma bs_consume_entries:
  assumes k: "block_codec_ok k" and inv: "bs_inv k s" and h: "commit = Finalized \<longrightarrow> bl_height (ex_underlying e) \<noteq> 0"
    and ok: "bs_consume k p e commit s = Inr s'" and commit: "commit \<noteq> Included"
  shows "map_of (bs_confirmed s') (be_bytes (bl_height (ex_underlying e))) =
      (if commit = Confirmed then Some (enc_block k (ex_underlying e)) else None)"
    and "commit = Finalized \<Longrightarrow>
      map_of (bs_finalized s') (be_bytes (bl_height (ex_underlying e))) = Some (enc_block k (ex_underlying e))"
    and "bs_detailed s \<Longrightarrow> map_of (bs_outputs s') (be_bytes (bl_height (ex_underlying e))) =
      (case map_of (bs_outputs s) (be_bytes (bl_height (ex_underlying e))) of
         None \<Rightarrow> Some (enc_output k (skip_executable (ex_output e))) | Some v \<Rightarrow> Some v)"
  using k inv h ok commit
proof (atomize (full), cases rule: bs_consumeE)
  case (1 s1 s2 s3)
  let ?key = "be_bytes (bl_height (ex_underlying e))"
  have trees: "bt_invar (bs_confirmed s)" "bt_invar (bs_finalized s)" "bt_invar (bs_outputs s)"
    using inv by (auto simp: bs_inv_def blocks_ok_def values_ok_def)
  note keep = prune_older_than_keeps [OF k 1(3,4) saturating_sub_le]
  have s': "bs_confirmed s' = bs_confirmed s3" "bs_finalized s' = bs_finalized s3" "bs_outputs s' = bs_outputs s3"
    using 1(5) by (auto split: if_splits)
  have s2: "bs_confirmed s2 = bs_confirmed s1" "bs_finalized s2 = bs_finalized s1"
    using 1(2) by (auto simp: store_outputs_def Let_def split: if_splits option.splits)
  have "map_of (bs_confirmed s1) ?key = (if commit = Confirmed then Some (enc_block k (ex_underlying e)) else None)"
    "commit = Finalized \<longrightarrow> map_of (bs_finalized s1) ?key = Some (enc_block k (ex_underlying e))"
    using 1(1) trees commit
    by (cases commit; auto simp: store_raw_block_def Let_def btree.look_ins btree.look_del split: if_splits)+
  moreover have "bs_detailed s \<longrightarrow> map_of (bs_outputs s2) ?key =
      (case map_of (bs_outputs s) ?key of None \<Rightarrow> Some (enc_output k (skip_executable (ex_output e))) | Some v \<Rightarrow> Some v)"
    using 1(2) trees(3) store_raw_block_frame [OF 1(1)]
    by (auto simp: store_outputs_def Let_def btree.look_ins split: if_splits option.splits)
  ultimately show "(map_of (bs_confirmed s') ?key = (if commit = Confirmed then Some (enc_block k (ex_underlying e)) else None))
     \<and> (commit = Finalized \<longrightarrow> map_of (bs_finalized s') ?key = Some (enc_block k (ex_underlying e)))
     \<and> (bs_detailed s \<longrightarrow> map_of (bs_outputs s') ?key =
      (case map_of (bs_outputs s) ?key of None \<Rightarrow> Some (enc_output k (skip_executable (ex_output e))) | Some v \<Rightarrow> Some v))"
    unfolding s' keep s2 by simp
qed

text \<open>
  A stored block is read back with its commitment, and with the output that was stored first at its height; the
  accounts of an output have lost their executable flag.
\<close>

lemma bs_consume_lookup:
  assumes k: "block_codec_ok k" and inv: "bs_inv k s" and h: "commit = Finalized \<longrightarrow> bl_height (ex_underlying e) \<noteq> 0"
    and ok: "bs_consume k p e commit s = Inr s'" and commit: "commit \<noteq> Included" and d: "bs_detailed s"
  shows "\<exists>out. bs_get_by_height k (bl_height (ex_underlying e)) s' = Some (Some (e\<lparr>ex_output := out\<rparr>, commit))
    \<and> (case map_of (bs_outputs s) (be_bytes (bl_height (ex_underlying e))) of
         None \<Rightarrow> out = skip_executable (ex_output e) | Some v \<Rightarrow> v = enc_output k out)"
proof -
  note entries = bs_consume_entries [OF k inv h ok commit]
  let ?old = "map_of (bs_outputs s) (be_bytes (bl_height (ex_underlying e)))"
  obtain out where out: "map_of (bs_outputs s') (be_bytes (bl_height (ex_underlying e))) = Some (enc_output k out)"
    "case ?old of None \<Rightarrow> out = skip_executable (ex_output e) | Some v \<Rightarrow> v = enc_output k out"
  proof (cases ?old)
    case None
    then show thesis using entries(3) [OF d] that by simp
  next
    case (Some v)
    then obtain out where "v = enc_output k out" using inv by (auto simp: bs_inv_def values_ok_def)
    then show thesis using entries(3) [OF d] that Some by simp
  qed
  moreover have "commit = Confirmed \<or> commit = Finalized" using commit by (cases commit) auto
  ultimately have "bs_get_by_height k (bl_height (ex_underlying e)) s' = Some (Some (e\<lparr>ex_output := out\<rparr>, commit))"
    using entries(1,2) k by (auto simp: bs_get_by_height_def Let_def block_codec_ok_def executed_recreate_def)
  with out(2) show ?thesis by blast
qed

text \<open>Without details no output is ever stored, and no block is ever found.\<close>

lemma not_detailed_outputs:
  assumes "\<not> bs_detailed s" and "bs_outputs s = []" and k: "block_codec_ok k" and inv: "bs_inv k s"
    and h: "commit = Finalized \<longrightarrow> bl_height (ex_underlying e) \<noteq> 0"
  shows "written_all (\<lambda>s'. \<not> bs_detailed s' \<and> bs_outputs s' = []) (bs_consume k p e commit s)"
proof (cases "store_raw_block k (ex_underlying e) commit s")
  case (Inl s1)
  then show ?thesis using assms
    by (cases commit) (auto simp: bs_consume_def then_write_def store_raw_block_def Let_def split: if_splits)
next
  case (Inr s1)
  have "bs_inv k s1" using store_raw_block_inv [OF k inv h] Inr by simp
  then show ?thesis
    using assms store_raw_block_frame [OF Inr] Inr
    by (auto simp: bs_consume_def then_write_def prune_older_than_eq [OF k] Let_def)
qed

lemma no_outputs_not_found:
  assumes k: "block_codec_ok k" and inv: "bs_inv k s" and "bs_outputs s = []"
  shows "bs_get_by_height k h s = Some None" and "bs_get_by_hash k x s = Some None"
proof -
  have dec: "dec_block k v \<noteq> None" if "map_of (bs_confirmed s) key = Some v \<or> map_of (bs_finalized s) key = Some v" for key v
    using that k inv unfolding bs_inv_def blocks_ok_def block_codec_ok_def by (metis option.distinct(1))
  show *: "bs_get_by_height k h s = Some None" for h
    using dec [of "be_bytes h"] assms(3) by (auto simp: bs_get_by_height_def Let_def split: option.split)
  have "\<exists>w. v = be_bytes w" if "map_of (bs_hashes s) x = Some v" for v
    using inv that unfolding bs_inv_def values_ok_def by blast
  then show "bs_get_by_hash k x s = Some None" using * by (fastforce simp: bs_get_by_hash_def split: option.split)
qed

section \<open>Pruning the finalized tree\<close>

text \<open>Once every finalized block is older than the history kept, no later finalized block is stored.\<close>

lemma bs_consume_trees:
  assumes k: "block_codec_ok k" and inv: "bs_inv k s" and h: "commit = Finalized \<longrightarrow> bl_height (ex_underlying e) \<noteq> 0"
    and ok: "bs_consume k p e commit s = Inr s'" and commit: "commit \<noteq> Included"
  shows "has_height (bs_finalized s') a \<longleftrightarrow>
    (has_height (bs_finalized s) a \<or> commit = Finalized \<and> a = bl_height (ex_underlying e))
    \<and> saturating_sub (bl_height (ex_underlying e)) (bs_history_len s) \<le> a"
  using k inv h ok commit
proof (cases rule: bs_consumeE)
  case (1 s1 s2 s3)
  let ?h = "saturating_sub (bl_height (ex_underlying e)) (bs_history_len s)"
  have fin: "bt_invar (bs_finalized s)" "bt_invar (bs_finalized s2)"
    using inv 1(3) by (auto simp: bs_inv_def blocks_ok_def)
  have "bs_finalized s' = (if ?h = 0 then bs_finalized s2 else prune_range ?h (bs_finalized s2))"
    using 1(4,5) by (auto simp: prune_older_than_eq [OF k 1(3)] Let_def)
  then have s': "has_height (bs_finalized s') a \<longleftrightarrow> has_height (bs_finalized s2) a \<and> ?h \<le> a"
    using has_height_pruned [OF fin(2)] by (auto simp: prune_range_def)
  have "bs_finalized s2 = bs_finalized s1"
    using 1(2) by (auto simp: store_outputs_def Let_def split: if_splits option.splits)
  moreover have "bs_finalized s1 = (if commit = Finalized
      then bt_insert (be_bytes (bl_height (ex_underlying e))) (enc_block k (ex_underlying e)) (bs_finalized s) else bs_finalized s)"
    using 1(1) commit by (cases commit) (auto simp: store_raw_block_def Let_def split: if_splits)
  ultimately show ?thesis using s' by (auto simp: has_height_insert [OF fin(1)])
qed

lemma latest_heightI:
  assumes k: "block_codec_ok k" and inv: "bs_inv k s" and "has_height (bs_finalized s) a"
    and "\<And>h. has_height (bs_finalized s) h \<Longrightarrow> h \<le> a"
  shows "latest_height k s = a"
proof -
  obtain b where b: "bs_latest k Finalized s = Some b" "map_of (bs_finalized s) (be_bytes (bl_height b)) = Some (enc_block k b)"
    "\<forall>h. has_height (bs_finalized s) h \<longrightarrow> h \<le> bl_height b"
    using bs_latest_finalized [OF k inv] assms(3) by (auto simp: has_height_def)
  then have "has_height (bs_finalized s) (bl_height b)" by (simp add: has_height_def)
  then have "bl_height b = a" using assms(3,4) b(3) by (meson order.antisym)
  then show ?thesis by (simp add: latest_height_def b(1))
qed

lemma pruned_finalized_stuck:
  assumes k: "block_codec_ok k" and inv: "bs_inv k s" and ok: "bs_consume k p e Confirmed s = Inr s'"
    and old: "\<And>h. has_height (bs_finalized s) h \<Longrightarrow> h < saturating_sub (bl_height (ex_underlying e)) (bs_history_len s)"
    and e2: "bl_height (ex_underlying e2) \<noteq> 1"
  shows "bs_latest k Finalized s' = None \<and> bs_consume k p e2 Finalized s' = Inl s'"
proof -
  have inv': "bs_inv k s'" using bs_consume_inv [OF k inv, of Confirmed e p] ok by simp
  have "\<not> has_height (bs_finalized s') a" for a
    using bs_consume_trees [OF k inv _ ok, of a] old [of a] by (auto simp: linorder_not_le)
  then have "bs_latest k Finalized s' = None" using bs_latest_finalized [OF k inv'] by (auto simp: has_height_def)
  then show ?thesis using e2 by (simp add: bs_consume_def store_raw_block_def then_write_def Let_def)
qed

text \<open>As long as history is kept, the last finalized block stays the latest.\<close>

lemma latest_after_finalized:
  assumes k: "block_codec_ok k" and inv: "bs_inv k s" and nz: "bl_height (ex_underlying e) \<noteq> 0"
    and ok: "bs_consume k p e Finalized s = Inr s'"
  shows "bs_latest k Finalized s' = Some (ex_underlying e) \<and> latest_height k s' = bl_height (ex_underlying e)"
proof -
  let ?h = "bl_height (ex_underlying e)"
  have inv': "bs_inv k s'" using bs_consume_inv [OF k inv, of Finalized e p] ok nz by simp
  have succ: "?h = latest_height k s + 1"
    using ok by (auto simp: bs_consume_def store_raw_block_def then_write_def Let_def simp flip: latest_height_def split: if_splits)
  have le: "a \<le> ?h" if "has_height (bs_finalized s) a" for a
  proof -
    have "a \<le> latest_height k s"
      using bs_latest_finalized [OF k inv] that by (auto simp: latest_height_def has_height_def)
    then show ?thesis using word_less_inc [of "latest_height k s" a] nz succ by simp
  qed
  note trees = bs_consume_trees [OF k inv _ ok]
  have at: "has_height (bs_finalized s') ?h" using trees nz saturating_sub_le by auto
  moreover have "a \<le> ?h" if "has_height (bs_finalized s') a" for a using trees le nz that by auto
  ultimately have "latest_height k s' = ?h" by (rule latest_heightI [OF k inv'])
  moreover obtain b where b: "bs_latest k Finalized s' = Some b" "map_of (bs_finalized s') (be_bytes (bl_height b)) = Some (enc_block k b)"
    using bs_latest_finalized [OF k inv'] at by (auto simp: has_height_def)
  ultimately have "enc_block k b = enc_block k (ex_underlying e)"
    using bs_consume_entries(2) [OF k inv _ ok] nz by (simp add: latest_height_def)
  then have "b = ex_underlying e" using k unfolding block_codec_ok_def by (metis option.inject)
  then show ?thesis using b \<open>latest_height k s' = ?h\<close> by simp
qed

end
