(* ===== verification/Rensa_Schedule.thy ===== *)
theory Rensa_Schedule
  imports Rensa_Block
begin

text \<open>
  \<open>src/consensus/schedule.rs\<close> and \<open>src/network/responder.rs\<close>: the order in which validators produce
  blocks and the delayed answers to requests for missing blocks.

  The pseudo-random generator and its weighted distribution (\<open>ChaCha20Rng\<close>, \<open>WeightedIndex\<close>) are one argument
  \<open>sample\<close> that maps a generator state to an index and the next state; a random delay is an argument. Clocks
  are arguments too: dates in milliseconds, instants and durations in nanoseconds.
\<close>

section \<open>The schedule\<close>

definition schedule_validators :: "genesis \<Rightarrow> validator list" where
  "schedule_validators g = filter (\<lambda>v. val_stake v \<ge> minimum_stake (g_limits g)) (g_validators g)"

text \<open>\<open>Iterator::next\<close>; \<open>nth\<close> past the end is \<open>None\<close>.\<close>

definition schedule_next :: "('r \<Rightarrow> nat \<times> 'r) \<Rightarrow> genesis \<Rightarrow> 'r \<Rightarrow> validator option \<times> 'r" where
  "schedule_next sample g rng =
     (case sample rng of (i, rng') \<Rightarrow>
        (if i < length (schedule_validators g) then Some (schedule_validators g ! i) else None, rng'))"

record 'r schedule_stream =
  ss_pos :: u64
  ss_turn :: nat       \<comment> \<open>the counter of \<open>enumerate\<close>\<close>
  ss_rng :: 'r

definition schedule_stream_new :: "'r \<Rightarrow> 'r schedule_stream" where
  "schedule_stream_new seed = \<lparr>ss_pos = 0, ss_turn = 0, ss_rng = seed\<rparr>"

text \<open>
  The \<open>for\<close> loop of \<open>poll_next\<close>, at the slot \<open>now\<close> last received from the background task: \<open>None\<close> is
  \<open>unreachable!()\<close>, \<open>Some (None, s)\<close> is a loop that ended because the iterator did.
\<close>

function schedule_catch_up ::
    "('r \<Rightarrow> nat \<times> 'r) \<Rightarrow> genesis \<Rightarrow> u64 \<Rightarrow> 'r schedule_stream
     \<Rightarrow> ((u64 \<times> validator) option \<times> 'r schedule_stream) option" where
  "schedule_catch_up sample g now s =
     (let generator_turn = ss_turn s
      in case schedule_next sample g (ss_rng s) of
           (None, rng') \<Rightarrow> Some (None, s\<lparr>ss_rng := rng'\<rparr>)
         | (Some v, rng') \<Rightarrow>
             let s' = s\<lparr>ss_turn := Suc generator_turn, ss_rng := rng'\<rparr>
             in if generator_turn < unat now then schedule_catch_up sample g now s'
                else if generator_turn = unat now then Some (Some (now, v), s'\<lparr>ss_pos := now\<rparr>)
                else None)"
  by pat_completeness auto
termination
  by (relation "measure (\<lambda>(sample, g, now, s). unat now - ss_turn s)") auto

declare schedule_catch_up.simps [simp del]

definition schedule_poll ::
    "('r \<Rightarrow> nat \<times> 'r) \<Rightarrow> genesis \<Rightarrow> u64 \<Rightarrow> 'r schedule_stream
     \<Rightarrow> ((u64 \<times> validator) option \<times> 'r schedule_stream) option" where
  "schedule_poll sample g now s = (if ss_pos s < now then schedule_catch_up sample g now s else Some (None, s))"

text \<open>
  The clock of the background task, with \<open>elapsed\<close> milliseconds since genesis: the slot it starts with and how
  long it waits before it sends it. \<open>None\<close> is the division by zero of slots shorter than a millisecond.
\<close>

definition slot_start :: "int \<Rightarrow> u64 \<Rightarrow> (u64 \<times> u64) option" where
  "slot_start elapsed slot =
     (if slot = 0 then None
      else let slots = of_int elapsed div slot; next_slot = (slots + 1) * slot
           in Some (slots, next_slot - of_int elapsed))"

text \<open>The wait of a task that is started before genesis.\<close>

definition genesis_wait :: "int \<Rightarrow> int \<Rightarrow> u64" where
  "genesis_wait now genesis = (if now < genesis then of_int (now - genesis) else 0)"

section \<open>The responder\<close>

record 'q responder =
  rs_low :: nat
  rs_high :: nat
  rs_requests :: "('q, nat) hash_map"

text \<open>
  \<open>(network_size as f64).log2().round() as u32\<close>: the nearest integer \<open>k\<close>, \<open>2^(k - 1/2) \<le> n < 2^(k + 1/2)\<close>. The
  logarithm of zero is minus infinity, which the cast takes to 0.
\<close>

fun round_log2_from :: "nat \<Rightarrow> nat \<Rightarrow> nat \<Rightarrow> nat" where
  "round_log2_from 0 k n = k"
| "round_log2_from (Suc fuel) k n = (if n ^ 2 < 2 ^ (2 * k + 1) then k else round_log2_from fuel (Suc k) n)"

definition round_log2 :: "nat \<Rightarrow> nat" where
  "round_log2 n = round_log2_from n 0 n"

definition responder_new :: "nat \<Rightarrow> nat \<Rightarrow> 'q responder" where
  "responder_new slot network_size = \<lparr>rs_low = slot, rs_high = slot * round_log2 network_size, rs_requests = []\<rparr>"

text \<open>\<open>request\<close>; \<open>None\<close> is the panic of \<open>Uniform::new\<close> on an empty range.\<close>

definition responder_request :: "nat \<Rightarrow> nat \<Rightarrow> 'q \<Rightarrow> 'q responder \<Rightarrow> 'q responder option" where
  "responder_request now delay req r =
     (if map_of (rs_requests r) req \<noteq> None then Some r
      else if rs_low r \<ge> rs_high r then None
      else Some (r\<lparr>rs_requests := hm_insert req (now + delay) (rs_requests r)\<rparr>))"

definition responder_cancel :: "'q \<Rightarrow> 'q responder \<Rightarrow> 'q responder" where
  "responder_cancel req r = r\<lparr>rs_requests := hm_remove req (rs_requests r)\<rparr>"

definition responder_poll :: "nat \<Rightarrow> 'q responder \<Rightarrow> 'q option \<times> 'q responder" where
  "responder_poll now r =
     (case find (\<lambda>(_, at). now \<ge> at) (rs_requests r) of
        Some (req, _) \<Rightarrow> (Some req, r\<lparr>rs_requests := hm_remove req (rs_requests r)\<rparr>)
      | None \<Rightarrow> (None, r))"

section \<open>The schedule is a function of the seed\<close>

definition slot_rng :: "('r \<Rightarrow> nat \<times> 'r) \<Rightarrow> 'r \<Rightarrow> nat \<Rightarrow> 'r" where
  "slot_rng sample seed n = ((snd \<circ> sample) ^^ n) seed"

definition slot_validator :: "('r \<Rightarrow> nat \<times> 'r) \<Rightarrow> genesis \<Rightarrow> 'r \<Rightarrow> nat \<Rightarrow> validator" where
  "slot_validator sample g seed n = schedule_validators g ! fst (sample (slot_rng sample seed n))"

text \<open>What \<open>WeightedIndex\<close> promises: an index of one of the weights.\<close>

definition sample_in_range :: "('r \<Rightarrow> nat \<times> 'r) \<Rightarrow> genesis \<Rightarrow> bool" where
  "sample_in_range sample g \<longleftrightarrow> (\<forall>r. fst (sample r) < length (schedule_validators g))"

definition stream_inv :: "('r \<Rightarrow> nat \<times> 'r) \<Rightarrow> 'r \<Rightarrow> 'r schedule_stream \<Rightarrow> bool" where
  "stream_inv sample seed s \<longleftrightarrow>
     ss_rng s = slot_rng sample seed (ss_turn s)
     \<and> (ss_turn s = 0 \<and> ss_pos s = 0 \<or> ss_turn s = Suc (unat (ss_pos s)))"

lemma stream_inv_new [simp]: "stream_inv sample seed (schedule_stream_new seed)"
  by (simp add: stream_inv_def schedule_stream_new_def slot_rng_def)

lemma schedule_catch_up_eq:
  "ss_rng s = slot_rng sample seed (ss_turn s) \<Longrightarrow> ss_turn s \<le> unat now \<Longrightarrow> sample_in_range sample g \<Longrightarrow>
    schedule_catch_up sample g now s = Some (Some (now, slot_validator sample g seed (unat now)),
      \<lparr>ss_pos = now, ss_turn = Suc (unat now), ss_rng = slot_rng sample seed (Suc (unat now))\<rparr>)"
proof (induction sample g now s rule: schedule_catch_up.induct)
  case (1 sample g now s)
  let ?v = "schedule_validators g ! fst (sample (ss_rng s))" and ?rng = "snd (sample (ss_rng s))"
  have nxt: "schedule_next sample g (ss_rng s) = (Some ?v, ?rng)"
    using 1(4) by (simp add: schedule_next_def sample_in_range_def case_prod_beta)
  have rng: "?rng = slot_rng sample seed (Suc (ss_turn s))" using 1(2) by (simp add: slot_rng_def)
  show ?case
  proof (cases "ss_turn s < unat now")
    case True
    with 1 nxt rng show ?thesis by (subst schedule_catch_up.simps) (simp add: Let_def)
  next
    case False
    then have "ss_turn s = unat now" using 1(3) by simp
    moreover from this have "slot_validator sample g seed (unat now) = ?v" using 1(2) by (simp add: slot_validator_def)
    ultimately show ?thesis using nxt rng by (subst schedule_catch_up.simps) (simp add: Let_def)
  qed
qed

lemma schedule_poll_eq:
  assumes range: "sample_in_range sample g" and inv: "stream_inv sample seed s"
  shows "schedule_poll sample g now s =
    (if ss_pos s < now
     then Some (Some (now, slot_validator sample g seed (unat now)),
            \<lparr>ss_pos = now, ss_turn = Suc (unat now), ss_rng = slot_rng sample seed (Suc (unat now))\<rparr>)
     else Some (None, s))"
proof (cases "ss_pos s < now")
  case True
  then have "unat (ss_pos s) < unat now" by (simp add: word_less_nat_alt)
  then have "ss_turn s \<le> unat now" and "ss_rng s = slot_rng sample seed (ss_turn s)"
    using inv by (auto simp: stream_inv_def)
  then show ?thesis using True schedule_catch_up_eq range by (simp add: schedule_poll_def)
qed (simp add: schedule_poll_def)

text \<open>Runs of the stream: polls at increasing slots, with what they yield.\<close>

inductive schedule_run :: "('r \<Rightarrow> nat \<times> 'r) \<Rightarrow> genesis \<Rightarrow> 'r schedule_stream \<Rightarrow> (u64 \<times> validator) list \<Rightarrow> 'r schedule_stream \<Rightarrow> bool"
  for sample g s where
  run_start: "schedule_run sample g s [] s"
| run_pending: "schedule_run sample g s out s1 \<Longrightarrow> schedule_poll sample g now s1 = Some (None, s2) \<Longrightarrow> schedule_run sample g s out s2"
| run_ready: "schedule_run sample g s out s1 \<Longrightarrow> schedule_poll sample g now s1 = Some (Some x, s2) \<Longrightarrow> schedule_run sample g s (out @ [x]) s2"

lemma stream_inv_after [simp]:
  "stream_inv sample seed \<lparr>ss_pos = now, ss_turn = Suc (unat now), ss_rng = slot_rng sample seed (Suc (unat now))\<rparr>"
  by (simp add: stream_inv_def)

lemma schedule_run_sound:
  assumes range: "sample_in_range sample g"
    and run: "schedule_run sample g (schedule_stream_new seed) out s"
  shows "stream_inv sample seed s \<and> sorted_wrt (<) (map fst out) \<and> (\<forall>n \<in> fst ` set out. n \<le> ss_pos s)
    \<and> list_all (\<lambda>(n, v). v = slot_validator sample g seed (unat n)) out"
  using run
proof induction
  case (run_pending out s1 now s2)
  from run_pending schedule_poll_eq [OF range, of seed s1 now] show ?case by (simp split: if_splits)
next
  case (run_ready out s1 now x s2)
  from run_ready schedule_poll_eq [OF range, of seed s1 now] show ?case
    by (auto simp: sorted_wrt_append split: if_splits intro: order.strict_trans1 dest: order.strict_implies_order order_trans)
qed simp

section \<open>The clock\<close>

lemma slot_start_aligned:
  assumes "0 \<le> elapsed" and "slot \<noteq> 0" and "(nat elapsed div unat slot + 1) * unat slot < 2 ^ 64"
  obtains slots rem where "slot_start elapsed slot = Some (slots, rem)" and "unat slots = nat elapsed div unat slot"
    and "nat elapsed + unat rem = (unat slots + 1) * unat slot" and "0 < unat rem" and "unat rem \<le> unat slot"
proof -
  let ?e = "nat elapsed" and ?n = "unat slot"
  have n: "0 < ?n" using assms(2) by (simp add: unat_gt_0)
  have e: "?e < (?e div ?n + 1) * ?n" using dividend_less_div_times [OF n, of ?e] by (simp add: algebra_simps)
  have ue: "unat (of_int elapsed :: u64) = ?e"
  proof -
    have "(of_int elapsed :: u64) = of_nat ?e" using assms(1) by (metis int_nat_eq of_int_of_nat_eq)
    then show ?thesis using e assms(3) by (simp add: unsigned_of_nat take_bit_nat_eq_self)
  qed
  let ?s = "(of_int elapsed :: u64) div slot"
  have us: "unat ?s = ?e div ?n" by (simp add: unat_div ue)
  have small: "?e div ?n + 1 < 2 ^ 64" using assms(3) n by (metis Suc_leI le_less_trans less_eq_Suc_le mult.right_neutral nat_mult_le_cancel1 mult_le_mono2 One_nat_def)
  then have us1: "unat (?s + 1) = ?e div ?n + 1" using us by (simp add: unat_word_ariths)
  have un: "unat ((?s + 1) * slot) = (?e div ?n + 1) * ?n" using us1 assms(3) by (simp add: unat_word_ariths)
  have "unat ((?s + 1) * slot - of_int elapsed) = (?e div ?n + 1) * ?n - ?e"
    using un ue e by (subst unat_sub) (simp_all add: word_le_nat_alt)
  moreover have "(?e div ?n + 1) * ?n - ?e \<le> ?n" using div_mult_mod_eq [of ?e ?n] unfolding distrib_right by linarith
  ultimately show thesis
    using e us assms(2) by (intro that [of ?s "(?s + 1) * slot - of_int elapsed"]) (simp_all add: slot_start_def Let_def)
qed

lemma genesis_wait_wraps:
  assumes "now < genesis" and "genesis - now < 2 ^ 63"
  shows "unat (genesis_wait now genesis) = 2 ^ 64 - nat (genesis - now)"
proof -
  have "uint (of_int (now - genesis) :: u64) = (now - genesis) mod 2 ^ 64" by (simp only: uint_word_of_int) simp
  also have "\<dots> = (now - genesis + 2 ^ 64) mod 2 ^ 64" by (rule mod_add_self2 [symmetric])
  also have "\<dots> = now - genesis + 2 ^ 64" using assms by (intro mod_pos_pos_trivial) simp_all
  finally show ?thesis using assms by (simp add: genesis_wait_def unat_eq_nat_uint nat_diff_distrib)
qed

section \<open>Delays and answers\<close>

lemma round_log2_from_spec:
  "n ^ 2 < 2 ^ (2 * (k + fuel) + 1) \<Longrightarrow> k = 0 \<or> 2 ^ (2 * k - 1) \<le> n ^ 2 \<Longrightarrow>
     k \<le> round_log2_from fuel k n \<and> n ^ 2 < 2 ^ (2 * round_log2_from fuel k n + 1)
     \<and> (round_log2_from fuel k n = 0 \<or> 2 ^ (2 * round_log2_from fuel k n - 1) \<le> n ^ 2)"
proof (induction fuel arbitrary: k)
  case (Suc fuel)
  show ?case
  proof (cases "n ^ 2 < 2 ^ (2 * k + 1)")
    case False
    then have "Suc k \<le> round_log2_from fuel (Suc k) n \<and> n ^ 2 < 2 ^ (2 * round_log2_from fuel (Suc k) n + 1)
      \<and> (round_log2_from fuel (Suc k) n = 0 \<or> 2 ^ (2 * round_log2_from fuel (Suc k) n - 1) \<le> n ^ 2)"
      using Suc.prems by (intro Suc.IH) simp_all
    then show ?thesis using False by auto
  qed (use Suc.prems in simp)
qed simp

text \<open>The delay factor is the base-2 logarithm of the network size, rounded to the nearest integer.\<close>

lemma round_log2_spec:
  "n ^ 2 < 2 ^ (2 * round_log2 n + 1) \<and> (round_log2 n = 0 \<or> 2 ^ (2 * round_log2 n - 1) \<le> n ^ 2)"
proof -
  have "n < 2 ^ n" by (rule less_exp)
  then have "n ^ 2 < (2 ^ n) ^ 2" by (intro power_strict_mono) auto
  also have "\<dots> \<le> 2 ^ (2 * (0 + n) + 1)" by (simp add: power_mult [symmetric] mult.commute)
  finally show ?thesis using round_log2_from_spec [of n 0 n] by (simp add: round_log2_def)
qed

lemma round_log2_small: "round_log2 n \<le> 1 \<longleftrightarrow> n \<le> 2"
proof
  assume le: "round_log2 n \<le> 1"
  have "n ^ 2 < 2 ^ (2 * round_log2 n + 1)" using round_log2_spec by blast
  also have "\<dots> \<le> 2 ^ 3" using le by (intro power_increasing) auto
  finally have "n ^ 2 < 3 ^ 2" by simp
  then show "n \<le> 2" using power_less_imp_less_base [of n 2 3] by simp
next
  assume "n \<le> 2"
  then have "n = 0 \<or> n = 1 \<or> n = 2" by auto
  then show "round_log2 n \<le> 1" by (auto simp: round_log2_def numeral_2_eq_2)
qed

lemma responder_request_panics:
  assumes "0 < slot"
  shows "responder_request now delay req (responder_new slot n) = None \<longleftrightarrow> n \<le> 2"
proof -
  have "slot * round_log2 n \<le> slot \<longleftrightarrow> round_log2 n \<le> 1" using assms by simp
  then show ?thesis using assms round_log2_small [of n] by (auto simp: responder_request_def responder_new_def)
qed

lemma responder_poll_Some:
  assumes "responder_poll now r = (Some req, r')" and "hm_invar (rs_requests r)"
  shows "\<exists>at \<le> now. map_of (rs_requests r) req = Some at"
    and "map_of (rs_requests r') q = (if q = req then None else map_of (rs_requests r) q)"
proof -
  obtain at where find: "find (\<lambda>(_, at). now \<ge> at) (rs_requests r) = Some (req, at)"
    and r': "r' = r\<lparr>rs_requests := hm_remove req (rs_requests r)\<rparr>"
    using assms(1) by (auto simp: responder_poll_def split: option.splits)
  from find have "(req, at) \<in> set (rs_requests r)" "at \<le> now" by (auto simp: find_Some_iff in_set_conv_nth)
  then show "\<exists>at \<le> now. map_of (rs_requests r) req = Some at" using assms(2) by (auto simp: hm_invar_def)
  show "map_of (rs_requests r') q = (if q = req then None else map_of (rs_requests r) q)"
    by (simp add: r' map_of_hm_remove)
qed

lemma responder_poll_None:
  assumes "responder_poll now r = (None, r')"
  shows "r' = r" and "map_of (rs_requests r) q = Some at \<Longrightarrow> now < at"
  using assms by (auto simp: responder_poll_def find_None_iff linorder_not_le [symmetric] split: option.splits prod.splits dest!: map_of_SomeD)

text \<open>A request that is pending is answered once, at the time drawn for it first, unless it is cancelled.\<close>

inductive responder_steps :: "'q responder \<Rightarrow> 'q list \<Rightarrow> 'q responder \<Rightarrow> bool" for r where
  rs_refl: "responder_steps r [] r"
| rs_request: "responder_steps r out r1 \<Longrightarrow> responder_request now delay q r1 = Some r2 \<Longrightarrow> responder_steps r out r2"
| rs_cancel: "responder_steps r out r1 \<Longrightarrow> responder_steps r out (responder_cancel q r1)"
| rs_answer: "responder_steps r out r1 \<Longrightarrow> responder_poll now r1 = (Some q, r2) \<Longrightarrow> responder_steps r (out @ [q]) r2"
| rs_idle: "responder_steps r out r1 \<Longrightarrow> responder_poll now r1 = (None, r2) \<Longrightarrow> responder_steps r out r2"

lemma responder_steps_invar:
  assumes "responder_steps r out r'" and "hm_invar (rs_requests r)"
  shows "hm_invar (rs_requests r') \<and> rs_low r' = rs_low r \<and> rs_high r' = rs_high r"
  using assms
proof induction
  case (rs_request out r1 now delay q r2)
  then show ?case by (auto simp: responder_request_def hm_invar_insert split: if_splits)
next
  case (rs_answer out r1 now q r2)
  then show ?case by (auto simp: responder_poll_def hm_invar_remove split: option.splits prod.splits)
next
  case (rs_idle out r1 now r2)
  then show ?case using responder_poll_None(1) by metis
qed (auto simp: responder_cancel_def hm_invar_remove)

end
