(* ===== verification/Rensa_Gossip.thy ===== *)
theory Rensa_Gossip
  imports Rensa_Schedule "HOL-Library.Multiset"
begin

text \<open>
  The vocabulary of the gossip protocol in \<open>src/network/episub\<close>: peers and their addresses, the messages of
  \<open>rpc.proto\<close>, what the protocol hands to the network library, its configuration with the view sizes
  (\<open>config.rs\<close>).

  Points in time are integers. The network library (libp2p) and the byte formats of peer ids and addresses are
  parameters. A \<open>HashSet\<close> is a list without duplicates, in the order of insertion; random choices consume a list of
  draws, which is arbitrary.
\<close>

section \<open>Peers and messages\<close>

type_synonym instant = int
type_synonym u32 = "32 word"
type_synonym peer_id = bytes
type_synonym topic = string
type_synonym connection_id = nat

datatype protocol = Ip4 "32 word" | Ip6 "128 word" | Tcp "16 word" | OtherProtocol bytes

type_synonym multiaddr = "protocol list"

text \<open>\<open>AddressablePeer\<close>, compared by its id only, and its form in \<open>rpc.proto\<close>.\<close>

record addressable_peer =
  ap_id :: peer_id
  ap_addresses :: "multiaddr list"

record wire_peer =
  wp_id :: bytes
  wp_addresses :: "bytes list"

text \<open>The priority of a neighbor request is an \<open>i32\<close> on the wire.\<close>

datatype priority = Low | High

fun priority_code :: "priority \<Rightarrow> int" where
  "priority_code Low = 0"
| "priority_code High = 1"

datatype action =
    Join u32 wire_peer
  | ForwardJoin u32 wire_peer
  | Neighbor wire_peer int
  | Shuffle u32 wire_peer "wire_peer list"
  | ShuffleReply "wire_peer list"
  | Disconnect bool
  | Message u64 u32 bytes
  | Ihave "(u64 \<times> u32) list"
  | Prune
  | Graft "u64 list"

record rpc =
  rpc_topic :: topic
  rpc_action :: "action option"

datatype episub_event =
    MessageEvent topic u64 bytes
  | Subscribed topic
  | PeerAdded peer_id
  | PeerRemoved peer_id
  | Unsubscribed topic

text \<open>\<open>NetworkBehaviourAction\<close>; a dial carries the size limit and the temporary flag of its connection handler.\<close>

datatype behaviour_action =
    NotifyHandler peer_id rpc
  | GenerateEvent episub_event
  | Dial peer_id "multiaddr list" nat bool
  | CloseConnection peer_id connection_id

text \<open>The byte formats of libp2p.\<close>

record formats =
  fm_peer_from :: "bytes \<Rightarrow> peer_id option"
  fm_peer_to :: "peer_id \<Rightarrow> bytes"
  fm_addr_from :: "bytes \<Rightarrow> multiaddr option"
  fm_addr_to :: "multiaddr \<Rightarrow> bytes"

definition formats_ok :: "formats \<Rightarrow> bool" where
  "formats_ok f \<longleftrightarrow>
     (\<forall>p. fm_peer_from f (fm_peer_to f p) = Some p) \<and> (\<forall>a. fm_addr_from f (fm_addr_to f a) = Some a)"

section \<open>Sets and conversions\<close>

definition hs_insert :: "'a \<Rightarrow> 'a list \<Rightarrow> 'a list" where
  "hs_insert x xs = (if x \<in> set xs then xs else xs @ [x])"

fun collect_set :: "'a list \<Rightarrow> 'a list" where
  "collect_set xs = fold hs_insert xs []"

text \<open>\<open>TryFrom\<close> and \<open>From\<close> between the two forms of a peer.\<close>

definition peer_of_wire :: "formats \<Rightarrow> wire_peer \<Rightarrow> addressable_peer option" where
  "peer_of_wire f w =
     map_option (\<lambda>p. \<lparr>ap_id = p, ap_addresses = collect_set (List.map_filter (fm_addr_from f) (wp_addresses w))\<rparr>)
       (fm_peer_from f (wp_id w))"

definition wire_of_peer :: "formats \<Rightarrow> addressable_peer \<Rightarrow> wire_peer" where
  "wire_of_peer f p = \<lparr>wp_id = fm_peer_to f (ap_id p), wp_addresses = map (fm_addr_to f) (ap_addresses p)\<rparr>"

text \<open>\<open>HashSet<AddressablePeer>\<close>: a peer that is present already is not replaced.\<close>

type_synonym peer_set = "addressable_peer list"

definition ps_ids :: "peer_set \<Rightarrow> peer_id set" where
  "ps_ids xs = ap_id ` set xs"

definition ps_contains :: "peer_id \<Rightarrow> peer_set \<Rightarrow> bool" where
  "ps_contains p xs \<longleftrightarrow> list_ex (\<lambda>x. ap_id x = p) xs"

definition ps_insert :: "addressable_peer \<Rightarrow> peer_set \<Rightarrow> peer_set" where
  "ps_insert x xs = (if ps_contains (ap_id x) xs then xs else xs @ [x])"

definition ps_remove :: "peer_id \<Rightarrow> peer_set \<Rightarrow> peer_set" where
  "ps_remove p xs = filter (\<lambda>x. ap_id x \<noteq> p) xs"

definition ps_difference :: "peer_set \<Rightarrow> peer_set \<Rightarrow> peer_set" where
  "ps_difference xs ys = filter (\<lambda>x. \<not> ps_contains (ap_id x) ys) xs"

text \<open>\<open>HashSet::union\<close> starts with the larger of the two sets.\<close>

definition ps_union :: "peer_set \<Rightarrow> peer_set \<Rightarrow> peer_set" where
  "ps_union xs ys =
     (if length ys \<le> length xs then xs @ ps_difference ys xs else ys @ ps_difference xs ys)"

definition ps_collect :: "addressable_peer list \<Rightarrow> peer_set" where
  "ps_collect xs = fold ps_insert xs []"

section \<open>Random choices\<close>

text \<open>\<open>choose\<close> and \<open>choose_multiple\<close> of the \<open>rand\<close> crate: an element, or a sample of distinct positions.\<close>

definition next_draw :: "nat list \<Rightarrow> nat" where
  "next_draw ds = (case ds of [] \<Rightarrow> 0 | d # _ \<Rightarrow> d)"

definition choose_one :: "nat list \<Rightarrow> 'a list \<Rightarrow> 'a option" where
  "choose_one ds xs = (if xs = [] then None else Some (xs ! (next_draw ds mod length xs)))"

fun choose_multiple :: "nat \<Rightarrow> nat list \<Rightarrow> 'a list \<Rightarrow> 'a list \<times> nat list" where
  "choose_multiple 0 ds xs = ([], ds)"
| "choose_multiple (Suc n) ds xs =
     (if xs = [] then ([], ds)
      else let i = next_draw ds mod length xs
           in case choose_multiple n (tl ds) (take i xs @ drop (Suc i) xs) of
                (ys, ds') \<Rightarrow> (xs ! i # ys, ds'))"

section \<open>Configuration\<close>

text \<open>
  The shuffle probability is in units of \<open>2 ^ -25\<close>. The authorizer is code of the node that may panic (\<open>None\<close>).
\<close>

record config =
  cf_network_size :: nat
  cf_active_view_factor :: nat
  cf_passive_view_factor :: nat
  cf_max_transmit_size :: nat
  cf_shuffle_interval :: int
  cf_shuffle_probability :: nat
  cf_lazy_push_window :: int
  cf_history_window :: int
  cf_tick_frequency :: int
  cf_optimize_sender_tree :: bool
  cf_hop_optimization_factor :: u32
  cf_enable_compression :: bool
  cf_compression_level :: int
  cf_authorizer :: "topic \<Rightarrow> peer_id \<Rightarrow> bool option"

text \<open>
  \<open>log2\<close> of a network of no node is \<open>-inf\<close>, which \<open>as usize\<close> takes to 0. The view factor is an integer, so
  rounding the sum is rounding the logarithm.
\<close>

definition max_active_view_size :: "config \<Rightarrow> nat" where
  "max_active_view_size c =
     (if cf_network_size c = 0 then 0 else round_log2 (cf_network_size c) + cf_active_view_factor c)"

definition min_active_view_size :: "config \<Rightarrow> nat" where
  "min_active_view_size c = max (max_active_view_size c div 2) 1"

definition max_passive_view_size :: "config \<Rightarrow> nat" where
  "max_passive_view_size c = max_active_view_size c * cf_passive_view_factor c"

fun floor_log2 :: "nat \<Rightarrow> nat" where
  "floor_log2 n = (if n < 2 then 0 else Suc (floor_log2 (n div 2)))"

declare floor_log2.simps [simp del]

definition active_walk_length :: "config \<Rightarrow> nat" where
  "active_walk_length c = min 6 (max 2 (floor_log2 (cf_network_size c)))"

definition shuffle_max_size :: "config \<Rightarrow> nat" where
  "shuffle_max_size c = max_active_view_size c * 2"

text \<open>\<open>Config::default\<close>, in nanoseconds.\<close>

definition config_default :: config where
  "config_default =
     \<lparr>cf_network_size = 1000, cf_active_view_factor = 1, cf_passive_view_factor = 6,
      cf_max_transmit_size = 1024000, cf_shuffle_interval = 60000000000, cf_shuffle_probability = 2 ^ 25,
      cf_lazy_push_window = 2000000000, cf_history_window = 30000000000, cf_tick_frequency = 200000000,
      cf_optimize_sender_tree = True, cf_hop_optimization_factor = 4, cf_enable_compression = True,
      cf_compression_level = 0, cf_authorizer = (\<lambda>_ _. Some True)\<rparr>"

section \<open>Facts on sets, samples and sizes\<close>

lemma set_hs_insert [simp]: "set (hs_insert x xs) = insert x (set xs)"
  by (auto simp: hs_insert_def)

lemma distinct_hs_insert [simp]: "distinct xs \<Longrightarrow> distinct (hs_insert x xs)"
  by (simp add: hs_insert_def)

lemma ps_contains_iff [simp]: "ps_contains p xs \<longleftrightarrow> p \<in> ps_ids xs"
  by (auto simp: ps_contains_def ps_ids_def list_ex_iff)

lemma ps_ids_simps [simp]:
  "ps_ids [] = {}"
  "ps_ids (x # xs) = insert (ap_id x) (ps_ids xs)"
  "ps_ids (xs @ ys) = ps_ids xs \<union> ps_ids ys"
  by (simp_all add: ps_ids_def image_Un)

lemma ps_ids_mem: "x \<in> set xs \<Longrightarrow> ap_id x \<in> ps_ids xs"
  by (simp add: ps_ids_def)

lemma finite_ps_ids [simp]: "finite (ps_ids xs)"
  by (simp add: ps_ids_def)

lemma ps_ids_insert [simp]: "ps_ids (ps_insert x xs) = insert (ap_id x) (ps_ids xs)"
  by (auto simp: ps_insert_def)

lemma ps_ids_remove [simp]: "ps_ids (ps_remove p xs) = ps_ids xs - {p}"
  by (auto simp: ps_remove_def ps_ids_def)

lemma ps_ids_difference [simp]: "ps_ids (ps_difference xs ys) = ps_ids xs - ps_ids ys"
  by (auto simp: ps_difference_def ps_ids_def)

lemma ps_ids_union [simp]: "ps_ids (ps_union xs ys) = ps_ids xs \<union> ps_ids ys"
  by (auto simp: ps_union_def)

text \<open>A peer set has one entry per peer.\<close>

definition ps_ok :: "peer_set \<Rightarrow> bool" where
  "ps_ok xs \<longleftrightarrow> distinct (map ap_id xs)"

lemma ps_ok_Nil [simp]: "ps_ok []"
  by (simp add: ps_ok_def)

lemma ps_ok_append: "ps_ok (xs @ ys) \<longleftrightarrow> ps_ok xs \<and> ps_ok ys \<and> ps_ids xs \<inter> ps_ids ys = {}"
  by (auto simp: ps_ok_def ps_ids_def)

lemma ps_ok_filter [intro]: "ps_ok xs \<Longrightarrow> ps_ok (filter P xs)"
  by (simp add: ps_ok_def distinct_map_filter)

lemma ps_ok_insert [simp, intro]: "ps_ok xs \<Longrightarrow> ps_ok (ps_insert x xs)"
  by (simp add: ps_insert_def ps_ok_append) (simp add: ps_ok_def)

lemma ps_ok_remove [simp, intro]: "ps_ok xs \<Longrightarrow> ps_ok (ps_remove p xs)"
  by (auto simp: ps_remove_def)

lemma ps_ok_union [simp, intro]: "ps_ok xs \<Longrightarrow> ps_ok ys \<Longrightarrow> ps_ok (ps_union xs ys)"
  by (simp add: ps_union_def ps_ok_append) (auto simp: ps_difference_def)

lemma ps_collect_fold:
  "ps_ok acc \<Longrightarrow> ps_ok (fold ps_insert xs acc) \<and> ps_ids (fold ps_insert xs acc) = ps_ids acc \<union> ps_ids xs"
  by (induction xs arbitrary: acc) auto

lemma ps_ok_collect [simp, intro]: "ps_ok (ps_collect xs)"
  using ps_collect_fold [of "[]" xs] by (simp add: ps_collect_def)

lemma ps_ids_collect [simp]: "ps_ids (ps_collect xs) = ps_ids xs"
  using ps_collect_fold [of "[]" xs] by (simp add: ps_collect_def)

lemma length_ps: "ps_ok xs \<Longrightarrow> length xs = card (ps_ids xs)"
  using distinct_card [of "map ap_id xs"] by (simp add: ps_ok_def ps_ids_def)

lemma length_ps_insert: "length (ps_insert x xs) \<le> Suc (length xs)"
  by (simp add: ps_insert_def)

lemma length_ps_remove:
  assumes "ps_ok xs" and "p \<in> ps_ids xs"
  shows "Suc (length (ps_remove p xs)) = length xs"
  using assms card_Suc_Diff1 [of "ps_ids xs" p] by (simp add: length_ps)

lemma choose_one_mem: "choose_one ds xs = Some x \<Longrightarrow> x \<in> set xs"
  by (auto simp: choose_one_def split: if_splits)

lemma choose_one_None [simp]: "choose_one ds xs = None \<longleftrightarrow> xs = []"
  by (simp add: choose_one_def)

lemma remove_nth_split: "i < length xs \<Longrightarrow> mset xs = add_mset (xs ! i) (mset (take i xs @ drop (Suc i) xs))"
  by (metis (no_types) append_take_drop_id Cons_nth_drop_Suc mset_append mset.simps(2) union_mset_add_mset_right)

text \<open>A sample is a part of the list, of the size asked for when there are so many elements.\<close>

lemma choose_multiple_sample:
  assumes "choose_multiple n ds xs = (ys, ds')"
  shows "length ys = min n (length xs) \<and> mset ys \<subseteq># mset xs"
  using assms
proof (induction n ds xs arbitrary: ys ds' rule: choose_multiple.induct)
  case (2 n ds xs)
  show ?case
  proof (cases "xs = []")
    case False
    define i where "i = next_draw ds mod length xs"
    have i: "i < length xs" using False by (simp add: i_def)
    obtain zs where zs: "choose_multiple n (tl ds) (take i xs @ drop (Suc i) xs) = (zs, ds')" "ys = xs ! i # zs"
      using "2.prems" False by (auto simp: Let_def i_def split: prod.splits)
    have "length zs = min n (length (take i xs @ drop (Suc i) xs)) \<and> mset zs \<subseteq># mset (take i xs @ drop (Suc i) xs)"
      using "2.IH" False zs i_def by blast
    then show ?thesis using i zs(2) by (simp add: remove_nth_split [OF i])
  qed (use "2.prems" in simp)
qed simp

lemma wire_roundtrip:
  assumes "formats_ok f" and "distinct (ap_addresses p)"
  shows "peer_of_wire f (wire_of_peer f p) = Some p"
proof -
  have collect: "distinct (acc @ xs) \<Longrightarrow> fold hs_insert xs acc = acc @ xs" for acc xs :: "multiaddr list"
    by (induction xs arbitrary: acc) (auto simp: hs_insert_def)
  have "List.map_filter (fm_addr_from f) (map (fm_addr_to f) as) = as" for as
    using assms(1) by (induction as) (auto simp: formats_ok_def map_filter_simps)
  then show ?thesis
    using assms collect [of "[]"] by (simp add: peer_of_wire_def wire_of_peer_def formats_ok_def)
qed

lemma peer_of_wire_id: "peer_of_wire f w = Some p \<Longrightarrow> fm_peer_from f (wp_id w) = Some (ap_id p)"
  by (auto simp: peer_of_wire_def)

lemma view_sizes:
  "min_active_view_size c \<le> max 1 (max_active_view_size c)"
  "2 \<le> active_walk_length c" "active_walk_length c \<le> 6"
  by (simp_all add: min_active_view_size_def active_walk_length_def)

end
