(* ===== verification/Rensa_Validator.thy ===== *)
theory Rensa_Validator
  imports Rensa_Events Rensa_Blockstore Rensa_Schedule Rensa_Gossip
begin

text \<open>
  The run loop of a validator in \<open>src/main.rs\<close> and the channel to the block consumers of
  \<open>src/consumer.rs\<close>: the composition of the chain, the producer, the block store and the responder.

  Every branch of the \<open>tokio::select!\<close> is an input; which branch is ready when is not restricted. The consumers
  run in a task of their own that takes the blocks from the channel in order; a consumer that panics ends its own
  task for that block only. \<open>None\<close> is a panic of the loop. Messages to the network are collected in order. The optional
  database synchronization and the log messages are left out.
\<close>

section \<open>State and inputs\<close>

datatype network_event =
    MissingBlock multihash
  | BlockReceived "transaction list produced"
  | VoteReceived vote
  | TransactionReceived transaction

datatype network_command =
    Connect multiaddr
  | GossipMissing multihash
  | GossipBlock "transaction list produced"
  | GossipVote vote
  | GossipTransaction transaction

record node_config =
  nc_params :: "transaction list block_params"
  nc_genesis :: genesis
  nc_fuel :: nat
  nc_vm :: machine
  nc_accounts :: account_codec
  nc_blocks :: block_codec
  nc_keypair :: bytes
  nc_peers :: "multiaddr list"                 \<comment> \<open>the bootstrap peers of the command line\<close>

record validator_node =
  vn_chain :: "(transaction list, accounts_db) chain"
  vn_producer :: producer
  vn_store :: block_store
  vn_responder :: "multihash responder"
  vn_channel :: "(transaction list executed \<times> commitment) list"
  vn_netout :: "network_command list"

datatype node_input =
    SlotStarted u64 validator
  | ReplyDue nat                               \<comment> \<open>the time\<close>
  | NetworkReady nat nat network_event         \<comment> \<open>the time and the delay drawn for a reply\<close>
  | ProducerReady nat
  | ChainReady nat
  | RpcReady transaction
  | ConsumerReady

abbreviation nc_cfg :: "node_config \<Rightarrow> (transaction list, accounts_db) chain_cfg" where
  "nc_cfg c \<equiv> node_cfg (nc_params c) (nc_genesis c) (nc_fuel c) (nc_vm c) (nc_accounts c)"

abbreviation nc_crypto :: "node_config \<Rightarrow> crypto" where
  "nc_crypto c \<equiv> bp_crypto (nc_params c)"

definition send_out :: "network_command \<Rightarrow> validator_node \<Rightarrow> validator_node" where
  "send_out m n = n\<lparr>vn_netout := vn_netout n @ [m]\<rparr>"

text \<open>\<open>BlockConsumers::consume\<close> sends to the channel.\<close>

definition consumers_consume :: "transaction list executed \<Rightarrow> commitment \<Rightarrow> validator_node \<Rightarrow> validator_node" where
  "consumers_consume e commit n = n\<lparr>vn_channel := vn_channel n @ [(e, commit)]\<rparr>"

text \<open>One iteration of the task of \<open>BlockConsumers::new\<close>: the block store and the producer get the block.\<close>

definition consumers_step :: "node_config \<Rightarrow> validator_node \<Rightarrow> validator_node" where
  "consumers_step c n =
     (case vn_channel n of
        [] \<Rightarrow> n
      | (e, commit) # rest \<Rightarrow>
          n\<lparr>vn_channel := rest,
            vn_store := (case bs_consume (nc_blocks c) (nc_params c) e commit (vn_store n) of Inl s \<Rightarrow> s | Inr s \<Rightarrow> s),
            vn_producer := producer_consume (nc_crypto c) e commit (vn_producer n)\<rparr>)"

section \<open>The branches of the loop\<close>

definition on_slot :: "node_config \<Rightarrow> validator \<Rightarrow> validator_node \<Rightarrow> validator_node option" where
  "on_slot c v n =
     (case with_head (nc_cfg c) (vn_chain n) of
        (state, block) \<Rightarrow>
          if val_pubkey v = ed_public (nc_crypto c) (nc_keypair c)
          then map_option (\<lambda>pr. n\<lparr>vn_producer := pr\<rparr>)
                 (produce (nc_params c) (nc_fuel c) (nc_vm c) state block (vn_producer n))
          else Some n)"

definition on_reply :: "node_config \<Rightarrow> nat \<Rightarrow> validator_node \<Rightarrow> validator_node option" where
  "on_reply c now n =
     (case responder_poll now (vn_responder n) of
        (requested, r) \<Rightarrow>
          let n' = n\<lparr>vn_responder := r\<rparr>
          in case requested of
               None \<Rightarrow> Some n'
             | Some h \<Rightarrow>
                 (case chain_get (nc_cfg c) (vn_chain n) h of
                    Some e \<Rightarrow> Some (send_out (GossipBlock (ex_underlying e)) n')
                  | None \<Rightarrow>
                      (case bs_get_by_hash (nc_blocks c) h (vn_store n) of
                         None \<Rightarrow> None
                       | Some found \<Rightarrow>
                           (case found of
                              None \<Rightarrow> Some n'
                            | Some (e, commit) \<Rightarrow> Some (send_out (GossipBlock (ex_underlying e)) n')))))"

definition on_network :: "node_config \<Rightarrow> nat \<Rightarrow> nat \<Rightarrow> network_event \<Rightarrow> validator_node \<Rightarrow> validator_node option" where
  "on_network c now delay ev n =
     (case ev of
        BlockReceived b \<Rightarrow>
          let r = responder_cancel (block_hash (nc_params c) b) (vn_responder n)
          in map_option (\<lambda>ch. n\<lparr>vn_responder := r, vn_chain := ch\<rparr>) (include_block (nc_cfg c) now b (vn_chain n))
      | VoteReceived v \<Rightarrow> Some (n\<lparr>vn_producer := record_vote v (vn_producer n)\<rparr>)
      | MissingBlock h \<Rightarrow>
          map_option (\<lambda>r. n\<lparr>vn_responder := r\<rparr>) (responder_request now delay h (vn_responder n))
      | TransactionReceived tx \<Rightarrow> Some (n\<lparr>vn_producer := record_transaction (nc_crypto c) tx (vn_producer n)\<rparr>))"

definition on_produced :: "node_config \<Rightarrow> nat \<Rightarrow> validator_node \<Rightarrow> validator_node option" where
  "on_produced c now n =
     (case producer_poll (vn_producer n) of
        (None, pr) \<Rightarrow> Some n
      | (Some b, pr) \<Rightarrow>
          map_option (\<lambda>ch. send_out (GossipBlock b) (n\<lparr>vn_producer := pr, vn_chain := ch\<rparr>))
            (include_block (nc_cfg c) now b (vn_chain n)))"

definition on_chain_event :: "node_config \<Rightarrow> transaction list chain_event \<Rightarrow> validator_node \<Rightarrow> validator_node" where
  "on_chain_event c ev n =
     (case ev of
        Vote target justification \<Rightarrow> send_out (GossipVote (vote_new (nc_crypto c) (nc_keypair c) target justification)) n
      | BlockDiscarded b \<Rightarrow> n\<lparr>vn_producer := reuse_discarded (nc_crypto c) b (vn_producer n)\<rparr>
      | BlockMissing h \<Rightarrow> send_out (GossipMissing h) n
      | BlockIncluded e \<Rightarrow> consumers_consume e Included n
      | BlockConfirmed e votes \<Rightarrow> consumers_consume e Confirmed n
      | BlockFinalized e votes \<Rightarrow> consumers_consume e Finalized n)"

definition on_chain :: "node_config \<Rightarrow> nat \<Rightarrow> validator_node \<Rightarrow> validator_node option" where
  "on_chain c now n =
     (case poll_next (nc_cfg c) now (vn_chain n) of
        None \<Rightarrow> None
      | Some (None, ch) \<Rightarrow> Some (n\<lparr>vn_chain := ch\<rparr>)
      | Some (Some ev, ch) \<Rightarrow> Some (on_chain_event c ev (n\<lparr>vn_chain := ch\<rparr>)))"

fun node_step :: "node_config \<Rightarrow> node_input \<Rightarrow> validator_node \<Rightarrow> validator_node option" where
  "node_step c (SlotStarted slot v) n = on_slot c v n"
| "node_step c (ReplyDue now) n = on_reply c now n"
| "node_step c (NetworkReady now delay ev) n = on_network c now delay ev n"
| "node_step c (ProducerReady now) n = on_produced c now n"
| "node_step c (ChainReady now) n = on_chain c now n"
| "node_step c (RpcReady tx) n = Some (send_out (GossipTransaction tx) n)"
| "node_step c ConsumerReady n = Some (consumers_step c n)"

text \<open>The node before its first input, on an accounts database and a block store read from disk.\<close>

definition node_new :: "node_config \<Rightarrow> accounts_db \<Rightarrow> block_store \<Rightarrow> validator_node option" where
  "node_new c db store =
     (let latest_block = (case bs_latest (nc_blocks c) Finalized store of
          Some b \<Rightarrow> ProducedBlock b | None \<Rightarrow> GenesisBlock (nc_genesis c))
      in map_option (\<lambda>ch. \<lparr>vn_chain = ch, vn_producer = producer_new (nc_genesis c) (nc_keypair c), vn_store = store,
             vn_responder = responder_new (g_slot_interval (nc_genesis c)) (length (g_validators (nc_genesis c))),
             vn_channel = [], vn_netout = map Connect (nc_peers c)\<rparr>)
           (chain_new (nc_cfg c) latest_block (persistent_new (nc_accounts c) (g_state (nc_genesis c)) db)))"

section \<open>Runs\<close>

text \<open>
  States reached from a start state, every one of them satisfying the side condition \<open>H\<close> before its next
  input.
\<close>

inductive node_run :: "node_config \<Rightarrow> (validator_node \<Rightarrow> bool) \<Rightarrow> validator_node \<Rightarrow> validator_node \<Rightarrow> bool"
  for c H n0 where
  run_start: "node_run c H n0 n0"
| run_step: "node_run c H n0 n \<Longrightarrow> H n \<Longrightarrow> node_step c i n = Some n' \<Longrightarrow> node_run c H n0 n'"

section \<open>The invariant\<close>

definition channel_finalized :: "(transaction list executed \<times> commitment) list \<Rightarrow> transaction list executed list" where
  "channel_finalized q = map fst (filter (\<lambda>(e, commit). commit = Finalized) q)"

lemma channel_finalized_simps [simp]:
  "channel_finalized [] = []"
  "channel_finalized ((e, commit) # q) = (if commit = Finalized then e # channel_finalized q else channel_finalized q)"
  "channel_finalized (q @ q') = channel_finalized q @ channel_finalized q'"
  by (simp_all add: channel_finalized_def)

definition block_complete :: "node_config \<Rightarrow> transaction list executed \<Rightarrow> bool" where
  "block_complete c e \<longleftrightarrow> ex_height e \<noteq> 0 \<and> outputs_complete (nc_crypto c) e"

text \<open>
  The invariants of the components, and that the finalized blocks on their way from the chain to the block
  store are exactly those the store lacks, in order.
\<close>

definition node_inv :: "node_config \<Rightarrow> validator_node \<Rightarrow> bool" where
  "node_inv c n \<longleftrightarrow>
     chain_inv (nc_cfg c) (vn_chain n) \<and> bs_inv (nc_blocks c) (vn_store n) \<and> producer_inv (nc_crypto c) (vn_producer n)
     \<and> all_executed (block_complete c) (vn_chain n)
     \<and> (\<forall>x \<in> set (vn_channel n). block_complete c (fst x))
     \<and> consecutive (latest_height (nc_blocks c) (vn_store n))
         (map ex_height (channel_finalized (vn_channel n) @ pending_finalized (ch_events (vn_chain n))))
         (finalized_height (vn_chain n))"

text \<open>
  The history kept reaches back to the last stored finalized block when the next block of the channel is
  a confirmed one.
\<close>

definition history_kept :: "node_config \<Rightarrow> validator_node \<Rightarrow> bool" where
  "history_kept c n \<longleftrightarrow>
     (case vn_channel n of
        (e, commit) # _ \<Rightarrow> commit = Confirmed \<longrightarrow>
          saturating_sub (ex_height e) (bs_history_len (vn_store n)) \<le> latest_height (nc_blocks c) (vn_store n)
      | [] \<Rightarrow> True)"

definition config_ok :: "node_config \<Rightarrow> bool" where
  "config_ok c \<longleftrightarrow> vm_crypto (nc_vm c) = nc_crypto c \<and> block_codec_ok (nc_blocks c)"

lemma block_complete_executed:
  assumes "config_ok c"
  shows "executed_holds (nc_cfg c) (block_complete c)"
proof -
  have "outputs_complete (nc_crypto c) e" if "executed_new (nc_crypto c) (execute_block (nc_fuel c) (nc_vm c)) st b = ret e" for st b e
    using that execute_block_complete assms by (fastforce simp: executed_new_ret config_ok_def)
  then show ?thesis
    by (auto simp: executed_holds_def block_complete_def node_cfg_def executed_new_ret)
qed

lemma node_new_inv:
  assumes "bs_inv (nc_blocks c) store" and "node_new c db store = Some n"
  shows "node_inv c n"
proof -
  obtain ch where ch: "chain_new (nc_cfg c) (case bs_latest (nc_blocks c) Finalized store of
          Some b \<Rightarrow> ProducedBlock b | None \<Rightarrow> GenesisBlock (nc_genesis c))
        (persistent_new (nc_accounts c) (g_state (nc_genesis c)) db) = Some ch"
    and n: "vn_chain n = ch" "vn_store n = store" "vn_channel n = []" "vn_producer n = producer_new (nc_genesis c) (nc_keypair c)"
    using assms(2) by (auto simp: node_new_def Let_def)
  have "ch_events ch = []" "ch_forktrees ch = []" using ch by (auto simp: chain_new_def Let_def split: if_splits)
  then show ?thesis
    using chain_new_inv [OF ch] assms(1) n
    by (simp add: node_inv_def all_executed_def latest_height_def split: option.split)
qed

text \<open>Storing a confirmed block keeps the latest finalized block, as long as it is not pruned.\<close>

lemma latest_after_confirmed:
  assumes k: "block_codec_ok k" and inv: "bs_inv k s" and ok: "bs_consume k p e Confirmed s = Inr s'"
    and kept: "saturating_sub (ex_height e) (bs_history_len s) \<le> latest_height k s"
  shows "latest_height k s' = latest_height k s"
proof -
  have inv': "bs_inv k s'" using bs_consume_inv [OF k inv, of Confirmed e p] ok by simp
  have trees: "has_height (bs_finalized s') a \<longleftrightarrow>
      has_height (bs_finalized s) a \<and> saturating_sub (ex_height e) (bs_history_len s) \<le> a" for a
    using bs_consume_trees [OF k inv _ ok, of a] by simp
  show ?thesis
  proof (cases "bs_latest k Finalized s")
    case None
    then have "\<not> has_height (bs_finalized s') a" for a
      using trees bs_latest_finalized [OF k inv] by (auto simp: has_height_def)
    then have "bs_latest k Finalized s' = None" using bs_latest_finalized [OF k inv'] by (auto simp: has_height_def)
    with None show ?thesis by (simp add: latest_height_def)
  next
    case (Some b)
    then have "latest_height k s = bl_height b" by (simp add: latest_height_def)
    moreover have "has_height (bs_finalized s) (bl_height b)" "\<And>h. has_height (bs_finalized s) h \<Longrightarrow> h \<le> bl_height b"
      using bs_latest_finalized [OF k inv] Some by (auto simp: has_height_def)
    ultimately show ?thesis using trees kept by (intro latest_heightI [OF k inv']) auto
  qed
qed

text \<open>The block store takes the next block of the channel without a panic.\<close>

lemma channel_head_stored:
  assumes ok: "config_ok c" and inv: "node_inv c n" and q: "vn_channel n = (e, commit) # rest" and kept: "history_kept c n"
  obtains s' where "bs_consume (nc_blocks c) (nc_params c) e commit (vn_store n) = Inr s'" and "bs_inv (nc_blocks c) s'"
    and "latest_height (nc_blocks c) s' = (if commit = Finalized then ex_height e else latest_height (nc_blocks c) (vn_store n))"
proof -
  let ?k = "nc_blocks c" and ?s = "vn_store n"
  have k: "block_codec_ok ?k" using ok by (simp add: config_ok_def)
  have s: "bs_inv ?k ?s" and e: "block_complete c e" using inv q by (auto simp: node_inv_def)
  have succ: "commit = Finalized \<longrightarrow> ex_height e = latest_height ?k ?s + 1"
    using inv q by (auto simp: node_inv_def)
  have nz: "ex_height e \<noteq> 0" using e by (simp add: block_complete_def)
  obtain s' where s': "bs_consume ?k (nc_params c) e commit ?s = Inr s'"
    using bs_consume_returns [OF k s nz succ] e by (auto simp: block_complete_def)
  have "bs_inv ?k s'" using bs_consume_inv [OF k s, of commit e "nc_params c"] s' nz by simp
  moreover have "latest_height ?k s' = (if commit = Finalized then ex_height e else latest_height ?k ?s)"
  proof (cases commit)
    case Included
    then show ?thesis using s' by (simp add: bs_consume_def)
  next
    case Confirmed
    then show ?thesis using latest_after_confirmed [OF k s, of "nc_params c" e s'] s' kept q by (simp add: history_kept_def)
  next
    case Finalized
    then show ?thesis using latest_after_finalized [OF k s nz] s' by simp
  qed
  ultimately show thesis using that s' by blast
qed

lemma consecutive_unique: "consecutive h xs t \<Longrightarrow> consecutive h xs t' \<Longrightarrow> t = t'"
  by (induction xs arbitrary: h) auto

section \<open>Every input keeps the invariant\<close>

lemma node_inv_cong:
  assumes "node_inv c n" and "vn_chain n' = vn_chain n" and "vn_store n' = vn_store n" and "vn_channel n' = vn_channel n"
    and "producer_inv (nc_crypto c) (vn_producer n')"
  shows "node_inv c n'"
  using assms by (simp add: node_inv_def)

lemma send_out_frame [simp]:
  "vn_chain (send_out m n) = vn_chain n" "vn_store (send_out m n) = vn_store n" "vn_channel (send_out m n) = vn_channel n"
  "vn_producer (send_out m n) = vn_producer n" "vn_responder (send_out m n) = vn_responder n"
  by (simp_all add: send_out_def)

lemma node_inv_send_out [simp]: "node_inv c (send_out m n) = node_inv c n"
  by (simp add: node_inv_def)

lemma on_slot_inv: "node_inv c n \<Longrightarrow> on_slot c v n = Some n' \<Longrightarrow> node_inv c n'"
  by (auto simp: on_slot_def node_inv_def producer_inv_produce split: prod.splits if_splits)

lemma on_reply_inv: "node_inv c n \<Longrightarrow> on_reply c now n = Some n' \<Longrightarrow> node_inv c n'"
  by (auto simp: on_reply_def Let_def node_inv_def split: prod.splits option.splits)

text \<open>Including a block adds no finalized block and keeps the finalized one.\<close>

lemma include_node_inv:
  assumes ok: "config_ok c" and inv: "node_inv c n" and incl: "include_block (nc_cfg c) now b (vn_chain n) = Some ch"
    and pr: "producer_inv (nc_crypto c) pr"
  shows "node_inv c (n\<lparr>vn_responder := r, vn_chain := ch\<rparr>)" and "node_inv c (n\<lparr>vn_producer := pr, vn_chain := ch\<rparr>)"
proof -
  have all: "include_all (nc_cfg c) now [b] (vn_chain n) = Some ch" using incl by (simp add: include_block_def)
  have "chain_inv (nc_cfg c) ch" "ch_finalized ch = ch_finalized (vn_chain n)"
    using include_all_inv [OF _ all] include_all_frame [OF all] inv by (auto simp: node_inv_def)
  moreover have "all_executed (block_complete c) ch \<and> pending_finalized (ch_events ch) = pending_finalized (ch_events (vn_chain n))"
    using include_all_executed [OF block_complete_executed [OF ok] all] inv by (simp add: node_inv_def)
  ultimately show "node_inv c (n\<lparr>vn_responder := r, vn_chain := ch\<rparr>)" "node_inv c (n\<lparr>vn_producer := pr, vn_chain := ch\<rparr>)"
    using inv pr by (simp_all add: node_inv_def)
qed

lemma on_network_inv:
  assumes ok: "config_ok c" and inv: "node_inv c n" and step: "on_network c now delay ev n = Some n'"
  shows "node_inv c n'"
proof -
  have pr: "producer_inv (nc_crypto c) (vn_producer n)" using inv by (simp add: node_inv_def)
  show ?thesis
    using step inv include_node_inv(1) [OF ok inv _ pr] pr
    by (cases ev) (auto simp: on_network_def Let_def producer_inv_vote producer_inv_transaction intro: node_inv_cong)
qed

lemma on_produced_inv:
  assumes ok: "config_ok c" and inv: "node_inv c n" and step: "on_produced c now n = Some n'"
  shows "node_inv c n'"
proof -
  have "producer_inv (nc_crypto c) (snd (producer_poll (vn_producer n)))"
    using inv producer_inv_poll by (auto simp: node_inv_def)
  then show ?thesis
    using step inv include_node_inv(2) [OF ok inv]
    by (auto simp: on_produced_def split: prod.splits option.splits)
qed

text \<open>A block that the chain reports goes to the end of the channel.\<close>

lemma on_chain_inv:
  assumes inv: "node_inv c n" and step: "on_chain c now n = Some n'"
  shows "node_inv c n'"
proof -
  let ?ch = "vn_chain n"
  obtain m where m: "consecutive (latest_height (nc_blocks c) (vn_store n)) (map ex_height (channel_finalized (vn_channel n))) m"
    and rep: "reports_from m ?ch"
    using inv by (auto simp: node_inv_def reports_from_def consecutive_append)
  obtain ev ch where poll: "poll_next (nc_cfg c) now ?ch = Some (ev, ch)"
    and n': "n' = (case ev of None \<Rightarrow> n\<lparr>vn_chain := ch\<rparr> | Some ev' \<Rightarrow> on_chain_event c ev' (n\<lparr>vn_chain := ch\<rparr>))"
    using step by (auto simp: on_chain_def split: option.splits)
  have ci: "chain_inv (nc_cfg c) ?ch" and ae: "all_executed (block_complete c) ?ch" using inv by (simp_all add: node_inv_def)
  note after = poll_next_executed [OF ci ae rep poll] poll_next_inv [OF ci poll]
  have base: "consecutive (latest_height (nc_blocks c) (vn_store n))
      (map ex_height (channel_finalized (vn_channel n)) @ hs) t \<longleftrightarrow> consecutive m hs t" for hs t
    using m consecutive_unique by (auto simp: consecutive_append)
  show ?thesis
  proof (cases ev)
    case None
    then show ?thesis using inv after n' base by (simp add: node_inv_def reports_from_def)
  next
    case (Some ev')
    show ?thesis
    proof (cases ev')
      case (BlockFinalized e votes)
      then show ?thesis
        using inv after n' Some base by (simp add: node_inv_def on_chain_event_def consumers_consume_def reports_from_def)
    next
      case (BlockDiscarded b)
      then show ?thesis
        using inv after n' Some base
        by (simp add: node_inv_def on_chain_event_def reports_from_def producer_inv_reuse)
    qed (use inv after n' Some base in \<open>simp_all add: node_inv_def on_chain_event_def consumers_consume_def reports_from_def send_out_def\<close>)
  qed
qed

lemma consumers_step_inv:
  assumes ok: "config_ok c" and inv: "node_inv c n" and kept: "history_kept c n"
  shows "node_inv c (consumers_step c n)"
proof (cases "vn_channel n")
  case Nil
  then show ?thesis using inv by (simp add: consumers_step_def)
next
  case (Cons x rest)
  obtain e commit where x: "x = (e, commit)" by (cases x)
  have q: "vn_channel n = (e, commit) # rest" using Cons x by simp
  obtain s' where s': "bs_consume (nc_blocks c) (nc_params c) e commit (vn_store n) = Inr s'" "bs_inv (nc_blocks c) s'"
    "latest_height (nc_blocks c) s' = (if commit = Finalized then ex_height e else latest_height (nc_blocks c) (vn_store n))"
    by (rule channel_head_stored [OF ok inv q kept])
  show ?thesis
    using inv s' q by (auto simp: consumers_step_def node_inv_def producer_inv_consume)
qed

lemma node_step_inv:
  assumes "config_ok c" and "node_inv c n" and "history_kept c n" and "node_step c i n = Some n'"
  shows "node_inv c n'"
proof (cases i)
  case (SlotStarted slot v)
  then show ?thesis using assms(4) on_slot_inv [OF assms(2), of v n'] by simp
next
  case (ReplyDue now)
  then show ?thesis using assms(4) on_reply_inv [OF assms(2), of now n'] by simp
next
  case (NetworkReady now delay ev)
  then show ?thesis using assms(4) on_network_inv [OF assms(1,2), of now delay ev n'] by simp
next
  case (ProducerReady now)
  then show ?thesis using assms(4) on_produced_inv [OF assms(1,2), of now n'] by simp
next
  case (ChainReady now)
  then show ?thesis using assms(4) on_chain_inv [OF assms(2), of now n'] by simp
next
  case (RpcReady tx)
  then show ?thesis using assms(2,4) by auto
next
  case ConsumerReady
  then show ?thesis using assms(4) consumers_step_inv [OF assms(1-3)] by simp
qed

lemma node_run_inv:
  assumes "config_ok c" and "node_inv c n0" and "node_run c (history_kept c) n0 n"
  shows "node_inv c n"
  using assms(3)
proof induction
  case (run_step n i n')
  then show ?case using node_step_inv [OF assms(1)] by blast
qed (rule assms(2))

end
