(* ===== verification/Rensa_Demo_Codec.thy ===== *)
theory Rensa_Demo_Codec
  imports Rensa_Blockstore
begin

text \<open>
  A concrete self-delimiting serializer, built from combinators, on which the witnesses that need a block
  store are evaluated.
\<close>

type_synonym 'a codec = "('a \<Rightarrow> bytes) \<times> (bytes \<Rightarrow> ('a \<times> bytes) option)"

text \<open>Whatever follows, the decoder reads one value and leaves the rest.\<close>

definition codec_ok :: "'a codec \<Rightarrow> bool" where
  "codec_ok c \<longleftrightarrow> (\<forall>x rest. snd c (fst c x @ rest) = Some (x, rest))"

definition c_byte :: "byte codec" where
  "c_byte = (\<lambda>b. [b], \<lambda>bs. case bs of [] \<Rightarrow> None | b # rest \<Rightarrow> Some (b, rest))"

definition c_pair :: "'a codec \<Rightarrow> 'b codec \<Rightarrow> ('a \<times> 'b) codec" where
  "c_pair c d = (\<lambda>(x, y). fst c x @ fst d y,
     \<lambda>bs. case snd c bs of None \<Rightarrow> None | Some (x, r) \<Rightarrow> map_option (\<lambda>(y, r'). ((x, y), r')) (snd d r))"

text \<open>A value through a representation.\<close>

definition c_via :: "('a \<Rightarrow> 'b) \<Rightarrow> ('b \<Rightarrow> 'a) \<Rightarrow> 'b codec \<Rightarrow> 'a codec" where
  "c_via f g c = (\<lambda>x. fst c (f x), \<lambda>bs. map_option (\<lambda>(y, r). (g y, r)) (snd c bs))"

primrec dec_list :: "'a codec \<Rightarrow> nat \<Rightarrow> bytes \<Rightarrow> ('a list \<times> bytes) option" where
  "dec_list c 0 bs = None"
| "dec_list c (Suc fuel) bs =
     (case bs of
        [] \<Rightarrow> None
      | t # rest \<Rightarrow>
          if t = 0 then Some ([], rest)
          else (case snd c rest of
                  None \<Rightarrow> None
                | Some (x, r) \<Rightarrow> map_option (\<lambda>(xs, r'). (x # xs, r')) (dec_list c fuel r)))"

definition enc_list :: "'a codec \<Rightarrow> 'a list \<Rightarrow> bytes" where
  "enc_list c xs = concat (map (\<lambda>x. 1 # fst c x) xs) @ [0]"

definition c_list :: "'a codec \<Rightarrow> 'a list codec" where
  "c_list c = (enc_list c, \<lambda>bs. dec_list c (Suc (length bs)) bs)"

lemma codec_ok_byte [simp]: "codec_ok c_byte"
  by (simp add: codec_ok_def c_byte_def)

lemma codec_ok_pair [simp]: "codec_ok c \<Longrightarrow> codec_ok d \<Longrightarrow> codec_ok (c_pair c d)"
  by (auto simp: codec_ok_def c_pair_def)

lemma codec_ok_via [intro]: "codec_ok c \<Longrightarrow> (\<And>x. g (f x) = x) \<Longrightarrow> codec_ok (c_via f g c)"
  by (auto simp: codec_ok_def c_via_def)

lemma dec_enc_list: "codec_ok c \<Longrightarrow> length xs < fuel \<Longrightarrow> dec_list c fuel (enc_list c xs @ rest) = Some (xs, rest)"
proof (induction xs arbitrary: fuel)
  case Nil
  then show ?case by (cases fuel) (simp_all add: enc_list_def)
next
  case (Cons x xs)
  obtain fuel' where f: "fuel = Suc fuel'" using Cons.prems(2) by (cases fuel) auto
  have "snd c (fst c x @ enc_list c xs @ rest) = Some (x, enc_list c xs @ rest)" using Cons.prems(1) by (simp add: codec_ok_def)
  moreover have "dec_list c fuel' (enc_list c xs @ rest) = Some (xs, rest)" using Cons f by simp
  ultimately show ?case by (simp add: f enc_list_def)
qed

lemma codec_ok_list [simp]:
  assumes "codec_ok c"
  shows "codec_ok (c_list c)"
proof -
  have "length xs \<le> length (enc_list c xs)" for xs by (induction xs) (auto simp: enc_list_def)
  then have "length xs < Suc (length (enc_list c xs @ rest))" for xs rest by (simp add: le_imp_less_Suc trans_le_add1)
  then have "dec_list c (Suc (length (enc_list c xs @ rest))) (enc_list c xs @ rest) = Some (xs, rest)" for xs rest
    by (rule dec_enc_list [OF assms])
  then show ?thesis by (simp only: codec_ok_def c_list_def fst_conv snd_conv) simp
qed

section \<open>Base types\<close>

abbreviation c_bytes :: "bytes codec" where
  "c_bytes \<equiv> c_list c_byte"

definition c_u64 :: "u64 codec" where
  "c_u64 = c_via be_bytes (\<lambda>bs. the (from_be_bytes bs)) c_bytes"

definition c_bool :: "bool codec" where
  "c_bool = c_via byte_of_bool (\<lambda>b. b = 1) c_byte"

definition c_string :: "string codec" where
  "c_string = c_via (map (\<lambda>ch. of_nat (of_char ch))) (map (\<lambda>b. char_of (unat b))) c_bytes"

definition c_option :: "'a codec \<Rightarrow> 'a option codec" where
  "c_option c = c_via (\<lambda>x. case x of None \<Rightarrow> [] | Some y \<Rightarrow> [y]) (\<lambda>ys. case ys of [] \<Rightarrow> None | y # _ \<Rightarrow> Some y) (c_list c)"

lemma codec_ok_base [simp]: "codec_ok c_u64" "codec_ok c_bool" "codec_ok c_string"
proof -
  show "codec_ok c_u64" unfolding c_u64_def by (rule codec_ok_via) simp_all
  show "codec_ok c_bool" unfolding c_bool_def by (rule codec_ok_via) (simp_all add: byte_of_bool_def)
  have "char_of (unat (of_nat (of_char ch) :: byte)) = ch" for ch
    by (simp only: unat_of_nat_byte of_char_mod_256 char_of_char)
  then show "codec_ok c_string" unfolding c_string_def by (intro codec_ok_via) (simp_all add: comp_def)
qed

lemma codec_ok_option [simp]: "codec_ok c \<Longrightarrow> codec_ok (c_option c)"
  unfolding c_option_def by (rule codec_ok_via) (simp_all split: option.split)

section \<open>The types of the block store\<close>

definition c_ref :: "account_ref codec" where
  "c_ref = c_via (\<lambda>r. (ref_address r, ref_writable r, ref_signer r))
     (\<lambda>(a, w, s). \<lparr>ref_address = a, ref_writable = w, ref_signer = s\<rparr>) (c_pair c_bytes (c_pair c_bool c_bool))"

definition c_tx :: "transaction codec" where
  "c_tx = c_via (\<lambda>t. (tx_contract t, tx_nonce t, tx_payer t, tx_accounts t, tx_params t, tx_signatures t))
     (\<lambda>(c, n, p, a, ps, s). \<lparr>tx_contract = c, tx_nonce = n, tx_payer = p, tx_accounts = a, tx_params = ps, tx_signatures = s\<rparr>)
     (c_pair c_bytes (c_pair c_u64 (c_pair c_bytes (c_pair (c_list c_ref) (c_pair c_bytes (c_list c_bytes))))))"

definition c_vote :: "vote codec" where
  "c_vote = c_via (\<lambda>v. (vote_validator v, vote_target v, vote_justification v, vote_signature v))
     (\<lambda>(v, t, j, s). \<lparr>vote_validator = v, vote_target = t, vote_justification = j, vote_signature = s\<rparr>)
     (c_pair c_bytes (c_pair c_bytes (c_pair c_bytes c_bytes)))"

definition c_produced :: "transaction list produced codec" where
  "c_produced = c_via (\<lambda>b. (bl_parent b, bl_state_hash b, bl_height b, bl_signature b, bl_data b, bl_votes b))
     (\<lambda>(p, s, h, g, d, v). \<lparr>bl_parent = p, bl_state_hash = s, bl_height = h, bl_signature = g, bl_data = d, bl_votes = v\<rparr>)
     (c_pair c_bytes (c_pair c_bytes (c_pair c_u64 (c_pair (c_pair c_bytes c_bytes) (c_pair (c_list c_tx) (c_list c_vote))))))"

definition c_account :: "account codec" where
  "c_account = c_via (\<lambda>a. (acc_executable a, acc_nonce a, acc_owner a, acc_data a))
     (\<lambda>(x, n, ow, d). \<lparr>acc_executable = x, acc_nonce = n, acc_owner = ow, acc_data = d\<rparr>)
     (c_pair c_bool (c_pair c_u64 (c_pair (c_option c_bytes) (c_option c_bytes))))"

fun error_rep :: "contract_error \<Rightarrow> byte \<times> string" where
  "error_rep InvalidTransactionNonce = (0, [])"
| "error_rep AccountAlreadyExists = (1, [])"
| "error_rep AccountDoesNotExist = (2, [])"
| "error_rep TooManyInputAccounts = (3, [])"
| "error_rep AccountTooLarge = (4, [])"
| "error_rep LogTooLarge = (5, [])"
| "error_rep TooManyLogs = (6, [])"
| "error_rep InvalidInputAccounts = (7, [])"
| "error_rep InvalidAccountOwner = (8, [])"
| "error_rep InvalidOutputAccount = (9, [])"
| "error_rep AccountNotWritable = (10, [])"
| "error_rep ContractDoesNotExit = (11, [])"
| "error_rep AccountIsNotExecutable = (12, [])"
| "error_rep (SignatureError InvalidSignature) = (13, [])"
| "error_rep (SignatureError MissingSigners) = (14, [])"
| "error_rep InvalidInputParameters = (15, [])"
| "error_rep UnauthorizedOperation = (16, [])"
| "error_rep (Runtime s) = (17, s)"
| "error_rep (Other s) = (18, s)"
| "error_rep ComputationalBudgetExhausted = (19, [])"

definition error_abs :: "byte \<times> string \<Rightarrow> contract_error" where
  "error_abs r = (let n = unat (fst r) in
     if n = 17 then Runtime (snd r) else if n = 18 then Other (snd r)
     else if n = 19 then ComputationalBudgetExhausted
     else [InvalidTransactionNonce, AccountAlreadyExists, AccountDoesNotExist, TooManyInputAccounts, AccountTooLarge, LogTooLarge,
       TooManyLogs, InvalidInputAccounts, InvalidAccountOwner, InvalidOutputAccount, AccountNotWritable, ContractDoesNotExit,
       AccountIsNotExecutable, SignatureError InvalidSignature, SignatureError MissingSigners, InvalidInputParameters,
       UnauthorizedOperation] ! n)"

definition c_error :: "contract_error codec" where
  "c_error = c_via error_rep error_abs (c_pair c_byte c_string)"

definition c_logs :: "(string \<times> string) list codec" where
  "c_logs = c_list (c_pair c_string c_string)"

definition c_output :: "block_output codec" where
  "c_output = c_via (\<lambda>o'. (sd_data (bo_state o'), sd_deletes (bo_state o'), bo_logs o', bo_errors o'))
     (\<lambda>(d, x, l, e). \<lparr>bo_state = \<lparr>sd_data = d, sd_deletes = x\<rparr>, bo_logs = l, bo_errors = e\<rparr>)
     (c_pair (c_list (c_pair c_bytes c_account)) (c_pair (c_list c_bytes)
       (c_pair (c_list (c_pair c_bytes c_logs)) (c_list (c_pair c_bytes c_error)))))"

definition c_etx :: "executed_transaction codec" where
  "c_etx = c_via
     (\<lambda>t. (et_block t, et_transaction t, case et_output t of Inl e \<Rightarrow> (Some e, []) | Inr l \<Rightarrow> (None, l)))
     (\<lambda>(b, t, r). \<lparr>et_block = b, et_transaction = t, et_output = (case r of (Some e, _) \<Rightarrow> Inl e | (None, l) \<Rightarrow> Inr l)\<rparr>)
     (c_pair c_u64 (c_pair c_tx (c_pair (c_option c_error) c_logs)))"

lemma codec_ok_records [simp]:
  "codec_ok c_ref" "codec_ok c_tx" "codec_ok c_vote" "codec_ok c_produced" "codec_ok c_account" "codec_ok c_error"
  "codec_ok c_logs" "codec_ok c_output" "codec_ok c_etx"
proof -
  show r: "codec_ok c_ref" unfolding c_ref_def by (rule codec_ok_via) simp_all
  show t: "codec_ok c_tx" unfolding c_tx_def using r by (intro codec_ok_via) simp_all
  show v: "codec_ok c_vote" unfolding c_vote_def by (rule codec_ok_via) simp_all
  show "codec_ok c_produced" unfolding c_produced_def using t v by (intro codec_ok_via) simp_all
  show a: "codec_ok c_account" unfolding c_account_def by (rule codec_ok_via) simp_all
  have "error_abs (error_rep e) = e" for e by (cases e rule: error_rep.cases) (simp_all add: error_abs_def)
  then show e: "codec_ok c_error" unfolding c_error_def by (intro codec_ok_via) simp_all
  show l: "codec_ok c_logs" unfolding c_logs_def by simp
  show "codec_ok c_output" unfolding c_output_def using a e l by (intro codec_ok_via) simp_all
  show "codec_ok c_etx" unfolding c_etx_def using t e l by (intro codec_ok_via) (simp_all split: sum.split)
qed

definition demo_block_codec :: block_codec where
  "demo_block_codec = \<lparr>enc_block = fst c_produced, dec_block = (\<lambda>bs. map_option fst (snd c_produced bs)),
     enc_output = fst c_output, dec_output = (\<lambda>bs. map_option fst (snd c_output bs)),
     enc_tx = fst c_etx, dec_tx = (\<lambda>bs. map_option fst (snd c_etx bs))\<rparr>"

lemma codec_ok_whole: "codec_ok c \<Longrightarrow> snd c (fst c x) = Some (x, [])"
  unfolding codec_ok_def by (metis append_Nil2)

lemma demo_block_codec_ok: "block_codec_ok demo_block_codec"
  by (simp add: block_codec_ok_def demo_block_codec_def codec_ok_whole)

end
