(* ===== verification/Rensa_Service_Properties.thy ===== *)
theory Rensa_Service_Properties
  imports Rensa_Validator Rensa_Demo_Codec Rensa_Node_Properties Rensa_VM_Properties
begin

text \<open>
  The properties of the producer, the block store, the schedule and of the composed validator, each
  with a witness on a concrete node where it has hypotheses.
\<close>

section \<open>A concrete validator\<close>

definition demo_config :: node_config where
  "demo_config = \<lparr>nc_params = node_params, nc_genesis = demo_genesis, nc_fuel = 1, nc_vm = node_vm,
     nc_accounts = demo_account_codec, nc_blocks = demo_block_codec, nc_keypair = [0, 1], nc_peers = []\<rparr>"

lemma demo_config_simps [simp]:
  "nc_params demo_config = node_params" "nc_genesis demo_config = demo_genesis" "nc_fuel demo_config = 1"
  "nc_vm demo_config = node_vm" "nc_accounts demo_config = demo_account_codec" "nc_blocks demo_config = demo_block_codec"
  "nc_keypair demo_config = [0, 1]" "nc_peers demo_config = []" "bp_crypto node_params = demo_crypto" "vm_crypto node_vm = demo_crypto"
  by (simp_all add: demo_config_def node_params_def node_vm_def)

lemma demo_config_ok: "config_ok demo_config"
  by (simp add: config_ok_def demo_block_codec_ok)

definition demo_node_chain :: "(transaction list, accounts_db) chain" where
  "demo_node_chain = \<lparr>ch_stakes = [([0, 1], 100)], ch_finalized = GenesisBlock demo_genesis, ch_store = [],
     ch_forktrees = [], ch_orphans = orphans_new 0, ch_ownvotes = [], ch_events = [], ch_finalized_history = []\<rparr>"

definition demo_validator :: validator_node where
  "demo_validator = \<lparr>vn_chain = demo_node_chain, vn_producer = producer_new demo_genesis [0, 1],
     vn_store = block_store_new 10 True, vn_responder = responder_new 0 1, vn_channel = [], vn_netout = []\<rparr>"

lemma demo_validator_new: "node_new demo_config [] (block_store_new 10 True) = Some demo_validator"
  by (simp add: node_new_def bs_latest_def tree_last_def block_store_new_def chain_new_def demo_validator_def demo_node_chain_def
      node_cfg_def demo_genesis_def persistent_new_def genesis_stakes_def hm_insert_def)

text \<open>An empty block on genesis.\<close>

definition empty_block :: "transaction list produced" where
  "empty_block = produced_new node_params [0, 1] 1 [7, 115] [] [7, 6] []"

definition empty_executed :: "transaction list executed" where
  "empty_executed = \<lparr>ex_underlying = empty_block, ex_output = block_output_empty\<rparr>"

lemma empty_block_simps [simp]:
  "bl_parent empty_block = [7, 115]" "bl_height empty_block = 1" "bl_data empty_block = []" "bl_votes empty_block = []"
  "fst (bl_signature empty_block) = [0, 1]" "bl_state_hash empty_block = [7, 6]"
  by (simp_all add: empty_block_def produced_new_def Let_def)

lemma empty_execution: "execute_block fuel vm st [] = ret block_output_empty"
  by (simp add: execute_block_def verify_transactions_order_def)

lemma demo_node_head: "with_head (nc_cfg demo_config) demo_node_chain =
    (finalized_state (nc_cfg demo_config) demo_node_chain, GenesisBlock demo_genesis)"
  by (simp add: with_head_def sorted_heads_def demo_node_chain_def)

lemma empty_take: "take_transactions c n (mempool_new vs) = ([], mempool_new vs)" "take_votes (mempool_new vs) = ([], mempool_new vs)"
  by (simp_all add: take_transactions_def take_votes_def ordered_transactions_def mempool_new_def)

lemma demo_produce:
  "produce node_params 1 node_vm st (GenesisBlock demo_genesis) (producer_new demo_genesis [0, 1]) =
     Some ((producer_new demo_genesis [0, 1])\<lparr>pr_pending := Some empty_block\<rparr>)"
  by (simp add: produce_def producer_new_def empty_take empty_execution empty_block_def demo_output_hash demo_genesis_hash Let_def)

section \<open>The composed validator\<close>

text \<open>
  C8. The components keep in step: from a start on any well-formed block store, as long as the kept
  history reaches back to the last stored finalized block, every state of the run loop satisfies the invariants of
  chain, producer and block store, the finalized blocks on their way to the store continue it without a gap,
  and the store takes the next block without a panic.
\<close>

theorem node_composition:
  assumes "config_ok c" and "bs_inv (nc_blocks c) store" and "node_new c db store = Some n0"
    and "node_run c (history_kept c) n0 n" and "history_kept c n"
  shows "node_inv c n \<and> (\<forall>e commit rest. vn_channel n = (e, commit) # rest \<longrightarrow>
    (\<exists>s. bs_consume (nc_blocks c) (nc_params c) e commit (vn_store n) = Inr s))"
proof -
  have inv: "node_inv c n" by (rule node_run_inv [OF assms(1) node_new_inv [OF assms(2,3)] assms(4)])
  then show ?thesis using channel_head_stored [OF assms(1) inv _ assms(5)] by blast
qed

definition demo_ncfg :: "(transaction list, accounts_db) chain_cfg" where
  "demo_ncfg = nc_cfg demo_config"

lemma demo_ncfg_simps [simp]:
  "cfg_params demo_ncfg = node_params" "cfg_genesis demo_ncfg = demo_genesis"
  "cfg_run demo_ncfg = execute_block 1 node_vm" "cfg_store_apply demo_ncfg d s \<noteq> None"
  "g_epoch_blocks demo_genesis = 1" "minimum_stake (g_limits demo_genesis) = 10"
  by (simp_all add: demo_ncfg_def node_cfg_def demo_genesis_def demo_limits_def)

lemma empty_block_verifies: "block_verify_signature node_params empty_block"
  unfolding empty_block_def by (rule produced_new_verifies) (simp add: demo_signing)

lemma empty_block_hash: "block_hash node_params empty_block = [7, 16]"
  by (simp add: empty_block_def block_hash_new hash_parts_def data_hash_def sha3_multihash_def demo_sha3_def)

lemma empty_executed_new: "executed_new demo_crypto (execute_block 1 node_vm) st empty_block = ret empty_executed"
  by (simp add: executed_new_ret empty_execution demo_output_hash empty_executed_def)

lemma demo_included:
  "\<exists>ch. include_block demo_ncfg 0 empty_block demo_node_chain = Some ch
    \<and> ch_events ch \<noteq> [] \<and> last (ch_events ch) = BlockIncluded empty_executed"
  using empty_block_verifies empty_executed_new
  by (simp add: include_block_def include_one_def try_include_def get_block_node_def demo_node_chain_def demo_genesis_hash
      empty_block_hash push_front_def with_head_def sorted_heads_def tn_new_def volatile_new_def
      commit_and_vote_def epoch_def consume_blocks_def orphans_new_def empty_executed_def Let_def)

text \<open>The validator's own slot: it produces a block, includes it, and the chain reports it.\<close>

lemma demo_node_run:
  "\<exists>n. node_run demo_config (history_kept demo_config) demo_validator n \<and> vn_channel n = [(empty_executed, Included)]
    \<and> history_kept demo_config n"
proof -
  let ?c = demo_config and ?H = "history_kept demo_config"
  define n1 where "n1 = demo_validator\<lparr>vn_producer := (producer_new demo_genesis [0, 1])\<lparr>pr_pending := Some empty_block\<rparr>\<rparr>"
  have s1: "node_step ?c (SlotStarted 1 (Validator [0, 1] 100)) demo_validator = Some n1"
    using demo_produce demo_node_head by (simp add: on_slot_def demo_validator_def n1_def)
  obtain ch where ch: "include_block (nc_cfg ?c) 0 empty_block demo_node_chain = Some ch"
    "ch_events ch \<noteq> []" "last (ch_events ch) = BlockIncluded empty_executed"
    using demo_included unfolding demo_ncfg_def by blast
  define n2 where "n2 = send_out (GossipBlock empty_block) (n1\<lparr>vn_producer := producer_new demo_genesis [0, 1], vn_chain := ch\<rparr>)"
  have s2: "node_step ?c (ProducerReady 0) n1 = Some n2"
    using ch(1) by (simp add: on_produced_def producer_poll_def n1_def n2_def demo_validator_def producer_new_def)
  have kept: "?H demo_validator" "?H n1" "?H n2" by (simp_all add: history_kept_def demo_validator_def n1_def n2_def)
  have run2: "node_run ?c ?H demo_validator n2" using node_run.intros s1 s2 kept by metis
  have inv0: "node_inv ?c demo_validator" by (rule node_new_inv [OF _ demo_validator_new]) simp
  have inv: "node_inv ?c n2" by (rule node_run_inv [OF demo_config_ok inv0 run2])
  have ci: "chain_inv demo_ncfg ch" using inv unfolding demo_ncfg_def node_inv_def n2_def by simp
  have "poll_next demo_ncfg 0 ch \<noteq> None" by (rule poll_next_total [OF ci]) simp_all
  then obtain ch' where poll: "poll_next demo_ncfg 0 ch = Some (Some (BlockIncluded empty_executed), ch')"
    using ch(2,3) by (auto simp: poll_next_def Let_def)
  define n3 where "n3 = consumers_consume empty_executed Included (n2\<lparr>vn_chain := ch'\<rparr>)"
  have s3: "node_step ?c (ChainReady 0) n2 = Some n3"
    using poll unfolding demo_ncfg_def by (simp add: on_chain_def n2_def n3_def on_chain_event_def)
  have "node_run ?c ?H demo_validator n3" using node_run.run_step [OF run2 kept(3) s3] .
  moreover have "vn_channel n3 = [(empty_executed, Included)]"
    by (simp add: n3_def n2_def n1_def demo_validator_def consumers_consume_def)
  ultimately show ?thesis by (intro exI [of _ n3]) (simp add: history_kept_def)
qed

theorem node_composition_witness:
  "\<exists>n. vn_channel n = [(empty_executed, Included)] \<and> node_inv demo_config n
    \<and> (\<exists>s. bs_consume demo_block_codec node_params empty_executed Included (vn_store n) = Inr s)"
proof -
  obtain n where n: "node_run demo_config (history_kept demo_config) demo_validator n" "vn_channel n = [(empty_executed, Included)]"
    "history_kept demo_config n"
    using demo_node_run by blast
  have "bs_inv (nc_blocks demo_config) (block_store_new 10 True)" by simp
  from node_composition [OF demo_config_ok this demo_validator_new n(1,3)] n(2) show ?thesis
    by (intro exI [of _ n]) simp
qed

section \<open>Producing blocks\<close>

text \<open>
  C26. A validator's own block is accepted: the block produced on the head of the chain carries a valid
  signature, the height after the head's and the state hash that its execution yields, so including it succeeds and the
  chain finds it under its hash.
\<close>

theorem produced_block_included:
  assumes "chain_inv cfg ch" and "cfg_run cfg = execute_block fuel vm" and "with_head cfg ch = (st, prev)"
    and "signing_correct (cfg_crypto cfg)" and "eligible cfg (ch_stakes ch) (ed_public (cfg_crypto cfg) (pr_keypair pr))"
    and "finalized_height ch < any_height prev + 1" and "g_epoch_blocks (cfg_genesis cfg) \<noteq> 0"
    and "produce (cfg_params cfg) fuel vm st prev pr = Some pr'"
  shows "\<exists>b bs ch'. pr_pending pr' = Some b \<and> include_one cfg now b ch = Some (bs, ch')
    \<and> get_block_node cfg ch' (block_hash (cfg_params cfg) b) \<noteq> None"
  using assms by (rule include_one_produced)

theorem produced_block_included_witness:
  "\<exists>bs ch'. include_one demo_ncfg 0 empty_block demo_node_chain = Some (bs, ch')
    \<and> get_block_node demo_ncfg ch' (block_hash node_params empty_block) \<noteq> None"
proof -
  have inv: "chain_inv demo_ncfg demo_node_chain"
    by (simp add: chain_inv_def demo_node_chain_def orphans_new_def orphans_invar_def)
  have head: "with_head demo_ncfg demo_node_chain = (finalized_state demo_ncfg demo_node_chain, GenesisBlock demo_genesis)"
    using demo_node_head unfolding demo_ncfg_def .
  have "\<exists>b bs ch'. pr_pending ((producer_new demo_genesis [0, 1])\<lparr>pr_pending := Some empty_block\<rparr>) = Some b
    \<and> include_one demo_ncfg 0 b demo_node_chain = Some (bs, ch')
    \<and> get_block_node demo_ncfg ch' (block_hash (cfg_params demo_ncfg) b) \<noteq> None"
    by (rule produced_block_included [OF inv _ head, of 1 node_vm "producer_new demo_genesis [0, 1]"])
      (simp_all add: demo_signing eligible_def demo_node_chain_def producer_new_def demo_produce [unfolded producer_new_def One_nat_def])
  then show ?thesis by simp
qed

text \<open>
  C27. Taking transactions for a block splits the mempool: at most the limit is taken, the transactions
  taken and those left over are together exactly the transactions of the mempool, each once.
\<close>

theorem mempool_split:
  assumes "mempool_inv c mp" and "take_transactions c limit mp = (txs, mp')"
  shows "length txs \<le> limit \<and> mset txs + mset (map snd (mp_txs mp')) = mset (map snd (mp_txs mp))
    \<and> mempool_inv c mp' \<and> distinct (map (tx_hash c) txs)"
proof -
  have "txs = take limit (ordered_transactions c mp)" using assms(2) by (auto simp: take_transactions_def Let_def)
  moreover have "distinct (map (tx_hash c) (ordered_transactions c mp))"
    using mempool_txs_distinct [OF assms(1)] mset_ordered_transactions [OF assms(1)]
    by (metis mset_eq_imp_distinct_iff mset_map)
  ultimately have "length txs \<le> limit" "distinct (map (tx_hash c) txs)" by (simp_all flip: take_map)
  then show ?thesis
    using take_transactions_partition [OF assms] mempool_inv_take [OF assms(1), of limit] assms(2) by simp
qed

text \<open>A producer with one transaction.\<close>

definition demo_producer :: producer where
  "demo_producer = record_transaction demo_crypto demo_tx (producer_new demo_genesis [0, 1])"

lemma demo_producer_inv: "producer_inv demo_crypto demo_producer"
  by (simp add: demo_producer_def producer_inv_transaction)

lemma demo_tx_limits: "tx_verify_limits demo_tx demo_limits = Inr ()"
  by (simp add: tx_verify_limits_def demo_tx_def tx_new_def demo_limits_def Let_def)

lemma demo_producer_mempool:
  "pr_mempool demo_producer = \<lparr>mp_validators = {[0, 1]}, mp_votes = [], mp_txs = [(tx_hash demo_crypto demo_tx, demo_tx)]\<rparr>"
  "pr_limits demo_producer = demo_limits" "pr_keypair demo_producer = [0, 1]"
  using demo_tx_limits demo_tx_signed
  by (simp_all add: demo_producer_def record_transaction_def producer_new_def add_transaction_def mempool_new_def
      hm_insert_def demo_genesis_def)

lemma demo_producer_take:
  "take_transactions demo_crypto (max_block_transactions demo_limits) (snd (take_votes (pr_mempool demo_producer))) =
     ([demo_tx], mempool_new {[0, 1]})"
  by (simp add: demo_producer_mempool take_votes_def take_transactions_def ordered_transactions_def insert_group_def
      demo_limits_def hm_remove_def mempool_new_def Let_def)

lemma demo_produce_tx:
  "\<exists>pr' b. produce node_params 1 demo_vm (\<lambda>a. None) (GenesisBlock demo_genesis) demo_producer = Some pr'
     \<and> pr_pending pr' = Some b \<and> bl_data b = [demo_tx]"
proof -
  obtain out where "execute_block 1 demo_vm (\<lambda>a. None) [demo_tx] = ret out" using demo_execute by blast
  then show ?thesis
    using demo_producer_take
    by (simp add: produce_def demo_producer_mempool take_votes_def Let_def produced_new_def)
qed

theorem mempool_split_witness:
  "length [demo_tx] \<le> 9 \<and> mempool_inv demo_crypto (mempool_new {[0, 1]})"
proof -
  have "mempool_inv demo_crypto (snd (take_votes (pr_mempool demo_producer)))"
    using demo_producer_inv mempool_inv_take_votes by (simp add: producer_inv_def)
  from mempool_split [OF this demo_producer_take] show ?thesis by (simp add: demo_limits_def)
qed

text \<open>
  A discarded block loses nothing: reusing the block that was just produced puts every vote and every
  transaction it took back into the mempool.
\<close>

theorem discarded_block_reused:
  assumes "producer_inv (bp_crypto p) pr" and "produce p fuel vm st prev pr = Some pr'" and "pr_pending pr' = Some b"
  shows "map_of (mp_votes (pr_mempool (reuse_discarded (bp_crypto p) b pr'))) s = map_of (mp_votes (pr_mempool pr)) s
    \<and> map_of (mp_txs (pr_mempool (reuse_discarded (bp_crypto p) b pr'))) h = map_of (mp_txs (pr_mempool pr)) h"
  using reuse_produced [OF assms] by blast

theorem discarded_block_reused_witness:
  "\<exists>pr' b. produce node_params 1 demo_vm (\<lambda>a. None) (GenesisBlock demo_genesis) demo_producer = Some pr'
    \<and> pr_pending pr' = Some b
    \<and> map_of (mp_txs (pr_mempool (reuse_discarded demo_crypto b pr'))) (tx_hash demo_crypto demo_tx) = Some demo_tx"
proof -
  obtain pr' b where ok: "produce node_params 1 demo_vm (\<lambda>a. None) (GenesisBlock demo_genesis) demo_producer = Some pr'"
    and b: "pr_pending pr' = Some b"
    using demo_produce_tx by blast
  have "producer_inv (bp_crypto node_params) demo_producer" by (simp add: demo_producer_inv)
  from discarded_block_reused [OF this ok b, of "[]" "tx_hash demo_crypto demo_tx"] ok b show ?thesis
    by (simp add: demo_producer_mempool)
qed

text \<open>
  C35. Producing a block returns whenever the mempool is iterated payer by payer, no nonce is the largest
  \<open>u64\<close> and the transactions execute: the order the producer chooses passes the order check of the virtual machine.
\<close>

theorem produce_returns:
  assumes "mempool_inv (bp_crypto p) (pr_mempool pr)" and "payers_together (pr_mempool pr)"
    and "\<forall>tx \<in> set (map snd (mp_txs (pr_mempool pr))). tx_nonce tx \<noteq> u64_max"
    and "\<forall>txs. execute_transactions fuel vm st txs block_output_empty \<noteq> None"
  shows "\<exists>pr'. produce p fuel vm st prev pr = Some pr'"
proof -
  let ?mp = "snd (take_votes (pr_mempool pr))"
  have "payers_together ?mp" "mp_txs ?mp = mp_txs (pr_mempool pr)"
    using assms(2) by (simp_all add: take_votes_def payers_together_def)
  then have "verify_transactions_order (vm_crypto vm) (fst (take_transactions (bp_crypto p) n ?mp))" for n
    using assms(3) by (intro taken_in_order [OF mempool_inv_take_votes [OF assms(1)]]) auto
  moreover obtain txs mp' where txs: "take_transactions (bp_crypto p) (max_block_transactions (pr_limits pr)) ?mp = (txs, mp')"
    by (cases "take_transactions (bp_crypto p) (max_block_transactions (pr_limits pr)) ?mp")
  ultimately have "verify_transactions_order (vm_crypto vm) txs" by (metis fst_conv)
  moreover obtain out where "execute_transactions fuel vm st txs block_output_empty = Some out" using assms(4) by blast
  ultimately have "execute_block fuel vm st txs = ret out" by (simp add: execute_block_def)
  then show ?thesis using txs by (auto simp: produce_def Let_def split: prod.split)
qed

text \<open>A machine without contracts fails every transaction and executes every block.\<close>

lemma node_vm_total: "execute_transactions fuel node_vm st txs acc \<noteq> None"
proof (induction txs arbitrary: acc)
  case (Cons tx txs)
  have "\<exists>e. run_transaction fuel node_vm tx view = throw e" for view
  proof -
    have "\<exists>e. machine_contract node_vm (tx_contract tx) view = Inl e"
      by (simp add: machine_contract_def node_vm_def split: option.split)
    moreover have "machine_builtin node_vm (tx_contract tx) = None" by (simp add: machine_builtin_def node_vm_def)
    ultimately obtain e where "resolve_entrypoint node_vm (tx_contract tx) view = Inl e"
      by (auto simp: resolve_entrypoint_def)
    then show ?thesis by (auto simp: run_transaction_def unit_new_def split: sum.split)
  qed
  then obtain e where "run_transaction fuel node_vm tx
      (overlayed_get st (sd_get (bump_payer st (bo_state acc) (tx_payer tx)))) = throw e" by blast
  then obtain acc' where "execute_transaction fuel node_vm st tx acc = Some acc'" by (simp add: execute_transaction_def)
  then show ?case using Cons.IH by simp
qed simp

theorem produce_returns_witness:
  "\<exists>pr'. produce node_params 1 node_vm (\<lambda>a. None) (GenesisBlock demo_genesis) demo_producer = Some pr'"
proof (rule produce_returns)
  show "mempool_inv (bp_crypto node_params) (pr_mempool demo_producer)" using demo_producer_inv by (simp add: producer_inv_def)
  show "payers_together (pr_mempool demo_producer)" by (simp add: payers_together_def demo_producer_mempool)
  show "\<forall>tx \<in> set (map snd (mp_txs (pr_mempool demo_producer))). tx_nonce tx \<noteq> u64_max"
    by (simp add: demo_producer_mempool demo_tx_def tx_new_def u64_max_def Let_def)
  show "\<forall>txs. execute_transactions 1 node_vm (\<lambda>a. None) txs block_output_empty \<noteq> None" using node_vm_total by blast
qed

text \<open>
  C7. Including a block in the chain of a node returns, with all the orphans it releases: it neither panics nor recurses forever and keeps the
  invariant, the finalized block and the accounts database, whatever the block is. The condition: every transaction of the block and of
  the orphans that wait calls a contract that itself returns on every call, with an error or with outputs that call no other
  contract; this is so for currency and sha3, not for the staking builtin, which panics. One level of fuel is enough then.
\<close>

theorem include_returns:
  assumes "reachable (node_cfg p g (Suc n) vm k) fin ch" and "g_epoch_blocks g \<noteq> 0"
    and "\<forall>blk \<in> insert b (orphan_blocks (ch_orphans ch)). \<forall>tx \<in> set (bl_data blk). settled vm (tx_contract tx)"
  shows "\<exists>ch'. include_block (node_cfg p g (Suc n) vm k) now b ch = Some ch' \<and> chain_inv (node_cfg p g (Suc n) vm k) ch'
    \<and> ch_finalized ch' = ch_finalized ch \<and> ch_store ch' = ch_store ch"
proof -
  let ?cfg = "node_cfg p g (Suc n) vm k"
  have "include_all ?cfg now [b] ch \<noteq> None"
  proof (rule include_all_returns)
    show "g_epoch_blocks (cfg_genesis ?cfg) \<noteq> 0" using assms(2) by (simp add: node_cfg_def)
    fix blk st
    assume "blk \<in> set [b] \<union> orphan_blocks (ch_orphans ch)"
    then have "execute_block (Suc n) vm st (bl_data blk) \<noteq> None" using assms(3) by (intro settled_block) auto
    then show "cfg_run ?cfg st (bl_data blk) \<noteq> None" by (simp add: node_cfg_def)
  qed
  then obtain ch' where ch': "include_all ?cfg now [b] ch = Some ch'" by blast
  have "chain_inv ?cfg ch" using reachable_inv [OF assms(1)] by simp
  with ch' show ?thesis using include_all_inv include_all_frame by (fastforce simp: include_block_def)
qed

definition sha3_cfg :: "(transaction list, accounts_db) chain_cfg" where
  "sha3_cfg = node_cfg node_params demo_genesis 1 demo_vm demo_account_codec"

theorem include_returns_witness:
  "\<exists>ch b ch'. reachable sha3_cfg (GenesisBlock demo_genesis) ch \<and> bl_data b = [demo_tx]
    \<and> include_block sha3_cfg 0 b ch = Some ch' \<and> chain_inv sha3_cfg ch' \<and> ch_finalized ch' = ch_finalized ch"
proof -
  have "g_slot_interval (cfg_genesis sha3_cfg) * (unat (g_epoch_blocks (cfg_genesis sha3_cfg)) mod 2 ^ 32) < 2 ^ 64 * 10 ^ 9"
    by (simp add: sha3_cfg_def node_cfg_def demo_genesis_def)
  then obtain ch where ch: "chain_new sha3_cfg (GenesisBlock demo_genesis) [] = Some ch" "ch_orphans ch = orphans_new
      (g_slot_interval (cfg_genesis sha3_cfg) * (unat (g_epoch_blocks (cfg_genesis sha3_cfg)) mod 2 ^ 32))"
    unfolding chain_new_def Let_def by (simp only: not_le [symmetric] if_False) simp
  then have none: "orphan_blocks (ch_orphans ch) = {}" by (simp add: orphan_blocks_def orphans_new_def)
  obtain b :: "transaction list produced" where b: "bl_data b = [demo_tx]" using demo_produce_tx by blast
  have "machine_builtin demo_vm (tx_contract demo_tx) = Some (sha3_contract demo_crypto)"
    by (simp add: machine_builtin_def demo_vm_def demo_tx_def tx_new_def Let_def)
  then have "settled demo_vm (tx_contract demo_tx)" by (rule settled_sha3)
  then have "\<exists>ch'. include_block sha3_cfg 0 b ch = Some ch' \<and> chain_inv sha3_cfg ch'
      \<and> ch_finalized ch' = ch_finalized ch \<and> ch_store ch' = ch_store ch"
    using include_returns [where n = 0 and vm = demo_vm, of node_params demo_genesis demo_account_codec "GenesisBlock demo_genesis" ch b 0]
      reach_new [OF ch(1)] none b by (simp add: sha3_cfg_def)
  then show ?thesis using reach_new [OF ch(1)] b by blast
qed

text \<open>Four valid transactions; the payer \<open>[0, 1]\<close> is interrupted by the payer \<open>[0, 2]\<close>.\<close>

definition split_tx :: "u64 \<Rightarrow> bytes \<Rightarrow> bytes \<Rightarrow> transaction" where
  "split_tx nonce payer params = tx_new demo_crypto [9] nonce payer [] params []"

definition split_producer :: producer where
  "split_producer = fold (record_transaction demo_crypto)
     [split_tx 3 [0, 1] [], split_tx 5 [0, 1] [1, 1, 1], split_tx 1 [0, 2] [1, 1], split_tx 4 [0, 1] [1]]
     (producer_new demo_genesis [0, 1])"

lemma split_tx_simps [simp]:
  "tx_nonce (split_tx n p ps) = n" "tx_payer (split_tx n p ps) = p"
  "tx_verify_signatures demo_crypto (split_tx n p ps) = Inr ()"
  "length ps \<le> 9 \<Longrightarrow> tx_verify_limits (split_tx n p ps) demo_limits = Inr ()"
  "length p = 2 \<Longrightarrow> tx_hash demo_crypto (split_tx n p ps) = [7, of_nat (15 + length ps)]"
  by (simp_all add: split_tx_def tx_new_def Let_def tx_verify_signatures_def tx_fields_hash_def tx_signing_accounts_def
      tx_verify_limits_def demo_limits_def tx_hash_def sha3_multihash_def demo_sha3_def tx_hash_fields_def)

lemma split_producer_mempool:
  "pr_mempool split_producer = \<lparr>mp_validators = {[0, 1]}, mp_votes = [],
     mp_txs = [([7, 15], split_tx 3 [0, 1] []), ([7, 18], split_tx 5 [0, 1] [1, 1, 1]),
       ([7, 17], split_tx 1 [0, 2] [1, 1]), ([7, 16], split_tx 4 [0, 1] [1])]\<rparr>"
  "pr_limits split_producer = demo_limits"
  by (simp_all add: split_producer_def record_transaction_def producer_new_def add_transaction_def mempool_new_def
      hm_insert_def demo_genesis_def)

text \<open>
  Producing a block can panic on valid transactions: with the transactions of one payer split into
  two runs of the map's iteration, the producer orders them so that the order check rejects them, on which \<open>produce\<close>
  panics.
\<close>

theorem split_payer_panics:
  "producer_inv demo_crypto split_producer
   \<and> produce node_params fuel node_vm st prev split_producer = None"
proof
  show "producer_inv demo_crypto split_producer" by (simp add: split_producer_def producer_inv_transaction)
  have "fst (take_transactions demo_crypto (max_block_transactions demo_limits) (snd (take_votes (pr_mempool split_producer)))) =
      [split_tx 3 [0, 1] [], split_tx 5 [0, 1] [1, 1, 1], split_tx 4 [0, 1] [1], split_tx 1 [0, 2] [1, 1]]"
    by (simp add: split_producer_mempool take_votes_def take_transactions_def ordered_transactions_def insert_group_def
      demo_limits_def Let_def)
  moreover have "\<not> verify_transactions_order demo_crypto
      [split_tx 3 [0, 1] [], split_tx 5 [0, 1] [1, 1, 1], split_tx 4 [0, 1] [1], split_tx 1 [0, 2] [1, 1]]"
    by (simp add: verify_transactions_order_def is_within_payer_group_def Let_def)
  ultimately show "produce node_params fuel node_vm st prev split_producer = None"
    by (auto simp: produce_def execute_block_def split_producer_mempool(2) Let_def split: prod.splits)
qed

section \<open>The block store\<close>

text \<open>
  C28. Whatever is written, in whatever order and with whatever panics, the block store stays well
  formed: blocks are kept under their heights, the finalized heights have no gap, and everything stored can be
  decoded.
\<close>

theorem block_store_sound:
  assumes "block_codec_ok k" and "bs_inv k s" and "commit = Finalized \<longrightarrow> bl_height (ex_underlying e) \<noteq> 0"
  shows "case bs_consume k p e commit s of Inl s' \<Rightarrow> bs_inv k s' | Inr s' \<Rightarrow> bs_inv k s'"
  using bs_consume_inv [OF assms] by (simp add: written_all_def)

lemma empty_complete: "outputs_complete demo_crypto empty_executed" "ex_height empty_executed = 1"
  by (simp_all add: outputs_complete_def empty_executed_def)

lemma demo_store_new: "latest_height k (block_store_new n d) = 0"
  by (simp add: latest_height_def bs_latest_def tree_last_def block_store_new_def)

lemma demo_store_finalized:
  "\<exists>s. bs_consume demo_block_codec node_params empty_executed Finalized (block_store_new n d) = Inr s"
  by (rule bs_consume_returns [OF demo_block_codec_ok bs_inv_new]) (simp_all add: empty_complete demo_store_new)

theorem block_store_sound_witness:
  "\<exists>s. bs_consume demo_block_codec node_params empty_executed Finalized (block_store_new 10 True) = Inr s
    \<and> bs_inv demo_block_codec s"
proof -
  obtain s where s: "bs_consume demo_block_codec node_params empty_executed Finalized (block_store_new 10 True) = Inr s"
    using demo_store_finalized by blast
  have "Finalized = Finalized \<longrightarrow> bl_height (ex_underlying empty_executed) \<noteq> 0" using empty_complete by simp
  from block_store_sound [OF demo_block_codec_ok bs_inv_new [of _ 10 True] this, of node_params] s
  show ?thesis by simp
qed

text \<open>
  C29. A confirmed or finalized block that a detailed block store has taken is read back under its height, with its commitment.
  When the store had no output at that height the output read with it is its own, up to the executable flags of accounts, which are
  not written. Otherwise it is the output that was there before: the store keeps the first output of a height, so that after two
  different blocks of one height the second is read with the output of the first.
\<close>

theorem stored_block_lookup:
  assumes "block_codec_ok k" and "bs_inv k s" and "commit = Finalized \<longrightarrow> bl_height (ex_underlying e) \<noteq> 0"
    and "bs_consume k p e commit s = Inr s'" and "commit \<noteq> Included" and "bs_detailed s"
  shows "\<exists>out. bs_get_by_height k (bl_height (ex_underlying e)) s' = Some (Some (e\<lparr>ex_output := out\<rparr>, commit))
    \<and> (case map_of (bs_outputs s) (be_bytes (bl_height (ex_underlying e))) of
         None \<Rightarrow> out = skip_executable (ex_output e) | Some v \<Rightarrow> v = enc_output k out)"
  using assms by (rule bs_consume_lookup)

text \<open>A second block of the same height, with another output.\<close>

definition second_executed :: "transaction list executed" where
  "second_executed = empty_executed\<lparr>ex_output := block_output_empty\<lparr>bo_state := sd_put [7] account_default sd_default\<rparr>\<rparr>"

theorem stored_block_lookup_witness:
  "\<exists>s s'. bs_consume demo_block_codec node_params empty_executed Confirmed (block_store_new 10 True) = Inr s
    \<and> bs_get_by_height demo_block_codec 1 s = Some (Some (empty_executed, Confirmed))
    \<and> bs_consume demo_block_codec node_params second_executed Confirmed s = Inr s'
    \<and> bs_get_by_height demo_block_codec 1 s' = Some (Some (empty_executed, Confirmed)) \<and> second_executed \<noteq> empty_executed"
proof -
  let ?k = demo_block_codec and ?new = "block_store_new 10 True"
  have height: "ex_height empty_executed = 1" "ex_height second_executed = 1" "ex_underlying second_executed = ex_underlying empty_executed"
    by (simp_all add: empty_complete second_executed_def)
  have new: "bs_detailed ?new" "map_of (bs_outputs ?new) x = None" for x by (simp_all add: block_store_new_def)
  have skip: "skip_executable (ex_output empty_executed) = ex_output empty_executed"
    by (simp add: empty_executed_def skip_executable_def block_output_empty_def sd_default_def)
  have complete: "outputs_complete demo_crypto second_executed"
    by (simp add: outputs_complete_def second_executed_def empty_executed_def)
  obtain s where s: "bs_consume ?k node_params empty_executed Confirmed ?new = Inr s"
    using bs_consume_returns [OF demo_block_codec_ok bs_inv_new [of _ 10 True], of empty_executed Confirmed node_params] empty_complete by auto
  have inv: "bs_inv ?k s" using bs_consume_inv [OF demo_block_codec_ok bs_inv_new [of _ 10 True], of Confirmed empty_executed node_params] s by simp
  have old: "map_of (bs_outputs s) (be_bytes 1) = Some (enc_output ?k (ex_output empty_executed))"
    using bs_consume_entries(3) [OF demo_block_codec_ok bs_inv_new _ s] new by (simp add: height skip)
  have d: "bs_detailed s" using bs_consume_detailed [OF demo_block_codec_ok bs_inv_new _ s] new by simp
  obtain s' where s': "bs_consume ?k node_params second_executed Confirmed s = Inr s'"
    using bs_consume_returns [OF demo_block_codec_ok inv, of second_executed Confirmed node_params] complete by (auto simp: height)
  have inj: "enc_output ?k x = enc_output ?k y \<Longrightarrow> x = y" for x y
    using demo_block_codec_ok by (metis block_codec_ok_def option.inject)
  have "bs_get_by_height ?k 1 s = Some (Some (empty_executed, Confirmed))"
    using stored_block_lookup [OF demo_block_codec_ok bs_inv_new _ s] new by (simp add: height skip)
  moreover have "bs_get_by_height ?k 1 s' = Some (Some (empty_executed, Confirmed))"
    using stored_block_lookup [OF demo_block_codec_ok inv _ s'] d
    by (auto simp: height old second_executed_def dest: inj)
  moreover have "second_executed \<noteq> empty_executed"
    by (simp add: second_executed_def empty_executed_def block_output_empty_def sd_put_eq sd_default_def)
  ultimately show ?thesis using s s' by blast
qed

text \<open>
  A block store without details never returns a block: no output is written, and both lookups answer
  that the block does not exist, so such a node cannot replay blocks that others miss.
\<close>

theorem no_details_no_blocks:
  assumes "block_codec_ok k" and "bs_inv k s" and "\<not> bs_detailed s" and "bs_outputs s = []"
    and "commit = Finalized \<longrightarrow> bl_height (ex_underlying e) \<noteq> 0" and "bs_consume k p e commit s = Inr s'"
  shows "bs_outputs s' = [] \<and> bs_get_by_height k h s' = Some None \<and> bs_get_by_hash k x s' = Some None"
proof -
  have "bs_outputs s' = []" using not_detailed_outputs [OF assms(3,4,1,2,5), of p] assms(6) by simp
  moreover have "bs_inv k s'" using bs_consume_inv [OF assms(1,2,5), of p] assms(6) by simp
  ultimately show ?thesis using no_outputs_not_found [OF assms(1)] by blast
qed

theorem no_details_no_blocks_witness:
  "\<exists>s. bs_consume demo_block_codec node_params empty_executed Finalized (block_store_new 10 False) = Inr s
    \<and> bs_get_by_height demo_block_codec 1 s = Some None"
proof -
  obtain s where s: "bs_consume demo_block_codec node_params empty_executed Finalized (block_store_new 10 False) = Inr s"
    using demo_store_finalized by blast
  have "bs_outputs s = [] \<and> bs_get_by_height demo_block_codec 1 s = Some None \<and> bs_get_by_hash demo_block_codec [] s = Some None"
    by (rule no_details_no_blocks [OF demo_block_codec_ok bs_inv_new _ _ _ s])
      (simp_all add: empty_complete, simp_all add: block_store_new_def)
  then show ?thesis using s by blast
qed

text \<open>
  C39. When a confirmed block is so far ahead that the kept history no longer reaches the last finalized
  block, storing it prunes all finalized blocks, and from then on no finalized block but one of height 1 is stored:
  the store panics.
\<close>

theorem pruning_blocks_finalization:
  assumes "block_codec_ok k" and "bs_inv k s" and "bs_consume k p e Confirmed s = Inr s'"
    and "\<forall>h. has_height (bs_finalized s) h \<longrightarrow> h < saturating_sub (bl_height (ex_underlying e)) (bs_history_len s)"
    and "bl_height (ex_underlying e2) \<noteq> 1"
  shows "bs_latest k Finalized s' = None \<and> bs_consume k p e2 Finalized s' = Inl s'"
  using assms by (intro pruned_finalized_stuck) auto

definition ahead_executed :: "u64 \<Rightarrow> transaction list executed" where
  "ahead_executed h = \<lparr>ex_underlying = empty_block\<lparr>bl_height := h\<rparr>, ex_output = block_output_empty\<rparr>"

theorem pruning_blocks_finalization_witness:
  "\<exists>s s'. bs_consume demo_block_codec node_params empty_executed Finalized (block_store_new 0 True) = Inr s
    \<and> bs_consume demo_block_codec node_params (ahead_executed 3) Confirmed s = Inr s'
    \<and> bs_consume demo_block_codec node_params (ahead_executed 2) Finalized s' = Inl s'"
proof -
  obtain s where s: "bs_consume demo_block_codec node_params empty_executed Finalized (block_store_new 0 True) = Inr s"
    using demo_store_finalized by blast
  have nz: "Finalized = Finalized \<longrightarrow> bl_height (ex_underlying empty_executed) \<noteq> 0" using empty_complete by simp
  have inv: "bs_inv demo_block_codec s" using bs_consume_inv [OF demo_block_codec_ok bs_inv_new nz, of node_params 0 True] s by simp
  have one: "h = 1" if "has_height (bs_finalized s) h" for h
    using bs_consume_trees [OF demo_block_codec_ok bs_inv_new nz s, of h] that empty_complete
    by (simp add: block_store_new_def has_height_def)
  have out: "outputs_complete demo_crypto (ahead_executed h)" "bl_height (ex_underlying (ahead_executed h)) = h" for h
    by (simp_all add: outputs_complete_def ahead_executed_def)
  obtain s' where s': "bs_consume demo_block_codec node_params (ahead_executed 3) Confirmed s = Inr s'"
    using bs_consume_returns [OF demo_block_codec_ok inv, of "ahead_executed 3" Confirmed node_params] out by auto
  have len: "bs_history_len s = 0" by (rule history_len_consume [OF s, simplified block_store_new_def, simplified])
  have "bs_latest demo_block_codec Finalized s' = None
      \<and> bs_consume demo_block_codec node_params (ahead_executed 2) Finalized s' = Inl s'"
    by (rule pruning_blocks_finalization [OF demo_block_codec_ok inv s']) (auto dest: one simp: out len saturating_sub_def)
  then show ?thesis using s s' by blast
qed

section \<open>Schedule and responder\<close>

text \<open>
  C34. Validators agree on the schedule: however often and at whatever slots two nodes poll their streams, what
  they yield for a slot is the same validator, one with enough stake, and each yields a slot at most once and in
  ascending order.
\<close>

theorem schedule_agreement:
  assumes "sample_in_range sample g" and "schedule_run sample g (schedule_stream_new seed) out1 s1"
    and "schedule_run sample g (schedule_stream_new seed) out2 s2" and "(n, v1) \<in> set out1" and "(n, v2) \<in> set out2"
  shows "v1 = v2 \<and> v1 \<in> set (g_validators g) \<and> val_stake v1 \<ge> minimum_stake (g_limits g)
    \<and> sorted_wrt (<) (map fst out1)"
proof -
  note run1 = schedule_run_sound [OF assms(1,2)] and run2 = schedule_run_sound [OF assms(1,3)]
  have v1: "v1 = slot_validator sample g seed (unat n)" using run1 assms(4) by (auto simp: list_all_iff)
  moreover have "v2 = slot_validator sample g seed (unat n)" using run2 assms(5) by (auto simp: list_all_iff)
  moreover have "v1 \<in> set (schedule_validators g)"
    using v1 assms(1) by (auto simp: slot_validator_def sample_in_range_def)
  ultimately show ?thesis using run1 by (simp add: schedule_validators_def)
qed

definition demo_sample :: "nat \<Rightarrow> nat \<times> nat" where
  "demo_sample r = (0, Suc r)"

lemma demo_sample_range: "sample_in_range demo_sample demo_genesis"
  by (simp add: sample_in_range_def demo_sample_def schedule_validators_def demo_genesis_def demo_limits_def)

lemma demo_schedule_run:
  "\<exists>s. schedule_run demo_sample demo_genesis (schedule_stream_new 0) [(3, Validator [0, 1] 100)] s"
proof -
  have inv: "stream_inv demo_sample 0 (schedule_stream_new 0)" by simp
  have "\<exists>s. schedule_poll demo_sample demo_genesis 3 (schedule_stream_new 0) = Some (Some (3, Validator [0, 1] 100), s)"
    unfolding schedule_poll_eq [OF demo_sample_range inv]
    by (simp add: slot_validator_def demo_sample_def schedule_validators_def demo_genesis_def demo_limits_def schedule_stream_new_def)
  then obtain s where "schedule_poll demo_sample demo_genesis 3 (schedule_stream_new 0) = Some (Some (3, Validator [0, 1] 100), s)" ..
  from schedule_run.run_ready [OF schedule_run.run_start this] show ?thesis by auto
qed

theorem schedule_agreement_witness: "Validator [0, 1] 100 \<in> set (g_validators demo_genesis)"
proof -
  obtain s where s: "schedule_run demo_sample demo_genesis (schedule_stream_new 0) [(3, Validator [0, 1] 100)] s"
    using demo_schedule_run by blast
  from schedule_agreement [OF demo_sample_range s s, of 3 "Validator [0, 1] 100" "Validator [0, 1] 100"] show ?thesis by simp
qed

text \<open>
  Clocks agree on slots: a node started at any time after genesis sends slot \<open>n\<close> at the end of its
  interval, \<open>(n + 1)\<close> slot lengths after genesis, and first waits at most one slot.
\<close>

theorem slots_aligned:
  assumes "0 \<le> elapsed" and "slot \<noteq> 0" and "(nat elapsed div unat slot + 1) * unat slot < 2 ^ 64"
  shows "\<exists>slots rem. slot_start elapsed slot = Some (slots, rem) \<and> unat slots = nat elapsed div unat slot
    \<and> nat elapsed + unat rem = (unat slots + 1) * unat slot \<and> 0 < unat rem \<and> unat rem \<le> unat slot"
  using assms by (rule slot_start_aligned) blast

theorem slots_aligned_witness:
  "\<exists>slots rem. slot_start 4500 2000 = Some (slots, rem) \<and> unat slots = 2 \<and> 4500 + unat rem = 6000"
proof -
  have "\<exists>slots rem. slot_start 4500 2000 = Some (slots, rem) \<and> unat slots = nat 4500 div unat (2000 :: u64)
      \<and> nat 4500 + unat rem = (unat slots + 1) * unat (2000 :: u64) \<and> 0 < unat rem \<and> unat rem \<le> unat (2000 :: u64)"
    by (rule slots_aligned) simp_all
  then obtain slots rem where "slot_start 4500 2000 = Some (slots, rem)" "unat slots = 2" "4500 + unat rem = (unat slots + 1) * 2000"
    by auto
  then show ?thesis by (intro exI [of _ slots] exI [of _ rem]) simp
qed

text \<open>
  A node started before genesis does not wait for it: the difference of the dates is negative, and cast
  to \<open>u64\<close> the wait is \<open>2^64\<close> milliseconds less the time that is left.
\<close>

theorem early_start_oversleeps:
  assumes "now < genesis" and "genesis - now < 2 ^ 63"
  shows "unat (genesis_wait now genesis) = 2 ^ 64 - nat (genesis - now) \<and> 2 ^ 63 < unat (genesis_wait now genesis)"
proof -
  have "nat (genesis - now) < 2 ^ 63" using assms by (simp add: nat_less_iff)
  then show ?thesis using genesis_wait_wraps [OF assms] by simp
qed

theorem early_start_oversleeps_witness: "2 ^ 63 < unat (genesis_wait 1000 4000)"
  using early_start_oversleeps [of 1000 4000] by simp

text \<open>
  The responder panics on its first request exactly in networks of at most two validators, where the
  range of delays is empty.
\<close>

theorem responder_needs_three:
  assumes "0 < slot"
  shows "responder_request now delay req (responder_new slot n) = None \<longleftrightarrow> n \<le> 2"
  using assms by (rule responder_request_panics)

theorem responder_needs_three_witness: "responder_request 0 0 [7] (responder_new 1000 2) = None"
  using responder_needs_three [of 1000 0 0 "[7]" 2] by simp

end
