(* ===== verification/Rensa_View.thy ===== *)
theory Rensa_View
  imports Rensa_Gossip
begin

text \<open>
  The membership protocol of \<open>src/network/episub/view.rs\<close>: the active and the passive view of one topic.

  The draws of the thread's random generator are a field of the state, consumed in order. Messages to peers, dials and
  membership events are queued and handed out one by one by \<open>view_poll\<close>. Every membership change is announced by an
  event; \<open>membership\<close> replays the events.
\<close>

section \<open>State\<close>

record view =
  hv_config :: config
  hv_topic :: topic
  hv_local :: addressable_peer
  hv_active :: peer_set
  hv_passive :: peer_set
  hv_last_tick :: instant
  hv_last_shuffle :: instant
  hv_out :: "behaviour_action list"
  hv_draws :: "nat list"

definition view_new :: "topic \<Rightarrow> config \<Rightarrow> addressable_peer \<Rightarrow> instant \<Rightarrow> nat list \<Rightarrow> view" where
  "view_new topic c local_node now draws =
     \<lparr>hv_config = c, hv_topic = topic, hv_local = local_node, hv_active = [], hv_passive = [],
      hv_last_tick = now, hv_last_shuffle = now, hv_out = [], hv_draws = draws\<rparr>"

definition is_active :: "peer_id \<Rightarrow> view \<Rightarrow> bool" where
  "is_active p v \<longleftrightarrow> ps_contains p (hv_active v)"

definition overconnected :: "view \<Rightarrow> bool" where
  "overconnected v \<longleftrightarrow> max_active_view_size (hv_config v) \<le> length (hv_active v)"

definition starved :: "view \<Rightarrow> bool" where
  "starved v \<longleftrightarrow> length (hv_active v) < min_active_view_size (hv_config v)"

definition hv_emit :: "behaviour_action \<Rightarrow> view \<Rightarrow> view" where
  "hv_emit a v = v\<lparr>hv_out := hv_out v @ [a]\<rparr>"

definition hv_notify :: "peer_id \<Rightarrow> action \<Rightarrow> view \<Rightarrow> view" where
  "hv_notify p a v = hv_emit (NotifyHandler p \<lparr>rpc_topic = hv_topic v, rpc_action = Some a\<rparr>) v"

definition hv_dial :: "addressable_peer \<Rightarrow> bool \<Rightarrow> view \<Rightarrow> view" where
  "hv_dial p temporary v =
     hv_emit (Dial (ap_id p) (ap_addresses p) (cf_max_transmit_size (hv_config v)) temporary) v"

section \<open>Moving peers between the views\<close>

definition add_node_to_passive_view :: "addressable_peer \<Rightarrow> view \<Rightarrow> view" where
  "add_node_to_passive_view node v =
     (if ap_id node = ap_id (hv_local v) then v
      else let v1 = v\<lparr>hv_passive := ps_insert node (hv_passive v)\<rparr>
           in if max_passive_view_size (hv_config v) < length (hv_passive v1)
              then case choose_one (hv_draws v1) (hv_passive v1) of
                     None \<Rightarrow> v1
                   | Some random \<Rightarrow> v1\<lparr>hv_passive := ps_remove (ap_id random) (hv_passive v1), hv_draws := tl (hv_draws v1)\<rparr>
              else v1)"

definition add_node_to_active_view :: "formats \<Rightarrow> addressable_peer \<Rightarrow> bool \<Rightarrow> view \<Rightarrow> view" where
  "add_node_to_active_view f node initiator v =
     (if ap_id node = ap_id (hv_local v) then v
      else if is_active (ap_id node) v then v
      else let v1 = v\<lparr>hv_active := ps_insert node (hv_active v)\<rparr>;
               v2 = (if initiator
                     then hv_notify (ap_id node)
                            (Neighbor (wire_of_peer f (hv_local v1))
                               (priority_code (if hv_active v1 = [] then High else Low)))
                            (hv_dial node False v1)
                     else v1)
           in hv_emit (GenerateEvent (PeerAdded (ap_id node))) v2)"

definition free_up_active_slot :: "view \<Rightarrow> view" where
  "free_up_active_slot v =
     (if overconnected v
      then case choose_one (hv_draws v) (hv_passive v) of
             None \<Rightarrow> v
           | Some random \<Rightarrow>
               add_node_to_passive_view random
                 (hv_emit (GenerateEvent (PeerRemoved (ap_id random)))
                   (hv_notify (ap_id random) (Disconnect True)
                     (v\<lparr>hv_active := ps_remove (ap_id random) (hv_active v), hv_draws := tl (hv_draws v)\<rparr>)))
      else v)"

section \<open>Handlers\<close>

definition initiate_join :: "formats \<Rightarrow> addressable_peer \<Rightarrow> view \<Rightarrow> view" where
  "initiate_join f peer v =
     hv_notify (ap_id peer) (Join (of_nat (active_walk_length (hv_config v))) (wire_of_peer f (hv_local v))) v"

definition inject_join :: "formats \<Rightarrow> peer_id \<Rightarrow> addressable_peer \<Rightarrow> u32 \<Rightarrow> view \<Rightarrow> view" where
  "inject_join f sender peer ttl v =
     (if is_active (ap_id peer) v then v
      else let v1 = (if \<not> overconnected v then add_node_to_active_view f peer True v else add_node_to_passive_view peer v)
           in fold (\<lambda>n. hv_notify (ap_id n) (ForwardJoin ttl (wire_of_peer f peer)))
                (filter (\<lambda>n. ap_id n \<noteq> ap_id peer \<and> ap_id n \<noteq> sender) (hv_active v1)) v1)"

definition inject_forward_join :: "formats \<Rightarrow> addressable_peer \<Rightarrow> nat \<Rightarrow> peer_id \<Rightarrow> peer_id \<Rightarrow> view \<Rightarrow> view" where
  "inject_forward_join f peer ttl local_node sender v =
     (if ap_id peer = local_node then v
      else let v1 = (if ttl = 0 \<and> \<not> is_active (ap_id peer) v then free_up_active_slot v else v);
               v2 = (if \<not> overconnected v1 then add_node_to_active_view f peer True v1 else add_node_to_passive_view peer v1)
           in if ttl \<noteq> 0
              then fold (\<lambda>n. hv_notify (ap_id n) (ForwardJoin (of_nat (ttl - 1)) (wire_of_peer f peer)))
                     (filter (\<lambda>n. \<not> (ap_id n = sender \<or> ap_id n = ap_id peer)) (hv_active v2)) v2
              else v2)"

definition inject_disconnect :: "peer_id \<Rightarrow> bool \<Rightarrow> view \<Rightarrow> view" where
  "inject_disconnect peer alive v =
     (let v1 = (if alive
                then fold add_node_to_passive_view (filter (\<lambda>p. ap_id p = peer) (hv_active v)) v
                else v\<lparr>hv_passive := ps_remove peer (hv_passive v)\<rparr>)
      in if is_active peer v1
         then (hv_emit (GenerateEvent (PeerRemoved peer)) v1)\<lparr>hv_active := ps_remove peer (hv_active v1)\<rparr>
         else v1)"

definition inject_neighbor :: "formats \<Rightarrow> addressable_peer \<Rightarrow> int \<Rightarrow> view \<Rightarrow> view" where
  "inject_neighbor f peer prio v =
     (if is_active (ap_id peer) v then v
      else if \<not> overconnected v then add_node_to_active_view f peer False v
      else if prio = priority_code High then add_node_to_active_view f peer False (free_up_active_slot v)
      else inject_disconnect (ap_id peer) True v)"

definition send_shuffle :: "formats \<Rightarrow> peer_id \<Rightarrow> view \<Rightarrow> view" where
  "send_shuffle f peer v =
     (case choose_multiple (shuffle_max_size (hv_config v)) (hv_draws v) (hv_active v @ hv_passive v) of
        (nodes, ds) \<Rightarrow>
          hv_notify peer (Shuffle (of_nat (active_walk_length (hv_config v))) (wire_of_peer f (hv_local v))
              (map (wire_of_peer f) nodes))
            (v\<lparr>hv_draws := ds\<rparr>))"

definition send_shuffle_reply :: "formats \<Rightarrow> addressable_peer \<Rightarrow> addressable_peer list \<Rightarrow> view \<Rightarrow> view" where
  "send_shuffle_reply f origin nodes v =
     hv_notify (ap_id origin) (ShuffleReply (map (wire_of_peer f) nodes))
       (if \<not> is_active (ap_id origin) v then hv_dial origin True v else v)"

definition inject_shuffle ::
  "formats \<Rightarrow> peer_id \<Rightarrow> u32 \<Rightarrow> addressable_peer list \<Rightarrow> addressable_peer \<Rightarrow> view \<Rightarrow> view" where
  "inject_shuffle f sender ttl nodes origin v =
     (let deduped_passive = ps_collect nodes;
          (reply, ds) = choose_multiple (shuffle_max_size (hv_config v)) (hv_draws v)
            (ps_difference (ps_union (hv_active v) (hv_passive v)) deduped_passive);
          v1 = send_shuffle_reply f origin reply (v\<lparr>hv_draws := ds\<rparr>);
          fresh = filter (\<lambda>n. \<not> is_active (ap_id n) v1 \<and> \<not> ps_contains (ap_id n) (hv_passive v1)
            \<and> ap_id n \<noteq> ap_id (hv_local v1)) deduped_passive;
          v2 = fold add_node_to_passive_view fresh v1
      in if ttl \<noteq> 0
         then case choose_one (hv_draws v2) (filter (\<lambda>n. ap_id n \<noteq> sender \<and> ap_id origin \<noteq> ap_id n) (hv_active v2)) of
                Some random \<Rightarrow>
                  hv_notify (ap_id random) (Shuffle (ttl - 1) (wire_of_peer f origin) (map (wire_of_peer f) nodes))
                    (v2\<lparr>hv_draws := tl (hv_draws v2)\<rparr>)
              | None \<Rightarrow> add_node_to_active_view f origin True v2
         else v2)"

text \<open>
  The union is trimmed by \<open>while passive.len() > max { passive.drain().next(); }\<close>: a dropped \<open>Drain\<close> removes everything
  that is left, so that the first round empties the view.
\<close>

definition inject_shuffle_reply :: "formats \<Rightarrow> wire_peer list \<Rightarrow> view \<Rightarrow> view" where
  "inject_shuffle_reply f ws v =
     (let nodes = ps_collect (List.map_filter (peer_of_wire f) ws);
          passive = ps_union (hv_passive v) nodes
      in v\<lparr>hv_passive := (if max_passive_view_size (hv_config v) < length passive then [] else passive)\<rparr>)"

section \<open>Periodic work\<close>

definition maybe_move_random_passive_to_active :: "formats \<Rightarrow> view \<Rightarrow> view" where
  "maybe_move_random_passive_to_active f v =
     (if starved v
      then case choose_one (hv_draws v) (hv_passive v) of
             None \<Rightarrow> v
           | Some random \<Rightarrow>
               add_node_to_active_view f random True
                 (v\<lparr>hv_passive := ps_remove (ap_id random) (hv_passive v), hv_draws := tl (hv_draws v)\<rparr>)
      else v)"

definition shuffle_tick :: "formats \<Rightarrow> instant \<Rightarrow> view \<Rightarrow> view" where
  "shuffle_tick f now v =
     (if now - hv_last_shuffle v > cf_shuffle_interval (hv_config v)
      then let sample = next_draw (hv_draws v) mod 2 ^ 25;
               v1 = v\<lparr>hv_draws := tl (hv_draws v)\<rparr>;
               v2 = (if 2 ^ 25 - sample \<le> cf_shuffle_probability (hv_config v)
                     then case choose_one (hv_draws v1) (hv_active v1) of
                            None \<Rightarrow> v1
                          | Some random \<Rightarrow> send_shuffle f (ap_id random) (v1\<lparr>hv_draws := tl (hv_draws v1)\<rparr>)
                     else v1)
           in v2\<lparr>hv_last_shuffle := now\<rparr>
      else v)"

definition view_tick :: "formats \<Rightarrow> instant \<Rightarrow> view \<Rightarrow> view" where
  "view_tick f now v =
     (if now - hv_last_tick v > cf_tick_frequency (hv_config v)
      then (maybe_move_random_passive_to_active f v)\<lparr>hv_last_tick := now\<rparr> else v)"

definition view_poll :: "formats \<Rightarrow> instant \<Rightarrow> view \<Rightarrow> behaviour_action option \<times> view" where
  "view_poll f now v =
     (let v' = view_tick f now (shuffle_tick f now v)
      in case hv_out v' of [] \<Rightarrow> (None, v') | ev # rest \<Rightarrow> (Some ev, v'\<lparr>hv_out := rest\<rparr>))"

section \<open>Membership events\<close>

fun membership1 :: "behaviour_action \<Rightarrow> peer_id set \<Rightarrow> peer_id set" where
  "membership1 (GenerateEvent (PeerAdded p)) S = insert p S"
| "membership1 (GenerateEvent (PeerRemoved p)) S = S - {p}"
| "membership1 _ S = S"

definition membership :: "behaviour_action list \<Rightarrow> peer_id set \<Rightarrow> peer_id set" where
  "membership as S = fold membership1 as S"

text \<open>Messages a view sends: neighbor requests have low priority.\<close>

fun low_priority :: "behaviour_action \<Rightarrow> bool" where
  "low_priority (NotifyHandler _ r) \<longleftrightarrow> (case rpc_action r of Some (Neighbor _ prio) \<Rightarrow> prio = priority_code Low | _ \<Rightarrow> True)"
| "low_priority _ \<longleftrightarrow> True"

text \<open>One entry per peer, never the node itself in the active view, a bounded passive view.\<close>

definition view_inv :: "view \<Rightarrow> bool" where
  "view_inv v \<longleftrightarrow> ps_ok (hv_active v) \<and> ps_ok (hv_passive v) \<and> ap_id (hv_local v) \<notin> ps_ids (hv_active v)
     \<and> length (hv_passive v) \<le> max_passive_view_size (hv_config v)"

text \<open>
  What every operation does: it keeps the identity of the view and the invariant, only adds to the queue,
  and announces exactly the changes of the active view.
\<close>

definition extends :: "view \<Rightarrow> view \<Rightarrow> bool" where
  "extends v v' \<longleftrightarrow>
     hv_config v' = hv_config v \<and> hv_topic v' = hv_topic v \<and> hv_local v' = hv_local v
     \<and> (view_inv v \<longrightarrow> view_inv v')
     \<and> (\<exists>ext. hv_out v' = hv_out v @ ext \<and> membership ext (ps_ids (hv_active v)) = ps_ids (hv_active v')
          \<and> list_all low_priority ext)"

lemma membership_simps [simp]:
  "membership [] S = S" "membership (a # as) S = membership as (membership1 a S)"
  "membership (as @ bs) S = membership bs (membership as S)"
  by (simp_all add: membership_def)

lemma extends_refl [simp, intro]: "extends v v"
  by (simp add: extends_def)

lemma extends_trans [trans]: "extends a b \<Longrightarrow> extends b c \<Longrightarrow> extends a c"
  by (fastforce simp: extends_def)

lemma extends_fold:
  assumes "\<And>x v. extends v (g x v)"
  shows "extends v (fold g xs v)"
  by (induction xs arbitrary: v) (auto intro: assms extends_trans)

section \<open>Every operation extends the view\<close>

lemma extends_fields [intro]:
  "extends v (v\<lparr>hv_draws := d\<rparr>)" "extends v (v\<lparr>hv_last_shuffle := n\<rparr>)" "extends v (v\<lparr>hv_last_tick := n\<rparr>)"
  by (auto simp: extends_def view_inv_def)

lemma extends_notify: "(\<And>w prio. a = Neighbor w prio \<Longrightarrow> prio = priority_code Low) \<Longrightarrow> extends v (hv_notify p a v)"
  by (auto simp: extends_def hv_notify_def hv_emit_def view_inv_def split: action.splits)

lemma extends_dial [intro]: "extends v (hv_dial p b v)"
  by (auto simp: extends_def hv_dial_def hv_emit_def view_inv_def)

lemma extends_passive:
  "(view_inv v \<Longrightarrow> ps_ok xs \<and> length xs \<le> max_passive_view_size (hv_config v)) \<Longrightarrow> extends v (v\<lparr>hv_passive := xs\<rparr>)"
  by (auto simp: extends_def view_inv_def)

lemma length_ps_remove_le: "length (ps_remove p xs) \<le> length xs"
  by (simp add: ps_remove_def)

lemma extends_passive_remove [intro]: "extends v (v\<lparr>hv_passive := ps_remove p (hv_passive v)\<rparr>)"
  by (rule extends_passive) (use length_ps_remove_le [of p "hv_passive v"] in \<open>auto simp: view_inv_def\<close>)

lemma add_passive_cases:
  obtains "add_node_to_passive_view node v = v"
  | xs ds where "add_node_to_passive_view node v = v\<lparr>hv_passive := xs, hv_draws := ds\<rparr>"
      "ps_ids xs \<subseteq> insert (ap_id node) (ps_ids (hv_passive v))"
      "view_inv v \<Longrightarrow> ps_ok xs \<and> length xs \<le> max_passive_view_size (hv_config v)"
proof (cases "ap_id node = ap_id (hv_local v)")
  case False
  let ?xs = "ps_insert node (hv_passive v)"
  consider (keep) "\<not> max_passive_view_size (hv_config v) < length ?xs"
    | (drop) r where "max_passive_view_size (hv_config v) < length ?xs" "choose_one (hv_draws v) ?xs = Some r"
    by (cases "choose_one (hv_draws v) ?xs") (auto simp: ps_insert_def split: if_splits)
  then show ?thesis
  proof cases
    case keep
    then have "add_node_to_passive_view node v = v\<lparr>hv_passive := ?xs, hv_draws := hv_draws v\<rparr>"
      using False by (simp add: add_node_to_passive_view_def)
    then show ?thesis by (rule that(2)) (use keep in \<open>auto simp: view_inv_def\<close>)
  next
    case drop
    then have eq: "add_node_to_passive_view node v = v\<lparr>hv_passive := ps_remove (ap_id r) ?xs, hv_draws := tl (hv_draws v)\<rparr>"
      using False by (simp add: add_node_to_passive_view_def)
    have "ps_ok (ps_remove (ap_id r) ?xs) \<and> length (ps_remove (ap_id r) ?xs) \<le> max_passive_view_size (hv_config v)"
      if inv: "view_inv v"
    proof -
      have ok: "ps_ok ?xs" using inv by (auto simp: view_inv_def)
      moreover have "ap_id r \<in> ps_ids ?xs" using choose_one_mem [OF drop(2)] by (rule ps_ids_mem)
      ultimately have "Suc (length (ps_remove (ap_id r) ?xs)) = length ?xs" by (rule length_ps_remove)
      then show ?thesis using ok length_ps_insert [of node "hv_passive v"] inv by (simp add: view_inv_def)
    qed
    then show ?thesis by (intro that(2) [OF eq]) auto
  qed
qed (simp add: add_node_to_passive_view_def that(1))

lemma extends_add_passive [intro]: "extends v (add_node_to_passive_view node v)"
  by (rule add_passive_cases [of node v]) (auto simp: extends_def view_inv_def)

lemma add_passive_simps [simp]:
  "hv_active (add_node_to_passive_view node v) = hv_active v" "hv_config (add_node_to_passive_view node v) = hv_config v"
  "hv_out (add_node_to_passive_view node v) = hv_out v" "hv_local (add_node_to_passive_view node v) = hv_local v"
  by (rule add_passive_cases [of node v]; simp)+

lemma extends_add_active [intro]: "extends v (add_node_to_active_view f node initiator v)"
proof (cases "ap_id node = ap_id (hv_local v) \<or> is_active (ap_id node) v")
  case False
  then show ?thesis
    by (auto simp: add_node_to_active_view_def Let_def extends_def view_inv_def hv_emit_def hv_notify_def hv_dial_def is_active_def
        ps_insert_def ps_ok_append) (auto simp: ps_ok_def)
qed (auto simp: add_node_to_active_view_def)

lemma extends_free_up [intro]: "extends v (free_up_active_slot v)"
proof (cases "choose_one (hv_draws v) (hv_passive v)")
  case (Some r)
  let ?v = "hv_emit (GenerateEvent (PeerRemoved (ap_id r))) (hv_notify (ap_id r) (Disconnect True)
    (v\<lparr>hv_active := ps_remove (ap_id r) (hv_active v), hv_draws := tl (hv_draws v)\<rparr>))"
  have "extends v ?v" by (auto simp: extends_def view_inv_def hv_emit_def hv_notify_def)
  then have "extends v (add_node_to_passive_view r ?v)" by (rule extends_trans) blast
  then show ?thesis by (cases "overconnected v") (simp_all add: free_up_active_slot_def Some del: add_passive_simps)
qed (auto simp: free_up_active_slot_def choose_one_def)

lemma extends_fold_notify:
  "(\<And>x w prio. a x \<noteq> Neighbor w prio) \<Longrightarrow> extends v (fold (\<lambda>x. hv_notify (g x) (a x)) xs v)"
  by (rule extends_fold) (blast intro: extends_notify)

lemma extends_initiate_join [intro]: "extends v (initiate_join f p v)"
  by (auto simp: initiate_join_def intro: extends_notify)

lemma extends_join [intro]: "extends v (inject_join f sender peer ttl v)"
proof -
  let ?v = "if \<not> overconnected v then add_node_to_active_view f peer True v else add_node_to_passive_view peer v"
  have "extends v ?v" by auto
  then have "extends v (fold (\<lambda>n. hv_notify (ap_id n) (ForwardJoin ttl (wire_of_peer f peer))) xs ?v)" for xs
    by (rule extends_trans) (rule extends_fold_notify, simp)
  then show ?thesis unfolding inject_join_def Let_def by (cases "is_active (ap_id peer) v") (simp_all only: if_True if_False extends_refl)
qed

lemma extends_forward_join [intro]: "extends v (inject_forward_join f peer ttl l sender v)"
proof -
  define v1 where "v1 = (if ttl = 0 \<and> \<not> is_active (ap_id peer) v then free_up_active_slot v else v)"
  define v2 where "v2 = (if \<not> overconnected v1 then add_node_to_active_view f peer True v1 else add_node_to_passive_view peer v1)"
  have "extends v v1" by (auto simp: v1_def)
  moreover have "extends v1 v2" by (auto simp: v2_def)
  ultimately have v2: "extends v v2" by (rule extends_trans)
  have sent: "extends v (fold (\<lambda>n. hv_notify (ap_id n) (ForwardJoin k (wire_of_peer f peer))) xs v2)" for xs k
    using v2 by (rule extends_trans) (rule extends_fold_notify, simp)
  have "inject_forward_join f peer ttl l sender v = (if ap_id peer = l then v
      else if ttl \<noteq> 0 then fold (\<lambda>n. hv_notify (ap_id n) (ForwardJoin (of_nat (ttl - 1)) (wire_of_peer f peer)))
        (filter (\<lambda>n. \<not> (ap_id n = sender \<or> ap_id n = ap_id peer)) (hv_active v2)) v2 else v2)"
    by (simp only: inject_forward_join_def Let_def v1_def v2_def)
  then show ?thesis
    by (cases "ap_id peer = l"; cases "ttl = 0") (simp_all only: sent v2 extends_refl if_True if_False simp_thms)
qed

lemma extends_disconnect [intro]: "extends v (inject_disconnect peer alive v)"
proof -
  define v1 where "v1 = (if alive then fold add_node_to_passive_view (filter (\<lambda>p. ap_id p = peer) (hv_active v)) v
     else v\<lparr>hv_passive := ps_remove peer (hv_passive v)\<rparr>)"
  have v1: "extends v v1" by (auto simp: v1_def intro: extends_fold)
  have "extends v1 ((hv_emit (GenerateEvent (PeerRemoved peer)) v1)\<lparr>hv_active := ps_remove peer (hv_active v1)\<rparr>)"
    by (auto simp: extends_def view_inv_def hv_emit_def)
  moreover have "inject_disconnect peer alive v = (if is_active peer v1
      then (hv_emit (GenerateEvent (PeerRemoved peer)) v1)\<lparr>hv_active := ps_remove peer (hv_active v1)\<rparr> else v1)"
    by (simp only: inject_disconnect_def Let_def v1_def)
  ultimately show ?thesis using v1 extends_trans by simp
qed

lemma extends_neighbor [intro]: "extends v (inject_neighbor f peer prio v)"
  by (auto simp: inject_neighbor_def intro: extends_trans)

lemma extends_send_shuffle [intro]: "extends v (send_shuffle f peer v)"
  by (auto simp: send_shuffle_def intro!: extends_trans [OF extends_fields(1) extends_notify] split: prod.splits)

lemma extends_shuffle_reply_out [intro]: "extends v (send_shuffle_reply f origin nodes v)"
  by (auto simp: send_shuffle_reply_def intro: extends_trans extends_notify)

lemma extends_shuffle [intro]: "extends v (inject_shuffle f sender ttl nodes origin v)"
proof -
  define d where "d = ps_collect nodes"
  obtain reply ds where sample: "choose_multiple (shuffle_max_size (hv_config v)) (hv_draws v)
      (ps_difference (ps_union (hv_active v) (hv_passive v)) d) = (reply, ds)" by fastforce
  define v1 where "v1 = send_shuffle_reply f origin reply (v\<lparr>hv_draws := ds\<rparr>)"
  define v2 where "v2 = fold add_node_to_passive_view (filter (\<lambda>n. \<not> is_active (ap_id n) v1
      \<and> \<not> ps_contains (ap_id n) (hv_passive v1) \<and> ap_id n \<noteq> ap_id (hv_local v1)) d) v1"
  have "extends v v1" unfolding v1_def by (rule extends_trans [OF extends_fields(1)]) blast
  moreover have "extends v1 v2" unfolding v2_def by (rule extends_fold) blast
  ultimately have v2: "extends v v2" by (rule extends_trans)
  have "extends v (hv_notify p (Shuffle k w ws) (v2\<lparr>hv_draws := x\<rparr>))" for p k w ws x
    by (rule extends_trans [OF extends_trans [OF v2 extends_fields(1)] extends_notify]) simp
  moreover have "extends v (add_node_to_active_view f origin True v2)" using v2 by (rule extends_trans) blast
  ultimately show ?thesis
    using v2 by (simp add: inject_shuffle_def Let_def sample flip: d_def)
      (simp add: v2_def v1_def split: option.splits)
qed

lemma extends_shuffle_reply [intro]: "extends v (inject_shuffle_reply f ws v)"
  by (auto simp: inject_shuffle_reply_def Let_def view_inv_def intro!: extends_passive)

lemma extends_move [intro]: "extends v (maybe_move_random_passive_to_active f v)"
proof -
  have "extends v (add_node_to_active_view f r True (v\<lparr>hv_passive := ps_remove p (hv_passive v), hv_draws := ds\<rparr>))" for r p ds
    using extends_trans [OF extends_trans [OF extends_passive_remove extends_fields(1)] extends_add_active] by simp
  then show ?thesis by (simp add: maybe_move_random_passive_to_active_def split: option.splits)
qed

lemma extends_ticks [intro]: "extends v (view_tick f now (shuffle_tick f now v))"
proof -
  have shuffle: "extends v (shuffle_tick f now v)"
    by (auto simp: shuffle_tick_def Let_def split: option.splits
        intro: extends_trans [OF _ extends_fields(2)] extends_trans [OF extends_fields(1)] extends_send_shuffle)
  have "extends w (view_tick f now w)" for w
    by (auto simp: view_tick_def intro: extends_trans [OF extends_move extends_fields(3)])
  with shuffle show ?thesis by (rule extends_trans)
qed

lemma view_new_inv [simp]: "view_inv (view_new topic c p now ds)"
  by (simp add: view_inv_def view_new_def)

lemma view_pollE:
  assumes "view_poll f now v = (ev, v')"
  obtains v1 where "extends v v1" and "hv_out v1 = (case ev of None \<Rightarrow> [] | Some a \<Rightarrow> [a]) @ hv_out v'"
    and "v' = v1\<lparr>hv_out := hv_out v'\<rparr>" and "ev = None \<Longrightarrow> hv_out v' = []"
  using assms extends_ticks [of v f now] by (auto simp: view_poll_def Let_def split: list.splits)

lemma membership_mono: "S \<subseteq> T \<Longrightarrow> membership as S \<subseteq> membership as T"
proof (induction as arbitrary: S T)
  case (Cons a as)
  have "membership1 a S \<subseteq> membership1 a T" using Cons.prems by (induction a S rule: membership1.induct) auto
  then show ?case using Cons.IH by simp
qed simp

lemma extends_membership:
  "extends v v' \<Longrightarrow> membership (hv_out v) S = ps_ids (hv_active v) \<Longrightarrow> membership (hv_out v') S = ps_ids (hv_active v')"
  by (auto simp: extends_def)

lemma extends_membership_le:
  assumes "extends v v'" and "ps_ids (hv_active v) \<subseteq> membership (hv_out v) S"
  shows "ps_ids (hv_active v') \<subseteq> membership (hv_out v') S"
proof -
  obtain ext where "hv_out v' = hv_out v @ ext" "membership ext (ps_ids (hv_active v)) = ps_ids (hv_active v')"
    using assms(1) by (auto simp: extends_def)
  then show ?thesis using membership_mono [OF assms(2), of ext] by simp
qed

section \<open>Sizes of the views\<close>

lemma add_active_length:
  assumes "ap_id node \<noteq> ap_id (hv_local v)" and "\<not> is_active (ap_id node) v"
  shows "hv_active (add_node_to_active_view f node initiator v) = hv_active v @ [node]"
  using assms by (simp add: add_node_to_active_view_def Let_def hv_emit_def hv_notify_def hv_dial_def ps_insert_def is_active_def)

lemma add_active_cases:
  "hv_active (add_node_to_active_view f node initiator v) = hv_active v
   \<or> hv_active (add_node_to_active_view f node initiator v) = hv_active v @ [node]"
  using add_active_length [of node v f initiator] by (auto simp: add_node_to_active_view_def)

lemma notify_fields [simp]:
  "hv_active (hv_notify p a v) = hv_active v" "hv_config (hv_notify p a v) = hv_config v"
  "hv_passive (hv_notify p a v) = hv_passive v" "hv_local (hv_notify p a v) = hv_local v" "hv_draws (hv_notify p a v) = hv_draws v"
  by (simp_all add: hv_notify_def hv_emit_def)

lemma fold_notify_active [simp]: "hv_active (fold (\<lambda>x. hv_notify (g x) (a x)) xs v) = hv_active v"
  by (induction xs arbitrary: v) simp_all

text \<open>A join never overfills the active view.\<close>

lemma join_bounded:
  assumes "length (hv_active v) \<le> max_active_view_size (hv_config v)"
  shows "length (hv_active (inject_join f sender peer ttl v)) \<le> max_active_view_size (hv_config v)"
proof -
  have "length (hv_active (add_node_to_active_view f peer True v)) \<le> Suc (length (hv_active v))"
    using add_active_cases [of f peer True v] by auto
  then show ?thesis using assms by (auto simp: inject_join_def Let_def overconnected_def)
qed

text \<open>
  A slot is looked for in the passive view: when the views are disjoint, none is freed, and a neighbor request of high
  priority overfills the active view.
\<close>

lemma free_up_nothing:
  assumes "ps_ids (hv_active v) \<inter> ps_ids (hv_passive v) = {}"
  shows "hv_active (free_up_active_slot v) = hv_active v"
proof (cases "choose_one (hv_draws v) (hv_passive v)")
  case (Some r)
  then have "ap_id r \<notin> ps_ids (hv_active v)" using choose_one_mem [OF Some] ps_ids_mem assms by blast
  then have "ps_remove (ap_id r) (hv_active v) = hv_active v"
    unfolding ps_remove_def by (intro filter_True) (metis ps_ids_mem)
  then show ?thesis using Some by (simp add: free_up_active_slot_def hv_emit_def)
qed (auto simp: free_up_active_slot_def choose_one_def)

lemma extends_local: "extends v v' \<Longrightarrow> hv_local v' = hv_local v"
  by (simp add: extends_def)

lemma neighbor_overfills:
  assumes "overconnected v" and "ps_ids (hv_active v) \<inter> ps_ids (hv_passive v) = {}"
    and "\<not> is_active (ap_id peer) v" and "ap_id peer \<noteq> ap_id (hv_local v)"
  shows "hv_active (inject_neighbor f peer (priority_code High) v) = hv_active v @ [peer]"
  using assms add_active_length [of peer "free_up_active_slot v" f False] free_up_nothing [OF assms(2)]
    extends_local [OF extends_free_up] by (simp add: inject_neighbor_def is_active_def)

text \<open>A neighbor request of low priority is ignored at capacity.\<close>

lemma neighbor_ignored:
  assumes "overconnected v" and "\<not> is_active (ap_id peer) v" and "prio \<noteq> priority_code High"
  shows "inject_neighbor f peer prio v = v"
proof -
  have "filter (\<lambda>p. ap_id p = ap_id peer) (hv_active v) = []"
    using assms(2) unfolding is_active_def ps_contains_iff by (intro filter_False) (metis ps_ids_mem)
  then show ?thesis using assms by (simp add: inject_neighbor_def inject_disconnect_def)
qed

end
