(* ===== verification/Rensa_Cache.thy ===== *)
theory Rensa_Cache
  imports Rensa_Gossip
begin

text \<open>
  The expiring cache of \<open>src/network/episub/cache.rs\<close>: items by key, and the order of their arrival.

  The locale \<open>expiring\<close> is the interface of its element type: a key and a preference between items of equal key. It is
  interpreted for the two element types, message records and message infos, both preferred by fewer hops. The
  element type is an argument of the operations, the clock is read by the caller.
\<close>

section \<open>The cache\<close>

record ('k, 'a) expiring_cache =
  ec_data :: "'k \<rightharpoonup> 'a \<times> instant"
  ec_by_time :: "('a \<times> instant) list"

definition cache_new :: "('k, 'a) expiring_cache" where
  "cache_new = \<lparr>ec_data = (\<lambda>_. None), ec_by_time = []\<rparr>"

text \<open>
  An item with a known key replaces the old one in \<open>data\<close> when it is preferred; \<open>by_time\<close> keeps the old one with its
  time. The result says whether the key is new.
\<close>

definition cache_insert ::
  "('a \<Rightarrow> 'k) \<Rightarrow> ('a \<Rightarrow> 'a \<Rightarrow> bool) \<Rightarrow> instant \<Rightarrow> 'a \<Rightarrow> ('k, 'a) expiring_cache \<Rightarrow> bool \<times> ('k, 'a) expiring_cache" where
  "cache_insert key lt now item c =
     (case ec_data c (key item) of
        Some old \<Rightarrow>
          (False, if lt item (fst old) then c\<lparr>ec_data := (ec_data c)(key item \<mapsto> (item, now))\<rparr> else c)
      | None \<Rightarrow>
          (True, c\<lparr>ec_data := (ec_data c)(key item \<mapsto> (item, now)), ec_by_time := ec_by_time c @ [(item, now)]\<rparr>))"

definition cache_get :: "'k \<Rightarrow> ('k, 'a) expiring_cache \<Rightarrow> 'a option" where
  "cache_get k c = map_option fst (ec_data c k)"

text \<open>
  \<open>binary_search_by\<close> of the standard library with both results merged, as \<open>unwrap_or_else(|pos| pos)\<close> does. Which one of
  several equal times is found is left open there; the facts below do not depend on it.
\<close>

function binary_search :: "instant list \<Rightarrow> instant \<Rightarrow> nat \<Rightarrow> nat \<Rightarrow> nat" where
  "binary_search ts t left right =
     (if left < right
      then let mid = left + (right - left) div 2
           in if ts ! mid < t then binary_search ts t (Suc mid) right
              else if t < ts ! mid then binary_search ts t left mid
              else mid
      else left)"
  by pat_completeness auto
termination
  by (relation "measure (\<lambda>(_, _, left, right). right - left)") auto

declare binary_search.simps [simp del]

text \<open>\<open>None\<close> is the panic of \<open>VecDeque::range\<close> when the range ends before it starts.\<close>

definition iter_range :: "instant \<Rightarrow> instant \<Rightarrow> ('k, 'a) expiring_cache \<Rightarrow> 'a list option" where
  "iter_range from till c =
     (let ts = map snd (ec_by_time c);
          start = binary_search ts from 0 (length ts);
          stop = binary_search ts till 0 (length ts)
      in if stop < start then None else Some (map fst (take (stop - start) (drop start (ec_by_time c)))))"

fun remove_front ::
  "('a \<Rightarrow> 'k) \<Rightarrow> instant \<Rightarrow> ('a \<times> instant) list \<Rightarrow> ('k \<rightharpoonup> 'a \<times> instant) \<Rightarrow> ('k, 'a) expiring_cache" where
  "remove_front key since [] data = \<lparr>ec_data = data, ec_by_time = []\<rparr>"
| "remove_front key since ((x, t) # rest) data =
     (if since < t then \<lparr>ec_data = data, ec_by_time = (x, t) # rest\<rparr>
      else remove_front key since rest (data(key x := None)))"

definition remove_older_than :: "('a \<Rightarrow> 'k) \<Rightarrow> instant \<Rightarrow> ('k, 'a) expiring_cache \<Rightarrow> ('k, 'a) expiring_cache" where
  "remove_older_than key since c = remove_front key since (ec_by_time c) (ec_data c)"

section \<open>The element types\<close>

record message_record =
  mr_id :: u64
  mr_hop :: u32
  mr_sender :: peer_id
  mr_payload :: bytes

record message_info =
  mi_id :: u64
  mi_hop :: u32
  mi_sender :: peer_id

definition record_less :: "message_record \<Rightarrow> message_record \<Rightarrow> bool" where
  "record_less a b \<longleftrightarrow> mr_hop a < mr_hop b"

definition info_less :: "message_info \<Rightarrow> message_info \<Rightarrow> bool" where
  "info_less a b \<longleftrightarrow> mi_hop a < mi_hop b"

text \<open>\<open>From<MessageRecord> for rpc::Message\<close>.\<close>

definition record_message :: "message_record \<Rightarrow> action" where
  "record_message m = Message (mr_id m) (mr_hop m) (mr_payload m)"

section \<open>Binary search\<close>

lemma binary_search_spec:
  assumes "sorted ts" and "left \<le> right" and "right \<le> length ts"
    and "\<forall>i < left. ts ! i < t" and "\<forall>i. right \<le> i \<and> i < length ts \<longrightarrow> t < ts ! i"
  shows "binary_search ts t left right \<le> length ts
    \<and> (\<forall>i < binary_search ts t left right. ts ! i \<le> t)
    \<and> (\<forall>i. binary_search ts t left right \<le> i \<and> i < length ts \<longrightarrow> t \<le> ts ! i)"
  using assms
proof (induction ts t left right rule: binary_search.induct)
  case (1 ts t left right)
  show ?case
  proof (cases "left < right")
    case True
    define mid where "mid = left + (right - left) div 2"
    have mid: "left \<le> mid" "mid < right" using True by (auto simp: mid_def)
    have mono: "i \<le> j \<Longrightarrow> j < length ts \<Longrightarrow> ts ! i \<le> ts ! j" for i j
      using "1.prems"(1) by (simp add: sorted_iff_nth_mono)
    consider "ts ! mid < t" | "t < ts ! mid" | "ts ! mid = t" by linarith
    then show ?thesis
    proof cases
      case 1
      have "\<forall>i < Suc mid. ts ! i < t"
        using 1 mono mid "1.prems"(3) by (meson le_less_trans less_Suc_eq_le less_le_trans)
      moreover have "binary_search ts t left right = binary_search ts t (Suc mid) right"
        using True 1 by (subst binary_search.simps) (simp add: Let_def mid_def)
      moreover have "Suc mid \<le> right" using mid by simp
      ultimately show ?thesis
        using "1.IH"(1) [OF True mid_def 1] "1.prems"(1,3,5) by presburger
    next
      case 2
      have "\<forall>i. mid \<le> i \<and> i < length ts \<longrightarrow> t < ts ! i"
        using 2 mono by (meson less_le_trans)
      moreover have "binary_search ts t left right = binary_search ts t left mid"
        using True 2 by (subst binary_search.simps) (simp add: Let_def mid_def)
      moreover have "\<not> ts ! mid < t" "mid \<le> length ts" using 2 mid "1.prems"(3) by simp_all
      ultimately show ?thesis
        using "1.IH"(2) [OF True mid_def _ 2] "1.prems"(1,4) mid(1) by presburger
    next
      case 3
      then have eq: "binary_search ts t left right = mid"
        using True by (subst binary_search.simps) (simp add: Let_def mid_def)
      have "mid < length ts" using mid "1.prems"(3) by simp
      then show ?thesis
        unfolding eq using mono [of _ mid] mono [of mid] 3 by auto
    qed
  next
    case False
    then have eq: "binary_search ts t left right = left" by (subst binary_search.simps) simp
    show ?thesis unfolding eq using "1.prems" False by (auto intro: less_imp_le)
  qed
qed

lemma binary_search_all:
  assumes "sorted ts"
  shows "binary_search ts t 0 (length ts) \<le> length ts
    \<and> (\<forall>i < binary_search ts t 0 (length ts). ts ! i \<le> t)
    \<and> (\<forall>i. binary_search ts t 0 (length ts) \<le> i \<and> i < length ts \<longrightarrow> t \<le> ts ! i)"
  using binary_search_spec [OF assms, of 0 "length ts" t] by simp

text \<open>A range that starts before it ends exists, holds every item strictly inside and no item outside.\<close>

lemma iter_range_ordered:
  assumes sorted: "sorted (map snd (ec_by_time c))" and "from < till"
  shows "iter_range from till c \<noteq> None"
proof -
  let ?ts = "map snd (ec_by_time c)"
  note s = binary_search_all [OF sorted, of "from"] and e = binary_search_all [OF sorted, of till]
  have "binary_search ?ts from 0 (length ?ts) \<le> binary_search ?ts till 0 (length ?ts)"
  proof (rule ccontr)
    assume neg: "\<not> ?thesis"
    let ?i = "binary_search ?ts till 0 (length ?ts)"
    have "?i < length ?ts" using neg s by linarith
    then have "till \<le> ?ts ! ?i" using e by blast
    moreover have "?ts ! ?i \<le> from" using neg s by (meson not_le)
    ultimately show False using assms(2) by linarith
  qed
  then show ?thesis by (simp add: iter_range_def Let_def)
qed

lemma iter_range_mem:
  assumes sorted: "sorted (map snd (ec_by_time c))" and r: "iter_range from till c = Some xs"
  shows "x \<in> set xs \<Longrightarrow> \<exists>t. (x, t) \<in> set (ec_by_time c) \<and> from \<le> t \<and> t \<le> till"
    and "(x, t) \<in> set (ec_by_time c) \<Longrightarrow> from < t \<Longrightarrow> t < till \<Longrightarrow> x \<in> set xs"
proof -
  let ?q = "ec_by_time c" and ?ts = "map snd (ec_by_time c)"
  define a where "a = binary_search ?ts from 0 (length ?ts)"
  define b where "b = binary_search ?ts till 0 (length ?ts)"
  note s = binary_search_all [OF sorted, of "from", folded a_def]
  note e = binary_search_all [OF sorted, of till, folded b_def]
  have xs: "xs = map fst (take (b - a) (drop a ?q))"
    using r by (simp add: iter_range_def Let_def a_def b_def split: if_splits)
  have ab: "a \<le> b" using r by (simp add: iter_range_def Let_def a_def b_def split: if_splits)
  have nth: "take (b - a) (drop a ?q) ! j = ?q ! (a + j)" if "j < b - a" for j
    using that e ab by (simp add: less_diff_conv add.commute)
  show "\<exists>t. (x, t) \<in> set ?q \<and> from \<le> t \<and> t \<le> till" if "x \<in> set xs"
  proof -
    obtain j where j: "j < b - a" "x = fst (?q ! (a + j))"
      using \<open>x \<in> set xs\<close> e nth by (auto simp: xs in_set_conv_nth)
    let ?i = "a + j"
    have i: "?i < length ?q" "a \<le> ?i" "?i < b" using j e by auto
    then have "?ts ! ?i \<le> till" "from \<le> ?ts ! ?i" using s e by auto
    then show ?thesis using i j by (metis length_map nth_map nth_mem prod.collapse)
  qed
  show "x \<in> set xs" if mem: "(x, t) \<in> set ?q" and bounds: "from < t" "t < till"
  proof -
    obtain i where i: "i < length ?q" "?q ! i = (x, t)" using mem by (auto simp: in_set_conv_nth)
    have "a \<le> i" using s i bounds by (metis length_map nth_map not_le snd_conv)
    moreover have "i < b" using e i bounds by (metis length_map nth_map not_le snd_conv)
    ultimately have "(x, t) = take (b - a) (drop a ?q) ! (i - a)" and "i - a < length (take (b - a) (drop a ?q))"
      using i nth [of "i - a"] e by auto
    then show ?thesis unfolding xs by (metis fst_conv image_eqI nth_mem set_map)
  qed
qed

section \<open>The interface of the element type\<close>

text \<open>
  \<open>by_time\<close> is sorted and has one entry per key of \<open>data\<close>; the item in \<open>data\<close> is the first one of its key or one preferred
  to it, and not older.
\<close>

definition cache_inv :: "('a \<Rightarrow> 'k) \<Rightarrow> ('a \<Rightarrow> 'a \<Rightarrow> bool) \<Rightarrow> instant \<Rightarrow> ('k, 'a) expiring_cache \<Rightarrow> bool" where
  "cache_inv key lt now c \<longleftrightarrow>
     sorted (map snd (ec_by_time c)) \<and> distinct (map (key \<circ> fst) (ec_by_time c))
     \<and> dom (ec_data c) = (key \<circ> fst) ` set (ec_by_time c)
     \<and> (\<forall>x t. (x, t) \<in> set (ec_by_time c) \<longrightarrow> t \<le> now
          \<and> (\<exists>x' t'. ec_data c (key x) = Some (x', t') \<and> key x' = key x \<and> t \<le> t' \<and> (x' = x \<or> lt x' x)))"

text \<open>What \<open>by_time\<close> keeps when everything up to a time is removed.\<close>

lemma remove_front_time:
  "sorted (map snd q) \<Longrightarrow> ec_by_time (remove_front key since q data) = filter (\<lambda>(x, t). since < t) q"
proof (induction q arbitrary: data)
  case (Cons p rest)
  obtain x t where p: "p = (x, t)" by (cases p)
  show ?case
  proof (cases "since < t")
    case True
    then have "filter (\<lambda>(x, t). since < t) rest = rest" using Cons.prems p by (intro filter_True) force
    then show ?thesis using p True by simp
  qed (use Cons p in simp)
qed simp

lemma remove_front_data:
  assumes "sorted (map snd q)" and "distinct (map (key \<circ> fst) q)"
  shows "ec_data (remove_front key since q data) k
    = (if k \<in> (key \<circ> fst) ` set (filter (\<lambda>(x, t). t \<le> since) q) then None else data k)"
  using assms
proof (induction q arbitrary: data)
  case (Cons p rest)
  obtain x t where p: "p = (x, t)" by (cases p)
  show ?case
  proof (cases "since < t")
    case True
    then have none: "filter (\<lambda>(x, t). t \<le> since) (p # rest) = []"
      using Cons.prems(1) p by (force simp: filter_empty_conv)
    show ?thesis unfolding none using True p by simp
  next
    case False
    have "ec_data (remove_front key since rest (data(key x := None))) k
        = (if k \<in> (key \<circ> fst) ` set (filter (\<lambda>(x, t). t \<le> since) rest) then None else (data(key x := None)) k)"
      by (rule Cons.IH) (use Cons.prems in simp_all)
    then show ?thesis using False p by auto
  qed
qed simp

locale expiring =
  fixes key :: "'a \<Rightarrow> 'k" and lt :: "'a \<Rightarrow> 'a \<Rightarrow> bool"
  assumes lt_trans: "lt a b \<Longrightarrow> lt b c \<Longrightarrow> lt a c"
begin

lemma new_inv [simp]: "cache_inv key lt now cache_new"
  by (simp add: cache_inv_def cache_new_def)

lemma inv_later: "cache_inv key lt now c \<Longrightarrow> now \<le> now' \<Longrightarrow> cache_inv key lt now' c"
  by (force simp: cache_inv_def)

lemma inv_unique:
  assumes "cache_inv key lt now c" and "(a, b) \<in> set (ec_by_time c)" "(x, t) \<in> set (ec_by_time c)" "key a = key x"
  shows "a = x \<and> b = t"
  using assms inj_onD [of "key \<circ> fst" "set (ec_by_time c)" "(a, b)" "(x, t)"] by (simp add: cache_inv_def distinct_map)

lemma inv_entry:
  assumes "cache_inv key lt now c" and "(x, t) \<in> set (ec_by_time c)"
  shows "t \<le> now" and "\<exists>x' t'. ec_data c (key x) = Some (x', t') \<and> key x' = key x \<and> t \<le> t' \<and> (x' = x \<or> lt x' x)"
  using assms by (auto simp: cache_inv_def)

lemma insert_new: "fst (cache_insert key lt now item c) \<longleftrightarrow> cache_get (key item) c = None"
  by (simp add: cache_insert_def cache_get_def split: option.splits)

lemma insert_get:
  "cache_get k (snd (cache_insert key lt now item c)) =
     (if k = key item
      then (case cache_get k c of None \<Rightarrow> Some item | Some old \<Rightarrow> Some (if lt item old then item else old))
      else cache_get k c)"
  by (auto simp: cache_insert_def cache_get_def split: option.splits)

lemma insert_inv:
  assumes inv: "cache_inv key lt now c"
  shows "cache_inv key lt now (snd (cache_insert key lt now item c))"
proof (cases "ec_data c (key item)")
  case None
  then have "key item \<notin> (key \<circ> fst) ` set (ec_by_time c)" using inv unfolding cache_inv_def by (metis domIff)
  moreover from this have "key x \<noteq> key item" if "(x, t) \<in> set (ec_by_time c)" for x t using that by force
  moreover have "sorted (map snd (ec_by_time c @ [(item, now)]))"
    using inv by (auto simp: cache_inv_def sorted_append)
  ultimately show ?thesis
    using inv None by (fastforce simp: cache_inv_def cache_insert_def)
next
  case (Some old)
  obtain o' t' where old: "old = (o', t')" by (cases old)
  show ?thesis
  proof (cases "lt item o'")
    case True
    let ?data = "(ec_data c)(key item \<mapsto> (item, now))"
    have "\<exists>x' t'. ?data (key x) = Some (x', t') \<and> key x' = key x \<and> t \<le> t' \<and> (x' = x \<or> lt x' x)"
      if "(x, t) \<in> set (ec_by_time c)" for x t
    proof (cases "key x = key item")
      case same: True
      then have "o' = x \<or> lt o' x" using inv_entry(2) [OF inv that] Some old by simp
      then show ?thesis using same True lt_trans inv_entry(1) [OF inv that] by auto
    next
      case False
      then show ?thesis using inv_entry(2) [OF inv that] by simp
    qed
    moreover have "dom ?data = (key \<circ> fst) ` set (ec_by_time c)" using inv Some by (auto simp: cache_inv_def)
    ultimately show ?thesis
      using inv Some old True by (simp add: cache_inv_def cache_insert_def)
  next
    case False
    then show ?thesis using inv Some old by (simp add: cache_insert_def)
  qed
qed

lemma insert_length: "length (ec_by_time (snd (cache_insert key lt now item c))) \<le> Suc (length (ec_by_time c))"
  by (simp add: cache_insert_def split: option.splits)

lemma remove_inv:
  assumes inv: "cache_inv key lt now c"
  shows "cache_inv key lt now (remove_older_than key since c)"
proof -
  have time: "ec_by_time (remove_older_than key since c) = filter (\<lambda>(x, t). since < t) (ec_by_time c)"
    and data: "ec_data (remove_older_than key since c) k
      = (if k \<in> (key \<circ> fst) ` set (filter (\<lambda>(x, t). t \<le> since) (ec_by_time c)) then None else ec_data c k)" for k
    using inv by (simp_all add: cache_inv_def remove_older_than_def remove_front_time remove_front_data)
  have keep: "key x \<notin> (key \<circ> fst) ` set (filter (\<lambda>(x, t). t \<le> since) (ec_by_time c))"
    if "(x, t) \<in> set (ec_by_time c)" "since < t" for x t
    using that inv_unique [OF inv] by fastforce
  have dom: "dom (ec_data (remove_older_than key since c))
      = (key \<circ> fst) ` set (filter (\<lambda>(x, t). since < t) (ec_by_time c))"
  proof (intro set_eqI iffI)
    fix k assume "k \<in> dom (ec_data (remove_older_than key since c))"
    then have "k \<in> dom (ec_data c)" and out: "k \<notin> (key \<circ> fst) ` set (filter (\<lambda>(x, t). t \<le> since) (ec_by_time c))"
      by (simp_all add: dom_def data split: if_splits)
    then obtain x t where "(x, t) \<in> set (ec_by_time c)" "k = key x" using inv by (auto simp: cache_inv_def)
    then show "k \<in> (key \<circ> fst) ` set (filter (\<lambda>(x, t). since < t) (ec_by_time c))"
      using out by (force simp: not_less)
  next
    fix k assume "k \<in> (key \<circ> fst) ` set (filter (\<lambda>(x, t). since < t) (ec_by_time c))"
    then obtain x t where x: "(x, t) \<in> set (ec_by_time c)" "since < t" "k = key x" by auto
    moreover have "ec_data c k \<noteq> None" using x inv by (fastforce simp: cache_inv_def)
    ultimately show "k \<in> dom (ec_data (remove_older_than key since c))"
      using keep by (auto simp: data)
  qed
  show ?thesis
    unfolding cache_inv_def dom unfolding time
    using inv keep by (auto simp: cache_inv_def data sorted_filter distinct_map_filter)
qed

text \<open>After a removal exactly the keys first seen later than the cutoff are left.\<close>

lemma remove_get:
  assumes inv: "cache_inv key lt now c"
  shows "cache_get k (remove_older_than key since c) =
    (if \<exists>x t. (x, t) \<in> set (ec_by_time c) \<and> since < t \<and> key x = k then cache_get k c else None)"
proof -
  have data: "ec_data (remove_older_than key since c) k
      = (if k \<in> (key \<circ> fst) ` set (filter (\<lambda>(x, t). t \<le> since) (ec_by_time c)) then None else ec_data c k)"
    using inv by (simp add: cache_inv_def remove_older_than_def remove_front_data)
  show ?thesis
  proof (cases "\<exists>x t. (x, t) \<in> set (ec_by_time c) \<and> since < t \<and> key x = k")
    case True
    then obtain x t where x: "(x, t) \<in> set (ec_by_time c)" "since < t" "key x = k" by blast
    then have "k \<notin> (key \<circ> fst) ` set (filter (\<lambda>(x, t). t \<le> since) (ec_by_time c))"
      using inv_unique [OF inv] by fastforce
    then show ?thesis using True data by (simp add: cache_get_def)
  next
    case False
    then have "k \<in> (key \<circ> fst) ` set (filter (\<lambda>(x, t). t \<le> since) (ec_by_time c)) \<or> k \<notin> dom (ec_data c)"
      using inv by (force simp: cache_inv_def not_less)
    then show ?thesis using False data by (auto simp: cache_get_def dom_def)
  qed
qed

end

interpretation records: expiring mr_id record_less
  by unfold_locales (auto simp: record_less_def)

interpretation infos: expiring mi_id info_less
  by unfold_locales (auto simp: info_less_def)

end
