(* ===== verification/Rensa_Plumtree.thy ===== *)
theory Rensa_Plumtree
  imports Rensa_Cache
begin

text \<open>
  The broadcast tree of \<open>src/network/episub/tree.rs\<close>: eager peers get every message at once, lazy peers get
  announcements; missing messages and shorter paths are repaired by grafting.

  Every operation takes the time at which it runs. The decompression of payloads (zstd) is a parameter. \<open>None\<close> is a
  panic: of \<open>decode_all(..).unwrap()\<close> on a payload that does not decompress, or of a time range that ends before
  it starts. The hop count wraps around, as it does in a release build.
\<close>

section \<open>State\<close>

record zstd =
  z_encode :: "int \<Rightarrow> bytes \<Rightarrow> bytes option"
  z_decode :: "bytes \<Rightarrow> bytes option"

record plumtree =
  pt_topic :: topic
  pt_local :: peer_id
  pt_lazy :: "peer_id list"
  pt_eager :: "peer_id list"
  pt_last_tick :: instant
  pt_config :: config
  pt_observed :: "(u64, message_info) expiring_cache"
  pt_received :: "(u64, message_record) expiring_cache"
  pt_out :: "behaviour_action list"

definition plumtree_new :: "topic \<Rightarrow> config \<Rightarrow> peer_id \<Rightarrow> instant \<Rightarrow> plumtree" where
  "plumtree_new topic c local_node now =
     \<lparr>pt_topic = topic, pt_local = local_node, pt_lazy = [], pt_eager = [], pt_last_tick = now, pt_config = c,
      pt_observed = cache_new, pt_received = cache_new, pt_out = []\<rparr>"

text \<open>Queueing a message for a peer.\<close>

definition pt_notify :: "peer_id \<Rightarrow> action \<Rightarrow> plumtree \<Rightarrow> plumtree" where
  "pt_notify p a t = t\<lparr>pt_out := pt_out t @ [NotifyHandler p \<lparr>rpc_topic = pt_topic t, rpc_action = Some a\<rparr>]\<rparr>"

section \<open>Operations\<close>

definition inject_neighbor_up :: "peer_id \<Rightarrow> plumtree \<Rightarrow> plumtree" where
  "inject_neighbor_up p t = t\<lparr>pt_eager := hs_insert p (pt_eager t)\<rparr>"

definition inject_neighbor_down :: "peer_id \<Rightarrow> plumtree \<Rightarrow> plumtree" where
  "inject_neighbor_down p t = t\<lparr>pt_eager := removeAll p (pt_eager t), pt_lazy := removeAll p (pt_lazy t)\<rparr>"

definition insert_received :: "instant \<Rightarrow> message_record \<Rightarrow> plumtree \<Rightarrow> plumtree" where
  "insert_received now m t = t\<lparr>pt_received := snd (cache_insert mr_id record_less now m (pt_received t))\<rparr>"

definition tree_publish :: "instant \<Rightarrow> u64 \<Rightarrow> bytes \<Rightarrow> plumtree \<Rightarrow> plumtree" where
  "tree_publish now msg_id payload t =
     (if cache_get msg_id (pt_received t) \<noteq> None then t
      else if cache_get msg_id (pt_observed t) \<noteq> None then t
      else let message = \<lparr>mr_id = msg_id, mr_hop = 1, mr_sender = pt_local t, mr_payload = payload\<rparr>
           in insert_received now (message\<lparr>mr_hop := 0\<rparr>)
                (fold (\<lambda>enode. pt_notify enode (record_message message)) (pt_eager t) t))"

definition inject_prune :: "peer_id \<Rightarrow> plumtree \<Rightarrow> plumtree" where
  "inject_prune p t = t\<lparr>pt_eager := removeAll p (pt_eager t), pt_lazy := hs_insert p (pt_lazy t)\<rparr>"

definition inject_message ::
  "zstd \<Rightarrow> instant \<Rightarrow> peer_id \<Rightarrow> u64 \<Rightarrow> u32 \<Rightarrow> bytes \<Rightarrow> plumtree \<Rightarrow> plumtree option" where
  "inject_message z now peer msg_id hop payload t =
     (let record = \<lparr>mr_id = msg_id, mr_hop = hop, mr_sender = peer, mr_payload = payload\<rparr>;
          t' = insert_received now record t
      in if fst (cache_insert mr_id record_less now record (pt_received t))
         then case (if cf_enable_compression (pt_config t) then z_decode z payload else Some payload) of
                None \<Rightarrow> None
              | Some out \<Rightarrow>
                  Some (fold (\<lambda>p. pt_notify p (Message msg_id (hop + 1) payload)) (filter (\<lambda>p. p \<noteq> peer) (pt_eager t))
                    (t'\<lparr>pt_out := pt_out t' @ [GenerateEvent (MessageEvent (pt_topic t) msg_id out)]\<rparr>))
         else Some (if cf_optimize_sender_tree (pt_config t) \<and> peer \<in> set (pt_eager t)
                    then pt_notify peer Prune (inject_prune peer t') else t'))"

definition inject_ihave :: "instant \<Rightarrow> peer_id \<Rightarrow> u64 \<Rightarrow> u32 \<Rightarrow> plumtree \<Rightarrow> plumtree" where
  "inject_ihave now peer msg_id hop t =
     t\<lparr>pt_observed := snd (cache_insert mi_id info_less now \<lparr>mi_id = msg_id, mi_hop = hop, mi_sender = peer\<rparr> (pt_observed t))\<rparr>"

definition inject_graft :: "peer_id \<Rightarrow> u64 list \<Rightarrow> plumtree \<Rightarrow> plumtree" where
  "inject_graft peer ids t =
     fold (\<lambda>m. pt_notify peer (record_message m)) (List.map_filter (\<lambda>msg_id. cache_get msg_id (pt_received t)) ids)
       (t\<lparr>pt_lazy := removeAll peer (pt_lazy t), pt_eager := hs_insert peer (pt_eager t)\<rparr>)"

section \<open>Periodic work\<close>

definition publish_ihaves :: "instant \<Rightarrow> plumtree \<Rightarrow> plumtree option" where
  "publish_ihaves now t =
     (case iter_range (now - cf_lazy_push_window (pt_config t)) now (pt_received t) of
        None \<Rightarrow> None
      | Some ms \<Rightarrow>
          let received = map (\<lambda>m. (mr_id m, mr_hop m)) ms
          in Some (if received = [] then t else fold (\<lambda>p. pt_notify p (Ihave received)) (pt_lazy t) t))"

definition prune_history :: "instant \<Rightarrow> plumtree \<Rightarrow> plumtree" where
  "prune_history now t =
     (let prune_cutoff = now - cf_history_window (pt_config t)
      in t\<lparr>pt_observed := remove_older_than mi_id prune_cutoff (pt_observed t),
           pt_received := remove_older_than mr_id prune_cutoff (pt_received t)\<rparr>)"

text \<open>\<open>HashSet<&MessageInfo>\<close>: infos are equal when their ids are.\<close>

definition info_insert :: "message_info \<Rightarrow> message_info list \<Rightarrow> message_info list" where
  "info_insert i xs = (if mi_id i \<in> mi_id ` set xs then xs else xs @ [i])"

definition hop_gain :: "u32 \<Rightarrow> u32 \<Rightarrow> u32" where
  "hop_gain received observed = (if observed \<le> received then received - observed else 0)"

definition add_graft ::
  "config \<Rightarrow> (u64, message_record) expiring_cache \<Rightarrow> message_info \<Rightarrow> (peer_id \<times> u64 list) list \<Rightarrow> (peer_id \<times> u64 list) list" where
  "add_graft c received observed grafts =
     (case cache_get (mi_id observed) received of
        Some r \<Rightarrow>
          if cf_hop_optimization_factor c \<le> hop_gain (mr_hop r) (mi_hop observed) \<and> mi_hop observed \<noteq> 0
             \<and> map_of grafts (mi_sender observed) = None
          then hm_insert (mi_sender observed) [] grafts else grafts
      | None \<Rightarrow>
          (case map_of grafts (mi_sender observed) of
             None \<Rightarrow> hm_insert (mi_sender observed) [mi_id observed] grafts
           | Some ids \<Rightarrow> hm_insert (mi_sender observed) (ids @ [mi_id observed]) grafts))"

definition repair_tree :: "instant \<Rightarrow> plumtree \<Rightarrow> plumtree option" where
  "repair_tree now t =
     (case iter_range (now - cf_lazy_push_window (pt_config t)) (now - 2 * cf_tick_frequency (pt_config t)) (pt_observed t) of
        None \<Rightarrow> None
      | Some observed \<Rightarrow>
          let expected_ihaves = fold info_insert observed [];
              grafts = fold (add_graft (pt_config t) (pt_received t)) expected_ihaves []
          in Some (prune_history now (fold (\<lambda>(p, ids). pt_notify p (Graft ids)) grafts t)))"

definition tree_tick :: "instant \<Rightarrow> plumtree \<Rightarrow> plumtree option" where
  "tree_tick now t =
     (if now - pt_last_tick t > cf_tick_frequency (pt_config t)
      then case publish_ihaves now t of
             None \<Rightarrow> None
           | Some t1 \<Rightarrow> map_option (\<lambda>t2. t2\<lparr>pt_last_tick := now\<rparr>) (repair_tree now t1)
      else Some t)"

definition tree_poll :: "instant \<Rightarrow> plumtree \<Rightarrow> (behaviour_action option \<times> plumtree) option" where
  "tree_poll now t =
     map_option (\<lambda>t'. case pt_out t' of [] \<Rightarrow> (None, t') | ev # rest \<Rightarrow> (Some ev, t'\<lparr>pt_out := rest\<rparr>)) (tree_tick now t)"

section \<open>Runs\<close>

datatype tree_input =
    NeighborUp peer_id
  | NeighborDown peer_id
  | Publish u64 bytes
  | MessageFrom peer_id u64 u32 bytes
  | IhaveFrom peer_id u64 u32
  | PruneFrom peer_id
  | GraftFrom peer_id "u64 list"
  | TreePoll

text \<open>What a step emits, and the tree after it.\<close>

fun tree_step :: "zstd \<Rightarrow> instant \<Rightarrow> tree_input \<Rightarrow> plumtree \<Rightarrow> (behaviour_action list \<times> plumtree) option" where
  "tree_step z now (NeighborUp p) t = Some ([], inject_neighbor_up p t)"
| "tree_step z now (NeighborDown p) t = Some ([], inject_neighbor_down p t)"
| "tree_step z now (Publish i payload) t = Some ([], tree_publish now i payload t)"
| "tree_step z now (MessageFrom p i hop payload) t = map_option (Pair []) (inject_message z now p i hop payload t)"
| "tree_step z now (IhaveFrom p i hop) t = Some ([], inject_ihave now p i hop t)"
| "tree_step z now (PruneFrom p) t = Some ([], inject_prune p t)"
| "tree_step z now (GraftFrom p ids) t = Some ([], inject_graft p ids t)"
| "tree_step z now TreePoll t =
     map_option (\<lambda>(ev, t'). (case ev of None \<Rightarrow> [] | Some e \<Rightarrow> [e], t')) (tree_poll now t)"

text \<open>The messages handed to the application among some actions, and those a step adds.\<close>

fun message_id :: "behaviour_action \<Rightarrow> u64 option" where
  "message_id (GenerateEvent (MessageEvent _ i _)) = Some i"
| "message_id _ = None"

definition message_ids :: "behaviour_action list \<Rightarrow> u64 list" where
  "message_ids as = List.map_filter message_id as"

definition delivered :: "plumtree \<Rightarrow> behaviour_action list \<Rightarrow> plumtree \<Rightarrow> u64 list" where
  "delivered t ev t' = drop (length (message_ids (pt_out t))) (message_ids (ev @ pt_out t'))"

text \<open>A run from a fresh tree with its log of deliveries; the clock does not go back.\<close>

inductive tree_run :: "zstd \<Rightarrow> config \<Rightarrow> (instant \<times> u64) list \<Rightarrow> instant \<Rightarrow> plumtree \<Rightarrow> bool" for z c where
  run_new: "tree_run z c [] now (plumtree_new topic c p now)"
| run_tree: "tree_run z c log now t \<Longrightarrow> now \<le> now' \<Longrightarrow> tree_step z now' i t = Some (ev, t') \<Longrightarrow>
    tree_run z c (log @ map (Pair now') (delivered t ev t')) now' t'"

section \<open>Queued messages\<close>

lemma message_ids_simps [simp]:
  "message_ids [] = []"
  "message_ids (a # as) = (case message_id a of None \<Rightarrow> [] | Some i \<Rightarrow> [i]) @ message_ids as"
  "message_ids (as @ bs) = message_ids as @ message_ids bs"
  by (simp_all add: message_ids_def map_filter_def split: option.splits)

lemma message_ids_notify [simp]: "message_ids (map (\<lambda>x. NotifyHandler (f x) (g x)) xs) = []"
  by (induction xs) simp_all

lemma fold_notify:
  "fold (\<lambda>x. pt_notify (f x) (g x)) xs t =
     t\<lparr>pt_out := pt_out t @ map (\<lambda>x. NotifyHandler (f x) \<lparr>rpc_topic = pt_topic t, rpc_action = Some (g x)\<rparr>) xs\<rparr>"
  by (induction xs arbitrary: t) (simp_all add: pt_notify_def)

lemma fold_notify_pair:
  "fold (\<lambda>(p, ids). pt_notify p (h ids)) xs t =
     t\<lparr>pt_out := pt_out t @ map (\<lambda>x. NotifyHandler (fst x) \<lparr>rpc_topic = pt_topic t, rpc_action = Some (h (snd x))\<rparr>) xs\<rparr>"
  using fold_notify [of fst "\<lambda>x. h (snd x)" xs t] by (simp add: case_prod_unfold)

lemmas notify_simps = fold_notify fold_notify_pair pt_notify_def

lemma delivered_same_out: "pt_out t' = pt_out t @ ext \<Longrightarrow> delivered t [] t' = message_ids ext"
  by (simp add: delivered_def)

section \<open>The invariant of a tree\<close>

definition tree_inv :: "instant \<Rightarrow> plumtree \<Rightarrow> bool" where
  "tree_inv now t \<longleftrightarrow>
     distinct (pt_eager t) \<and> distinct (pt_lazy t)
     \<and> cache_inv mr_id record_less now (pt_received t) \<and> cache_inv mi_id info_less now (pt_observed t)"

lemma tree_inv_later: "tree_inv now t \<Longrightarrow> now \<le> now' \<Longrightarrow> tree_inv now' t"
  by (auto simp: tree_inv_def intro: records.inv_later infos.inv_later)

lemma tree_inv_new [simp]: "tree_inv now (plumtree_new topic c p now)"
  by (simp add: tree_inv_def plumtree_new_def)

text \<open>\<open>publish_ihaves\<close> and \<open>repair_tree\<close> only queue messages to peers, and prune.\<close>

lemma publish_ihavesE:
  assumes "publish_ihaves now t = Some t'"
  obtains ext where "t' = t\<lparr>pt_out := pt_out t @ ext\<rparr>" and "message_ids ext = []"
proof -
  obtain ms where ms: "iter_range (now - cf_lazy_push_window (pt_config t)) now (pt_received t) = Some ms"
    using assms by (auto simp: publish_ihaves_def split: option.splits)
  show ?thesis
  proof (cases "ms = []")
    case True
    show ?thesis by (rule that [of "[]"]) (use assms ms True in \<open>simp_all add: publish_ihaves_def\<close>)
  next
    case False
    then show ?thesis using assms ms by (auto simp: publish_ihaves_def notify_simps intro!: that)
  qed
qed

lemma repair_treeE:
  assumes "repair_tree now t = Some t'"
  obtains ext where "t' = prune_history now (t\<lparr>pt_out := pt_out t @ ext\<rparr>)" and "message_ids ext = []"
  using assms by (auto simp: repair_tree_def Let_def notify_simps split: option.splits)

lemma tree_tickE:
  assumes "tree_tick now t = Some t'"
  obtains "t' = t"
  | ext where "t' = (prune_history now (t\<lparr>pt_out := pt_out t @ ext\<rparr>))\<lparr>pt_last_tick := now\<rparr>" and "message_ids ext = []"
proof (cases "now - pt_last_tick t > cf_tick_frequency (pt_config t)")
  case True
  then obtain t1 t2 where t1: "publish_ihaves now t = Some t1" and t2: "repair_tree now t1 = Some t2"
    and t': "t' = t2\<lparr>pt_last_tick := now\<rparr>"
    using assms by (auto simp: tree_tick_def split: option.splits)
  obtain e1 where e1: "t1 = t\<lparr>pt_out := pt_out t @ e1\<rparr>" "message_ids e1 = []" using t1 by (rule publish_ihavesE)
  obtain e2 where e2: "t2 = prune_history now (t1\<lparr>pt_out := pt_out t1 @ e2\<rparr>)" "message_ids e2 = []"
    using t2 by (rule repair_treeE)
  show ?thesis by (rule that(2) [of "e1 @ e2"]) (use t' e1 e2 in simp_all)
qed (use assms that(1) in \<open>simp add: tree_tick_def\<close>)

lemma tree_pollE:
  assumes "tree_poll now t = Some (ev, t')"
  obtains t1 where "tree_tick now t = Some t1" and "pt_out t1 = (case ev of None \<Rightarrow> [] | Some e \<Rightarrow> [e]) @ pt_out t'"
    and "t' = t1\<lparr>pt_out := pt_out t'\<rparr>"
proof -
  obtain t1 where t1: "tree_tick now t = Some t1"
    "(case pt_out t1 of [] \<Rightarrow> (None, t1) | e # rest \<Rightarrow> (Some e, t1\<lparr>pt_out := rest\<rparr>)) = (ev, t')"
    using assms by (auto simp: tree_poll_def)
  show ?thesis by (rule that [OF t1(1)]) (use t1(2) in \<open>auto split: list.splits\<close>)
qed

lemma prune_history_inv: "tree_inv now t \<Longrightarrow> tree_inv now (prune_history now' t)"
  by (simp add: tree_inv_def prune_history_def Let_def records.remove_inv infos.remove_inv)

lemma tree_inv_out [simp]: "tree_inv now (t\<lparr>pt_out := x\<rparr>) = tree_inv now t" "tree_inv now (t\<lparr>pt_last_tick := n\<rparr>) = tree_inv now t"
  by (simp_all add: tree_inv_def)

lemma tree_tick_inv: "tree_inv now t \<Longrightarrow> tree_tick now t = Some t' \<Longrightarrow> tree_inv now t'"
  by (erule tree_tickE) (simp_all add: prune_history_inv)

lemma inject_messageE:
  assumes "inject_message z now p i hop payload t = Some t'"
  obtains (new) out where "cache_get i (pt_received t) = None"
      "if cf_enable_compression (pt_config t) then z_decode z payload = Some out else out = payload"
      "t' = (insert_received now \<lparr>mr_id = i, mr_hop = hop, mr_sender = p, mr_payload = payload\<rparr> t)\<lparr>pt_out := pt_out t
         @ GenerateEvent (MessageEvent (pt_topic t) i out)
         # map (\<lambda>q. NotifyHandler q \<lparr>rpc_topic = pt_topic t, rpc_action = Some (Message i (hop + 1) payload)\<rparr>)
             (filter (\<lambda>q. q \<noteq> p) (pt_eager t))\<rparr>"
  | (old) "cache_get i (pt_received t) \<noteq> None"
      "t' = (let t1 = insert_received now \<lparr>mr_id = i, mr_hop = hop, mr_sender = p, mr_payload = payload\<rparr> t
             in if cf_optimize_sender_tree (pt_config t) \<and> p \<in> set (pt_eager t) then pt_notify p Prune (inject_prune p t1) else t1)"
  using assms
  by (auto simp: inject_message_def Let_def records.insert_new notify_simps insert_received_def
      split: if_splits option.splits)

lemma insert_received_simps [simp]:
  "pt_out (insert_received now m t) = pt_out t" "pt_eager (insert_received now m t) = pt_eager t"
  "pt_lazy (insert_received now m t) = pt_lazy t" "pt_topic (insert_received now m t) = pt_topic t"
  "pt_config (insert_received now m t) = pt_config t" "pt_observed (insert_received now m t) = pt_observed t"
  "pt_received (insert_received now m t) = snd (cache_insert mr_id record_less now m (pt_received t))"
  by (simp_all add: insert_received_def)

lemma insert_received_inv: "tree_inv now t \<Longrightarrow> tree_inv now (insert_received now m t)"
  by (simp add: tree_inv_def records.insert_inv)

text \<open>The effect of a step on what was received and on what is delivered.\<close>

lemma tree_step_effect:
  assumes step: "tree_step z now i t = Some (ev, t')" and inv: "tree_inv now t"
  shows "pt_config t' = pt_config t \<and> tree_inv now t'"
proof (cases i)
  case (MessageFrom p k hop payload)
  then obtain t1 where "inject_message z now p k hop payload t = Some t1" and "t' = t1" using step by auto
  then show ?thesis
    using insert_received_inv [OF inv]
    by (auto elim!: inject_messageE simp: Let_def pt_notify_def inject_prune_def) (auto simp: tree_inv_def distinct_removeAll)
next
  case TreePoll
  then obtain ev' where "tree_poll now t = Some (ev', t')" using step by auto
  then obtain t1 where t1: "tree_tick now t = Some t1" "t' = t1\<lparr>pt_out := pt_out t'\<rparr>" by (rule tree_pollE)
  have "pt_config t1 = pt_config t" using t1(1) by (rule tree_tickE) (simp_all add: prune_history_def Let_def)
  moreover have "tree_inv now t1" using tree_tick_inv [OF inv t1(1)] .
  ultimately show ?thesis using t1(2) by (metis plumtree.select_convs(6) plumtree.surjective plumtree.update_convs(9) tree_inv_out(1))
qed (use assms in \<open>auto simp: tree_inv_def inject_neighbor_up_def inject_neighbor_down_def tree_publish_def Let_def
      inject_ihave_def inject_prune_def inject_graft_def notify_simps infos.insert_inv records.insert_inv distinct_removeAll\<close>)

text \<open>The cache of received messages either gains an entry with the time of the step, or loses old ones.\<close>

definition first_seen :: "u64 \<Rightarrow> instant \<Rightarrow> plumtree \<Rightarrow> bool" where
  "first_seen i s t \<longleftrightarrow> (\<exists>m. (m, s) \<in> set (ec_by_time (pt_received t)) \<and> mr_id m = i)"

lemma first_seen_insert:
  "first_seen i s t \<Longrightarrow> first_seen i s (t\<lparr>pt_received := snd (cache_insert mr_id record_less now m (pt_received t))\<rparr>)"
  by (auto simp: first_seen_def cache_insert_def split: option.splits)

lemma first_seen_prune:
  assumes "tree_inv now' t" and "first_seen i s t" and "now - cf_history_window (pt_config t) < s"
  shows "first_seen i s (prune_history now t)"
  using assms by (auto simp: first_seen_def prune_history_def Let_def remove_older_than_def tree_inv_def cache_inv_def
      remove_front_time)

lemma first_seen_get:
  assumes "tree_inv now t" and "first_seen i s t"
  shows "cache_get i (pt_received t) \<noteq> None"
proof -
  obtain m where m: "(m, s) \<in> set (ec_by_time (pt_received t))" "mr_id m = i" using assms(2) by (auto simp: first_seen_def)
  have inv: "cache_inv mr_id record_less now (pt_received t)" using assms(1) by (simp add: tree_inv_def)
  show ?thesis using records.inv_entry(2) [OF inv m(1)] m(2) by (auto simp: cache_get_def)
qed

lemma tree_step_seen:
  assumes step: "tree_step z now i t = Some (ev, t')" and inv: "tree_inv now t" and seen: "first_seen k s t"
  shows "first_seen k s t' \<or> s + cf_history_window (pt_config t) \<le> now"
proof (cases i)
  case (MessageFrom p k' hop payload)
  then obtain t1 where "inject_message z now p k' hop payload t = Some t1" and "t' = t1" using step by auto
  then show ?thesis
    using first_seen_insert [OF seen]
    by (auto elim!: inject_messageE simp: Let_def pt_notify_def inject_prune_def insert_received_def first_seen_def)
next
  case TreePoll
  then obtain ev' where "tree_poll now t = Some (ev', t')" using step by auto
  then obtain t1 where t1: "tree_tick now t = Some t1" "t' = t1\<lparr>pt_out := pt_out t'\<rparr>" by (rule tree_pollE)
  have "first_seen k s t1 \<or> s + cf_history_window (pt_config t) \<le> now"
    using t1(1)
  proof (rule tree_tickE)
    fix ext assume "t1 = (prune_history now (t\<lparr>pt_out := pt_out t @ ext\<rparr>))\<lparr>pt_last_tick := now\<rparr>"
    then show ?thesis
      using first_seen_prune [of now "t\<lparr>pt_out := pt_out t @ ext\<rparr>" k s now] inv seen by (fastforce simp: first_seen_def)
  qed (use seen in simp)
  then show ?thesis using t1(2) by (metis first_seen_def plumtree.select_convs(8) plumtree.surjective plumtree.update_convs(9))
qed (use assms in \<open>auto simp: first_seen_def inject_neighbor_up_def inject_neighbor_down_def tree_publish_def Let_def
      inject_ihave_def inject_prune_def inject_graft_def notify_simps insert_received_def cache_insert_def split: option.splits\<close>)

lemma tree_step_delivered:
  assumes step: "tree_step z now i t = Some (ev, t')"
  shows "delivered t ev t' = [] \<or>
    (\<exists>k. delivered t ev t' = [k] \<and> cache_get k (pt_received t) = None \<and> first_seen k now t')"
proof (cases i)
  case (MessageFrom p k hop payload)
  then have ev: "ev = []" and "inject_message z now p k hop payload t = Some t'" using step by auto
  from this(2) show ?thesis
  proof (cases rule: inject_messageE)
    case (new out)
    have "first_seen k now t'"
      using new(1) unfolding new(3) by (force simp: first_seen_def insert_received_def cache_insert_def cache_get_def)
    then show ?thesis using new ev by (simp add: delivered_def)
  next
    case old
    then show ?thesis using ev by (auto simp: delivered_def Let_def pt_notify_def inject_prune_def)
  qed
next
  case TreePoll
  then obtain ev' where poll: "tree_poll now t = Some (ev', t')" and ev: "ev = (case ev' of None \<Rightarrow> [] | Some e \<Rightarrow> [e])"
    using step by auto
  obtain t1 where t1: "tree_tick now t = Some t1" "pt_out t1 = ev @ pt_out t'"
    using poll unfolding ev by (rule tree_pollE)
  have "message_ids (pt_out t1) = message_ids (pt_out t)"
    using t1(1) by (rule tree_tickE) (simp_all add: prune_history_def Let_def)
  then show ?thesis using t1(2) by (simp add: delivered_def)
qed (use assms in \<open>auto simp: delivered_def inject_neighbor_up_def inject_neighbor_down_def tree_publish_def Let_def
      inject_ihave_def inject_prune_def inject_graft_def notify_simps\<close>)

section \<open>Deliveries in a run\<close>

text \<open>Deliveries of one message are at least the given time apart.\<close>

fun spaced :: "int \<Rightarrow> (instant \<times> u64) list \<Rightarrow> bool" where
  "spaced w [] \<longleftrightarrow> True"
| "spaced w ((s, k) # log) \<longleftrightarrow> (\<forall>(s', k') \<in> set log. k' = k \<longrightarrow> s + w \<le> s') \<and> spaced w log"

lemma spaced_snoc:
  "spaced w (log @ [(now, k)]) \<longleftrightarrow> spaced w log \<and> (\<forall>(s, k') \<in> set log. k' = k \<longrightarrow> s + w \<le> now)"
  by (induction w log rule: spaced.induct) auto

lemma tree_run_log:
  assumes "tree_run z c log now t"
  shows "pt_config t = c \<and> tree_inv now t \<and> spaced (cf_history_window c) log
    \<and> (\<forall>(s, k) \<in> set log. s + cf_history_window c \<le> now \<or> first_seen k s t)"
  using assms
proof induction
  case (run_new now topic p)
  then show ?case by simp (simp add: plumtree_new_def)
next
  case (run_tree log now t now' i ev t')
  let ?w = "cf_history_window c"
  have inv: "tree_inv now' t" using run_tree tree_inv_later by blast
  have cfg: "pt_config t = c" using run_tree by blast
  have old: "s + ?w \<le> now' \<or> first_seen k s t'" if "(s, k) \<in> set log" for s k
    using that run_tree tree_step_seen [OF run_tree.hyps(3) inv, of k s] cfg by fastforce
  have past: "s + ?w \<le> now'" if "(s, k) \<in> set log" "cache_get k (pt_received t) = None" for s k
    using that run_tree first_seen_get [OF inv, of k s] by fastforce
  from tree_step_delivered [OF run_tree.hyps(3)]
  show ?case
  proof
    assume "delivered t ev t' = []"
    then show ?thesis
      using old run_tree.IH tree_step_effect [OF run_tree.hyps(3) inv] cfg by auto
  next
    assume "\<exists>k. delivered t ev t' = [k] \<and> cache_get k (pt_received t) = None \<and> first_seen k now' t'"
    then obtain k where "delivered t ev t' = [k]" "cache_get k (pt_received t) = None" "first_seen k now' t'" by blast
    then show ?thesis
      using old past run_tree.IH tree_step_effect [OF run_tree.hyps(3) inv] cfg by (auto simp: spaced_snoc)
  qed
qed

section \<open>Repair\<close>

lemma iter_range_same: "iter_range a a c \<noteq> None"
  by (simp add: iter_range_def Let_def)

text \<open>A tick returns when the announcement window is longer than the two ticks that announcements wait for repair.\<close>

lemma tree_poll_returns:
  assumes inv: "tree_inv now t" and "0 \<le> cf_lazy_push_window (pt_config t)"
    and window: "2 * cf_tick_frequency (pt_config t) \<le> cf_lazy_push_window (pt_config t)"
  shows "tree_poll now t \<noteq> None"
proof -
  let ?w = "cf_lazy_push_window (pt_config t)" and ?f = "cf_tick_frequency (pt_config t)"
  have sorted: "sorted (map snd (ec_by_time (pt_received t)))" "sorted (map snd (ec_by_time (pt_observed t)))"
    using inv by (simp_all add: tree_inv_def cache_inv_def)
  have "iter_range (now - ?w) now (pt_received t) \<noteq> None"
    using iter_range_ordered [OF sorted(1), of "now - ?w" now] iter_range_same assms(2) by (cases "?w = 0") auto
  moreover have "iter_range (now - ?w) (now - 2 * ?f) (pt_observed t) \<noteq> None"
    using iter_range_ordered [OF sorted(2), of "now - ?w" "now - 2 * ?f"] iter_range_same [of "now - ?w"] window
    by (cases "?w = 2 * ?f") auto
  ultimately have "tree_tick now t \<noteq> None"
    by (auto simp: tree_tick_def publish_ihaves_def repair_tree_def Let_def notify_simps split: option.splits)
  then show ?thesis by (auto simp: tree_poll_def)
qed

text \<open>Announced messages that were not received are asked for.\<close>

lemma add_graft_keeps:
  "map_of grafts p = Some ids \<Longrightarrow> \<exists>ids'. map_of (add_graft c rec o' grafts) p = Some (ids @ ids')"
  by (auto simp: add_graft_def map_of_hm_insert split: option.splits)

lemma add_graft_missing:
  "cache_get (mi_id o') rec = None \<Longrightarrow> \<exists>ids. map_of (add_graft c rec o' grafts) (mi_sender o') = Some ids \<and> mi_id o' \<in> set ids"
  by (auto simp: add_graft_def map_of_hm_insert split: option.splits)

lemma grafts_keep:
  "map_of grafts p = Some ids \<Longrightarrow> \<exists>ids'. map_of (fold (add_graft c rec) os grafts) p = Some (ids @ ids')"
proof (induction os arbitrary: grafts ids)
  case (Cons o' os)
  obtain ids' where "map_of (add_graft c rec o' grafts) p = Some (ids @ ids')" using add_graft_keeps [OF Cons.prems] by blast
  from Cons.IH [OF this] show ?case by auto
qed simp

lemma grafts_missing:
  "o' \<in> set os \<Longrightarrow> cache_get (mi_id o') rec = None \<Longrightarrow>
     \<exists>ids. map_of (fold (add_graft c rec) os grafts) (mi_sender o') = Some ids \<and> mi_id o' \<in> set ids"
proof (induction os arbitrary: grafts)
  case (Cons x os)
  show ?case
  proof (cases "x = o'")
    case True
    then obtain ids where "map_of (add_graft c rec x grafts) (mi_sender o') = Some ids" "mi_id o' \<in> set ids"
      using add_graft_missing Cons.prems(2) by blast
    then show ?thesis using grafts_keep by (metis Un_iff fold_simps(2) set_append)
  qed (use Cons in simp)
qed simp

lemma info_insert_distinct: "distinct (map mi_id (acc @ xs)) \<Longrightarrow> fold info_insert xs acc = acc @ xs"
  by (induction xs arbitrary: acc) (auto simp: info_insert_def)

lemma iter_range_infos:
  assumes "cache_inv mi_id info_less now c" and "iter_range a b c = Some xs"
  shows "distinct (map mi_id xs)"
proof -
  obtain m n where "xs = map fst (take m (drop n (ec_by_time c)))"
    using assms(2) by (auto simp: iter_range_def Let_def split: if_splits)
  moreover have "distinct (map mi_id (map fst (ec_by_time c)))" using assms(1) by (simp add: cache_inv_def)
  ultimately show ?thesis by (metis distinct_take distinct_drop drop_map take_map)
qed

lemma repair_requests:
  assumes inv: "tree_inv now t" and repair: "repair_tree now t = Some t'"
    and seen: "(o', s) \<in> set (ec_by_time (pt_observed t))"
    and "now - cf_lazy_push_window (pt_config t) < s" and "s < now - 2 * cf_tick_frequency (pt_config t)"
    and missing: "cache_get (mi_id o') (pt_received t) = None"
  shows "\<exists>ids. NotifyHandler (mi_sender o') \<lparr>rpc_topic = pt_topic t, rpc_action = Some (Graft ids)\<rparr> \<in> set (pt_out t')
    \<and> mi_id o' \<in> set ids"
proof -
  obtain xs where xs: "iter_range (now - cf_lazy_push_window (pt_config t)) (now - 2 * cf_tick_frequency (pt_config t))
      (pt_observed t) = Some xs"
    and t': "t' = prune_history now (fold (\<lambda>(p, ids). pt_notify p (Graft ids))
      (fold (add_graft (pt_config t) (pt_received t)) (fold info_insert xs []) []) t)"
    using repair by (auto simp: repair_tree_def Let_def split: option.splits)
  have ci: "cache_inv mi_id info_less now (pt_observed t)" using inv by (simp add: tree_inv_def)
  then have "sorted (map snd (ec_by_time (pt_observed t)))" by (simp add: cache_inv_def)
  then have "o' \<in> set xs" by (rule iter_range_mem(2) [OF _ xs seen assms(4,5)])
  moreover have "fold info_insert xs [] = xs" using info_insert_distinct [of "[]" xs] iter_range_infos [OF ci xs] by simp
  ultimately obtain ids where "map_of (fold (add_graft (pt_config t) (pt_received t)) (fold info_insert xs []) []) (mi_sender o') = Some ids"
    and ids: "mi_id o' \<in> set ids"
    using grafts_missing missing by (metis (no_types))
  then have "(mi_sender o', ids) \<in> set (fold (add_graft (pt_config t) (pt_received t)) (fold info_insert xs []) [])"
    by (blast dest: map_of_SomeD)
  then show ?thesis
    using ids unfolding t' by (force simp: prune_history_def Let_def notify_simps)
qed

text \<open>Lazy peers are told of every recently received message, and a graft is answered with the messages asked for.\<close>

lemma announces:
  assumes inv: "tree_inv now t" and pub: "publish_ihaves now t = Some t'"
    and seen: "(m, s) \<in> set (ec_by_time (pt_received t))"
    and "now - cf_lazy_push_window (pt_config t) < s" and "s < now" and lazy: "p \<in> set (pt_lazy t)"
  shows "\<exists>ihaves. NotifyHandler p \<lparr>rpc_topic = pt_topic t, rpc_action = Some (Ihave ihaves)\<rparr> \<in> set (pt_out t')
    \<and> (mr_id m, mr_hop m) \<in> set ihaves"
proof -
  obtain ms where ms: "iter_range (now - cf_lazy_push_window (pt_config t)) now (pt_received t) = Some ms"
    using pub by (auto simp: publish_ihaves_def split: option.splits)
  have "sorted (map snd (ec_by_time (pt_received t)))" using inv by (simp add: tree_inv_def cache_inv_def)
  then have m: "m \<in> set ms" by (rule iter_range_mem(2) [OF _ ms seen assms(4,5)])
  then have "ms \<noteq> []" by auto
  then show ?thesis using pub ms lazy m
    by (intro exI [of _ "map (\<lambda>m. (mr_id m, mr_hop m)) ms"]) (auto simp: publish_ihaves_def Let_def notify_simps)
qed

lemma graft_answers:
  assumes "cache_get k (pt_received t) = Some m" and "k \<in> set ids"
  shows "NotifyHandler p \<lparr>rpc_topic = pt_topic t, rpc_action = Some (record_message m)\<rparr> \<in> set (pt_out (inject_graft p ids t))"
  using assms by (force simp: inject_graft_def notify_simps map_filter_def)

end
