(* ===== verification/Rensa_Topic.thy ===== *)
theory Rensa_Topic
  imports Rensa_View Rensa_Plumtree
begin

text \<open>
  The mesh of one topic in \<open>src/network/episub/topic.rs\<close>: the membership view and the broadcast tree, joined by the
  membership events. Incoming calls are routed to one of the two.
\<close>

section \<open>State and operations\<close>

datatype rpc_error =
    InvalidPeerId
  | ImpersonatedPeer peer_id peer_id

record topic_mesh =
  tm_tree :: plumtree
  tm_nodes :: view
  tm_local :: addressable_peer
  tm_out :: "behaviour_action list"

definition topic_new :: "topic \<Rightarrow> config \<Rightarrow> addressable_peer \<Rightarrow> instant \<Rightarrow> nat list \<Rightarrow> topic_mesh" where
  "topic_new topic c local_node now draws =
     \<lparr>tm_tree = plumtree_new topic c (ap_id local_node) now, tm_nodes = view_new topic c local_node now draws,
      tm_local = local_node, tm_out = []\<rparr>"

definition on_nodes :: "(view \<Rightarrow> view) \<Rightarrow> topic_mesh \<Rightarrow> topic_mesh" where
  "on_nodes g m = m\<lparr>tm_nodes := g (tm_nodes m)\<rparr>"

definition on_tree :: "(plumtree \<Rightarrow> plumtree) \<Rightarrow> topic_mesh \<Rightarrow> topic_mesh" where
  "on_tree g m = m\<lparr>tm_tree := g (tm_tree m)\<rparr>"

definition topic_disconnected :: "peer_id \<Rightarrow> bool \<Rightarrow> topic_mesh \<Rightarrow> topic_mesh" where
  "topic_disconnected p alive = on_nodes (inject_disconnect p alive)"

definition topic_initiate_join :: "formats \<Rightarrow> addressable_peer \<Rightarrow> topic_mesh \<Rightarrow> topic_mesh" where
  "topic_initiate_join f p = on_nodes (initiate_join f p)"

definition topic_publish :: "instant \<Rightarrow> u64 \<Rightarrow> bytes \<Rightarrow> topic_mesh \<Rightarrow> topic_mesh" where
  "topic_publish now i payload = on_tree (tree_publish now i payload)"

text \<open>
  Routing of a call; \<open>None\<close> is a panic: of \<open>event.action.unwrap()\<close> on a call without an action, or of the tree on a
  payload that does not decompress.
\<close>

definition inject_rpc_call ::
  "formats \<Rightarrow> zstd \<Rightarrow> instant \<Rightarrow> peer_id \<Rightarrow> rpc \<Rightarrow> topic_mesh \<Rightarrow> (rpc_error, topic_mesh) comp" where
  "inject_rpc_call f z now peer event m =
     (case rpc_action event of
        None \<Rightarrow> None
      | Some (Join ttl w) \<Rightarrow>
          (case peer_of_wire f w of
             Some p \<Rightarrow> ret (on_nodes (inject_join f peer p ttl) m)
           | None \<Rightarrow> throw InvalidPeerId)
      | Some (ForwardJoin ttl w) \<Rightarrow>
          (case peer_of_wire f w of
             Some p \<Rightarrow> ret (on_nodes (inject_forward_join f p (unat ttl) (ap_id (tm_local m)) peer) m)
           | None \<Rightarrow> throw InvalidPeerId)
      | Some (Neighbor w prio) \<Rightarrow>
          (case peer_of_wire f w of
             Some p \<Rightarrow>
               if ap_id p = peer then ret (on_nodes (inject_neighbor f p prio) m)
               else throw (ImpersonatedPeer peer (ap_id p))
           | None \<Rightarrow> throw InvalidPeerId)
      | Some (Disconnect alive) \<Rightarrow> ret (on_nodes (inject_disconnect peer alive) m)
      | Some (Shuffle ttl w ws) \<Rightarrow>
          (case peer_of_wire f w of
             Some origin \<Rightarrow> ret (on_nodes (inject_shuffle f peer ttl (List.map_filter (peer_of_wire f) ws) origin) m)
           | None \<Rightarrow> throw InvalidPeerId)
      | Some (ShuffleReply ws) \<Rightarrow> ret (on_nodes (inject_shuffle_reply f ws) m)
      | Some (Message i hop payload) \<Rightarrow>
          (case inject_message z now peer i hop payload (tm_tree m) of
             None \<Rightarrow> None
           | Some t \<Rightarrow> ret (m\<lparr>tm_tree := t\<rparr>))
      | Some (Ihave ihaves) \<Rightarrow> ret (on_tree (fold (\<lambda>(i, hop). inject_ihave now peer i hop) ihaves) m)
      | Some Prune \<Rightarrow> ret (on_tree (inject_prune peer) m)
      | Some (Graft ids) \<Rightarrow> ret (on_tree (inject_graft peer ids) m))"

text \<open>Membership events on their way out are told to the tree.\<close>

fun tell_tree :: "behaviour_action \<Rightarrow> plumtree \<Rightarrow> plumtree" where
  "tell_tree (GenerateEvent (PeerAdded p)) t = inject_neighbor_up p t"
| "tell_tree (GenerateEvent (PeerRemoved p)) t = inject_neighbor_down p t"
| "tell_tree _ t = t"

definition topic_poll :: "formats \<Rightarrow> instant \<Rightarrow> topic_mesh \<Rightarrow> (behaviour_action option \<times> topic_mesh) option" where
  "topic_poll f now m =
     (case tm_out m of
        ev # rest \<Rightarrow> Some (Some ev, m\<lparr>tm_out := rest\<rparr>)
      | [] \<Rightarrow>
          (case view_poll f now (tm_nodes m) of
             (Some ev, v) \<Rightarrow> Some (Some ev, m\<lparr>tm_nodes := v, tm_tree := tell_tree ev (tm_tree m)\<rparr>)
           | (None, v) \<Rightarrow> map_option (\<lambda>(ev, t). (ev, m\<lparr>tm_nodes := v, tm_tree := t\<rparr>)) (tree_poll now (tm_tree m))))"

section \<open>Runs of a mesh\<close>

datatype mesh_input =
    MeshCall peer_id rpc
  | MeshPublish u64 bytes
  | MeshJoin addressable_peer
  | MeshLost peer_id bool
  | MeshPoll

text \<open>The mesh after an input, with what it emits; a call that is rejected leaves the mesh as it was.\<close>

fun mesh_step ::
  "formats \<Rightarrow> zstd \<Rightarrow> instant \<Rightarrow> mesh_input \<Rightarrow> topic_mesh \<Rightarrow> (behaviour_action option \<times> topic_mesh) option" where
  "mesh_step f z now (MeshCall p r) m =
     (case inject_rpc_call f z now p r m of None \<Rightarrow> None | Some (Inl e) \<Rightarrow> Some (None, m) | Some (Inr m') \<Rightarrow> Some (None, m'))"
| "mesh_step f z now (MeshPublish i payload) m = Some (None, topic_publish now i payload m)"
| "mesh_step f z now (MeshJoin p) m = Some (None, topic_initiate_join f p m)"
| "mesh_step f z now (MeshLost p alive) m = Some (None, topic_disconnected p alive m)"
| "mesh_step f z now MeshPoll m = topic_poll f now m"

inductive mesh_run :: "formats \<Rightarrow> zstd \<Rightarrow> topic_mesh \<Rightarrow> instant \<Rightarrow> behaviour_action list \<Rightarrow> instant \<Rightarrow> topic_mesh \<Rightarrow> bool"
  for f z m0 now0 where
  mesh_start: "mesh_run f z m0 now0 [] now0 m0"
| mesh_next: "mesh_run f z m0 now0 evs now m \<Longrightarrow> now \<le> now' \<Longrightarrow> mesh_step f z now' i m = Some (ev, m') \<Longrightarrow>
    mesh_run f z m0 now0 (evs @ (case ev of None \<Rightarrow> [] | Some a \<Rightarrow> [a])) now' m'"

section \<open>The tree keeps its peers and sends no membership events\<close>

definition neutral :: "behaviour_action \<Rightarrow> bool" where
  "neutral a \<longleftrightarrow> (\<forall>S. membership1 a S = S)"

lemma neutral_simps [simp]: "neutral (NotifyHandler p r)" "neutral (GenerateEvent (MessageEvent t i b))"
  by (simp_all add: neutral_def)

lemma membership_neutral: "list_all neutral as \<Longrightarrow> membership as S = S"
  by (induction as arbitrary: S) (simp_all add: neutral_def)

definition tree_peers :: "plumtree \<Rightarrow> peer_id set" where
  "tree_peers t = set (pt_eager t) \<union> set (pt_lazy t)"

definition tree_ok :: "instant \<Rightarrow> peer_id set \<Rightarrow> plumtree \<Rightarrow> bool" where
  "tree_ok now S t \<longleftrightarrow> tree_inv now t \<and> list_all neutral (pt_out t) \<and> S \<subseteq> tree_peers t"

lemma list_all_neutral_notify [simp]: "list_all neutral (map (\<lambda>x. NotifyHandler (g x) (r x)) xs)"
  by (simp add: list_all_iff)

lemma tick_ok:
  assumes "tree_tick now t = Some t'"
  shows "tree_peers t' = tree_peers t \<and> (list_all neutral (pt_out t) \<longrightarrow> list_all neutral (pt_out t'))"
proof -
  have pub: "publish_ihaves now t = Some u \<Longrightarrow> tree_peers u = tree_peers t \<and> (list_all neutral (pt_out t) \<longrightarrow> list_all neutral (pt_out u))"
    for u by (auto simp: publish_ihaves_def Let_def notify_simps tree_peers_def split: option.splits if_splits)
  have rep: "repair_tree now u = Some w \<Longrightarrow> tree_peers w = tree_peers u \<and> (list_all neutral (pt_out u) \<longrightarrow> list_all neutral (pt_out w))"
    for u w by (auto simp: repair_tree_def prune_history_def Let_def notify_simps tree_peers_def split: option.splits)
  show ?thesis
    using assms pub rep by (fastforce simp: tree_tick_def tree_peers_def split: option.splits if_splits)
qed

lemma tree_step_ok:
  assumes step: "tree_step z now i t = Some (ev, t')" and ok: "tree_ok now S t" and "\<And>p. i \<noteq> NeighborDown p"
  shows "tree_ok now S t' \<and> list_all neutral ev"
proof -
  have inv: "tree_inv now t'" using tree_step_effect [OF step] ok by (simp add: tree_ok_def)
  have "tree_peers t \<subseteq> tree_peers t' \<and> (list_all neutral (pt_out t) \<longrightarrow> list_all neutral (ev @ pt_out t'))"
  proof (cases i)
    case (MessageFrom p k hop payload)
    then have "ev = []" and "inject_message z now p k hop payload t = Some t'" using step by auto
    then show ?thesis
      by (auto elim!: inject_messageE simp: Let_def pt_notify_def inject_prune_def tree_peers_def)
  next
    case TreePoll
    then obtain e where poll: "tree_poll now t = Some (e, t')" and ev: "ev = (case e of None \<Rightarrow> [] | Some a \<Rightarrow> [a])"
      using step by auto
    obtain t1 where t1: "tree_tick now t = Some t1" "pt_out t1 = ev @ pt_out t'" "t' = t1\<lparr>pt_out := pt_out t'\<rparr>"
      using poll unfolding ev by (rule tree_pollE)
    have "tree_peers t' = tree_peers t1"
      unfolding tree_peers_def
      by (metis t1(3) plumtree.select_convs(3,4) plumtree.surjective plumtree.update_convs(9))
    then show ?thesis using tick_ok [OF t1(1)] t1(2) by simp
  qed (use step assms(3) in \<open>auto simp: inject_neighbor_up_def tree_publish_def Let_def inject_ihave_def inject_prune_def
        inject_graft_def notify_simps tree_peers_def\<close>)
  then show ?thesis using inv ok by (auto simp: tree_ok_def)
qed

section \<open>The invariant of a mesh\<close>

text \<open>
  The invariants of both parts, and that the tree has every active peer once the queued membership events reach it.
\<close>

definition mesh_inv :: "instant \<Rightarrow> topic_mesh \<Rightarrow> bool" where
  "mesh_inv now m \<longleftrightarrow>
     view_inv (tm_nodes m) \<and> tree_inv now (tm_tree m) \<and> list_all neutral (pt_out (tm_tree m)) \<and> tm_out m = []
     \<and> ps_ids (hv_active (tm_nodes m)) \<subseteq> membership (hv_out (tm_nodes m)) (tree_peers (tm_tree m))"

lemma mesh_inv_new [simp]: "mesh_inv now (topic_new topic c p now ds)"
  by (simp add: mesh_inv_def topic_new_def) (simp add: view_new_def plumtree_new_def)

lemma mesh_inv_later: "mesh_inv now m \<Longrightarrow> now \<le> now' \<Longrightarrow> mesh_inv now' m"
  by (auto simp: mesh_inv_def intro: tree_inv_later)

lemma mesh_inv_nodes:
  assumes "mesh_inv now m" and "extends (tm_nodes m) (g (tm_nodes m))"
  shows "mesh_inv now (on_nodes g m)"
  using assms extends_membership_le [OF assms(2)] by (auto simp: mesh_inv_def on_nodes_def extends_def)

lemma mesh_inv_tree:
  assumes "mesh_inv now m" and "tree_ok now (tree_peers (tm_tree m)) t"
  shows "mesh_inv now (m\<lparr>tm_tree := t\<rparr>)"
  using assms membership_mono [of "tree_peers (tm_tree m)" "tree_peers t" "hv_out (tm_nodes m)"]
  by (auto simp: mesh_inv_def tree_ok_def)

lemma tree_ok_self: "mesh_inv now m \<Longrightarrow> tree_ok now (tree_peers (tm_tree m)) (tm_tree m)"
  by (simp add: mesh_inv_def tree_ok_def)

lemma mesh_inv_step:
  assumes "mesh_inv now m" and "tree_step z now i (tm_tree m) = Some (ev, t)" and "\<And>p. i \<noteq> NeighborDown p"
  shows "mesh_inv now (m\<lparr>tm_tree := t\<rparr>)"
  using mesh_inv_tree [OF assms(1)] tree_step_ok [OF assms(2) tree_ok_self [OF assms(1)]] assms(3) by simp

lemma ihaves_ok: "tree_ok now S t \<Longrightarrow> tree_ok now S (fold (\<lambda>(i, hop). inject_ihave now p i hop) ihaves t)"
proof (induction ihaves arbitrary: t)
  case (Cons x ihaves)
  obtain i hop where x: "x = (i, hop)" by (cases x)
  have "tree_ok now S (inject_ihave now p i hop t)"
    using tree_step_ok [where i = "IhaveFrom p i hop" and ev = "[]" and z = undefined] Cons.prems by simp
  then show ?case using Cons.IH x by simp
qed simp

lemma call_inv:
  assumes inv: "mesh_inv now m" and call: "inject_rpc_call f z now p r m = ret m'"
  shows "mesh_inv now m'"
proof -
  note tree = mesh_inv_step [OF inv, where z = z]
  show ?thesis
    using call inv tree [of "MessageFrom p _ _ _"] tree [of "PruneFrom p"] tree [of "GraftFrom p _"]
      mesh_inv_tree [OF inv ihaves_ok [OF tree_ok_self [OF inv]]]
    by (auto simp: inject_rpc_call_def on_tree_def split: option.splits action.splits if_splits intro: mesh_inv_nodes)
qed

text \<open>Polling keeps the invariant, and everything emitted is recorded by the membership events.\<close>

lemma tell_tree_ok:
  assumes "tree_inv now t" and "list_all neutral (pt_out t)"
  shows "tree_inv now (tell_tree a t) \<and> pt_out (tell_tree a t) = pt_out t \<and> membership1 a (tree_peers t) \<subseteq> tree_peers (tell_tree a t)"
  using assms
  by (cases "(a, t)" rule: tell_tree.cases)
    (auto simp: tree_inv_def inject_neighbor_up_def inject_neighbor_down_def tree_peers_def distinct_removeAll)

lemma view_fields_out: "v' = v1\<lparr>hv_out := x\<rparr> \<Longrightarrow> hv_active v' = hv_active v1 \<and> view_inv v' = view_inv v1"
  by (simp add: view_inv_def)

lemma topic_pollE:
  assumes "tm_out m = []" and "topic_poll f now m = Some (ev, m')"
  obtains (view) a v where "view_poll f now (tm_nodes m) = (Some a, v)" "ev = Some a"
      "m' = m\<lparr>tm_nodes := v, tm_tree := tell_tree a (tm_tree m)\<rparr>"
  | (tree) v t where "view_poll f now (tm_nodes m) = (None, v)" "tree_poll now (tm_tree m) = Some (ev, t)"
      "m' = m\<lparr>tm_nodes := v, tm_tree := t\<rparr>"
  using assms by (auto simp: topic_poll_def split: prod.splits option.splits)

text \<open>What a poll of the view leaves for the tree.\<close>

lemma view_poll_mesh:
  assumes inv: "mesh_inv now m" and poll: "view_poll f now (tm_nodes m) = (e, v)"
  shows "view_inv v"
    and "ps_ids (hv_active v) \<subseteq> membership ((case e of None \<Rightarrow> [] | Some a \<Rightarrow> [a]) @ hv_out v) (tree_peers (tm_tree m))"
    and "membership (hv_out (tm_nodes m)) S = ps_ids (hv_active (tm_nodes m)) \<Longrightarrow>
      membership ((case e of None \<Rightarrow> [] | Some a \<Rightarrow> [a]) @ hv_out v) S = ps_ids (hv_active v)"
proof -
  obtain v1 where ext: "extends (tm_nodes m) v1" and out: "hv_out v1 = (case e of None \<Rightarrow> [] | Some a \<Rightarrow> [a]) @ hv_out v"
    and eq: "v = v1\<lparr>hv_out := hv_out v\<rparr>" using poll by (rule view_pollE)
  note fields = view_fields_out [OF eq]
  show "view_inv v" using inv ext fields by (simp add: mesh_inv_def extends_def)
  show "ps_ids (hv_active v) \<subseteq> membership ((case e of None \<Rightarrow> [] | Some a \<Rightarrow> [a]) @ hv_out v) (tree_peers (tm_tree m))"
    using extends_membership_le [OF ext, of "tree_peers (tm_tree m)"] inv fields out by (simp add: mesh_inv_def)
  show "membership ((case e of None \<Rightarrow> [] | Some a \<Rightarrow> [a]) @ hv_out v) S = ps_ids (hv_active v)"
    if "membership (hv_out (tm_nodes m)) S = ps_ids (hv_active (tm_nodes m))"
    using extends_membership [OF ext that] fields out by simp
qed

lemma poll_inv:
  assumes inv: "mesh_inv now m" and poll: "topic_poll f now m = Some (ev, m')"
  shows "mesh_inv now m'"
proof -
  have "tm_out m = []" using inv by (simp add: mesh_inv_def)
  from this poll show ?thesis
  proof (cases rule: topic_pollE)
    case (view a v)
    note facts = view_poll_mesh [OF inv view(1)]
    have "tree_inv now (tm_tree m)" "list_all neutral (pt_out (tm_tree m))" using inv by (simp_all add: mesh_inv_def)
    note told = tell_tree_ok [OF this, of a]
    have "membership (hv_out v) (membership1 a (tree_peers (tm_tree m))) \<subseteq> membership (hv_out v) (tree_peers (tell_tree a (tm_tree m)))"
      using told by (intro membership_mono) blast
    then show ?thesis using facts told view inv by (auto simp: mesh_inv_def)
  next
    case (tree v t)
    have "mesh_inv now (m\<lparr>tm_nodes := v\<rparr>)" using view_poll_mesh(1,2) [OF inv tree(1)] inv by (simp add: mesh_inv_def)
    moreover have "tree_step undefined now TreePoll (tm_tree m) = Some (case ev of None \<Rightarrow> [] | Some e \<Rightarrow> [e], t)"
      using tree(2) by simp
    ultimately show ?thesis using mesh_inv_step [of now "m\<lparr>tm_nodes := v\<rparr>" undefined TreePoll] tree(3) by simp
  qed
qed

lemma poll_log:
  assumes inv: "mesh_inv now m" and poll: "topic_poll f now m = Some (ev, m')"
    and log: "membership (evs @ hv_out (tm_nodes m)) {} = ps_ids (hv_active (tm_nodes m))"
  shows "membership ((evs @ (case ev of None \<Rightarrow> [] | Some a \<Rightarrow> [a])) @ hv_out (tm_nodes m')) {} = ps_ids (hv_active (tm_nodes m'))"
proof -
  have "tm_out m = []" using inv by (simp add: mesh_inv_def)
  from this poll show ?thesis
  proof (cases rule: topic_pollE)
    case (view a v)
    then show ?thesis using view_poll_mesh(3) [OF inv view(1), of "membership evs {}"] log by simp
  next
    case (tree v t)
    have "tree_step undefined now TreePoll (tm_tree m) = Some (case ev of None \<Rightarrow> [] | Some e \<Rightarrow> [e], t)"
      using tree(2) by simp
    then have "list_all neutral (case ev of None \<Rightarrow> [] | Some e \<Rightarrow> [e])"
      using tree_step_ok tree_ok_self [OF inv] by blast
    then show ?thesis
      using tree view_poll_mesh(3) [OF inv tree(1), of "membership evs {}"] log by (simp add: membership_neutral)
  qed
qed

lemma call_log:
  assumes "inject_rpc_call f z now p r m = ret m'"
  shows "extends (tm_nodes m) (tm_nodes m')"
  using assms by (auto simp: inject_rpc_call_def on_nodes_def on_tree_def split: option.splits action.splits if_splits)

lemma mesh_step_inv:
  assumes inv: "mesh_inv now m" and step: "mesh_step f z now i m = Some (ev, m')"
    and log: "membership (evs @ hv_out (tm_nodes m)) {} = ps_ids (hv_active (tm_nodes m))"
  shows "mesh_inv now m' \<and>
    membership ((evs @ (case ev of None \<Rightarrow> [] | Some a \<Rightarrow> [a])) @ hv_out (tm_nodes m')) {} = ps_ids (hv_active (tm_nodes m'))"
proof -
  have extended: ?thesis if "mesh_inv now m'" "extends (tm_nodes m) (tm_nodes m')" "ev = None"
    using that extends_membership [OF that(2), of "membership evs {}"] log by simp
  show ?thesis
  proof (cases i)
    case (MeshCall p r)
    then show ?thesis
      using step extended call_inv [OF inv, of f z p r] call_log [of f z now p r m] inv by (auto split: option.splits sum.splits)
  next
    case (MeshPublish k payload)
    then have "ev = None" "m' = m\<lparr>tm_tree := tree_publish now k payload (tm_tree m)\<rparr>"
      using step by (auto simp: topic_publish_def on_tree_def)
    then show ?thesis using extended mesh_inv_step [OF inv, of undefined "Publish k payload"] by simp
  next
    case (MeshJoin p)
    then have "ev = None" "m' = on_nodes (initiate_join f p) m" using step by (auto simp: topic_initiate_join_def)
    moreover have "mesh_inv now (on_nodes (initiate_join f p) m)" by (rule mesh_inv_nodes [OF inv]) blast
    moreover have "extends (tm_nodes m) (tm_nodes (on_nodes (initiate_join f p) m))" by (auto simp: on_nodes_def)
    ultimately show ?thesis using extended by blast
  next
    case (MeshLost p alive)
    then have "ev = None" "m' = on_nodes (inject_disconnect p alive) m" using step by (auto simp: topic_disconnected_def)
    moreover have "mesh_inv now (on_nodes (inject_disconnect p alive) m)" by (rule mesh_inv_nodes [OF inv]) blast
    moreover have "extends (tm_nodes m) (tm_nodes (on_nodes (inject_disconnect p alive) m))" by (auto simp: on_nodes_def)
    ultimately show ?thesis using extended by blast
  next
    case MeshPoll
    then show ?thesis using poll_inv [OF inv] poll_log [OF inv _ log] step by simp
  qed
qed

lemma mesh_run_inv:
  assumes "mesh_run f z (topic_new topic c p now0 ds) now0 evs now m"
  shows "mesh_inv now m \<and> membership (evs @ hv_out (tm_nodes m)) {} = ps_ids (hv_active (tm_nodes m))"
  using assms
proof induction
  case mesh_start
  then show ?case by simp (simp add: topic_new_def view_new_def)
next
  case (mesh_next evs now m now' i ev m')
  then have "mesh_inv now' m" using mesh_inv_later by blast
  then show ?case using mesh_step_inv mesh_next by blast
qed

section \<open>The topic of a mesh\<close>

lemma tree_step_topic:
  assumes step: "tree_step z now i t = Some (ev, t')"
  shows "pt_topic t' = pt_topic t"
proof (cases i)
  case (MessageFrom p k hop payload)
  then have "inject_message z now p k hop payload t = Some t'" using step by auto
  then show ?thesis by (auto elim!: inject_messageE simp: Let_def pt_notify_def inject_prune_def)
next
  case TreePoll
  then obtain e where poll: "tree_poll now t = Some (e, t')" using step by auto
  obtain t1 where t1: "tree_tick now t = Some t1" "t' = t1\<lparr>pt_out := pt_out t'\<rparr>" using poll by (rule tree_pollE)
  have "pt_topic t1 = pt_topic t" using t1(1) by (rule tree_tickE) (simp_all add: prune_history_def Let_def)
  then show ?thesis by (metis t1(2) plumtree.select_convs(1) plumtree.surjective plumtree.update_convs(9))
qed (use step in \<open>auto simp: inject_neighbor_up_def inject_neighbor_down_def tree_publish_def Let_def inject_ihave_def
    insert_received_def inject_prune_def inject_graft_def notify_simps\<close>)

abbreviation mesh_topic :: "topic_mesh \<Rightarrow> topic" where
  "mesh_topic m \<equiv> pt_topic (tm_tree m)"

lemma ihaves_topic: "pt_topic (fold (\<lambda>(i, hop). inject_ihave now p i hop) ihaves t) = pt_topic t"
  by (induction ihaves arbitrary: t) (auto simp: inject_ihave_def)

lemma call_topic: "inject_rpc_call f z now p r m = ret m' \<Longrightarrow> mesh_topic m' = mesh_topic m"
  using tree_step_topic [where i = "MessageFrom p _ _ _" and z = z and now = now and t = "tm_tree m"]
  by (auto simp: inject_rpc_call_def on_nodes_def on_tree_def inject_prune_def inject_graft_def notify_simps ihaves_topic
      split: option.splits action.splits if_splits)

lemma tell_tree_topic [simp]: "pt_topic (tell_tree a t) = pt_topic t"
  by (cases "(a, t)" rule: tell_tree.cases) (simp_all add: inject_neighbor_up_def inject_neighbor_down_def)

lemma topic_poll_topic:
  assumes "topic_poll f now m = Some (ev, m')"
  shows "mesh_topic m' = mesh_topic m"
proof -
  have "tree_poll now t = Some (e, t') \<Longrightarrow> pt_topic t' = pt_topic t" for t e t'
    using tree_step_topic [where i = TreePoll and now = now and t = t and t' = t' and z = undefined] by auto
  then show ?thesis using assms by (auto simp: topic_poll_def split: list.splits prod.splits option.splits)
qed

lemma on_nodes_topic [simp]: "mesh_topic (on_nodes g m) = mesh_topic m"
  by (simp add: on_nodes_def)

lemma publish_topic [simp]: "mesh_topic (topic_publish now i payload m) = mesh_topic m"
  using tree_step_topic [where i = "Publish i payload" and now = now and t = "tm_tree m" and z = undefined]
  by (simp add: topic_publish_def on_tree_def)

lemma new_topic [simp]: "mesh_topic (topic_new t c p now ds) = t"
  by (simp add: topic_new_def plumtree_new_def)

end
