(* ===== verification/Rensa_Episub.thy ===== *)
theory Rensa_Episub
  imports Rensa_Topic
begin

text \<open>
  The network behaviour of \<open>src/network/episub/behaviour.rs\<close>: the meshes of the subscribed topics, banned peers, and
  what is known of the node's own and its peers' addresses.

  The handlers that the network library calls are functions of the state; \<open>None\<close> is a panic. A message id and the
  draws of a new view are arguments, since the source takes them from the thread's random generator.
\<close>

section \<open>State\<close>

datatype publish_error = TopicNotSubscribed | PublishIo

datatype connected_point = Dialer multiaddr | Listener multiaddr

record episub =
  ep_config :: config
  ep_local :: "addressable_peer option"
  ep_topics :: "(topic, topic_mesh) hash_map"
  ep_banned :: "peer_id list"
  ep_pending :: "topic list"
  ep_out :: "behaviour_action list"
  ep_addresses :: "(peer_id, multiaddr) hash_map"
  ep_early :: "peer_id list"

definition episub_new :: "config \<Rightarrow> episub" where
  "episub_new c =
     \<lparr>ep_config = c, ep_local = None, ep_topics = [], ep_banned = [], ep_pending = [], ep_out = [],
      ep_addresses = [], ep_early = []\<rparr>"

text \<open>\<open>is_local_address\<close>: localhost and unspecified addresses of both families.\<close>

fun local_protocol :: "protocol \<Rightarrow> bool" where
  "local_protocol (Ip4 a) \<longleftrightarrow> a = 0x7F000001 \<or> a = 0"
| "local_protocol (Ip6 a) \<longleftrightarrow> a = 1 \<or> a = 0"
| "local_protocol (Tcp port) \<longleftrightarrow> False"
| "local_protocol (OtherProtocol b) \<longleftrightarrow> False"

definition is_local_address :: "multiaddr \<Rightarrow> bool" where
  "is_local_address addr \<longleftrightarrow> list_ex local_protocol addr"

definition ep_emit :: "behaviour_action \<Rightarrow> episub \<Rightarrow> episub" where
  "ep_emit a e = e\<lparr>ep_out := ep_out e @ [a]\<rparr>"

definition send_message :: "peer_id \<Rightarrow> rpc \<Rightarrow> episub \<Rightarrow> episub" where
  "send_message p message e = ep_emit (NotifyHandler p message) e"

section \<open>Topics\<close>

definition subscribe :: "instant \<Rightarrow> nat list \<Rightarrow> topic \<Rightarrow> episub \<Rightarrow> bool \<times> episub" where
  "subscribe now draws topic e =
     (if map_of (ep_topics e) topic \<noteq> None then (False, e)
      else (True,
        case ep_local e of
          Some node \<Rightarrow>
            ep_emit (GenerateEvent (Subscribed topic))
              (e\<lparr>ep_topics := hm_insert topic (topic_new topic (ep_config e) node now draws) (ep_topics e)\<rparr>)
        | None \<Rightarrow> e\<lparr>ep_pending := hs_insert topic (ep_pending e)\<rparr>))"

definition unsubscribe :: "topic \<Rightarrow> episub \<Rightarrow> bool \<times> episub" where
  "unsubscribe topic e =
     (case map_of (ep_topics e) topic of
        None \<Rightarrow> (False, e)
      | Some mesh \<Rightarrow>
          (True,
           ep_emit (GenerateEvent (Unsubscribed topic))
             (fold (\<lambda>p. send_message (ap_id p) \<lparr>rpc_topic = topic, rpc_action = Some (Disconnect False)\<rparr>)
               (hv_active (tm_nodes mesh))
               (e\<lparr>ep_pending := removeAll topic (ep_pending e), ep_topics := hm_remove topic (ep_topics e)\<rparr>))))"

definition episub_publish ::
  "zstd \<Rightarrow> instant \<Rightarrow> u64 \<Rightarrow> topic \<Rightarrow> bytes \<Rightarrow> episub \<Rightarrow> publish_error + u64 \<times> episub" where
  "episub_publish z now msg_id topic message e =
     (case map_of (ep_topics e) topic of
        None \<Rightarrow> Inl TopicNotSubscribed
      | Some mesh \<Rightarrow>
          (case (if cf_enable_compression (ep_config e) then z_encode z (cf_compression_level (ep_config e)) message
                 else Some message) of
             None \<Rightarrow> Inl PublishIo
           | Some payload \<Rightarrow>
               Inr (msg_id, e\<lparr>ep_topics := hm_insert topic (topic_publish now msg_id payload mesh) (ep_topics e)\<rparr>)))"

section \<open>Connections\<close>

definition force_disconnect :: "peer_id \<Rightarrow> connection_id \<Rightarrow> episub \<Rightarrow> episub" where
  "force_disconnect p connection e = ep_emit (CloseConnection p connection) e"

definition ban_peer :: "peer_id \<Rightarrow> connection_id \<Rightarrow> episub \<Rightarrow> episub" where
  "ban_peer p connection e =
     force_disconnect p connection
       (e\<lparr>ep_addresses := hm_remove p (ep_addresses e), ep_banned := hs_insert p (ep_banned e)\<rparr>)"

text \<open>
  The filter of \<open>request_join_for_starving_topics\<close> asks the authorizer last. The request panics with the authorizer,
  and with \<open>peer_addresses.get(&peer).unwrap()\<close>.
\<close>

definition join_filter :: "episub \<Rightarrow> peer_id \<Rightarrow> topic \<times> topic_mesh \<Rightarrow> bool option" where
  "join_filter e p =
     (\<lambda>(t, v). if starved (tm_nodes v) \<and> \<not> is_active p (tm_nodes v) then cf_authorizer (ep_config e) t p else Some False)"

definition wants_join :: "episub \<Rightarrow> peer_id \<Rightarrow> topic \<times> topic_mesh \<Rightarrow> bool" where
  "wants_join e p tv \<longleftrightarrow> join_filter e p tv = Some True"

definition request_join_for_starving_topics :: "formats \<Rightarrow> peer_id \<Rightarrow> episub \<Rightarrow> episub option" where
  "request_join_for_starving_topics f p e =
     (if list_ex (\<lambda>tv. join_filter e p tv = None) (ep_topics e) then None
      else if list_ex (wants_join e p) (ep_topics e)
      then case map_of (ep_addresses e) p of
             None \<Rightarrow> None
           | Some addr \<Rightarrow>
               Some (e\<lparr>ep_topics := map (\<lambda>tv. if wants_join e p tv
                   then (fst tv, topic_initiate_join f \<lparr>ap_id = p, ap_addresses = [addr]\<rparr> (snd tv)) else tv) (ep_topics e)\<rparr>)
      else Some e)"

definition inject_connection_established ::
  "formats \<Rightarrow> peer_id \<Rightarrow> connection_id \<Rightarrow> connected_point \<Rightarrow> episub \<Rightarrow> episub option" where
  "inject_connection_established f p connection endpoint e =
     (if p \<in> set (ep_banned e) then Some (force_disconnect p connection e)
      else let e1 = e\<lparr>ep_addresses := hm_insert p (case endpoint of Dialer a \<Rightarrow> a | Listener a \<Rightarrow> a) (ep_addresses e)\<rparr>
           in case endpoint of
                Dialer a \<Rightarrow>
                  (case ep_local e1 of
                     Some node \<Rightarrow> request_join_for_starving_topics f p e1
                   | None \<Rightarrow> Some (e1\<lparr>ep_early := hs_insert p (ep_early e1)\<rparr>))
              | Listener a \<Rightarrow> Some e1)"

definition inject_new_listen_addr :: "multiaddr \<Rightarrow> episub \<Rightarrow> episub" where
  "inject_new_listen_addr addr e =
     (if \<not> is_local_address addr
      then e\<lparr>ep_local := map_option (\<lambda>node. node\<lparr>ap_addresses := hs_insert addr (ap_addresses node)\<rparr>) (ep_local e)\<rparr>
      else e)"

definition inject_expired_listen_addr :: "multiaddr \<Rightarrow> episub \<Rightarrow> episub" where
  "inject_expired_listen_addr addr e =
     e\<lparr>ep_local := map_option (\<lambda>node. node\<lparr>ap_addresses := removeAll addr (ap_addresses node)\<rparr>) (ep_local e)\<rparr>"

definition all_meshes :: "(topic_mesh \<Rightarrow> topic_mesh) \<Rightarrow> episub \<Rightarrow> episub" where
  "all_meshes g e = e\<lparr>ep_topics := map (\<lambda>(t, mesh). (t, g mesh)) (ep_topics e)\<rparr>"

text \<open>The flag says that the dial was not attempted (\<open>DialError::DialPeerConditionFalse\<close>).\<close>

definition inject_dial_failure :: "peer_id option \<Rightarrow> bool \<Rightarrow> episub \<Rightarrow> episub" where
  "inject_dial_failure p condition_false e =
     (if \<not> condition_false
      then case p of None \<Rightarrow> e | Some peer \<Rightarrow> all_meshes (topic_disconnected peer False) e
      else e)"

definition inject_connection_closed :: "peer_id \<Rightarrow> episub \<Rightarrow> episub" where
  "inject_connection_closed p e = all_meshes (topic_disconnected p True) e"

section \<open>Calls\<close>

definition inject_event ::
  "formats \<Rightarrow> zstd \<Rightarrow> instant \<Rightarrow> peer_id \<Rightarrow> connection_id \<Rightarrow> rpc \<Rightarrow> episub \<Rightarrow> episub option" where
  "inject_event f z now p connection event e =
     (if p \<in> set (ep_banned e) then Some (force_disconnect p connection e)
      else if cf_authorizer (ep_config e) (rpc_topic event) p = None then None
      else if cf_authorizer (ep_config e) (rpc_topic event) p = Some False then Some (force_disconnect p connection e)
      else if rpc_action event = None then Some (ban_peer p connection e)
      else case map_of (ep_topics e) (rpc_topic event) of
             Some mesh \<Rightarrow>
               (case inject_rpc_call f z now p event mesh of
                  None \<Rightarrow> None
                | Some (Inl error) \<Rightarrow> Some (ban_peer p connection e)
                | Some (Inr mesh') \<Rightarrow> Some (e\<lparr>ep_topics := hm_insert (rpc_topic event) mesh' (ep_topics e)\<rparr>))
           | None \<Rightarrow>
               Some (force_disconnect p connection
                 (ep_emit (NotifyHandler p \<lparr>rpc_topic = rpc_topic event, rpc_action = Some (Disconnect False)\<rparr>) e)))"

section \<open>Polling\<close>

record poll_parameters =
  pp_peer_id :: peer_id
  pp_external :: "multiaddr list"
  pp_listened :: "multiaddr list"

fun request_joins :: "formats \<Rightarrow> peer_id list \<Rightarrow> episub \<Rightarrow> episub option" where
  "request_joins f [] e = Some e"
| "request_joins f (p # ps) e =
     (case request_join_for_starving_topics f p e of None \<Rightarrow> None | Some e' \<Rightarrow> request_joins f ps e')"

definition open_pending :: "instant \<Rightarrow> (topic \<Rightarrow> nat list) \<Rightarrow> addressable_peer \<Rightarrow> topic \<Rightarrow> (topic, topic_mesh) hash_map \<Rightarrow> config \<Rightarrow> (topic, topic_mesh) hash_map" where
  "open_pending now draws node topic topics c =
     (if map_of topics topic = None then hm_insert topic (topic_new topic c node now (draws topic)) topics else topics)"

definition update_local_node_info ::
  "formats \<Rightarrow> instant \<Rightarrow> (topic \<Rightarrow> nat list) \<Rightarrow> poll_parameters \<Rightarrow> episub \<Rightarrow> episub option" where
  "update_local_node_info f now draws params e =
     (case ep_local e of
        Some node \<Rightarrow> Some e
      | None \<Rightarrow>
          let addresses = collect_set (filter (\<lambda>a. \<not> is_local_address a) (pp_external params @ pp_listened params))
          in if addresses \<noteq> []
             then let node = \<lparr>ap_id = pp_peer_id params, ap_addresses = addresses\<rparr>
                  in request_joins f (ep_early e)
                       (e\<lparr>ep_local := Some node, ep_pending := [], ep_early := [],
                          ep_topics := fold (\<lambda>topic topics. open_pending now draws node topic topics (ep_config e)) (ep_pending e) (ep_topics e)\<rparr>)
             else Some e)"

fun poll_meshes ::
  "formats \<Rightarrow> instant \<Rightarrow> (topic, topic_mesh) hash_map \<Rightarrow> (behaviour_action option \<times> (topic, topic_mesh) hash_map) option" where
  "poll_meshes f now [] = Some (None, [])"
| "poll_meshes f now ((t, mesh) # rest) =
     (case topic_poll f now mesh of
        None \<Rightarrow> None
      | Some (Some ev, mesh') \<Rightarrow> Some (Some ev, (t, mesh') # rest)
      | Some (None, mesh') \<Rightarrow> map_option (\<lambda>(ev, rest'). (ev, (t, mesh') # rest')) (poll_meshes f now rest))"

definition episub_poll ::
  "formats \<Rightarrow> instant \<Rightarrow> (topic \<Rightarrow> nat list) \<Rightarrow> poll_parameters \<Rightarrow> episub \<Rightarrow> (behaviour_action option \<times> episub) option" where
  "episub_poll f now draws params e =
     (case update_local_node_info f now draws params e of
        None \<Rightarrow> None
      | Some e1 \<Rightarrow>
          (case ep_out e1 of
             ev # rest \<Rightarrow> Some (Some ev, e1\<lparr>ep_out := rest\<rparr>)
           | [] \<Rightarrow> map_option (\<lambda>(ev, topics). (ev, e1\<lparr>ep_topics := topics\<rparr>)) (poll_meshes f now (ep_topics e1))))"

section \<open>Runs\<close>

datatype episub_input =
    Subscribe "nat list" topic
  | Unsubscribe topic
  | PublishTo u64 topic bytes
  | ConnectionEstablished peer_id connection_id connected_point
  | ConnectionClosed peer_id
  | DialFailure "peer_id option" bool
  | NewListenAddr multiaddr
  | ExpiredListenAddr multiaddr
  | Event peer_id connection_id rpc
  | PollBehaviour "topic \<Rightarrow> nat list" poll_parameters

fun episub_step ::
  "formats \<Rightarrow> zstd \<Rightarrow> instant \<Rightarrow> episub_input \<Rightarrow> episub \<Rightarrow> (behaviour_action option \<times> episub) option" where
  "episub_step f z now (Subscribe draws t) e = Some (None, snd (subscribe now draws t e))"
| "episub_step f z now (Unsubscribe t) e = Some (None, snd (unsubscribe t e))"
| "episub_step f z now (PublishTo k t message) e =
     Some (None, case episub_publish z now k t message e of Inl _ \<Rightarrow> e | Inr (_, e') \<Rightarrow> e')"
| "episub_step f z now (ConnectionEstablished p conn endpoint) e = map_option (Pair None) (inject_connection_established f p conn endpoint e)"
| "episub_step f z now (ConnectionClosed p) e = Some (None, inject_connection_closed p e)"
| "episub_step f z now (DialFailure p b) e = Some (None, inject_dial_failure p b e)"
| "episub_step f z now (NewListenAddr a) e = Some (None, inject_new_listen_addr a e)"
| "episub_step f z now (ExpiredListenAddr a) e = Some (None, inject_expired_listen_addr a e)"
| "episub_step f z now (Event p conn r) e = map_option (Pair None) (inject_event f z now p conn r e)"
| "episub_step f z now (PollBehaviour draws params) e = episub_poll f now draws params e"

inductive episub_run :: "formats \<Rightarrow> zstd \<Rightarrow> config \<Rightarrow> instant \<Rightarrow> episub \<Rightarrow> bool" for f z c where
  episub_start: "episub_run f z c now (episub_new c)"
| episub_next: "episub_run f z c now e \<Longrightarrow> now \<le> now' \<Longrightarrow> episub_step f z now' i e = Some (ev, e') \<Longrightarrow>
    episub_run f z c now' e'"

section \<open>The invariant\<close>

text \<open>Every mesh is well formed and belongs to its topic, and there is none before the node knows an address of its own.\<close>

definition meshes_ok :: "instant \<Rightarrow> (topic, topic_mesh) hash_map \<Rightarrow> bool" where
  "meshes_ok now topics \<longleftrightarrow> hm_invar topics \<and> (\<forall>(t, m) \<in> set topics. mesh_inv now m \<and> mesh_topic m = t)"

definition episub_inv :: "instant \<Rightarrow> episub \<Rightarrow> bool" where
  "episub_inv now e \<longleftrightarrow> meshes_ok now (ep_topics e) \<and> (ep_local e = None \<longrightarrow> ep_topics e = [])"

lemma hm_insert_set: "set (hm_insert k v m) \<subseteq> insert (k, v) (set m)"
  by (induction m) (auto simp: hm_insert_def)

lemma meshes_insert:
  "meshes_ok now topics \<Longrightarrow> mesh_inv now m \<Longrightarrow> mesh_topic m = t \<Longrightarrow> meshes_ok now (hm_insert t m topics)"
  using hm_insert_set [of t m topics] by (auto simp: meshes_ok_def hm_invar_insert)

lemma meshes_get: "meshes_ok now topics \<Longrightarrow> map_of topics t = Some m \<Longrightarrow> mesh_inv now m \<and> mesh_topic m = t"
  by (auto simp: meshes_ok_def dest: map_of_SomeD)

lemma meshes_map:
  assumes "meshes_ok now topics" and "\<And>t m. (t, m) \<in> set topics \<Longrightarrow> mesh_inv now (g t m) \<and> mesh_topic (g t m) = t"
  shows "meshes_ok now (map (\<lambda>(t, m). (t, g t m)) topics)"
  using assms by (auto simp: meshes_ok_def hm_invar_def case_prod_unfold comp_def)

lemma meshes_later: "meshes_ok now topics \<Longrightarrow> now \<le> now' \<Longrightarrow> meshes_ok now' topics"
  by (auto simp: meshes_ok_def intro: mesh_inv_later)

lemma meshes_poll:
  "meshes_ok now topics \<Longrightarrow> poll_meshes f now topics = Some (ev, topics') \<Longrightarrow>
     meshes_ok now topics' \<and> map fst topics' = map fst topics"
proof (induction f now topics arbitrary: ev topics' rule: poll_meshes.induct)
  case (2 f now t mesh rest)
  obtain e mesh' where poll: "topic_poll f now mesh = Some (e, mesh')"
    using "2.prems" by (auto split: option.splits prod.splits)
  have mesh': "mesh_inv now mesh' \<and> mesh_topic mesh' = t"
    using "2.prems" poll_inv [OF _ poll] topic_poll_topic [OF poll] by (auto simp: meshes_ok_def)
  show ?case
  proof (cases e)
    case None
    then obtain rest' where "poll_meshes f now rest = Some (ev, rest')" "topics' = (t, mesh') # rest'"
      using "2.prems" poll by auto
    moreover have "meshes_ok now rest' \<and> map fst rest' = map fst rest"
      using "2.IH" [OF poll] None calculation(1) "2.prems"(1) by (auto simp: meshes_ok_def hm_invar_def)
    ultimately show ?thesis using mesh' "2.prems"(1) by (auto simp: meshes_ok_def hm_invar_def)
  next
    case (Some a)
    then show ?thesis using "2.prems" poll mesh' by (auto simp: meshes_ok_def hm_invar_def)
  qed
qed simp

lemma all_meshes_ok:
  assumes "meshes_ok now (ep_topics e)" and "\<And>m. mesh_inv now m \<Longrightarrow> mesh_inv now (g m) \<and> mesh_topic (g m) = mesh_topic m"
  shows "meshes_ok now (ep_topics (all_meshes g e))"
proof -
  have "meshes_ok now (map (\<lambda>(t, m). (t, g m)) (ep_topics e))"
    by (rule meshes_map [OF assms(1)]) (use assms in \<open>auto simp: meshes_ok_def\<close>)
  then show ?thesis by (simp add: all_meshes_def)
qed

lemma disconnected_ok: "mesh_inv now m \<Longrightarrow> mesh_inv now (topic_disconnected p alive m) \<and> mesh_topic (topic_disconnected p alive m) = mesh_topic m"
  by (auto simp: topic_disconnected_def intro: mesh_inv_nodes)

lemma initiate_join_ok: "mesh_inv now m \<Longrightarrow> mesh_inv now (topic_initiate_join f p m) \<and> mesh_topic (topic_initiate_join f p m) = mesh_topic m"
  by (auto simp: topic_initiate_join_def intro: mesh_inv_nodes)

lemma publish_ok: "mesh_inv now m \<Longrightarrow> mesh_inv now (topic_publish now i payload m)"
  using mesh_inv_step [where i = "Publish i payload" and z = undefined] by (simp add: topic_publish_def on_tree_def)

text \<open>What a request for joins leaves as it was.\<close>

lemma request_joinE:
  assumes "request_join_for_starving_topics f p e = Some e'"
  obtains topics where "e' = e\<lparr>ep_topics := topics\<rparr>" and "map fst topics = map fst (ep_topics e)"
    and "\<And>now. meshes_ok now (ep_topics e) \<Longrightarrow> meshes_ok now topics"
proof -
  define g where "g addr = (\<lambda>t m. if wants_join e p (t, m) then topic_initiate_join f \<lparr>ap_id = p, ap_addresses = [addr]\<rparr> m else m)" for addr
  have ok: "meshes_ok now (map (\<lambda>(t, m). (t, g addr t m)) (ep_topics e))" if "meshes_ok now (ep_topics e)" for now addr
    by (rule meshes_map [OF that]) (use that initiate_join_ok in \<open>auto simp: meshes_ok_def g_def\<close>)
  have eq: "map (\<lambda>tv. if wants_join e p tv then (fst tv, topic_initiate_join f \<lparr>ap_id = p, ap_addresses = [addr]\<rparr> (snd tv)) else tv)
      (ep_topics e) = map (\<lambda>(t, m). (t, g addr t m)) (ep_topics e)" for addr
    by (auto simp: g_def)
  consider "e' = e" | addr where "e' = e\<lparr>ep_topics := map (\<lambda>(t, m). (t, g addr t m)) (ep_topics e)\<rparr>"
    using assms by (auto simp: request_join_for_starving_topics_def eq split: if_splits option.splits)
  then show ?thesis
  proof cases
    case 1
    then show ?thesis by (intro that [of "ep_topics e"]) simp_all
  next
    case (2 addr)
    then show ?thesis by (rule that [OF _ _ ok]) (auto simp: comp_def case_prod_unfold)
  qed
qed

lemma request_joins_ok:
  "request_joins f ps e = Some e' \<Longrightarrow> \<exists>topics. e' = e\<lparr>ep_topics := topics\<rparr> \<and> map fst topics = map fst (ep_topics e)
     \<and> (\<forall>now. meshes_ok now (ep_topics e) \<longrightarrow> meshes_ok now topics)"
proof (induction f ps e rule: request_joins.induct)
  case (1 f e)
  then show ?case by (intro exI [of _ "ep_topics e"]) simp
next
  case (2 f p ps e)
  then obtain e1 where e1: "request_join_for_starving_topics f p e = Some e1" by (auto split: option.splits)
  obtain topics where t: "e1 = e\<lparr>ep_topics := topics\<rparr>" "map fst topics = map fst (ep_topics e)"
    "\<And>now. meshes_ok now (ep_topics e) \<Longrightarrow> meshes_ok now topics" using e1 by (rule request_joinE) blast
  then show ?case using "2.IH" [OF e1] "2.prems" e1 by auto
qed

lemma open_pending_ok:
  "meshes_ok now topics \<Longrightarrow> meshes_ok now (fold (\<lambda>t topics. open_pending now draws node t topics c) ts topics)"
proof (induction ts arbitrary: topics)
  case (Cons t ts)
  have "meshes_ok now (open_pending now draws node t topics c)"
    using Cons.prems by (auto simp: open_pending_def intro!: meshes_insert)
  then show ?case using Cons.IH by simp
qed simp

text \<open>A step keeps the invariant and never lifts a ban.\<close>

lemma update_local_ok:
  assumes "update_local_node_info f now draws params e = Some e'" and "episub_inv now e"
  shows "episub_inv now e' \<and> ep_banned e' = ep_banned e \<and> ep_config e' = ep_config e \<and> (ep_local e' = None \<longrightarrow> e' = e)"
proof (cases "ep_local e = None \<and> collect_set (filter (\<lambda>a. \<not> is_local_address a) (pp_external params @ pp_listened params)) \<noteq> []")
  case True
  then obtain node e1 where "request_joins f (ep_early e) e1 = Some e'" and loc: "ep_local e1 = Some node"
    and e1: "ep_banned e1 = ep_banned e" "ep_config e1 = ep_config e" and ok: "meshes_ok now (ep_topics e1)"
    using assms open_pending_ok by (auto simp: update_local_node_info_def Let_def episub_inv_def simp del: collect_set.simps)
  then obtain topics where "e' = e1\<lparr>ep_topics := topics\<rparr>" "meshes_ok now topics" using request_joins_ok by blast
  then show ?thesis using loc e1 by (simp add: episub_inv_def)
next
  case False
  then have "e' = e" using assms by (auto simp: update_local_node_info_def Let_def split: option.splits simp del: collect_set.simps)
  then show ?thesis using assms by simp
qed

lemma ban_fields [simp]:
  "ep_topics (force_disconnect p conn e) = ep_topics e" "ep_local (force_disconnect p conn e) = ep_local e"
  "ep_banned (force_disconnect p conn e) = ep_banned e" "ep_config (force_disconnect p conn e) = ep_config e"
  "ep_topics (ban_peer p conn e) = ep_topics e" "ep_local (ban_peer p conn e) = ep_local e"
  "ep_banned (ban_peer p conn e) = hs_insert p (ep_banned e)" "ep_config (ban_peer p conn e) = ep_config e"
  "ep_topics (ep_emit a e) = ep_topics e" "ep_local (ep_emit a e) = ep_local e"
  "ep_banned (ep_emit a e) = ep_banned e" "ep_config (ep_emit a e) = ep_config e"
  by (simp_all add: force_disconnect_def ban_peer_def ep_emit_def)

lemma send_messages_fields:
  "fold (\<lambda>p. send_message (g p) (h p)) ps e = e\<lparr>ep_out := ep_out e @ map (\<lambda>p. NotifyHandler (g p) (h p)) ps\<rparr>"
  by (induction ps arbitrary: e) (simp_all add: send_message_def ep_emit_def)

lemma meshes_remove: "meshes_ok now topics \<Longrightarrow> meshes_ok now (hm_remove t topics)"
  by (auto simp: meshes_ok_def hm_invar_def hm_remove_def AList.delete_eq distinct_map_filter)

lemma event_ok:
  assumes inv: "episub_inv now e" and ev: "inject_event f z now p conn r e = Some e'"
  shows "episub_inv now e' \<and> set (ep_banned e) \<subseteq> set (ep_banned e') \<and> ep_config e' = ep_config e"
proof (cases "map_of (ep_topics e) (rpc_topic r)")
  case (Some mesh)
  have mesh: "mesh_inv now mesh" "mesh_topic mesh = rpc_topic r"
    using meshes_get [OF _ Some] inv by (auto simp: episub_inv_def)
  have "mesh_inv now m' \<and> mesh_topic m' = rpc_topic r" if "inject_rpc_call f z now p r mesh = ret m'" for m'
    using call_inv [OF mesh(1) that] call_topic [OF that] mesh(2) by simp
  then show ?thesis
    using ev inv Some by (auto simp: inject_event_def episub_inv_def split: if_splits option.splits sum.splits intro: meshes_insert)
qed (use ev inv in \<open>auto simp: inject_event_def episub_inv_def split: if_splits option.splits\<close>)

lemma episub_step_inv:
  assumes inv: "episub_inv now e" and step: "episub_step f z now i e = Some (ev, e')"
  shows "episub_inv now e' \<and> set (ep_banned e) \<subseteq> set (ep_banned e') \<and> ep_config e' = ep_config e"
proof (cases i)
  case (PublishTo k t message)
  then show ?thesis
    using step inv meshes_get [of now "ep_topics e" t] publish_ok
    by (auto simp: episub_publish_def episub_inv_def split: option.splits sum.splits intro!: meshes_insert)
next
  case (ConnectionEstablished p conn endpoint)
  have "ep_topics (e\<lparr>ep_addresses := x\<rparr>) = ep_topics e" for x by simp
  then show ?thesis
    using step inv ConnectionEstablished
    by (auto simp: inject_connection_established_def episub_inv_def Let_def
        split: if_splits option.splits connected_point.splits elim!: request_joinE)
next
  case (PollBehaviour draws params)
  then obtain e1 where e1: "update_local_node_info f now draws params e = Some e1"
    using step by (auto simp: episub_poll_def split: option.splits)
  note up = update_local_ok [OF e1 inv]
  then show ?thesis
    using step PollBehaviour e1 meshes_poll [of now "ep_topics e1" f]
    by (auto simp: episub_poll_def episub_inv_def split: list.splits)
next
  case (Unsubscribe t)
  then show ?thesis
    using step inv by (auto simp: unsubscribe_def episub_inv_def send_messages_fields split: option.splits
        intro: meshes_remove)
next
  case (Event p conn r)
  then show ?thesis using step event_ok [OF inv, of f z p conn r e'] by simp
next
  case (Subscribe draws t)
  then show ?thesis
    using step inv by (auto simp: subscribe_def episub_inv_def split: option.splits if_splits intro!: meshes_insert)
qed (use step inv all_meshes_ok [of now e] disconnected_ok in \<open>auto simp: inject_connection_closed_def inject_dial_failure_def
      inject_new_listen_addr_def inject_expired_listen_addr_def episub_inv_def all_meshes_def split: option.splits\<close>)

lemma episub_inv_later: "episub_inv now e \<Longrightarrow> now \<le> now' \<Longrightarrow> episub_inv now' e"
  by (auto simp: episub_inv_def intro: meshes_later)

lemma episub_run_inv: "episub_run f z c now e \<Longrightarrow> episub_inv now e \<and> ep_config e = c"
proof (induction rule: episub_run.induct)
  case (episub_start now)
  then show ?case by (simp add: episub_inv_def episub_new_def meshes_ok_def hm_invar_def)
next
  case (episub_next now e now' i ev e')
  then show ?case using episub_step_inv [OF episub_inv_later] by blast
qed

end
