(* ===== verification/Rensa_Network.thy ===== *)
theory Rensa_Network
  imports Rensa_Validator Rensa_Episub
begin

text \<open>
  The networking task of \<open>src/network/mod.rs\<close>: the topics of a chain, the admission of peers, and the translation between
  the messages of the gossip protocol and the events and commands of the validator.

  The byte formats of blocks, votes and transactions (bincode) and of hashes are parameters, as is the digest inside a
  peer id. The transport, which authenticates the id of a peer, is libp2p.
\<close>

section \<open>Peers that may join\<close>

text \<open>
  \<open>From<PeerId> for Pubkey\<close> of \<open>src/primitives/keys.rs\<close>: the digest without its four bytes of prefix; \<open>None\<close> is the panic
  when 32 bytes do not remain.
\<close>

definition pubkey_of_peer :: "(peer_id \<Rightarrow> bytes) \<Rightarrow> peer_id \<Rightarrow> pubkey option" where
  "pubkey_of_peer digest p = (if length (digest p) = 36 then Some (drop 4 (digest p)) else None)"

definition validator_set :: "genesis \<Rightarrow> pubkey set" where
  "validator_set g = set (map val_pubkey (filter (\<lambda>v. val_stake v \<ge> minimum_stake (g_limits g)) (g_validators g)))"

definition authorize :: "genesis \<Rightarrow> (peer_id \<Rightarrow> bytes) \<Rightarrow> topic \<Rightarrow> peer_id \<Rightarrow> bool option" where
  "authorize g digest topic p = map_option (\<lambda>k. k \<in> validator_set g) (pubkey_of_peer digest p)"

text \<open>The shuffle probability is the \<open>f32\<close> next to 0.3.\<close>

definition network_config :: "genesis \<Rightarrow> (peer_id \<Rightarrow> bytes) \<Rightarrow> config" where
  "network_config g digest =
     config_default\<lparr>cf_authorizer := authorize g digest, cf_active_view_factor := 4,
       cf_network_size := length (g_validators g), cf_max_transmit_size := max_block_size (g_limits g),
       cf_history_window := int (g_slot_interval g) * 6, cf_lazy_push_window := int (g_slot_interval g) * 4,
       cf_shuffle_probability := 10066330\<rparr>"

section \<open>Topics\<close>

definition vote_topic :: "string \<Rightarrow> topic" where
  "vote_topic chainid = ''/'' @ chainid @ ''/vote''"

definition tx_topic :: "string \<Rightarrow> topic" where
  "tx_topic chainid = ''/'' @ chainid @ ''/tx''"

definition block_topic :: "string \<Rightarrow> topic" where
  "block_topic chainid = ''/'' @ chainid @ ''/block''"

definition replay_topic :: "string \<Rightarrow> topic" where
  "replay_topic chainid = ''/'' @ chainid @ ''/replay''"

text \<open>\<open>Network::new\<close>: the behaviour with the subscriptions of a validator.\<close>

definition network_new :: "genesis \<Rightarrow> (peer_id \<Rightarrow> bytes) \<Rightarrow> instant \<Rightarrow> (topic \<Rightarrow> nat list) \<Rightarrow> episub" where
  "network_new g digest now draws =
     fold (\<lambda>t e. snd (subscribe now (draws t) t e))
       [vote_topic (g_chain_id g), tx_topic (g_chain_id g), block_topic (g_chain_id g), replay_topic (g_chain_id g),
        tx_topic (g_chain_id g)]
       (episub_new (network_config g digest))"

section \<open>Translation\<close>

record net_codec =
  nt_block_to :: "transaction list produced \<Rightarrow> bytes"
  nt_block_from :: "bytes \<Rightarrow> transaction list produced option"
  nt_vote_to :: "vote \<Rightarrow> bytes"
  nt_vote_from :: "bytes \<Rightarrow> vote option"
  nt_tx_to :: "transaction \<Rightarrow> bytes"
  nt_tx_from :: "bytes \<Rightarrow> transaction option"
  nt_hash_to :: "multihash \<Rightarrow> bytes"
  nt_hash_from :: "bytes \<Rightarrow> multihash option"

definition net_codec_ok :: "net_codec \<Rightarrow> bool" where
  "net_codec_ok k \<longleftrightarrow>
     (\<forall>x. nt_block_from k (nt_block_to k x) = Some x) \<and> (\<forall>x. nt_vote_from k (nt_vote_to k x) = Some x)
     \<and> (\<forall>x. nt_tx_from k (nt_tx_to k x) = Some x) \<and> (\<forall>x. nt_hash_from k (nt_hash_to k x) = Some x)"

text \<open>A message that does not deserialize, or on another topic, is dropped.\<close>

definition translate_message :: "net_codec \<Rightarrow> string \<Rightarrow> topic \<Rightarrow> bytes \<Rightarrow> network_event option" where
  "translate_message k chainid topic payload =
     (if topic = vote_topic chainid then map_option VoteReceived (nt_vote_from k payload)
      else if topic = block_topic chainid then map_option BlockReceived (nt_block_from k payload)
      else if topic = replay_topic chainid then map_option MissingBlock (nt_hash_from k payload)
      else if topic = tx_topic chainid then map_option TransactionReceived (nt_tx_from k payload)
      else None)"

text \<open>The branch of the task for what the swarm emits: only messages concern the validator.\<close>

definition on_swarm_event :: "net_codec \<Rightarrow> string \<Rightarrow> behaviour_action \<Rightarrow> network_event option" where
  "on_swarm_event k chainid a =
     (case a of GenerateEvent (MessageEvent topic i payload) \<Rightarrow> translate_message k chainid topic payload | _ \<Rightarrow> None)"

text \<open>The branch for commands. \<open>None\<close> is the panic of \<open>publish(..).unwrap()\<close>; a dial is left to the library.\<close>

definition command_message :: "net_codec \<Rightarrow> string \<Rightarrow> network_command \<Rightarrow> (topic \<times> bytes) option" where
  "command_message k chainid cmd =
     (case cmd of
        Connect addr \<Rightarrow> None
      | GossipMissing h \<Rightarrow> Some (replay_topic chainid, nt_hash_to k h)
      | GossipBlock b \<Rightarrow> Some (block_topic chainid, nt_block_to k b)
      | GossipVote v \<Rightarrow> Some (vote_topic chainid, nt_vote_to k v)
      | GossipTransaction tx \<Rightarrow> Some (tx_topic chainid, nt_tx_to k tx))"

definition on_command ::
  "net_codec \<Rightarrow> zstd \<Rightarrow> string \<Rightarrow> instant \<Rightarrow> u64 \<Rightarrow> network_command \<Rightarrow> episub \<Rightarrow> episub option" where
  "on_command k z chainid now msg_id cmd e =
     (case command_message k chainid cmd of
        None \<Rightarrow> Some e
      | Some (topic, message) \<Rightarrow>
          (case episub_publish z now msg_id topic message e of Inl error \<Rightarrow> None | Inr (i, e') \<Rightarrow> Some e'))"

end
