(* ===== verification/Rensa_Handler.thy ===== *)
theory Rensa_Handler
  imports Rensa_Gossip "HOL-Library.Sublist"
begin

text \<open>
  The connection handler of \<open>src/network/episub/handler.rs\<close> with the frame codec of \<open>codec.rs\<close>: one inbound and one
  outbound substream, and the queue of messages to a peer.

  A framed substream of the network library is a state of type \<open>'s\<close> with the operations of \<open>framed\<close>. The handler takes
  the state of a substream out (leaving \<open>Poisoned\<close>) and puts the next one back; \<open>None\<close> is the panic of \<open>unreachable!\<close> when
  it finds \<open>Poisoned\<close>. The length codec and protobuf are parameters.
\<close>

section \<open>Frames\<close>

datatype handler_error = MaxTransmissionSize | HandlerIo

record frame_codec =
  fc_encode :: "nat \<Rightarrow> bytes \<Rightarrow> bytes option"
  fc_decode :: "nat \<Rightarrow> bytes \<Rightarrow> bool + (bytes \<times> bytes) option"   \<comment> \<open>the error flag says that permission was denied\<close>
  pb_encode :: "rpc \<Rightarrow> bytes"
  pb_decode :: "bytes \<Rightarrow> rpc option"

definition episub_encode :: "frame_codec \<Rightarrow> nat \<Rightarrow> rpc \<Rightarrow> bytes \<Rightarrow> handler_error + bytes" where
  "episub_encode k max_len item dst =
     (case fc_encode k max_len (pb_encode k item) of None \<Rightarrow> Inl MaxTransmissionSize | Some bs \<Rightarrow> Inr (dst @ bs))"

text \<open>The decoded call, if a whole frame has arrived, and the rest of the buffer.\<close>

definition episub_decode :: "frame_codec \<Rightarrow> nat \<Rightarrow> bytes \<Rightarrow> handler_error + (rpc \<times> bytes) option" where
  "episub_decode k max_len src =
     (case fc_decode k max_len src of
        Inl denied \<Rightarrow> Inl (if denied then MaxTransmissionSize else HandlerIo)
      | Inr None \<Rightarrow> Inr None
      | Inr (Some (packet, rest)) \<Rightarrow>
          (case pb_decode k packet of None \<Rightarrow> Inl HandlerIo | Some r \<Rightarrow> Inr (Some (r, rest))))"

section \<open>State\<close>

datatype 'a poll = Pending | Ready 'a

record 's framed =
  fr_poll_next :: "'s \<Rightarrow> (handler_error + rpc) option poll \<times> 's"
  fr_poll_ready :: "'s \<Rightarrow> handler_error option poll \<times> 's"
  fr_start_send :: "'s \<Rightarrow> rpc \<Rightarrow> handler_error option \<times> 's"
  fr_poll_flush :: "'s \<Rightarrow> handler_error option poll \<times> 's"
  fr_poll_close :: "'s \<Rightarrow> handler_error option poll \<times> 's"

datatype 's inbound_state = WaitingInput 's | InboundClosing 's | InboundPoisoned

datatype 's outbound_state =
    SubstreamRequested
  | WaitingOutput 's
  | PendingSend 's rpc
  | PendingFlush 's
  | OutboundClosing 's
  | OutboundPoisoned

record 's handler =
  eh_max_transmit_size :: nat
  eh_outbound :: "'s outbound_state option"
  eh_inbound :: "'s inbound_state option"
  eh_keep_alive :: bool
  eh_queue :: "rpc list"

datatype handler_event = Custom rpc | OutboundSubstreamRequest nat | Close handler_error

definition handler_new :: "nat \<Rightarrow> bool \<Rightarrow> 's handler" where
  "handler_new max_transmit_size temporary =
     \<lparr>eh_max_transmit_size = max_transmit_size, eh_outbound = None, eh_inbound = None,
      eh_keep_alive = (\<not> temporary), eh_queue = []\<rparr>"

definition fully_negotiated_inbound :: "'s \<Rightarrow> 's handler \<Rightarrow> 's handler" where
  "fully_negotiated_inbound s h = h\<lparr>eh_inbound := Some (WaitingInput s)\<rparr>"

definition fully_negotiated_outbound :: "'s \<Rightarrow> 's handler \<Rightarrow> 's handler" where
  "fully_negotiated_outbound s h = h\<lparr>eh_outbound := Some (WaitingOutput s)\<rparr>"

definition is_shuffle_reply :: "rpc \<Rightarrow> bool" where
  "is_shuffle_reply r \<longleftrightarrow> (case rpc_action r of Some (ShuffleReply _) \<Rightarrow> True | _ \<Rightarrow> False)"

definition handler_inject_event :: "rpc \<Rightarrow> 's handler \<Rightarrow> 's handler" where
  "handler_inject_event r h =
     (if \<not> eh_keep_alive h
      then if is_shuffle_reply r then h\<lparr>eh_queue := eh_queue h @ [r]\<rparr> else h
      else h\<lparr>eh_queue := eh_queue h @ [r]\<rparr>)"

section \<open>The inbound substream\<close>

definition inbound_closing :: "'s framed \<Rightarrow> 's \<Rightarrow> 's handler \<Rightarrow> 's handler" where
  "inbound_closing io s h =
     (case fr_poll_close io s of
        (Ready _, s') \<Rightarrow>
          h\<lparr>eh_inbound := None, eh_keep_alive := (if eh_outbound h = None then False else eh_keep_alive h)\<rparr>
      | (Pending, s') \<Rightarrow> h\<lparr>eh_inbound := Some (InboundClosing s')\<rparr>)"

definition process_inbound_poll :: "'s framed \<Rightarrow> 's handler \<Rightarrow> (handler_event poll \<times> 's handler) option" where
  "process_inbound_poll io h =
     (case eh_inbound h of
        Some (WaitingInput s) \<Rightarrow>
          (case fr_poll_next io s of
             (Ready (Some (Inr message)), s') \<Rightarrow> Some (Ready (Custom message), h\<lparr>eh_inbound := Some (WaitingInput s')\<rparr>)
           | (Ready (Some (Inl error)), s') \<Rightarrow> None
           | (Ready None, s') \<Rightarrow> Some (Pending, inbound_closing io s' h)
           | (Pending, s') \<Rightarrow> Some (Pending, h\<lparr>eh_inbound := Some (WaitingInput s')\<rparr>))
      | Some (InboundClosing s) \<Rightarrow> Some (Pending, inbound_closing io s h)
      | Some InboundPoisoned \<Rightarrow> None
      | None \<Rightarrow> Some (Pending, h))"

section \<open>The outbound substream\<close>

fun outbound_rank :: "'s outbound_state option \<Rightarrow> nat" where
  "outbound_rank (Some (PendingSend _ _)) = 2"
| "outbound_rank (Some (PendingFlush _)) = 1"
| "outbound_rank _ = 0"

text \<open>One round of the loop: \<open>Inl\<close> leaves the loop with a result, \<open>Inr\<close> goes on.\<close>

definition outbound_round :: "'s framed \<Rightarrow> 's handler \<Rightarrow> (handler_event poll \<times> 's handler + 's handler) option" where
  "outbound_round io h =
     (case eh_outbound h of
        Some (WaitingOutput s) \<Rightarrow>
          (case eh_queue h of
             msg # rest \<Rightarrow> Some (Inr (h\<lparr>eh_queue := rest, eh_outbound := Some (PendingSend s msg)\<rparr>))
           | [] \<Rightarrow> Some (Inl (Pending, h)))
      | Some (PendingSend s message) \<Rightarrow>
          (case fr_poll_ready io s of
             (Ready None, s1) \<Rightarrow>
               (case fr_start_send io s1 message of
                  (None, s2) \<Rightarrow> Some (Inr (h\<lparr>eh_outbound := Some (PendingFlush s2)\<rparr>))
                | (Some MaxTransmissionSize, s2) \<Rightarrow> Some (Inr (h\<lparr>eh_outbound := Some (WaitingOutput s2)\<rparr>))
                | (Some HandlerIo, s2) \<Rightarrow> Some (Inl (Ready (Close HandlerIo), h\<lparr>eh_outbound := Some OutboundPoisoned\<rparr>)))
           | (Ready (Some e), s1) \<Rightarrow> Some (Inl (Ready (Close e), h\<lparr>eh_outbound := Some OutboundPoisoned\<rparr>))
           | (Pending, s1) \<Rightarrow> Some (Inl (Pending, h\<lparr>eh_keep_alive := True, eh_outbound := Some (PendingSend s1 message)\<rparr>)))
      | Some (PendingFlush s) \<Rightarrow>
          (case fr_poll_flush io s of
             (Ready None, s1) \<Rightarrow> Some (Inr (h\<lparr>eh_outbound := Some (WaitingOutput s1)\<rparr>))
           | (Ready (Some e), s1) \<Rightarrow> Some (Inl (Ready (Close e), h\<lparr>eh_outbound := Some OutboundPoisoned\<rparr>))
           | (Pending, s1) \<Rightarrow> Some (Inl (Pending, h\<lparr>eh_keep_alive := True, eh_outbound := Some (PendingFlush s1)\<rparr>)))
      | Some (OutboundClosing s) \<Rightarrow>
          (case fr_poll_close io s of
             (Ready None, s1) \<Rightarrow>
               Some (Inl (Pending, h\<lparr>eh_outbound := None,
                 eh_keep_alive := (if eh_inbound h = None then False else eh_keep_alive h)\<rparr>))
           | (Ready (Some e), s1) \<Rightarrow> Some (Inl (Ready (Close HandlerIo), h\<lparr>eh_outbound := Some OutboundPoisoned\<rparr>))
           | (Pending, s1) \<Rightarrow> Some (Inl (Pending, h\<lparr>eh_keep_alive := False, eh_outbound := Some (OutboundClosing s1)\<rparr>)))
      | Some SubstreamRequested \<Rightarrow> Some (Inl (Pending, h))
      | Some OutboundPoisoned \<Rightarrow> None
      | None \<Rightarrow>
          Some (Inl (Ready (OutboundSubstreamRequest (eh_max_transmit_size h)), h\<lparr>eh_outbound := Some SubstreamRequested\<rparr>)))"

lemmas round_splits = option.splits outbound_state.splits list.splits prod.splits poll.splits handler_error.splits

lemma outbound_round_decreases:
  "outbound_round io h = Some (Inr h') \<Longrightarrow>
     3 * length (eh_queue h') + outbound_rank (eh_outbound h') < 3 * length (eh_queue h) + outbound_rank (eh_outbound h)"
  by (auto simp: outbound_round_def split: round_splits)

function process_outbound_poll :: "'s framed \<Rightarrow> 's handler \<Rightarrow> (handler_event poll \<times> 's handler) option" where
  "process_outbound_poll io h =
     (case outbound_round io h of
        None \<Rightarrow> None
      | Some (Inl result) \<Rightarrow> Some result
      | Some (Inr h') \<Rightarrow> process_outbound_poll io h')"
  by pat_completeness auto
termination
  by (relation "measure (\<lambda>(_, h). 3 * length (eh_queue h) + outbound_rank (eh_outbound h))")
    (auto simp: outbound_round_decreases)

declare process_outbound_poll.simps [simp del]

definition handler_poll :: "'s framed \<Rightarrow> 's handler \<Rightarrow> (handler_event poll \<times> 's handler) option" where
  "handler_poll io h =
     (case process_inbound_poll io h of
        None \<Rightarrow> None
      | Some (Ready ev, h') \<Rightarrow> Some (Ready ev, h')
      | Some (Pending, h') \<Rightarrow> process_outbound_poll io h')"

section \<open>What is in flight\<close>

text \<open>
  \<open>sent\<close> is what a substream has taken over for its peer: sending appends, everything else keeps it. A message over the
  limit is not taken.
\<close>

definition framed_ok :: "'s framed \<Rightarrow> ('s \<Rightarrow> rpc list) \<Rightarrow> bool" where
  "framed_ok io sent \<longleftrightarrow>
     (\<forall>s. sent (snd (fr_poll_ready io s)) = sent s) \<and> (\<forall>s. sent (snd (fr_poll_flush io s)) = sent s)
     \<and> (\<forall>s m s'. fr_start_send io s m = (None, s') \<longrightarrow> sent s' = sent s @ [m])
     \<and> (\<forall>s m e s'. fr_start_send io s m = (Some e, s') \<longrightarrow> sent s' = sent s)"

fun outbound_sent :: "('s \<Rightarrow> rpc list) \<Rightarrow> 's outbound_state option \<Rightarrow> rpc list" where
  "outbound_sent sent (Some (WaitingOutput s)) = sent s"
| "outbound_sent sent (Some (PendingSend s m)) = sent s @ [m]"
| "outbound_sent sent (Some (PendingFlush s)) = sent s"
| "outbound_sent sent _ = []"

definition in_flight :: "('s \<Rightarrow> rpc list) \<Rightarrow> 's handler \<Rightarrow> rpc list" where
  "in_flight sent h = outbound_sent sent (eh_outbound h) @ eh_queue h"

text \<open>
  The framed substream encodes with the codec of the connection: it refuses for their size exactly the messages that \<open>EpisubCodec\<close> refuses
  to encode under the limit \<open>max_len\<close>. What \<open>fits\<close> is a property of the message alone.
\<close>

definition fits :: "frame_codec \<Rightarrow> nat \<Rightarrow> rpc \<Rightarrow> bool" where
  "fits k max_len m \<longleftrightarrow> fc_encode k max_len (pb_encode k m) \<noteq> None"

lemma fits_encode: "fits k max_len m \<longleftrightarrow> (\<exists>bs. episub_encode k max_len m dst = Inr bs)"
  by (auto simp: fits_def episub_encode_def split: option.split)

definition encodes_with :: "'s framed \<Rightarrow> frame_codec \<Rightarrow> nat \<Rightarrow> bool" where
  "encodes_with io k max_len \<longleftrightarrow>
     (\<forall>s m. fst (fr_start_send io s m) = Some MaxTransmissionSize
        \<longleftrightarrow> (\<forall>dst. episub_encode k max_len m dst = Inl MaxTransmissionSize))"

lemma encodes_with_fits:
  "encodes_with io k max_len \<Longrightarrow> fst (fr_start_send io s m) = Some MaxTransmissionSize \<longleftrightarrow> \<not> fits k max_len m"
  by (auto simp: encodes_with_def episub_encode_def fits_def split: option.splits)

text \<open>
  From one state of the handler to another nothing is lost or reordered but messages that do not fit, and none of those is sent: \<open>old\<close> and
  \<open>new\<close> are the messages that were sent, are being sent and are queued before and after.
\<close>

definition only_drops :: "('m \<Rightarrow> bool) \<Rightarrow> 'm list \<Rightarrow> 'm list \<Rightarrow> bool" where
  "only_drops ok old new \<longleftrightarrow> filter ok new = filter ok old \<and> subseq new old"

lemma only_drops_refl [simp]: "only_drops ok xs xs"
  by (simp add: only_drops_def)

lemma only_drops_trans: "only_drops ok xs ys \<Longrightarrow> only_drops ok ys zs \<Longrightarrow> only_drops ok xs zs"
  unfolding only_drops_def by (metis subseq_order.trans)

lemma only_drops_one: "\<not> ok m \<Longrightarrow> only_drops ok (xs @ m # ys) (xs @ ys)"
  by (auto simp: only_drops_def intro: list_emb_append_mono list_emb_Cons)

definition substream_open :: "'s handler \<Rightarrow> bool" where
  "substream_open h \<longleftrightarrow> (case eh_outbound h of Some (OutboundClosing s) \<Rightarrow> False | Some OutboundPoisoned \<Rightarrow> False | _ \<Rightarrow> True)"

lemma outbound_round_keeps:
  assumes "framed_ok io sent" and "encodes_with io k max_len" and "substream_open h"
  shows "outbound_round io h = Some (Inr h') \<Longrightarrow> only_drops (fits k max_len) (in_flight sent h) (in_flight sent h') \<and> substream_open h'"
    and "outbound_round io h = Some (Inl (r, h')) \<Longrightarrow> (\<And>e. r \<noteq> Ready (Close e)) \<Longrightarrow> in_flight sent h' = in_flight sent h \<and> substream_open h'"
proof -
  have ready: "sent s1 = sent s" if "fr_poll_ready io s = (p, s1)" for s p s1
    using assms(1) that by (metis framed_ok_def snd_conv)
  have flush: "sent s1 = sent s" if "fr_poll_flush io s = (p, s1)" for s p s1
    using assms(1) that by (metis framed_ok_def snd_conv)
  have send: "sent s1 = sent s @ [m]" if "fr_start_send io s m = (None, s1)" for s m s1
    using assms(1) that by (simp add: framed_ok_def)
  have refused: "sent s1 = sent s \<and> \<not> fits k max_len m" if "fr_start_send io s m = (Some MaxTransmissionSize, s1)" for s m s1
    using assms(1) that encodes_with_fits [OF assms(2), of s m] by (auto simp: framed_ok_def)
  have drop: "only_drops (fits k max_len) (sent s @ m # q) (sent s2 @ q)"
    if "fr_poll_ready io s = (p, s1)" "fr_start_send io s1 m = (Some MaxTransmissionSize, s2)" for s p s1 m s2 q
    using refused [OF that(2)] ready [OF that(1)] by (simp add: only_drops_one)
  show "outbound_round io h = Some (Inr h') \<Longrightarrow> only_drops (fits k max_len) (in_flight sent h) (in_flight sent h') \<and> substream_open h'"
    using assms(3) by (auto simp: outbound_round_def in_flight_def substream_open_def split: round_splits
        dest: flush drop) (metis ready send only_drops_refl append.assoc append_Cons append_Nil)
  show "outbound_round io h = Some (Inl (r, h')) \<Longrightarrow> (\<And>e. r \<noteq> Ready (Close e)) \<Longrightarrow> in_flight sent h' = in_flight sent h \<and> substream_open h'"
    using assms(3) by (auto simp: outbound_round_def in_flight_def substream_open_def split: round_splits
        dest: ready flush)
qed

lemma outbound_keeps:
  assumes "framed_ok io sent" and "encodes_with io k max_len" and "substream_open h"
    and "process_outbound_poll io h = Some (r, h')" and "\<And>e. r \<noteq> Ready (Close e)"
  shows "only_drops (fits k max_len) (in_flight sent h) (in_flight sent h') \<and> substream_open h'"
  using assms
proof (induction io h arbitrary: r h' rule: process_outbound_poll.induct)
  case (1 io h)
  note round = outbound_round_keeps [OF "1.prems"(1,2,3)]
  consider (leave) "outbound_round io h = Some (Inl (r, h'))"
    | (go_on) h1 where "outbound_round io h = Some (Inr h1)" "process_outbound_poll io h1 = Some (r, h')"
    using "1.prems"(4) by (subst (asm) process_outbound_poll.simps) (auto split: option.splits sum.splits)
  then show ?case
  proof cases
    case leave
    then show ?thesis using round(2) "1.prems"(5) by (metis only_drops_refl)
  next
    case go_on
    then have "only_drops (fits k max_len) (in_flight sent h) (in_flight sent h1)" "substream_open h1" using round(1) by blast+
    then show ?thesis using "1.IH" [OF go_on(1) refl "1.prems"(1,2)] go_on(2) "1.prems"(5) only_drops_trans by blast
  qed
qed

text \<open>Outbound processing panics only in the poisoned state, which is reached only with the order to close.\<close>

lemma outbound_returns:
  "substream_open h \<Longrightarrow> process_outbound_poll io h \<noteq> None"
proof (induction io h rule: process_outbound_poll.induct)
  case (1 io h)
  have "outbound_round io h \<noteq> None"
    using "1.prems" by (auto simp: outbound_round_def substream_open_def split: round_splits)
  moreover have "substream_open h1" if "outbound_round io h = Some (Inr h1)" for h1
    using that by (auto simp: outbound_round_def substream_open_def split: round_splits)
  ultimately show ?case
    using "1.IH" by (subst process_outbound_poll.simps) (auto split: option.splits sum.splits)
qed

lemma inbound_frame:
  assumes "process_inbound_poll io h = Some (r, h')"
  shows "eh_queue h' = eh_queue h \<and> eh_outbound h' = eh_outbound h"
  using assms by (auto simp: process_inbound_poll_def inbound_closing_def
      split: option.splits inbound_state.splits prod.splits poll.splits sum.splits)

end
