(* ===== verification/Rensa_Network_Properties.thy ===== *)
theory Rensa_Network_Properties
  imports Rensa_Network Rensa_Handler Rensa_Demo_Codec Rensa_Demo
begin

text \<open>
  The properties of the gossip network: delivery and repair in the broadcast tree, membership, admission of peers, and the
  way of a block from one validator to another. Instances for the witnesses are small peers with one-byte ids.
\<close>

section \<open>Delivery\<close>

text \<open>
  C16. A message is handed to the application once: in every run of a broadcast tree two deliveries of the same message
  are at least the history window apart.
\<close>

theorem delivered_spaced:
  assumes "tree_run z c log now t"
  shows "spaced (cf_history_window c) log"
  using tree_run_log [OF assms] by blast

definition demo_net_config :: config where
  "demo_net_config = config_default\<lparr>cf_enable_compression := False\<rparr>"

definition demo_zstd :: zstd where
  "demo_zstd = \<lparr>z_encode = (\<lambda>_ b. Some (1 # b)), z_decode = (\<lambda>b. case b of [] \<Rightarrow> None | _ # r \<Rightarrow> Some r)\<rparr>"

definition demo_tree :: plumtree where
  "demo_tree = plumtree_new ''t'' demo_net_config [1] 0"

lemma demo_net_config_simps [simp]:
  "cf_enable_compression demo_net_config = False" "cf_optimize_sender_tree demo_net_config = True"
  "cf_history_window demo_net_config = 30000000000" "cf_lazy_push_window demo_net_config = 2000000000"
  "cf_tick_frequency demo_net_config = 200000000" "cf_network_size demo_net_config = 1000"
  "cf_passive_view_factor demo_net_config = 6" "cf_active_view_factor demo_net_config = 1"
  "cf_authorizer demo_net_config = (\<lambda>_ _. Some True)" "cf_compression_level demo_net_config = 0"
  by (simp_all add: demo_net_config_def config_default_def)

definition demo_tree_received :: plumtree where
  "demo_tree_received = the (inject_message demo_zstd 1 [2] 7 1 [9] demo_tree)"

lemma demo_message: "inject_message demo_zstd 1 [2] 7 1 [9] demo_tree = Some demo_tree_received"
  "delivered demo_tree [] demo_tree_received = [7]"
  by (simp_all add: demo_tree_received_def inject_message_def demo_tree_def plumtree_new_def cache_insert_def cache_new_def
      insert_received_def delivered_def Let_def)

theorem delivered_spaced_witness:
  "tree_run demo_zstd demo_net_config [(1, 7)] 1 demo_tree_received \<and> spaced (cf_history_window demo_net_config) [(1, 7)]"
proof -
  have "tree_run demo_zstd demo_net_config [] 0 demo_tree" unfolding demo_tree_def by (rule run_new)
  from run_tree [OF this, of 1 "MessageFrom [2] 7 1 [9]" "[]" demo_tree_received]
  have "tree_run demo_zstd demo_net_config [(1, 7)] 1 demo_tree_received" by (simp add: demo_message)
  with delivered_spaced [OF this] show ?thesis by blast
qed

section \<open>Repair of lost messages\<close>

lemma ihaves_observed:
  assumes "(k, hop) \<in> set ihaves" and "cache_get k (pt_observed t) = None" and "tree_inv now t"
  shows "\<exists>o'. (o', now) \<in> set (ec_by_time (pt_observed (fold (\<lambda>(i, hop). inject_ihave now p i hop) ihaves t)))
    \<and> mi_id o' = k \<and> mi_sender o' = p"
proof -
  have keep: "(o', s) \<in> set (ec_by_time (pt_observed u)) \<Longrightarrow>
      (o', s) \<in> set (ec_by_time (pt_observed (fold (\<lambda>(i, hop). inject_ihave now p i hop) xs u)))" for o' s u xs
    by (induction xs arbitrary: u) (auto simp: inject_ihave_def cache_insert_def split: option.splits)
  show ?thesis
    using assms(1,2)
  proof (induction ihaves arbitrary: t)
    case (Cons x ihaves)
    obtain i h where x: "x = (i, h)" by (cases x)
    show ?case
    proof (cases "i = k")
      case True
      then have "(\<lparr>mi_id = k, mi_hop = h, mi_sender = p\<rparr>, now) \<in> set (ec_by_time (pt_observed (inject_ihave now p i h t)))"
        using Cons.prems(2) by (simp add: inject_ihave_def cache_insert_def cache_get_def)
      then show ?thesis using keep [of _ now "inject_ihave now p i h t" ihaves] x by fastforce
    next
      case False
      then have "cache_get k (pt_observed (inject_ihave now p i h t)) = None"
        using Cons.prems(2) by (auto simp: inject_ihave_def infos.insert_get)
      then show ?thesis using Cons False x by auto
    qed
  qed simp
qed

lemma ihaves_fields:
  "pt_received (fold (\<lambda>(i, hop). inject_ihave now p i hop) ihaves t) = pt_received t
   \<and> pt_config (fold (\<lambda>(i, hop). inject_ihave now p i hop) ihaves t) = pt_config t
   \<and> pt_topic (fold (\<lambda>(i, hop). inject_ihave now p i hop) ihaves t) = pt_topic t"
  by (induction ihaves arbitrary: t) (auto simp: inject_ihave_def)

lemma publish_ihaves_fields: "publish_ihaves now t = Some t' \<Longrightarrow> pt_received t' = pt_received t \<and> pt_topic t' = pt_topic t"
  by (erule publish_ihavesE) simp

lemma tree_inv_ihaves: "tree_inv now t \<Longrightarrow> tree_inv now (fold (\<lambda>(i, hop). inject_ihave now p i hop) ihaves t)"
proof (induction ihaves arbitrary: t)
  case (Cons x ihaves)
  then show ?case by (cases x) (simp add: inject_ihave_def tree_inv_def infos.insert_inv)
qed simp

text \<open>
  C17. A lost message is repaired over a lazy link: a peer \<open>A\<close> that received a message within the announcement window announces
  it to its lazy peer \<open>B\<close>; if \<open>B\<close> still misses it when it repairs its tree two ticks later, it asks \<open>A\<close> for it,
  and \<open>A\<close> answers with the message.
\<close>

theorem lazy_link_repairs:
  assumes A: "tree_inv now A" "publish_ihaves now A = Some A'" "pB \<in> set (pt_lazy A)"
    and m: "(m, s) \<in> set (ec_by_time (pt_received A))" "now - cf_lazy_push_window (pt_config A) < s" "s < now"
    and B: "tree_inv now1 B" "cache_get (mr_id m) (pt_observed B) = None" "cache_get (mr_id m) (pt_received B) = None"
    and later: "now2 - cf_lazy_push_window (pt_config B) < now1" "now1 < now2 - 2 * cf_tick_frequency (pt_config B)" "now1 \<le> now2"
  shows "\<exists>ihaves B' ids m'.
    NotifyHandler pB \<lparr>rpc_topic = pt_topic A, rpc_action = Some (Ihave ihaves)\<rparr> \<in> set (pt_out A')
    \<and> repair_tree now2 (fold (\<lambda>(i, hop). inject_ihave now1 pA i hop) ihaves B) = Some B'
    \<and> NotifyHandler pA \<lparr>rpc_topic = pt_topic B, rpc_action = Some (Graft ids)\<rparr> \<in> set (pt_out B')
    \<and> NotifyHandler pB \<lparr>rpc_topic = pt_topic A, rpc_action = Some (record_message m')\<rparr> \<in> set (pt_out (inject_graft pB ids A'))
    \<and> mr_id m' = mr_id m"
proof -
  obtain ihaves where ih: "NotifyHandler pB \<lparr>rpc_topic = pt_topic A, rpc_action = Some (Ihave ihaves)\<rparr> \<in> set (pt_out A')"
    "(mr_id m, mr_hop m) \<in> set ihaves" using announces [OF A(1,2) m A(3)] by blast
  define B1 where "B1 = fold (\<lambda>(i, hop). inject_ihave now1 pA i hop) ihaves B"
  have f: "pt_received B1 = pt_received B" "pt_config B1 = pt_config B" "pt_topic B1 = pt_topic B"
    using ihaves_fields by (simp_all add: B1_def)
  have inv: "tree_inv now2 B1" using tree_inv_later [OF tree_inv_ihaves [OF B(1)] later(3)] by (simp add: B1_def)
  obtain o' where o': "(o', now1) \<in> set (ec_by_time (pt_observed B1))" "mi_id o' = mr_id m" "mi_sender o' = pA"
    using ihaves_observed [OF ih(2) B(2,1)] unfolding B1_def by blast
  have "sorted (map snd (ec_by_time (pt_observed B1)))" using inv by (simp add: tree_inv_def cache_inv_def)
  then have "iter_range (now2 - cf_lazy_push_window (pt_config B1)) (now2 - 2 * cf_tick_frequency (pt_config B1)) (pt_observed B1) \<noteq> None"
    using later f by (intro iter_range_ordered) auto
  then obtain B' where B': "repair_tree now2 B1 = Some B'" by (auto simp: repair_tree_def Let_def)
  obtain ids where ids: "NotifyHandler pA \<lparr>rpc_topic = pt_topic B, rpc_action = Some (Graft ids)\<rparr> \<in> set (pt_out B')" "mr_id m \<in> set ids"
    using repair_requests [OF inv B' o'(1)] later o' f B(3) by auto
  have ci: "cache_inv mr_id record_less now (pt_received A)" using A(1) by (simp add: tree_inv_def)
  obtain m' where "cache_get (mr_id m) (pt_received A) = Some m'" "mr_id m' = mr_id m"
    using records.inv_entry(2) [OF ci m(1)] by (auto simp: cache_get_def)
  then have "NotifyHandler pB \<lparr>rpc_topic = pt_topic A, rpc_action = Some (record_message m')\<rparr> \<in> set (pt_out (inject_graft pB ids A'))"
    using graft_answers [OF _ ids(2)] publish_ihaves_fields [OF A(2)] by metis
  with ih(1) B' ids(1) \<open>mr_id m' = mr_id m\<close> show ?thesis unfolding B1_def by blast
qed

definition demo_A :: plumtree where
  "demo_A = inject_prune [4] demo_tree_received"

definition demo_B :: plumtree where
  "demo_B = plumtree_new ''t'' demo_net_config [4] 0"

lemma demo_A_simps:
  "pt_lazy demo_A = [[4]]" "pt_config demo_A = demo_net_config" "pt_topic demo_A = ''t''"
  "ec_by_time (pt_received demo_A) = [(\<lparr>mr_id = 7, mr_hop = 1, mr_sender = [2], mr_payload = [9]\<rparr>, 1)]"
  by (simp_all add: demo_A_def demo_tree_received_def inject_message_def demo_tree_def plumtree_new_def cache_insert_def
      cache_new_def insert_received_def inject_prune_def hs_insert_def Let_def)

lemma demo_A_inv: "tree_inv 2 demo_A"
proof -
  have "tree_run demo_zstd demo_net_config [] 0 demo_tree" unfolding demo_tree_def by (rule run_new)
  then have "tree_run demo_zstd demo_net_config [(1, 7)] 1 demo_tree_received"
    using run_tree [of demo_zstd demo_net_config "[]" 0 demo_tree 1 "MessageFrom [2] 7 1 [9]" "[]" demo_tree_received]
    by (simp add: demo_message)
  from run_tree [OF this, of 2 "PruneFrom [4]" "[]" demo_A]
  show ?thesis using tree_run_log by (fastforce simp: demo_A_def)
qed

theorem lazy_link_repairs_witness:
  "\<exists>A' ihaves B' ids m'. publish_ihaves 2 demo_A = Some A'
    \<and> NotifyHandler [4] \<lparr>rpc_topic = ''t'', rpc_action = Some (Ihave ihaves)\<rparr> \<in> set (pt_out A')
    \<and> repair_tree 500000000 (fold (\<lambda>(i, hop). inject_ihave 2 [1] i hop) ihaves demo_B) = Some B'
    \<and> NotifyHandler [1] \<lparr>rpc_topic = ''t'', rpc_action = Some (Graft ids)\<rparr> \<in> set (pt_out B')
    \<and> NotifyHandler [4] \<lparr>rpc_topic = ''t'', rpc_action = Some (record_message m')\<rparr> \<in> set (pt_out (inject_graft [4] ids A'))
    \<and> mr_id m' = 7"
proof -
  let ?m = "\<lparr>mr_id = 7, mr_hop = 1, mr_sender = [2], mr_payload = [9]\<rparr>"
  have "iter_range (2 - 2000000000) 2 (pt_received demo_A) \<noteq> None"
    by (rule iter_range_ordered) (simp_all add: demo_A_simps)
  then obtain A' where A': "publish_ihaves 2 demo_A = Some A'" by (auto simp: publish_ihaves_def demo_A_simps Let_def)
  have B: "tree_inv 2 demo_B" "cache_get 7 (pt_observed demo_B) = None" "cache_get 7 (pt_received demo_B) = None"
    "pt_config demo_B = demo_net_config" "pt_topic demo_B = ''t''"
    using tree_inv_later [OF tree_inv_new [of 0 "''t''" demo_net_config "[4]"], of 2]
    by (simp_all add: demo_B_def) (simp_all add: plumtree_new_def cache_get_def cache_new_def)
  have m: "(?m, 1) \<in> set (ec_by_time (pt_received demo_A))" by (simp add: demo_A_simps)
  show ?thesis
    using lazy_link_repairs [where A = demo_A and A' = A' and now = 2 and pB = "[4]" and m = ?m and s = 1 and pA = "[1]"
        and B = demo_B and ?now1.0 = 2 and ?now2.0 = 500000000] demo_A_inv A' B m by (simp add: demo_A_simps)
qed

section \<open>Membership\<close>

definition demo_formats :: formats where
  "demo_formats =
     \<lparr>fm_peer_from = Some, fm_peer_to = (\<lambda>p. p), fm_addr_from = (\<lambda>b. Some [OtherProtocol b]),
      fm_addr_to = (\<lambda>a. case a of [OtherProtocol b] \<Rightarrow> b | _ \<Rightarrow> [])\<rparr>"

definition demo_mesh :: topic_mesh where
  "demo_mesh = topic_new ''t'' demo_net_config \<lparr>ap_id = [1], ap_addresses = []\<rparr> 0 []"

definition demo_neighbor :: rpc where
  "demo_neighbor = \<lparr>rpc_topic = ''t'', rpc_action = Some (Neighbor \<lparr>wp_id = [2], wp_addresses = []\<rparr> 0)\<rparr>"

definition demo_mesh_joined :: topic_mesh where
  "demo_mesh_joined = on_nodes (inject_neighbor demo_formats \<lparr>ap_id = [2], ap_addresses = []\<rparr> 0) demo_mesh"

definition demo_mesh_told :: topic_mesh where
  "demo_mesh_told = demo_mesh_joined\<lparr>tm_nodes := (tm_nodes demo_mesh_joined)\<lparr>hv_out := []\<rparr>, tm_tree := demo_tree\<lparr>pt_eager := [[2]]\<rparr>\<rparr>"

lemmas demo_mesh_defs = demo_mesh_def demo_mesh_joined_def topic_new_def view_new_def on_nodes_def inject_neighbor_def is_active_def
  overconnected_def max_active_view_size_def add_node_to_active_view_def hv_emit_def ps_insert_def

lemma demo_mesh_call: "inject_rpc_call demo_formats demo_zstd 1 [2] demo_neighbor demo_mesh = ret demo_mesh_joined"
  by (simp add: inject_rpc_call_def demo_neighbor_def demo_formats_def peer_of_wire_def demo_mesh_joined_def map_filter_simps)

lemma demo_mesh_poll: "topic_poll demo_formats 2 demo_mesh_joined = Some (Some (GenerateEvent (PeerAdded [2])), demo_mesh_told)"
  by (simp add: demo_mesh_told_def demo_mesh_defs topic_poll_def view_poll_def view_tick_def shuffle_tick_def
      demo_net_config_def config_default_def inject_neighbor_up_def hs_insert_def plumtree_new_def demo_tree_def)

lemma demo_mesh_run:
  "mesh_run demo_formats demo_zstd demo_mesh 0 [GenerateEvent (PeerAdded [2])] 2 demo_mesh_told"
proof -
  have "mesh_run demo_formats demo_zstd demo_mesh 0 [] 0 demo_mesh" by (rule mesh_start)
  from mesh_next [OF this, of 1 "MeshCall [2] demo_neighbor" None demo_mesh_joined]
  have "mesh_run demo_formats demo_zstd demo_mesh 0 [] 1 demo_mesh_joined" by (simp add: demo_mesh_call)
  from mesh_next [OF this, of 2 MeshPoll "Some (GenerateEvent (PeerAdded [2]))" demo_mesh_told]
  show ?thesis by (simp add: demo_mesh_poll)
qed

text \<open>
  C18. The membership events are an exact log of the active view: in every run of a mesh, replaying the events handed out so far
  and then the queued ones gives the peers of the active view.
\<close>

theorem membership_log:
  assumes "mesh_run f z (topic_new topic c p now0 ds) now0 evs now m"
  shows "membership (evs @ hv_out (tm_nodes m)) {} = ps_ids (hv_active (tm_nodes m))"
  using mesh_run_inv [OF assms] by blast

theorem membership_log_witness:
  "membership ([GenerateEvent (PeerAdded [2])] @ hv_out (tm_nodes demo_mesh_told)) {} = ps_ids (hv_active (tm_nodes demo_mesh_told))
   \<and> ps_ids (hv_active (tm_nodes demo_mesh_told)) = {[2]}"
proof -
  note log = membership_log [OF demo_mesh_run [unfolded demo_mesh_def]]
  then show ?thesis by (simp add: demo_mesh_told_def)
qed

text \<open>
  C19. The broadcast tree keeps up with the membership: in every run of a mesh both views have one entry per peer,
  the node itself is never active, the passive view is within its bound, and once the membership events are handed out
  every active peer is an eager or a lazy peer of the tree.
\<close>

theorem active_peers_in_tree:
  assumes "mesh_run f z (topic_new topic c p now0 ds) now0 evs now m"
  shows "view_inv (tm_nodes m)
    \<and> (hv_out (tm_nodes m) = [] \<longrightarrow>
         ps_ids (hv_active (tm_nodes m)) \<subseteq> set (pt_eager (tm_tree m)) \<union> set (pt_lazy (tm_tree m)))"
  using mesh_run_inv [OF assms] by (auto simp: mesh_inv_def tree_peers_def)

theorem active_peers_in_tree_witness:
  "view_inv (tm_nodes demo_mesh_told)
   \<and> ps_ids (hv_active (tm_nodes demo_mesh_told)) \<subseteq> set (pt_eager (tm_tree demo_mesh_told)) \<union> set (pt_lazy (tm_tree demo_mesh_told))"
  using active_peers_in_tree [OF demo_mesh_run [unfolded demo_mesh_def]] by (simp add: demo_mesh_told_def)

section \<open>Sizes of the views\<close>

text \<open>
  The bound of the active view can be exceeded: on a full active view that shares no peer with the passive view, a neighbor
  request of high priority adds the peer without removing another, while one of any other priority changes
  nothing at all.
\<close>

theorem full_view_neighbor:
  assumes "overconnected v" and "ps_ids (hv_active v) \<inter> ps_ids (hv_passive v) = {}"
    and "\<not> is_active (ap_id peer) v" and "ap_id peer \<noteq> ap_id (hv_local v)"
  shows "hv_active (inject_neighbor f peer (priority_code High) v) = hv_active v @ [peer]
    \<and> (prio \<noteq> priority_code High \<longrightarrow> inject_neighbor f peer prio v = v)"
  using neighbor_overfills [OF assms] neighbor_ignored [OF assms(1,3)] by blast

definition demo_full_view :: view where
  "demo_full_view = (view_new ''t'' (demo_net_config\<lparr>cf_network_size := 1\<rparr>) \<lparr>ap_id = [1], ap_addresses = []\<rparr> 0 [])
     \<lparr>hv_active := [\<lparr>ap_id = [2], ap_addresses = []\<rparr>], hv_passive := [\<lparr>ap_id = [3], ap_addresses = []\<rparr>]\<rparr>"

theorem full_view_neighbor_witness:
  "length (hv_active (inject_neighbor demo_formats \<lparr>ap_id = [4], ap_addresses = []\<rparr> (priority_code High) demo_full_view)) = 2
   \<and> max_active_view_size (hv_config demo_full_view) = 1"
proof -
  have size: "max_active_view_size (hv_config demo_full_view) = 1"
    by (simp add: demo_full_view_def view_new_def max_active_view_size_def round_log2_def)
  then have "overconnected demo_full_view" by (simp add: overconnected_def) (simp add: demo_full_view_def)
  moreover have "ps_ids (hv_active demo_full_view) \<inter> ps_ids (hv_passive demo_full_view) = {}"
    "\<not> is_active [4] demo_full_view" "ap_id (hv_local demo_full_view) = [1]" "length (hv_active demo_full_view) = 1"
    by (simp_all add: demo_full_view_def view_new_def is_active_def)
  ultimately show ?thesis
    using full_view_neighbor [of demo_full_view "\<lparr>ap_id = [4], ap_addresses = []\<rparr>" demo_formats] size by simp
qed

text \<open>
  A shuffle reply can only grow the passive view within its bound or lose it: when the union of the passive view and
  the nodes of the reply is larger than the bound, no passive peer is left.
\<close>

theorem shuffle_reply_passive:
  assumes "ps_ok (hv_passive v)"
  shows "ps_ids (hv_passive (inject_shuffle_reply f ws v)) =
    (let known = ps_ids (hv_passive v) \<union> ps_ids (List.map_filter (peer_of_wire f) ws)
     in if card known \<le> max_passive_view_size (hv_config v) then known else {})"
proof -
  have "ps_ok (ps_union (hv_passive v) (ps_collect (List.map_filter (peer_of_wire f) ws)))" using assms by blast
  then show ?thesis by (auto simp: inject_shuffle_reply_def Let_def length_ps)
qed

definition demo_reply :: "wire_peer list" where
  "demo_reply = map (\<lambda>i. \<lparr>wp_id = [i], wp_addresses = []\<rparr>) [10, 11, 12, 13, 14, 15]"

theorem shuffle_reply_passive_witness:
  "ps_ids (hv_passive demo_full_view) = {[3]} \<and> hv_passive (inject_shuffle_reply demo_formats demo_reply demo_full_view) = []"
proof -
  have size: "max_passive_view_size (hv_config demo_full_view) = 6"
    by (simp add: demo_full_view_def view_new_def max_passive_view_size_def max_active_view_size_def round_log2_def)
  have ids: "ps_ids (List.map_filter (peer_of_wire demo_formats) demo_reply) = {[10], [11], [12], [13], [14], [15]}"
    by (auto simp: demo_reply_def demo_formats_def peer_of_wire_def map_filter_simps)
  have known: "hv_passive demo_full_view = [\<lparr>ap_id = [3], ap_addresses = []\<rparr>]" by (simp add: demo_full_view_def)
  have "ps_ids (hv_passive (inject_shuffle_reply demo_formats demo_reply demo_full_view)) = {}"
    using shuffle_reply_passive [of demo_full_view demo_formats demo_reply] size ids known by (simp add: ps_ok_def)
  then show ?thesis using known by (auto simp: ps_ids_def)
qed

section \<open>Admission\<close>

text \<open>
  C20. Only validators are heard: a call changes a mesh or the ban list only when its sender is not banned and, under the
  configuration of a validator, its key belongs to a genesis validator with the minimum stake; then only the mesh of the
  topic of the call changes.
\<close>

theorem only_validators_heard:
  assumes "inject_event f z now p conn r e = Some e'" and "ep_config e = network_config g digest"
    and "ep_topics e' \<noteq> ep_topics e \<or> set (ep_banned e') \<noteq> set (ep_banned e)"
  shows "p \<notin> set (ep_banned e) \<and> length (digest p) = 36
    \<and> (\<exists>v \<in> set (g_validators g). val_pubkey v = drop 4 (digest p) \<and> minimum_stake (g_limits g) \<le> val_stake v)
    \<and> (\<forall>t. t \<noteq> rpc_topic r \<longrightarrow> map_of (ep_topics e') t = map_of (ep_topics e) t)"
proof -
  have auth: "cf_authorizer (ep_config e) = authorize g digest" using assms(2) by (simp add: network_config_def)
  have "p \<notin> set (ep_banned e) \<and> authorize g digest (rpc_topic r) p = Some True"
    using assms(1,3) by (auto simp: inject_event_def auth split: if_splits)
  then show ?thesis
    using assms(1) auth
    by (auto simp: inject_event_def authorize_def pubkey_of_peer_def validator_set_def map_of_hm_insert
        split: if_splits option.splits sum.splits)
qed

definition net_genesis :: genesis where
  "net_genesis = demo_genesis\<lparr>g_validators := [Validator (replicate 32 5) 100]\<rparr>"

definition net_digest :: "peer_id \<Rightarrow> bytes" where
  "net_digest p = (if p = [5] then [8, 1, 18, 32] @ replicate 32 5 else p)"

definition net_episub :: episub where
  "net_episub = episub_new (network_config net_genesis net_digest)"

definition no_action :: rpc where
  "no_action = \<lparr>rpc_topic = ''t'', rpc_action = None\<rparr>"

theorem only_validators_heard_witness:
  "set (ep_banned (ban_peer [5] 0 net_episub)) = {[5]}
   \<and> (\<exists>v \<in> set (g_validators net_genesis). val_pubkey v = drop 4 (net_digest [5]) \<and> minimum_stake (g_limits net_genesis) \<le> val_stake v)"
proof -
  have "inject_event demo_formats demo_zstd 0 [5] 0 no_action net_episub = Some (ban_peer [5] 0 net_episub)"
    by (simp add: inject_event_def net_episub_def episub_new_def network_config_def authorize_def pubkey_of_peer_def
        validator_set_def net_digest_def net_genesis_def demo_genesis_def demo_limits_def no_action_def)
  moreover have "ep_config net_episub = network_config net_genesis net_digest" "ep_banned net_episub = []"
    by (simp_all add: net_episub_def episub_new_def)
  ultimately show ?thesis
    using only_validators_heard [of demo_formats demo_zstd 0 "[5]" 0 no_action net_episub "ban_peer [5] 0 net_episub"
        net_genesis net_digest] by simp
qed

text \<open>
  A peer whose id is not that of an Ed25519 key stops the node: the admission check panics on every call of a
  peer whose digest does not have 36 bytes.
\<close>

theorem foreign_peer_panics:
  assumes "ep_config e = network_config g digest" and "length (digest p) \<noteq> 36" and "p \<notin> set (ep_banned e)"
  shows "inject_event f z now p conn r e = None"
  using assms by (simp add: inject_event_def network_config_def authorize_def pubkey_of_peer_def)

theorem foreign_peer_panics_witness:
  "inject_event demo_formats demo_zstd 0 [2] 0 no_action net_episub = None"
  using foreign_peer_panics [of net_episub net_genesis net_digest "[2]"]
  by (simp add: net_episub_def episub_new_def net_digest_def)

section \<open>From one validator to another\<close>

fun gossip_event :: "network_command \<Rightarrow> network_event option" where
  "gossip_event (Connect a) = None"
| "gossip_event (GossipMissing h) = Some (MissingBlock h)"
| "gossip_event (GossipBlock b) = Some (BlockReceived b)"
| "gossip_event (GossipVote v) = Some (VoteReceived v)"
| "gossip_event (GossipTransaction tx) = Some (TransactionReceived tx)"

definition zstd_ok :: "zstd \<Rightarrow> bool" where
  "zstd_ok z \<longleftrightarrow> (\<forall>l b x. z_encode z l b = Some x \<longrightarrow> z_decode z x = Some b)"

lemma topics_distinct:
  "vote_topic c \<noteq> block_topic c" "vote_topic c \<noteq> replay_topic c" "vote_topic c \<noteq> tx_topic c"
  "block_topic c \<noteq> replay_topic c" "block_topic c \<noteq> tx_topic c" "replay_topic c \<noteq> tx_topic c"
  by (simp_all add: vote_topic_def block_topic_def replay_topic_def tx_topic_def)

lemma translate_command:
  assumes "net_codec_ok k" and "command_message k chainid cmd = Some (topic, message)"
  shows "translate_message k chainid topic message = gossip_event cmd"
  using assms
  by (cases cmd) (auto simp: command_message_def translate_message_def net_codec_ok_def topics_distinct topics_distinct [symmetric])

text \<open>What publishing sends to an eager peer.\<close>

lemma publish_sends:
  assumes "episub_publish z now i topic message e = Inr (j, e')"
    and mesh: "map_of (ep_topics e) topic = Some m" "mesh_topic m = topic" "p \<in> set (pt_eager (tm_tree m))"
    and fresh: "cache_get i (pt_received (tm_tree m)) = None" "cache_get i (pt_observed (tm_tree m)) = None"
  obtains payload m' where "map_of (ep_topics e') topic = Some m'"
    "NotifyHandler p \<lparr>rpc_topic = topic, rpc_action = Some (Message i 1 payload)\<rparr> \<in> set (pt_out (tm_tree m'))"
    "if cf_enable_compression (ep_config e) then z_encode z (cf_compression_level (ep_config e)) message = Some payload
     else payload = message"
proof -
  obtain payload where payload: "(if cf_enable_compression (ep_config e) then z_encode z (cf_compression_level (ep_config e)) message
      else Some message) = Some payload"
    and e': "e' = e\<lparr>ep_topics := hm_insert topic (topic_publish now i payload m) (ep_topics e)\<rparr>"
    using assms(1) mesh(1) by (auto simp: episub_publish_def split: option.splits)
  show ?thesis
    by (rule that [of "topic_publish now i payload m" payload])
      (use payload e' mesh fresh in \<open>auto simp: map_of_hm_insert topic_publish_def on_tree_def tree_publish_def Let_def
          notify_simps record_message_def split: if_splits\<close>)
qed

lemma gossip_arrives:
  assumes "net_codec_ok k" and zip: "zstd_ok z"
    and cmd: "command_message k chainid cmd = Some (topic, message)" "on_command k z chainid now i cmd eA = Some eA'"
    and A: "map_of (ep_topics eA) topic = Some mA" "mesh_topic mA = topic" "pB \<in> set (pt_eager (tm_tree mA))"
      "cache_get i (pt_received (tm_tree mA)) = None" "cache_get i (pt_observed (tm_tree mA)) = None"
    and B: "map_of (ep_topics eB) topic = Some mB" "mesh_topic mB = topic" "pA \<notin> set (ep_banned eB)"
      "cf_authorizer (ep_config eB) topic pA = Some True" "cache_get i (pt_received (tm_tree mB)) = None"
      "cf_enable_compression (pt_config (tm_tree mB)) = cf_enable_compression (ep_config eA)"
  shows "\<exists>r mA' eB' mB' a.
    map_of (ep_topics eA') topic = Some mA' \<and> NotifyHandler pB r \<in> set (pt_out (tm_tree mA'))
    \<and> inject_event f z now' pA conn r eB = Some eB' \<and> map_of (ep_topics eB') topic = Some mB'
    \<and> a \<in> set (pt_out (tm_tree mB')) \<and> on_swarm_event k chainid a = gossip_event cmd"
proof -
  obtain j where "episub_publish z now i topic message eA = Inr (j, eA')"
    using cmd by (auto simp: on_command_def split: sum.splits)
  then obtain payload mA' where mA': "map_of (ep_topics eA') topic = Some mA'"
    "NotifyHandler pB \<lparr>rpc_topic = topic, rpc_action = Some (Message i 1 payload)\<rparr> \<in> set (pt_out (tm_tree mA'))"
    and payload: "if cf_enable_compression (ep_config eA) then z_encode z (cf_compression_level (ep_config eA)) message = Some payload
      else payload = message"
    using A by (rule publish_sends)
  let ?r = "\<lparr>rpc_topic = topic, rpc_action = Some (Message i 1 payload)\<rparr>"
  have out: "(if cf_enable_compression (pt_config (tm_tree mB)) then z_decode z payload else Some payload) = Some message"
    using payload zip B(6) by (auto simp: zstd_ok_def)
  have "inject_message z now' pA i 1 payload (tm_tree mB) \<noteq> None"
    using out B(5) by (simp add: inject_message_def Let_def records.insert_new split: option.splits)
  then obtain t where t: "inject_message z now' pA i 1 payload (tm_tree mB) = Some t" by blast
  have ev: "GenerateEvent (MessageEvent topic i message) \<in> set (pt_out t)"
    using t by (rule inject_messageE) (use B(2,5) out in \<open>auto split: if_splits\<close>)
  have "inject_event f z now' pA conn ?r eB = Some (eB\<lparr>ep_topics := hm_insert topic (mB\<lparr>tm_tree := t\<rparr>) (ep_topics eB)\<rparr>)"
    using B t by (simp add: inject_event_def inject_rpc_call_def)
  moreover have "on_swarm_event k chainid (GenerateEvent (MessageEvent topic i message)) = gossip_event cmd"
    using translate_command [OF assms(1) cmd(1)] by (simp add: on_swarm_event_def)
  ultimately show ?thesis
    using mA' ev by (intro exI [of _ ?r] exI [of _ mA'] exI [of _ "eB\<lparr>ep_topics := hm_insert topic (mB\<lparr>tm_tree := t\<rparr>) (ep_topics eB)\<rparr>"]
        exI [of _ "mB\<lparr>tm_tree := t\<rparr>"] exI [of _ "GenerateEvent (MessageEvent topic i message)"]) (simp add: map_of_hm_insert)
qed

text \<open>
  C15. What a validator gossips arrives: a block, vote, transaction or request that one node publishes is sent to
  each of its eager peers, and when the peer, subscribed and willing to hear the sender, gets it for the first time, the
  networking task of the peer hands exactly that block, vote, transaction or request to its validator.
\<close>

theorem gossip_delivers:
  assumes "net_codec_ok k" and zip: "zstd_ok z"
    and cmd: "command_message k chainid cmd = Some (topic, message)" "on_command k z chainid now i cmd eA = Some eA'"
    and A: "map_of (ep_topics eA) topic = Some mA" "mesh_topic mA = topic" "pB \<in> set (pt_eager (tm_tree mA))"
      "cache_get i (pt_received (tm_tree mA)) = None" "cache_get i (pt_observed (tm_tree mA)) = None"
    and B: "map_of (ep_topics eB) topic = Some mB" "mesh_topic mB = topic" "pA \<notin> set (ep_banned eB)"
      "cf_authorizer (ep_config eB) topic pA = Some True" "cache_get i (pt_received (tm_tree mB)) = None"
      "cf_enable_compression (pt_config (tm_tree mB)) = cf_enable_compression (ep_config eA)"
  shows "\<exists>r mA' eB' mB' a.
    map_of (ep_topics eA') topic = Some mA' \<and> NotifyHandler pB r \<in> set (pt_out (tm_tree mA'))
    \<and> inject_event f z now' pA conn r eB = Some eB' \<and> map_of (ep_topics eB') topic = Some mB'
    \<and> a \<in> set (pt_out (tm_tree mB')) \<and> on_swarm_event k chainid a = gossip_event cmd"
  using assms by (rule gossip_arrives)

definition demo_net_codec :: net_codec where
  "demo_net_codec =
     \<lparr>nt_block_to = fst c_produced, nt_block_from = (\<lambda>bs. map_option fst (snd c_produced bs)),
      nt_vote_to = fst c_vote, nt_vote_from = (\<lambda>bs. map_option fst (snd c_vote bs)),
      nt_tx_to = fst c_tx, nt_tx_from = (\<lambda>bs. map_option fst (snd c_tx bs)),
      nt_hash_to = (\<lambda>h. h), nt_hash_from = Some\<rparr>"

lemma demo_net_codec_ok: "net_codec_ok demo_net_codec"
  by (simp add: net_codec_ok_def demo_net_codec_def codec_ok_whole)

lemma demo_zstd_ok: "zstd_ok demo_zstd"
  by (auto simp: zstd_ok_def demo_zstd_def)

definition replay_mesh :: "peer_id \<Rightarrow> peer_id list \<Rightarrow> topic_mesh" where
  "replay_mesh p eager =
     on_tree (\<lambda>t. t\<lparr>pt_eager := eager\<rparr>) (topic_new (replay_topic ''x'') demo_net_config \<lparr>ap_id = p, ap_addresses = []\<rparr> 0 [])"

definition replay_node :: "peer_id \<Rightarrow> peer_id list \<Rightarrow> episub" where
  "replay_node p eager =
     (episub_new demo_net_config)\<lparr>ep_local := Some \<lparr>ap_id = p, ap_addresses = []\<rparr>, ep_topics := [(replay_topic ''x'', replay_mesh p eager)]\<rparr>"

lemma replay_node_simps:
  "map_of (ep_topics (replay_node p eager)) (replay_topic ''x'') = Some (replay_mesh p eager)"
  "mesh_topic (replay_mesh p eager) = replay_topic ''x''" "pt_eager (tm_tree (replay_mesh p eager)) = eager"
  "cache_get i (pt_received (tm_tree (replay_mesh p eager))) = None" "cache_get i (pt_observed (tm_tree (replay_mesh p eager))) = None"
  "pt_config (tm_tree (replay_mesh p eager)) = demo_net_config" "ep_config (replay_node p eager) = demo_net_config"
  "ep_banned (replay_node p eager) = []"
  by (simp_all add: replay_node_def replay_mesh_def episub_new_def topic_new_def plumtree_new_def cache_new_def cache_get_def on_tree_def)

theorem gossip_delivers_witness:
  "\<exists>eA' r mA' eB' mB' a.
     on_command demo_net_codec demo_zstd ''x'' 1 7 (GossipMissing [3]) (replay_node [1] [[2]]) = Some eA'
     \<and> map_of (ep_topics eA') (replay_topic ''x'') = Some mA' \<and> NotifyHandler [2] r \<in> set (pt_out (tm_tree mA'))
     \<and> inject_event demo_formats demo_zstd 2 [1] 0 r (replay_node [2] []) = Some eB'
     \<and> map_of (ep_topics eB') (replay_topic ''x'') = Some mB'
     \<and> a \<in> set (pt_out (tm_tree mB')) \<and> on_swarm_event demo_net_codec ''x'' a = Some (MissingBlock [3])"
proof -
  obtain eA' where A: "on_command demo_net_codec demo_zstd ''x'' 1 7 (GossipMissing [3]) (replay_node [1] [[2]]) = Some eA'"
    by (simp add: on_command_def command_message_def episub_publish_def replay_node_simps)
  have cmd: "command_message demo_net_codec ''x'' (GossipMissing [3]) = Some (replay_topic ''x'', [3])"
    by (simp add: command_message_def demo_net_codec_def)
  show ?thesis
    using gossip_delivers [OF demo_net_codec_ok demo_zstd_ok cmd A, of "replay_mesh [1] [[2]]" "[2]" "replay_node [2] []"
        "replay_mesh [2] []" "[1]" demo_formats 2 0] A by (simp add: replay_node_simps)
qed

text \<open>
  Nothing can be published before the node knows an address of its own: until then no topic is open, and the
  networking task panics on every command to gossip.
\<close>

theorem publish_without_address_panics:
  assumes "episub_run f z c now e" and "ep_local e = None" and "gossip_event cmd \<noteq> None"
  shows "on_command k z chainid now' i cmd e = None"
proof -
  have "ep_topics e = []" using episub_run_inv [OF assms(1)] assms(2) by (simp add: episub_inv_def)
  then show ?thesis using assms(3) by (cases cmd) (simp_all add: on_command_def command_message_def episub_publish_def)
qed

theorem publish_without_address_panics_witness:
  "on_command demo_net_codec demo_zstd ''x'' 1 7 (GossipMissing [3]) (episub_new demo_net_config) = None"
  using publish_without_address_panics [OF episub_start [of demo_formats demo_zstd demo_net_config 0], of "GossipMissing [3]"]
  by (simp add: episub_new_def)

definition early_topic :: topic where
  "early_topic = ''t''"

definition early_run :: "episub option" where
  "early_run =
     Option.bind (inject_connection_established demo_formats [5] 0 (Dialer []) (snd (subscribe 0 [] early_topic (episub_new demo_net_config))))
       (inject_event demo_formats demo_zstd 0 [5] 0 no_action)"

lemmas early_simps = early_run_def early_topic_def no_action_def inject_connection_established_def inject_event_def ban_peer_def
  force_disconnect_def ep_emit_def subscribe_def episub_new_def hs_insert_def hm_insert_def hm_remove_def

text \<open>
  A dialed peer can stop a node that does not know its own address yet: when it sends a call without an action it is banned and its
  address forgotten, but it stays in the list of peers to join; the next poll with a known address panics.
\<close>

theorem early_ban_panics:
  "\<exists>e. early_run = Some e
     \<and> episub_poll demo_formats 1 (\<lambda>_. []) \<lparr>pp_peer_id = [1], pp_external = [], pp_listened = [[Ip4 0x0A000001]]\<rparr> e = None"
  by (simp add: early_simps episub_poll_def update_local_node_info_def is_local_address_def open_pending_def
      request_join_for_starving_topics_def join_filter_def wants_join_def starved_def is_active_def min_active_view_size_def
      topic_new_def view_new_def Let_def)

section \<open>Connections\<close>

text \<open>
  C36. A connection loses nothing but oversized messages and reorders nothing: as long as the connection is not closed, polling the handler keeps
  the sequence of the messages that were sent, are being sent and are queued, except that messages which the codec refuses to
  encode under the size limit of the connection may be dropped from it; every other message stays, in order.
\<close>

theorem handler_keeps_messages:
  assumes "framed_ok io sent" and "encodes_with io k (eh_max_transmit_size h)" and "substream_open h"
    and poll: "handler_poll io h = Some (r, h')" and "\<And>e. r \<noteq> Ready (Close e)"
  shows "filter (fits k (eh_max_transmit_size h)) (in_flight sent h') = filter (fits k (eh_max_transmit_size h)) (in_flight sent h)
    \<and> subseq (in_flight sent h') (in_flight sent h) \<and> substream_open h'"
proof -
  obtain r1 h1 where r1: "process_inbound_poll io h = Some (r1, h1)"
    using poll by (auto simp: handler_poll_def split: option.splits)
  have h1: "in_flight sent h1 = in_flight sent h" "substream_open h1"
    using inbound_frame [OF r1] assms(3) by (auto simp: in_flight_def substream_open_def)
  show ?thesis
  proof (cases r1)
    case Pending
    then have "process_outbound_poll io h1 = Some (r, h')" using poll r1 by (simp add: handler_poll_def)
    then show ?thesis using outbound_keeps [OF assms(1,2) h1(2)] h1(1) assms(5) by (simp add: only_drops_def)
  next
    case (Ready ev)
    then show ?thesis using poll r1 h1 by (simp add: handler_poll_def)
  qed
qed

text \<open>A codec whose frames are the bytes, under a limit, and a substream over it that remembers what it sent.\<close>

definition small_codec :: frame_codec where
  "small_codec =
     \<lparr>fc_encode = (\<lambda>n bs. if length bs \<le> n then Some bs else None), fc_decode = (\<lambda>_ _. Inr None),
      pb_encode = (\<lambda>m. if rpc_action m = None then [1] else [1, 2, 3]), pb_decode = (\<lambda>_. None)\<rparr>"

definition small_framed :: "rpc list framed" where
  "small_framed =
     \<lparr>fr_poll_next = (\<lambda>s. (Pending, s)), fr_poll_ready = (\<lambda>s. (Ready None, s)),
      fr_start_send = (\<lambda>s m. case episub_encode small_codec 2 m [] of Inl e \<Rightarrow> (Some e, s) | Inr _ \<Rightarrow> (None, s @ [m])),
      fr_poll_flush = (\<lambda>s. (Ready None, s)), fr_poll_close = (\<lambda>s. (Ready None, s))\<rparr>"

definition demo_framed :: "rpc list framed" where
  "demo_framed = small_framed\<lparr>fr_start_send := \<lambda>s m. (None, s @ [m])\<rparr>"

definition large_message :: rpc where
  "large_message = no_action\<lparr>rpc_action := Some (Graft [])\<rparr>"

definition demo_handler :: "rpc list handler" where
  "demo_handler = fold handler_inject_event [no_action, large_message, no_action] (fully_negotiated_outbound [] (handler_new 2 False))"

theorem handler_keeps_messages_witness:
  "\<exists>h. handler_poll small_framed demo_handler = Some (Pending, h)
    \<and> in_flight (\<lambda>s. s) demo_handler = [no_action, large_message, no_action] \<and> in_flight (\<lambda>s. s) h = [no_action, no_action]
    \<and> filter (fits small_codec 2) (in_flight (\<lambda>s. s) h) = filter (fits small_codec 2) (in_flight (\<lambda>s. s) demo_handler)"
proof -
  have handler: "eh_max_transmit_size demo_handler = 2" "eh_outbound demo_handler = Some (WaitingOutput [])" "eh_inbound demo_handler = None"
      "eh_queue demo_handler = [no_action, large_message, no_action]"
    by (simp_all add: demo_handler_def handler_inject_event_def fully_negotiated_outbound_def handler_new_def)
  let ?h = "demo_handler\<lparr>eh_queue := [], eh_outbound := Some (WaitingOutput [no_action, no_action])\<rparr>"
  have poll: "handler_poll small_framed demo_handler = Some (Pending, ?h)"
    by (simp add: handler_poll_def process_inbound_poll_def handler)
      (simp add: process_outbound_poll.simps outbound_round_def small_framed_def episub_encode_def small_codec_def handler
        no_action_def large_message_def)
  have "framed_ok small_framed (\<lambda>s. s)" "encodes_with small_framed small_codec 2"
    by (auto simp: framed_ok_def encodes_with_def small_framed_def episub_encode_def small_codec_def split: sum.splits option.splits if_splits)
  moreover have "substream_open demo_handler" by (simp add: substream_open_def handler)
  ultimately have "filter (fits small_codec 2) (in_flight (\<lambda>s. s) ?h) = filter (fits small_codec 2) (in_flight (\<lambda>s. s) demo_handler)"
    using handler_keeps_messages [OF _ _ _ poll, of "\<lambda>s. s" small_codec] by (simp add: handler(1))
  then show ?thesis using poll by (intro exI [of _ ?h]) (simp add: in_flight_def handler)
qed

text \<open>
  A bad frame stops the connection task: when the inbound substream yields an error, for an oversized frame or
  bytes that are no call, polling the handler panics.
\<close>

theorem bad_frame_panics:
  assumes "eh_inbound h = Some (WaitingInput s)" and "fr_poll_next io s = (Ready (Some (Inl error)), s')"
  shows "handler_poll io h = None"
  using assms by (simp add: handler_poll_def process_inbound_poll_def)

theorem bad_frame_panics_witness:
  "handler_poll (demo_framed\<lparr>fr_poll_next := \<lambda>s. (Ready (Some (Inl MaxTransmissionSize)), s)\<rparr>)
     (fully_negotiated_inbound [] (handler_new 100 False)) = None"
  using bad_frame_panics [of "fully_negotiated_inbound [] (handler_new 100 False)" "[]"
      "demo_framed\<lparr>fr_poll_next := \<lambda>s. (Ready (Some (Inl MaxTransmissionSize)), s)\<rparr>" MaxTransmissionSize "[]"]
  by (simp add: fully_negotiated_inbound_def)

section \<open>Time ranges\<close>

lemma filter_range:
  assumes "a \<le> b" and "b \<le> length q" and "\<forall>i < length q. P (q ! i) \<longleftrightarrow> a \<le> i \<and> i < b"
  shows "filter P q = take (b - a) (drop a q)"
proof -
  have "filter P (take a q) = []"
    using assms by (auto simp: filter_empty_conv in_set_conv_nth)
  moreover have "filter P (drop b q) = []"
    using assms by (auto simp: filter_empty_conv in_set_conv_nth)
  moreover have "filter P (take (b - a) (drop a q)) = take (b - a) (drop a q)"
    using assms by (auto intro!: filter_True simp: in_set_conv_nth)
  moreover have "q = take a q @ take (b - a) (drop a q) @ drop b q"
    using assms(1) by (metis append_take_drop_id drop_drop le_add_diff_inverse2)
  ultimately show ?thesis by (metis append_Nil append_Nil2 filter_append)
qed

text \<open>
  The two binary searches of the message cache are a filter by time: on a well-formed cache, for a range that starts before it ends
  and meets no arrival exactly, the range is the items that arrived inside it, in order.
\<close>

theorem time_range_filters:
  assumes "cache_inv key lt now c" and "from < till" and "\<forall>(x, t) \<in> set (ec_by_time c). t \<noteq> from \<and> t \<noteq> till"
  shows "iter_range from till c = Some (map fst (filter (\<lambda>(x, t). from \<le> t \<and> t \<le> till) (ec_by_time c)))"
proof -
  let ?q = "ec_by_time c" and ?ts = "map snd (ec_by_time c)"
  have sorted: "sorted ?ts" using assms(1) by (simp add: cache_inv_def)
  define a where "a = binary_search ?ts from 0 (length ?ts)"
  define b where "b = binary_search ?ts till 0 (length ?ts)"
  note s = binary_search_all [OF sorted, of "from", folded a_def]
  note e = binary_search_all [OF sorted, of till, folded b_def]
  obtain xs where "iter_range from till c = Some xs" using iter_range_ordered [OF sorted assms(2)] by auto
  then have ab: "a \<le> b" and range: "iter_range from till c = Some (map fst (take (b - a) (drop a ?q)))"
    by (auto simp: iter_range_def Let_def a_def b_def split: if_splits)
  have "(case ?q ! i of (x, t) \<Rightarrow> from \<le> t \<and> t \<le> till) \<longleftrightarrow> a \<le> i \<and> i < b" if i: "i < length ?q" for i
  proof -
    have t: "?ts ! i = snd (?q ! i)" "snd (?q ! i) \<noteq> from" "snd (?q ! i) \<noteq> till"
      using i assms(3) nth_mem [OF i] by (auto simp: case_prod_unfold)
    have "a \<le> i \<longleftrightarrow> from \<le> snd (?q ! i)" using s i t by (metis length_map linorder_not_less order_antisym)
    moreover have "i < b \<longleftrightarrow> snd (?q ! i) \<le> till" using e i t by (metis length_map linorder_not_less order_antisym)
    ultimately show ?thesis by (simp add: case_prod_unfold)
  qed
  then have "filter (\<lambda>(x, t). from \<le> t \<and> t \<le> till) ?q = take (b - a) (drop a ?q)"
    using filter_range [OF ab] e by auto
  then show ?thesis using range by simp
qed

theorem time_range_filters_witness:
  "iter_range 0 5 (pt_received demo_A) = Some [\<lparr>mr_id = 7, mr_hop = 1, mr_sender = [2], mr_payload = [9]\<rparr>]"
proof -
  have "cache_inv mr_id record_less 2 (pt_received demo_A)" using demo_A_inv by (simp add: tree_inv_def)
  from time_range_filters [OF this, of 0 5] show ?thesis by (simp add: demo_A_simps)
qed

end
