(* ===== verification/Rensa_Rpc.thy ===== *)
theory Rensa_Rpc
  imports Rensa_Blockstore
begin

text \<open>
  \<open>src/rpc.rs\<close>: the handlers of the HTTP service. They read the block store and the accounts database and put transactions into a
  channel to the run loop.

  A request is served on one state of the databases. \<open>None\<close> is a panic or a request that never
  returns. The JSON form of transactions, votes, contract errors and the genesis, base58 and the parser of
  multihashes are parameters. A JSON object is a list of its fields; their order carries no meaning.
\<close>

section \<open>Shared state\<close>

record rpc_state =
  rs_accounts :: accounts_db
  rs_blocks :: block_store
  rs_genesis :: genesis
  rs_sent :: "transaction list"       \<comment> \<open>the channel to the run loop, oldest first\<close>
  rs_open :: bool                     \<comment> \<open>whether the receiver of the channel exists\<close>

datatype json = JNull | JNum nat | JStr string | JArr "json list" | JObj "(string \<times> json) list"

datatype status_code = OK | ACCEPTED | BAD_REQUEST | NOT_FOUND | INTERNAL_SERVER_ERROR

record rpc_params =
  rp_block_params :: "transaction list block_params"
  rp_blocks :: block_codec
  rp_accounts :: account_codec
  rp_b58 :: "bytes \<Rightarrow> string"
  rp_from_b58 :: "string \<Rightarrow> bytes option"
  rp_multihash :: "bytes \<Rightarrow> multihash option"
  rp_transaction :: "transaction \<Rightarrow> json"
  rp_vote :: "vote \<Rightarrow> json"
  rp_error :: "contract_error \<Rightarrow> json"
  rp_genesis :: "genesis \<Rightarrow> json"
  rp_version :: string

abbreviation rp_crypto :: "rpc_params \<Rightarrow> crypto" where
  "rp_crypto p \<equiv> bp_crypto (rp_block_params p)"

type_synonym response = "status_code \<times> json"

section \<open>Rendering\<close>

fun commitment_json :: "commitment \<Rightarrow> json" where
  "commitment_json Included = JStr ''Included''"
| "commitment_json Confirmed = JStr ''Confirmed''"
| "commitment_json Finalized = JStr ''Finalized''"

fun option_json :: "('a \<Rightarrow> json) \<Rightarrow> 'a option \<Rightarrow> json" where
  "option_json f None = JNull"
| "option_json f (Some x) = f x"

text \<open>\<open>collect::<IndexMap<_, _>>()\<close>: a later value of a key replaces the earlier one.\<close>

definition index_map :: "(string \<times> json) list \<Rightarrow> json" where
  "index_map kvs = JObj (fold (\<lambda>(k, v). hm_insert k v) kvs [])"

definition logs_json :: "(string \<times> string) list \<Rightarrow> json" where
  "logs_json logs = index_map (map (\<lambda>(k, v). (k, JStr v)) logs)"

section \<open>Transactions, blocks and information\<close>

definition serve_transaction :: "rpc_params \<Rightarrow> multihash \<Rightarrow> rpc_state \<Rightarrow> response option" where
  "serve_transaction p h s =
     (case bs_get_transaction (rp_blocks p) h (rs_blocks s) of
        None \<Rightarrow> None
      | Some (Some tx) \<Rightarrow> Some (OK, JObj
          [(''hash'', JStr (rp_b58 p (tx_hash (rp_crypto p) (et_transaction tx)))),
           (''block'', JNum (unat (et_block tx))),
           (''commitment'', option_json commitment_json (bs_get_block_commitment (et_block tx) (rs_blocks s))),
           (''transaction'', rp_transaction p (et_transaction tx)),
           (''output'', case et_output tx of
               Inl e \<Rightarrow> JObj [(''Err'', rp_error p e)]
             | Inr logs \<Rightarrow> JObj [(''Ok'', logs_json logs)])])
      | Some None \<Rightarrow> Some (NOT_FOUND, JObj [(''transaction'', JStr (rp_b58 p h)), (''error'', JStr ''not_found'')]))"

definition latest_info :: "rpc_params \<Rightarrow> commitment \<Rightarrow> rpc_state \<Rightarrow> u64 \<times> multihash" where
  "latest_info p commit s =
     (case bs_latest (rp_blocks p) commit (rs_blocks s) of
        Some b \<Rightarrow> (bl_height b, block_hash (rp_block_params p) b)
      | None \<Rightarrow> (0, genesis_hash (rp_crypto p) (rs_genesis s)))"

definition serve_info :: "rpc_params \<Rightarrow> rpc_state \<Rightarrow> json" where
  "serve_info p s =
     (let (fheight, fhash) = latest_info p Finalized s; (cheight, chash) = latest_info p Confirmed s
      in JObj
          [(''system'', JObj [(''name'', JStr ''Rensa''), (''version'', JStr (rp_version p))]),
           (''finalized'', JObj [(''height'', JNum (unat fheight)), (''block'', JStr (rp_b58 p fhash))]),
           (''confirmed'', JObj [(''height'', JNum (unat cheight)), (''block'', JStr (rp_b58 p chash))]),
           (''genesis'', rp_genesis p (rs_genesis s))])"

definition block_json :: "rpc_params \<Rightarrow> transaction list produced \<Rightarrow> json" where
  "block_json p b = JObj
     [(''parent'', JStr (rp_b58 p (bl_parent b))),
      (''state'', JStr (rp_b58 p (bl_state_hash b))),
      (''height'', JNum (unat (bl_height b))),
      (''hash'', JStr (rp_b58 p (block_hash (rp_block_params p) b))),
      (''producer'', JStr (rp_b58 p (fst (bl_signature b)))),
      (''signature'', JStr (rp_b58 p (snd (bl_signature b)))),
      (''votes'', JArr (map (rp_vote p) (bl_votes b))),
      (''transactions'', index_map (map (\<lambda>tx. (rp_b58 p (tx_hash (rp_crypto p) tx), rp_transaction p tx)) (bl_data b)))]"

definition serve_block :: "rpc_params \<Rightarrow> u64 \<Rightarrow> rpc_state \<Rightarrow> response option" where
  "serve_block p height s =
     (case bs_get_by_height (rp_blocks p) height (rs_blocks s) of
        None \<Rightarrow> None
      | Some (Some (block, commit)) \<Rightarrow> Some (OK, JObj
          [(''commitment'', commitment_json commit),
           (''block'', block_json p (ex_underlying block)),
           (''outputs'', index_map (map (\<lambda>(h, logs). (rp_b58 p h, logs_json logs)) (bo_logs (ex_output block)))),
           (''errors'', index_map (map (\<lambda>(h, e). (rp_b58 p h, rp_error p e)) (bo_errors (ex_output block))))])
      | Some None \<Rightarrow> Some (NOT_FOUND, JObj [(''error'', JStr ''not found'')]))"

section \<open>Accounts\<close>

definition lower_char :: "char \<Rightarrow> char" where
  "lower_char c = (let n = of_char c :: nat in if 65 \<le> n \<and> n \<le> 90 then char_of (n + 32) else c)"

definition extract_commitment :: "(string \<times> string) list \<Rightarrow> commitment" where
  "extract_commitment params =
     (case map_of params ''commitment'' of
        None \<Rightarrow> Finalized
      | Some v \<Rightarrow>
          let lower = map lower_char v
          in if lower = ''finalized'' then Finalized else if lower = ''confirmed'' then Confirmed else Finalized)"

text \<open>
  The loop of \<open>get_confirmed_account\<close>: the cursor moves only past a block that was found, so that a missing block is looked up
  again and again. \<open>None\<close> is that endless loop, or a panic of the block store.
\<close>

partial_function (option) walk_confirmed ::
    "block_codec \<Rightarrow> block_store \<Rightarrow> pubkey \<Rightarrow> u64 \<Rightarrow> u64 \<Rightarrow> account option option" where
  "walk_confirmed k s account fin cursor =
     (if cursor > fin
      then case bs_get_by_height k cursor s of
             None \<Rightarrow> None
           | Some None \<Rightarrow> walk_confirmed k s account fin cursor
           | Some (Some (block, _)) \<Rightarrow>
               (case executed_state block account of
                  Some acc \<Rightarrow> Some (Some acc)
                | None \<Rightarrow> walk_confirmed k s account fin (cursor - 1))
      else Some None)"

definition get_confirmed_account :: "rpc_params \<Rightarrow> pubkey \<Rightarrow> rpc_state \<Rightarrow> account option option" where
  "get_confirmed_account p account s =
     (case bs_latest (rp_blocks p) Finalized (rs_blocks s) of
        None \<Rightarrow> Some None
      | Some finalized \<Rightarrow>
          (case bs_latest (rp_blocks p) Confirmed (rs_blocks s) of
             None \<Rightarrow> Some None
           | Some latest \<Rightarrow>
               walk_confirmed (rp_blocks p) (rs_blocks s) account (bl_height finalized) (bl_height latest)))"

definition account_response :: "rpc_params \<Rightarrow> pubkey \<Rightarrow> account \<Rightarrow> commitment \<Rightarrow> response" where
  "account_response p account acc commit = (OK, JObj
     [(''account'', JObj
        [(''address'', JStr (rp_b58 p account)),
         (''nonce'', JNum (unat (acc_nonce acc))),
         (''owner'', option_json (\<lambda>ow. JStr (rp_b58 p ow)) (acc_owner acc)),
         (''data'', option_json (\<lambda>d. JStr (rp_b58 p d)) (acc_data acc))]),
      (''commitment'', commitment_json commit)])"

definition serve_account :: "rpc_params \<Rightarrow> pubkey \<Rightarrow> (string \<times> string) list \<Rightarrow> rpc_state \<Rightarrow> response option" where
  "serve_account p account params s =
     (let commit = extract_commitment params;
          finalized = (case persistent_get (rp_accounts p) (rs_accounts s) account of
              None \<Rightarrow> None
            | Some (Some acc) \<Rightarrow> Some (account_response p account acc Finalized)
            | Some None \<Rightarrow> Some (NOT_FOUND, JObj [(''account'', JStr (rp_b58 p account)), (''error'', JStr ''not_found'')]))
      in if commit = Confirmed
         then case get_confirmed_account p account s of
                None \<Rightarrow> None
              | Some (Some acc) \<Rightarrow> Some (account_response p account acc Confirmed)
              | Some None \<Rightarrow> finalized
         else finalized)"

section \<open>Sending transactions\<close>

fun transaction_error_string :: "transaction_error \<Rightarrow> string" where
  "transaction_error_string TooManyAccounts = ''The transaction is referencing too many accounts''"
| "transaction_error_string ParamsTooBig = ''The transaction's params blob is too big''"

text \<open>The nonce of a payer, from the confirmed blocks or else the accounts database.\<close>

definition known_nonce :: "rpc_params \<Rightarrow> pubkey \<Rightarrow> rpc_state \<Rightarrow> u64 option" where
  "known_nonce p payer s =
     (case get_confirmed_account p payer s of
        None \<Rightarrow> None
      | Some (Some acc) \<Rightarrow> Some (acc_nonce acc)
      | Some None \<Rightarrow>
          map_option (\<lambda>r. case r of Some acc \<Rightarrow> acc_nonce acc | None \<Rightarrow> 0)
            (persistent_get (rp_accounts p) (rs_accounts s) payer))"

text \<open>The entry of the payer in the table of expected nonces is advanced for every transaction that gets this far.\<close>

definition expected_nonce :: "rpc_params \<Rightarrow> rpc_state \<Rightarrow> (pubkey, u64) hash_map \<Rightarrow> pubkey \<Rightarrow> u64 option" where
  "expected_nonce p s nonces payer =
     (case map_of nonces payer of
        Some known \<Rightarrow> Some (known + 1)
      | None \<Rightarrow> map_option (\<lambda>n. n + 1) (known_nonce p payer s))"

type_synonym sending = "(string \<times> string) list \<times> (pubkey, u64) hash_map \<times> rpc_state"

text \<open>One round of the loop; \<open>Inl\<close> is the early return when the channel is closed.\<close>

definition send_one :: "rpc_params \<Rightarrow> transaction \<Rightarrow> sending \<Rightarrow> (unit + sending) option" where
  "send_one p tx st =
     (case st of (outputs, nonces, s) \<Rightarrow>
        let h = rp_b58 p (tx_hash (rp_crypto p) tx)
        in case tx_verify_limits tx (g_limits (rs_genesis s)) of
             Inl e \<Rightarrow> Some (Inr (outputs @ [(h, transaction_error_string e)], nonces, s))
           | Inr _ \<Rightarrow>
               (case tx_verify_signatures (rp_crypto p) tx of
                  Inl e \<Rightarrow> Some (Inr (outputs @ [(h, signature_error_string e)], nonces, s))
                | Inr _ \<Rightarrow>
                    (case expected_nonce p s nonces (tx_payer tx) of
                       None \<Rightarrow> None
                     | Some expected \<Rightarrow>
                         let nonces' = hm_insert (tx_payer tx) expected nonces
                         in if tx_nonce tx \<noteq> expected
                            then Some (Inr (outputs @ [(h, ''invalid nonce. expected '' @ show_u64 expected
                                   @ '', found '' @ show_u64 (tx_nonce tx))], nonces', s))
                            else if \<not> rs_open s then Some (Inl ())
                            else Some (Inr (outputs @ [(h, ''ok'')], nonces', s\<lparr>rs_sent := rs_sent s @ [tx]\<rparr>)))))"

primrec send_all :: "rpc_params \<Rightarrow> transaction list \<Rightarrow> sending \<Rightarrow> (unit + sending) option" where
  "send_all p [] st = Some (Inr st)"
| "send_all p (tx # txs) st =
     (case send_one p tx st of
        None \<Rightarrow> None
      | Some (Inl u) \<Rightarrow> Some (Inl u)
      | Some (Inr st') \<Rightarrow> send_all p txs st')"

text \<open>The receiver lives as long as the run loop, so that a closed channel takes no transaction of the request.\<close>

definition serve_send_transactions :: "rpc_params \<Rightarrow> transaction list \<Rightarrow> rpc_state \<Rightarrow> (response \<times> rpc_state) option" where
  "serve_send_transactions p txs s =
     (case send_all p txs ([], [], s) of
        None \<Rightarrow> None
      | Some (Inl _) \<Rightarrow> Some ((INTERNAL_SERVER_ERROR, JObj [(''error'', JStr ''channel closed'')]), s)
      | Some (Inr (outputs, _, s')) \<Rightarrow>
          Some ((ACCEPTED, JArr (map (\<lambda>(h, res). JObj [(h, JStr res)]) outputs)), s'))"

text \<open>\<open>TransactionHash::from_str\<close>\<close>

definition transaction_hash_from_str :: "rpc_params \<Rightarrow> string \<Rightarrow> status_code + multihash" where
  "transaction_hash_from_str p t =
     (case rp_from_b58 p t of
        None \<Rightarrow> Inl BAD_REQUEST
      | Some b \<Rightarrow> (case rp_multihash p b of None \<Rightarrow> Inl BAD_REQUEST | Some h \<Rightarrow> Inr h))"

text \<open>\<open>ApiService::poll_next\<close>: the next transaction for the run loop.\<close>

definition api_poll :: "rpc_state \<Rightarrow> transaction option \<times> rpc_state" where
  "api_poll s = (case rs_sent s of [] \<Rightarrow> (None, s) | tx # rest \<Rightarrow> (Some tx, s\<lparr>rs_sent := rest\<rparr>))"

section \<open>The confirmed state\<close>

text \<open>The blocks above a finalized height, oldest first.\<close>

definition stored_run :: "block_codec \<Rightarrow> block_store \<Rightarrow> u64 \<Rightarrow> transaction list executed list \<Rightarrow> bool" where
  "stored_run k s fin blocks \<longleftrightarrow> unat fin + length blocks < 2 ^ 64
     \<and> (\<forall>i < length blocks. \<exists>commit. bs_get_by_height k (fin + of_nat (Suc i)) s = Some (Some (blocks ! i, commit)))"

lemma stored_run_snoc:
  "stored_run k s fin (blocks @ [b]) \<longleftrightarrow> stored_run k s fin blocks \<and> unat fin + Suc (length blocks) < 2 ^ 64
     \<and> (\<exists>commit. bs_get_by_height k (fin + of_nat (Suc (length blocks))) s = Some (Some (b, commit)))"
  by (auto simp: stored_run_def less_Suc_eq nth_append)

lemma unat_plus_small: "unat fin + n < 2 ^ 64 \<Longrightarrow> unat (fin + of_nat n :: u64) = unat fin + n"
  by (simp add: unat_word_ariths unsigned_of_nat take_bit_nat_def)

lemma above_less:
  assumes "unat (fin :: u64) + Suc n < 2 ^ 64"
  shows "fin < fin + of_nat (Suc n)"
  using unat_plus_small [OF assms] by (simp only: word_less_nat_alt)

text \<open>The walk from the newest block down finds what the overlay of all blocks shows.\<close>

lemma walk_overlay:
  assumes "stored_run k s fin blocks"
  shows "walk_confirmed k s account fin (fin + of_nat (length blocks))
    = Some (foldl overlayed_get (\<lambda>_. None) (map executed_state blocks) account)"
  using assms
proof (induction blocks rule: rev_induct)
  case Nil
  show ?case by (subst walk_confirmed.simps) simp
next
  case (snoc b blocks)
  then obtain commit where run: "stored_run k s fin blocks" and small: "unat fin + Suc (length blocks) < 2 ^ 64"
    and b: "bs_get_by_height k (fin + of_nat (Suc (length blocks))) s = Some (Some (b, commit))"
    by (auto simp: stored_run_snoc)
  have step: "fin + of_nat (Suc (length blocks)) - 1 = fin + of_nat (length blocks)" by simp
  show ?case
    using snoc.IH [OF run] b above_less [OF small] step
    by (subst walk_confirmed.simps) (simp add: overlayed_get_def [of _ "executed_state b"] split: option.split)
qed

lemma foldl_overlayed:
  "foldl overlayed_get base views account =
     (case foldl overlayed_get (\<lambda>_. None) views account of None \<Rightarrow> base account | Some acc \<Rightarrow> Some acc)"
proof (induction views rule: rev_induct)
  case (snoc v views)
  then show ?case by (simp add: overlayed_get_def split: option.split)
qed simp

text \<open>A missing block below blocks that do not have the account is never passed.\<close>

definition walk_blocked :: "block_codec \<Rightarrow> block_store \<Rightarrow> pubkey \<Rightarrow> u64 \<Rightarrow> u64 \<Rightarrow> bool" where
  "walk_blocked k s account fin cursor \<longleftrightarrow>
     (\<exists>h. fin < h \<and> h \<le> cursor \<and> bs_get_by_height k h s = Some None
        \<and> (\<forall>h'. h < h' \<and> h' \<le> cursor \<longrightarrow>
             (\<exists>b commit. bs_get_by_height k h' s = Some (Some (b, commit)) \<and> executed_state b account = None)))"

lemma walk_blocked_step:
  assumes "walk_blocked k s account fin cursor"
  obtains "cursor > fin" "bs_get_by_height k cursor s = Some None"
  | b commit where "cursor > fin" "bs_get_by_height k cursor s = Some (Some (b, commit))" "executed_state b account = None"
      "walk_blocked k s account fin (cursor - 1)"
proof -
  obtain h where h: "fin < h" "h \<le> cursor" "bs_get_by_height k h s = Some None"
    "\<And>h'. h < h' \<Longrightarrow> h' \<le> cursor \<Longrightarrow>
       \<exists>b commit. bs_get_by_height k h' s = Some (Some (b, commit)) \<and> executed_state b account = None"
    using assms unfolding walk_blocked_def by blast
  show thesis
  proof (cases "h = cursor")
    case True
    then show thesis using h that(1) by simp
  next
    case False
    then have less: "h < cursor" using h(2) by simp
    then have pos: "0 < unat cursor" by (simp add: word_less_nat_alt)
    then have "unat (cursor - 1) = unat cursor - 1" by (simp add: unat_sub word_le_nat_alt)
    then have le: "h' \<le> cursor - 1 \<longleftrightarrow> h' < cursor" for h' using pos by (simp add: word_le_nat_alt word_less_nat_alt) linarith
    obtain b commit where "bs_get_by_height k cursor s = Some (Some (b, commit))" "executed_state b account = None"
      using h(4) [of cursor] less by auto
    moreover have "walk_blocked k s account fin (cursor - 1)"
      unfolding walk_blocked_def using h less le by (meson order_less_imp_le)
    ultimately show thesis using that(2) h(1) less by simp
  qed
qed

lemma walk_stuck: "walk_confirmed k s account fin cursor = Some r \<Longrightarrow> \<not> walk_blocked k s account fin cursor"
proof (erule walk_confirmed.raw_induct [where P = "\<lambda>k s account fin cursor r. \<not> walk_blocked k s account fin cursor", rotated])
  fix walk k s account fin cursor r
  assume IH: "\<And>k s account fin cursor r. walk k s account fin cursor = Some r \<Longrightarrow> \<not> walk_blocked k s account fin cursor"
    and body: "(if fin < cursor
      then case bs_get_by_height k cursor s of
             None \<Rightarrow> None
           | Some None \<Rightarrow> walk k s account fin cursor
           | Some (Some (block, _)) \<Rightarrow>
               (case executed_state block account of
                  Some acc \<Rightarrow> Some (Some acc)
                | None \<Rightarrow> walk k s account fin (cursor - 1))
      else Some None) = Some r"
  show "\<not> walk_blocked k s account fin cursor"
  proof
    assume blocked: "walk_blocked k s account fin cursor"
    then show False by (cases rule: walk_blocked_step) (use blocked IH body in auto)
  qed
qed

section \<open>Batches of transactions\<close>

text \<open>
  What a batch means: a transaction that passes the checks is accepted when its nonce is the known nonce of its payer plus
  one, plus the number of transactions of the payer that passed the checks earlier in the batch.
\<close>

definition tx_checked :: "rpc_params \<Rightarrow> rpc_state \<Rightarrow> transaction \<Rightarrow> bool" where
  "tx_checked p s tx \<longleftrightarrow>
     tx_verify_limits tx (g_limits (rs_genesis s)) = Inr () \<and> tx_verify_signatures (rp_crypto p) tx = Inr ()"

definition earlier :: "rpc_params \<Rightarrow> rpc_state \<Rightarrow> transaction list \<Rightarrow> pubkey \<Rightarrow> nat" where
  "earlier p s pre payer = length (filter (\<lambda>t. tx_checked p s t \<and> tx_payer t = payer) pre)"

definition tx_accepted :: "rpc_params \<Rightarrow> rpc_state \<Rightarrow> transaction list \<Rightarrow> transaction \<Rightarrow> bool" where
  "tx_accepted p s pre tx \<longleftrightarrow> tx_checked p s tx
     \<and> (\<exists>n. known_nonce p (tx_payer tx) s = Some n \<and> tx_nonce tx = n + 1 + of_nat (earlier p s pre (tx_payer tx)))"

definition nonces_ok :: "rpc_params \<Rightarrow> rpc_state \<Rightarrow> transaction list \<Rightarrow> (pubkey, u64) hash_map \<Rightarrow> bool" where
  "nonces_ok p s pre nonces \<longleftrightarrow>
     (\<forall>payer. map_of nonces payer =
        (if earlier p s pre payer = 0 then None
         else map_option (\<lambda>n. n + of_nat (earlier p s pre payer)) (known_nonce p payer s)))"

lemma nonces_ok_start: "nonces_ok p s [] []"
  by (simp add: nonces_ok_def earlier_def)

lemma get_confirmed_sent [simp]: "get_confirmed_account p payer (s\<lparr>rs_sent := q\<rparr>) = get_confirmed_account p payer s"
  by (simp add: get_confirmed_account_def cong: option.case_cong)

lemma known_nonce_sent [simp]: "known_nonce p payer (s\<lparr>rs_sent := q\<rparr>) = known_nonce p payer s"
  by (simp add: known_nonce_def cong: option.case_cong)

lemma expected_nonce_sent [simp]: "expected_nonce p (s\<lparr>rs_sent := q\<rparr>) nonces payer = expected_nonce p s nonces payer"
  by (simp add: expected_nonce_def cong: option.case_cong)

lemma earlier_snoc:
  "earlier p s (pre @ [tx]) payer = earlier p s pre payer + (if tx_checked p s tx \<and> tx_payer tx = payer then 1 else 0)"
  by (simp add: earlier_def)

lemma expected_nonce_ok:
  assumes "nonces_ok p s pre nonces" and "known_nonce p payer s = Some n"
  shows "expected_nonce p s nonces payer = Some (n + 1 + of_nat (earlier p s pre payer))"
  using assms by (simp add: expected_nonce_def nonces_ok_def add_ac)

lemma nonces_ok_skip: "nonces_ok p s pre nonces \<Longrightarrow> \<not> tx_checked p s tx \<Longrightarrow> nonces_ok p s (pre @ [tx]) nonces"
  by (simp add: nonces_ok_def earlier_snoc)

lemma nonces_ok_checked:
  assumes "nonces_ok p s pre nonces" and "tx_checked p s tx" and "known_nonce p (tx_payer tx) s = Some n"
  shows "nonces_ok p s (pre @ [tx]) (hm_insert (tx_payer tx) (n + 1 + of_nat (earlier p s pre (tx_payer tx))) nonces)"
  using assms by (auto simp: nonces_ok_def earlier_snoc map_of_hm_insert add_ac)

lemma not_ok [simp]: "transaction_error_string e \<noteq> ''ok''" "signature_error_string e' \<noteq> ''ok''"
  by (cases e; simp) (cases e'; simp)

lemma send_one_ok:
  assumes "nonces_ok p s pre nonces" and "rs_open s" and "known_nonce p (tx_payer tx) s \<noteq> None"
  obtains r nonces' where
    "send_one p tx (outs, nonces, s\<lparr>rs_sent := q\<rparr>) =
       Some (Inr (outs @ [(rp_b58 p (tx_hash (rp_crypto p) tx), r)], nonces',
         s\<lparr>rs_sent := q @ (if tx_accepted p s pre tx then [tx] else [])\<rparr>))"
    and "r = ''ok'' \<longleftrightarrow> tx_accepted p s pre tx" and "nonces_ok p s (pre @ [tx]) nonces'"
proof (cases "tx_checked p s tx")
  case False
  then have "\<exists>r. send_one p tx (outs, nonces, s\<lparr>rs_sent := q\<rparr>) =
      Some (Inr (outs @ [(rp_b58 p (tx_hash (rp_crypto p) tx), r)], nonces, s\<lparr>rs_sent := q\<rparr>)) \<and> r \<noteq> ''ok''"
    by (cases "tx_verify_limits tx (g_limits (rs_genesis s))"; cases "tx_verify_signatures (rp_crypto p) tx")
      (auto simp: tx_checked_def send_one_def)
  then obtain r where "send_one p tx (outs, nonces, s\<lparr>rs_sent := q\<rparr>) =
      Some (Inr (outs @ [(rp_b58 p (tx_hash (rp_crypto p) tx), r)], nonces, s\<lparr>rs_sent := q\<rparr>))" "r \<noteq> ''ok''" by blast
  then show thesis using that [of r nonces] nonces_ok_skip [OF assms(1) False] False by (simp add: tx_accepted_def)
next
  case True
  obtain n where n: "known_nonce p (tx_payer tx) s = Some n" using assms(3) by blast
  define e where "e = n + 1 + of_nat (earlier p s pre (tx_payer tx))"
  have acc: "tx_accepted p s pre tx \<longleftrightarrow> tx_nonce tx = e" using True n by (simp add: tx_accepted_def e_def)
  have exp: "expected_nonce p s nonces (tx_payer tx) = Some e" using expected_nonce_ok [OF assms(1) n] by (simp add: e_def)
  have "nonces_ok p s (pre @ [tx]) (hm_insert (tx_payer tx) e nonces)"
    using nonces_ok_checked [OF assms(1) True n] by (simp add: e_def)
  then show thesis
    using True assms(2) acc exp
    by (intro that [of "if tx_nonce tx = e then ''ok'' else ''invalid nonce. expected '' @ show_u64 e @ '', found '' @ show_u64 (tx_nonce tx)"
          "hm_insert (tx_payer tx) e nonces"])
      (auto simp: send_one_def tx_checked_def Let_def)
qed

lemma filter_upt_Suc: "filter P [0..<Suc n] = (if P 0 then [0] else []) @ map Suc (filter (\<lambda>i. P (Suc i)) [0..<n])"
proof -
  have "[0..<Suc n] = 0 # map Suc [0..<n]" by (simp add: map_Suc_upt upt_conv_Cons del: upt_Suc)
  then show ?thesis by (simp add: filter_map comp_def)
qed

lemma send_all_ok:
  assumes "nonces_ok p s pre nonces" and "rs_open s" and "\<forall>tx \<in> set txs. known_nonce p (tx_payer tx) s \<noteq> None"
  shows "\<exists>rs nonces'. send_all p txs (outs, nonces, s\<lparr>rs_sent := q\<rparr>) =
      Some (Inr (outs @ map2 (\<lambda>tx r. (rp_b58 p (tx_hash (rp_crypto p) tx), r)) txs rs, nonces',
        s\<lparr>rs_sent := q @ map ((!) txs) (filter (\<lambda>i. tx_accepted p s (pre @ take i txs) (txs ! i)) [0..<length txs])\<rparr>))
    \<and> length rs = length txs
    \<and> (\<forall>i < length txs. rs ! i = ''ok'' \<longleftrightarrow> tx_accepted p s (pre @ take i txs) (txs ! i))"
  using assms(1,3)
proof (induction txs arbitrary: pre nonces outs q)
  case (Cons tx txs)
  have kn: "known_nonce p (tx_payer tx) s \<noteq> None" using Cons.prems(2) by simp
  obtain r nonces1 where one:
    "send_one p tx (outs, nonces, s\<lparr>rs_sent := q\<rparr>) =
       Some (Inr (outs @ [(rp_b58 p (tx_hash (rp_crypto p) tx), r)], nonces1,
         s\<lparr>rs_sent := q @ (if tx_accepted p s pre tx then [tx] else [])\<rparr>))"
    "r = ''ok'' \<longleftrightarrow> tx_accepted p s pre tx" "nonces_ok p s (pre @ [tx]) nonces1"
    by (rule send_one_ok [OF Cons.prems(1) assms(2) kn])
  obtain rs nonces2 where rest: "send_all p txs (outs @ [(rp_b58 p (tx_hash (rp_crypto p) tx), r)], nonces1,
        s\<lparr>rs_sent := q @ (if tx_accepted p s pre tx then [tx] else [])\<rparr>) =
      Some (Inr ((outs @ [(rp_b58 p (tx_hash (rp_crypto p) tx), r)])
          @ map2 (\<lambda>tx r. (rp_b58 p (tx_hash (rp_crypto p) tx), r)) txs rs, nonces2,
        s\<lparr>rs_sent := (q @ (if tx_accepted p s pre tx then [tx] else []))
          @ map ((!) txs) (filter (\<lambda>i. tx_accepted p s ((pre @ [tx]) @ take i txs) (txs ! i)) [0..<length txs])\<rparr>))"
    "length rs = length txs"
    "\<forall>i < length txs. rs ! i = ''ok'' \<longleftrightarrow> tx_accepted p s ((pre @ [tx]) @ take i txs) (txs ! i)"
    using Cons.IH [OF one(3), of "outs @ [(rp_b58 p (tx_hash (rp_crypto p) tx), r)]"
        "q @ (if tx_accepted p s pre tx then [tx] else [])"] Cons.prems(2) by auto
  have "\<forall>i < length (tx # txs). (r # rs) ! i = ''ok'' \<longleftrightarrow> tx_accepted p s (pre @ take i (tx # txs)) ((tx # txs) ! i)"
    using rest(3) one(2) by (auto simp: nth_Cons split: nat.split)
  moreover have "map ((!) (tx # txs)) (filter (\<lambda>i. tx_accepted p s (pre @ take i (tx # txs)) ((tx # txs) ! i)) [0..<length (tx # txs)])
      = (if tx_accepted p s pre tx then [tx] else [])
        @ map ((!) txs) (filter (\<lambda>i. tx_accepted p s ((pre @ [tx]) @ take i txs) (txs ! i)) [0..<length txs])"
    by (simp add: filter_upt_Suc del: upt_Suc)
  ultimately show ?case
    using one(1) rest(1,2) by (intro exI [of _ "r # rs"] exI [of _ nonces2]) (simp del: upt_Suc)
qed simp

end
