(* ===== verification/Rensa_Dbsync.thy ===== *)
theory Rensa_Dbsync
  imports Rensa_Producer
begin

text \<open>
  \<open>src/dbsync/mod.rs\<close>: the consumer that copies confirmed and finalized blocks to an external SQL database.

  The database engine is a parameter: each of its operations returns an error or goes on. Base58 and the text of the current time are
  parameters too. A database transaction that is dropped without a commit leaves the database as it was.
\<close>

section \<open>Statements\<close>

type_synonym b58 = "bytes \<Rightarrow> string"

text \<open>A string between single quotes.\<close>

definition quoted :: "string \<Rightarrow> string" where
  "quoted t = CHR 0x27 # t @ [CHR 0x27]"

definition sql_values :: "string list \<Rightarrow> string" where
  "sql_values vs = (case vs of [] \<Rightarrow> '''' | v # rest \<Rightarrow> v @ concat (map (\<lambda>w. '', '' @ w) rest))"

definition insert_into :: "string \<Rightarrow> string list \<Rightarrow> string" where
  "insert_into table vs = ''INSERT INTO '' @ table @ '' VALUES ('' @ sql_values vs @ '')''"

definition flag :: "bool \<Rightarrow> string" where
  "flag b = (if b then ''1'' else ''0'')"

fun show_commitment :: "commitment \<Rightarrow> string" where
  "show_commitment Included = ''Included''"
| "show_commitment Confirmed = ''Confirmed''"
| "show_commitment Finalized = ''Finalized''"

text \<open>\<open>block_header_stmt\<close>; \<open>None\<close> is the \<open>unreachable!\<close>.\<close>

fun block_header_stmt ::
    "transaction list block_params \<Rightarrow> b58 \<Rightarrow> string \<Rightarrow> transaction list produced \<Rightarrow> commitment \<Rightarrow> string option" where
  "block_header_stmt p b58 now b Included = None"
| "block_header_stmt p b58 now b Confirmed = Some (insert_into ''block''
     [show_u64 (bl_height b), quoted (b58 (block_hash p b)), quoted (b58 (bl_parent b)),
      quoted (b58 (fst (bl_signature b))), quoted (b58 (snd (bl_signature b))), quoted (b58 (bl_state_hash b)),
      quoted (show_commitment Confirmed), quoted now])"
| "block_header_stmt p b58 now b Finalized =
     Some (''UPDATE block SET commitment = '' @ quoted (show_commitment Finalized) @ '' WHERE height = '' @ show_u64 (bl_height b))"

definition transaction_stmt :: "crypto \<Rightarrow> b58 \<Rightarrow> transaction list produced \<Rightarrow> transaction \<Rightarrow> nat \<Rightarrow> string" where
  "transaction_stmt c b58 b tx pos = insert_into ''transaction''
     [quoted (b58 (tx_hash c tx)), show_u64 (bl_height b), quoted (b58 (tx_contract tx)), show_u64 (tx_nonce tx),
      quoted (b58 (tx_params tx)), quoted (b58 (tx_payer tx)), show_nat pos]"

definition transaction_account_stmt :: "crypto \<Rightarrow> b58 \<Rightarrow> transaction \<Rightarrow> account_ref \<Rightarrow> nat \<Rightarrow> string" where
  "transaction_account_stmt c b58 tx acc pos = insert_into ''transaction_accounts''
     [quoted (b58 (tx_hash c tx)), quoted (b58 (ref_address acc)), flag (ref_signer acc), flag (ref_writable acc), show_nat pos]"

definition transaction_signature_stmt :: "crypto \<Rightarrow> b58 \<Rightarrow> transaction \<Rightarrow> signature \<Rightarrow> nat \<Rightarrow> string" where
  "transaction_signature_stmt c b58 tx sig pos = insert_into ''transaction_signatures''
     [quoted (b58 (tx_hash c tx)), quoted (b58 sig), show_nat pos]"

definition transaction_output_stmt :: "crypto \<Rightarrow> b58 \<Rightarrow> transaction \<Rightarrow> string \<times> string \<Rightarrow> nat \<Rightarrow> string" where
  "transaction_output_stmt c b58 tx kv pos = insert_into ''transaction_logs''
     [quoted (b58 (tx_hash c tx)), quoted (fst kv), quoted (snd kv), show_nat pos]"

definition transaction_error_stmt :: "crypto \<Rightarrow> b58 \<Rightarrow> transaction \<Rightarrow> string \<Rightarrow> string" where
  "transaction_error_stmt c b58 tx error = insert_into ''transaction_errors'' [quoted (b58 (tx_hash c tx)), quoted error]"

fun state_diff_stmt :: "b58 \<Rightarrow> transaction list produced \<Rightarrow> pubkey \<Rightarrow> account option \<Rightarrow> nat \<Rightarrow> string" where
  "state_diff_stmt b58 b account (Some acc) pos = insert_into ''state_diff''
     [show_u64 (bl_height b), quoted (b58 account),
      (case acc_data acc of None \<Rightarrow> ''NULL'' | Some d \<Rightarrow> quoted (b58 d)), show_u64 (acc_nonce acc),
      (case acc_owner acc of None \<Rightarrow> ''NULL'' | Some ow \<Rightarrow> quoted (b58 ow)), flag (acc_executable acc), ''0'', show_nat pos]"
| "state_diff_stmt b58 b account None pos = insert_into ''state_diff''
     [show_u64 (bl_height b), quoted (b58 account), ''NULL'', ''NULL'', ''NULL'', ''0'', ''1'', show_nat pos]"

definition vote_stmt :: "b58 \<Rightarrow> transaction list produced \<Rightarrow> vote \<Rightarrow> nat \<Rightarrow> string" where
  "vote_stmt b58 b v pos = insert_into ''vote''
     [show_u64 (bl_height b), quoted (b58 (vote_target v)), quoted (b58 (vote_justification v)),
      quoted (b58 (vote_validator v)), quoted (b58 (vote_signature v)), show_nat pos]"

section \<open>Synchronizing a block\<close>

text \<open>\<open>iter().enumerate()\<close>, with a statement for every element.\<close>

definition enumerated :: "('a \<Rightarrow> nat \<Rightarrow> string) \<Rightarrow> 'a list \<Rightarrow> string list" where
  "enumerated f xs = map (\<lambda>(i, x). f x i) (enumerate 0 xs)"

text \<open>The statements of one transaction of a block: itself, its accounts, its signatures, its logs or its error.\<close>

definition transaction_stmts :: "crypto \<Rightarrow> b58 \<Rightarrow> transaction list executed \<Rightarrow> transaction \<Rightarrow> nat \<Rightarrow> string list" where
  "transaction_stmts c b58 e tx i =
     transaction_stmt c b58 (ex_underlying e) tx i
     # enumerated (transaction_account_stmt c b58 tx) (tx_accounts tx)
     @ enumerated (transaction_signature_stmt c b58 tx) (tx_signatures tx)
     @ (case map_of (bo_logs (ex_output e)) (tx_hash c tx) of
          Some outputs \<Rightarrow> enumerated (transaction_output_stmt c b58 tx) outputs
        | None \<Rightarrow>
            (case map_of (bo_errors (ex_output e)) (tx_hash c tx) of
               Some error \<Rightarrow> [transaction_error_stmt c b58 tx (contract_error_string error)]
             | None \<Rightarrow> []))"

definition block_data_stmts :: "crypto \<Rightarrow> b58 \<Rightarrow> transaction list executed \<Rightarrow> string list" where
  "block_data_stmts c b58 e =
     concat (map (\<lambda>(i, tx). transaction_stmts c b58 e tx i) (enumerate 0 (bl_data (ex_underlying e))))
     @ enumerated (vote_stmt b58 (ex_underlying e)) (bl_votes (ex_underlying e))
     @ enumerated (\<lambda>(addr, acc). state_diff_stmt b58 (ex_underlying e) addr acc) (sd_iter (bo_state (ex_output e)))"

record ('e, 'db) sql_pool =
  sq_begin :: "'db \<Rightarrow> 'e + unit"              \<comment> \<open>acquiring a connection and beginning a transaction\<close>
  sq_execute :: "string \<Rightarrow> 'db \<Rightarrow> 'e + 'db"
  sq_commit :: "'db \<Rightarrow> 'e + 'db"

primrec execute_all :: "('e, 'db) sql_pool \<Rightarrow> string list \<Rightarrow> 'db \<Rightarrow> 'e + 'db" where
  "execute_all q [] db = Inr db"
| "execute_all q (stmt # stmts) db = (case sq_execute q stmt db of Inl e \<Rightarrow> Inl e | Inr db' \<Rightarrow> execute_all q stmts db')"

text \<open>
  \<open>sync_block\<close> with the database afterwards. The statements are run one after the other, each error ends the function
  and drops the transaction.
\<close>

definition sync_block ::
    "transaction list block_params \<Rightarrow> b58 \<Rightarrow> ('e, 'db) sql_pool \<Rightarrow> string \<Rightarrow> transaction list executed \<Rightarrow> commitment
     \<Rightarrow> 'db \<Rightarrow> (('e + unit) \<times> 'db) option" where
  "sync_block p b58 q now e commit db =
     (if commit = Included then Some (Inr (), db)
      else case sq_begin q db of
             Inl err \<Rightarrow> Some (Inl err, db)
           | Inr _ \<Rightarrow>
               (case block_header_stmt p b58 now (ex_underlying e) commit of
                  None \<Rightarrow> None
                | Some stmt \<Rightarrow>
                    (case execute_all q (stmt # (if commit = Confirmed then block_data_stmts (bp_crypto p) b58 e else [])) db of
                       Inl err \<Rightarrow> Some (Inl err, db)
                     | Inr db1 \<Rightarrow>
                         (case sq_commit q db1 of
                            Inl err \<Rightarrow> Some (Inl err, db)
                          | Inr db2 \<Rightarrow> Some (Inr (), db2)))))"

text \<open>\<open>BlockConsumer::consume\<close>: an error is only logged.\<close>

definition dbsync_consume ::
    "transaction list block_params \<Rightarrow> b58 \<Rightarrow> ('e, 'db) sql_pool \<Rightarrow> string \<Rightarrow> transaction list executed \<Rightarrow> commitment
     \<Rightarrow> 'db \<Rightarrow> 'db option" where
  "dbsync_consume p b58 q now e commit db = map_option snd (sync_block p b58 q now e commit db)"

section \<open>Quotes\<close>

definition quotes :: "string \<Rightarrow> nat" where
  "quotes t = length (filter (\<lambda>c. c = CHR 0x27) t)"

lemma quotes_simps [simp]:
  "quotes [] = 0" "quotes (a @ b) = quotes a + quotes b" "quotes (c # b) = (if c = CHR 0x27 then 1 else 0) + quotes b"
  "quotes (quoted t) = quotes t + 2"
  by (simp_all add: quotes_def quoted_def)

text \<open>A statement for a failed transaction has the quotes of the error text and four of its own.\<close>

lemma quotes_error_stmt: "quotes (transaction_error_stmt c b58 tx error) = quotes (b58 (tx_hash c tx)) + quotes error + 4"
  by (simp add: transaction_error_stmt_def insert_into_def sql_values_def)

lemma execute_all_fails:
  assumes "stmt \<in> set stmts" and "\<And>db. \<exists>e. sq_execute q stmt db = Inl e"
  shows "\<exists>e. execute_all q stmts db = Inl e"
  using assms(1)
proof (induction stmts arbitrary: db)
  case (Cons t stmts)
  show ?case
  proof (cases "sq_execute q t db")
    case (Inr db')
    then have "t \<noteq> stmt" using assms(2) [of db] by auto
    then show ?thesis using Cons Inr by auto
  qed simp
qed simp

lemma error_stmt_in:
  assumes "tx \<in> set (bl_data (ex_underlying e))" and "map_of (bo_logs (ex_output e)) (tx_hash c tx) = None"
    and "map_of (bo_errors (ex_output e)) (tx_hash c tx) = Some error"
  shows "transaction_error_stmt c b58 tx (contract_error_string error) \<in> set (block_data_stmts c b58 e)"
proof -
  obtain i where "i < length (bl_data (ex_underlying e))" "bl_data (ex_underlying e) ! i = tx"
    using assms(1) by (auto simp: in_set_conv_nth)
  then have "(i, tx) \<in> set (enumerate 0 (bl_data (ex_underlying e)))" by (force simp: in_set_enumerate_eq)
  then show ?thesis using assms(2,3) by (force simp: block_data_stmts_def transaction_stmts_def)
qed

end
