(* ===== verification/Rensa_Runtime.thy ===== *)
theory Rensa_Runtime
  imports Rensa_Unit
begin

unbundle bit_operations_syntax

text \<open>
  \<open>src/vm/runtime.rs\<close>: the execution of WASM contracts, and the guest side of its interface,
  \<open>sdk/rust/src/abi.rs\<close>.

  The engine (\<open>wasmer\<close>) and Borsh are parameters. A guest is its linear memory and whatever else the engine keeps
  for it. An export is found or not (\<open>Inl\<close> with the text of the error), and a call of an exported function gives the text of a trap or a
  result, with the guest afterwards; \<open>None\<close> is a call that never returns. A step of the host on a guest is a
  function from the guest to the result (\<open>Inl\<close> a \<open>ContractError\<close>) and the guest; \<open>None\<close> is a panic of the host or no return.
  The host function \<open>log\<close> only prints and is left out.
\<close>

section \<open>The engine\<close>

type_synonym wasm_ptr = "32 word"

record 'g guest =
  gs_memory :: bytes
  gs_private :: 'g

type_synonym ('g, 'a) wasm_call = "'g guest \<Rightarrow> ((string + 'a) \<times> 'g guest) option"

text \<open>The exports a contract needs; the error of a missing export or a wrong signature is the text.\<close>

record 'g wasm_exports =
  wx_main :: "string + (wasm_ptr \<Rightarrow> wasm_ptr \<Rightarrow> ('g, wasm_ptr) wasm_call)"
  wx_allocate :: "string + (32 word \<Rightarrow> ('g, wasm_ptr) wasm_call)"
  wx_environment :: "string + (32 word \<Rightarrow> 32 word \<Rightarrow> ('g, wasm_ptr) wasm_call)"
  wx_params :: "string + (32 word \<Rightarrow> 32 word \<Rightarrow> ('g, wasm_ptr) wasm_call)"
  wx_output :: "string + (32 word \<Rightarrow> ('g, u64) wasm_call)"
  wx_memory :: "string + unit"

record borsh_abi =
  enc_env :: "environment \<Rightarrow> string + bytes"
  enc_params :: "bytes \<Rightarrow> string + bytes"
  dec_outputs :: "bytes \<Rightarrow> string + contract_output list"
  dec_error :: "bytes \<Rightarrow> string + contract_error"

section \<open>Memory limits\<close>

record memory_type =
  mt_minimum :: "32 word"
  mt_maximum :: "32 word option"
  mt_shared :: bool

datatype memory_error = Generic string | BaseMemoryError string

datatype memory_style = Static "32 word" u64 | Dynamic u64

text \<open>The tunables the limits delegate to; the table operations are passed on unchanged.\<close>

record ('m, 't, 'v) base_tunables =
  base_table_style :: "'t \<Rightarrow> 'v"
  base_create_memory :: "memory_type \<Rightarrow> memory_style \<Rightarrow> memory_error + 'm"
  base_create_table :: "'t \<Rightarrow> 'v \<Rightarrow> string + 'm"

record ('m, 't, 'v) limiting_tunables =
  lt_limit :: "32 word"
  lt_base :: "('m, 't, 'v) base_tunables"

definition adjust_memory :: "('m, 't, 'v) limiting_tunables \<Rightarrow> memory_type \<Rightarrow> memory_type" where
  "adjust_memory lt requested = requested\<lparr>mt_maximum := Some (lt_limit lt)\<rparr>"

definition validate_memory :: "('m, 't, 'v) limiting_tunables \<Rightarrow> memory_type \<Rightarrow> memory_error + unit" where
  "validate_memory lt ty =
     (if mt_minimum ty > lt_limit lt
      then Inl (Generic (''Minimum '' @ show_nat (unat (mt_minimum ty)) @ '' exceeds the allowed memory limit ''
        @ show_nat (unat (lt_limit lt))))
      else case mt_maximum ty of
             Some mx \<Rightarrow>
               if mx > lt_limit lt then Inl (Generic ''Maximum exceeds the allowed memory limit'') else Inr ()
           | None \<Rightarrow> Inl (Generic ''Maximum unset''))"

definition tunables_memory_style :: "('m, 't, 'v) limiting_tunables \<Rightarrow> memory_type \<Rightarrow> memory_style" where
  "tunables_memory_style lt memory = Static (lt_limit lt) 0x80000000"

definition tunables_table_style :: "('m, 't, 'v) limiting_tunables \<Rightarrow> 't \<Rightarrow> 'v" where
  "tunables_table_style lt table = base_table_style (lt_base lt) table"

text \<open>\<open>create_host_memory\<close> and \<open>create_vm_memory\<close> differ only in the base operation they call.\<close>

definition create_memory ::
    "('m, 't, 'v) limiting_tunables \<Rightarrow> memory_type \<Rightarrow> memory_style \<Rightarrow> memory_error + 'm" where
  "create_memory lt ty style =
     (let adjusted = adjust_memory lt ty
      in case validate_memory lt adjusted of
           Inl e \<Rightarrow> Inl e
         | Inr _ \<Rightarrow> base_create_memory (lt_base lt) adjusted style)"

definition create_table :: "('m, 't, 'v) limiting_tunables \<Rightarrow> 't \<Rightarrow> 'v \<Rightarrow> string + 'm" where
  "create_table lt ty style = base_create_table (lt_base lt) ty style"

section \<open>Regions\<close>

text \<open>An address and a length in one word, as the host takes them apart.\<close>

definition region_addr :: "u64 \<Rightarrow> u64" where
  "region_addr region = drop_bit 32 region"

definition region_len :: "u64 \<Rightarrow> u64" where
  "region_len region = drop_bit 32 (push_bit 32 region)"

text \<open>The check and the slice shared by \<open>collect_output\<close> and \<open>abort\<close>.\<close>

definition region_slice :: "u64 \<Rightarrow> bytes \<Rightarrow> bytes option" where
  "region_slice region memory =
     (let start = unat (region_addr region); finish = start + unat (region_len region)
      in if finish \<ge> length memory then None else Some (take (finish - start) (drop start memory)))"

text \<open>The host function \<open>abort\<close>; \<open>None\<close> is a context without memory. It always returns an error.\<close>

definition host_abort :: "borsh_abi \<Rightarrow> bytes option \<Rightarrow> u64 \<Rightarrow> contract_error" where
  "host_abort k cx region =
     (case cx of
        Some memory \<Rightarrow>
          (case region_slice region memory of
             None \<Rightarrow> Runtime ''Invalid error format''
           | Some b \<Rightarrow> (case dec_error k b of Inl e \<Rightarrow> Runtime e | Inr err \<Rightarrow> err))
      | None \<Rightarrow> Runtime ''inaccessible memory'')"

section \<open>The runtime\<close>

record ('w, 'g, 'm, 't, 'v) wasmer =
  wm_base :: "('m, 't, 'v) base_tunables"
  wm_compile :: "('m, 't, 'v) limiting_tunables \<Rightarrow> bytes \<Rightarrow> string + 'w"
  wm_instantiate :: "('m, 't, 'v) limiting_tunables \<Rightarrow> 'w \<Rightarrow> (bytes option \<Rightarrow> u64 \<Rightarrow> contract_error)
    \<Rightarrow> string + ('g wasm_exports \<times> 'g guest)"

text \<open>\<open>Runtime::new\<close>: a store with four pages of memory, the module, and an instance with the host functions.\<close>

definition runtime_new ::
    "('w, 'g, 'm, 't, 'v) wasmer \<Rightarrow> borsh_abi \<Rightarrow> bytes \<Rightarrow> contract_error + ('g wasm_exports \<times> 'g guest)" where
  "runtime_new w k bytecode =
     (let tunables = \<lparr>lt_limit = 4, lt_base = wm_base w\<rparr>
      in case wm_compile w tunables bytecode of
           Inl e \<Rightarrow> Inl (Runtime e)
         | Inr modul \<Rightarrow>
             (case wm_instantiate w tunables modul (host_abort k) of
                Inl e \<Rightarrow> Inl (Runtime e)
              | Inr inst \<Rightarrow> Inr inst))"

type_synonym ('g, 'a) host_step = "'g guest \<Rightarrow> ((contract_error + 'a) \<times> 'g guest) option"

definition host_bind :: "('g, 'a) host_step \<Rightarrow> ('a \<Rightarrow> ('g, 'b) host_step) \<Rightarrow> ('g, 'b) host_step" where
  "host_bind m f g =
     (case m g of
        None \<Rightarrow> None
      | Some (Inl e, g') \<Rightarrow> Some (Inl e, g')
      | Some (Inr x, g') \<Rightarrow> f x g')"

text \<open>\<open>map_err(|e| ContractError::Runtime(e.to_string()))?\<close>, on a value and on a call.\<close>

definition runtime_err :: "string + 'a \<Rightarrow> ('g, 'a) host_step" where
  "runtime_err r g = Some (map_sum Runtime (\<lambda>x. x) r, g)"

definition guest_call :: "('g, 'a) wasm_call \<Rightarrow> ('g, 'a) host_step" where
  "guest_call f g = map_option (\<lambda>(r, g'). (map_sum Runtime (\<lambda>x. x) r, g')) (f g)"

definition allocate :: "'g wasm_exports \<Rightarrow> nat \<Rightarrow> ('g, wasm_ptr) host_step" where
  "allocate ex sz = host_bind (runtime_err (wx_allocate ex)) (\<lambda>f. guest_call (f (of_nat sz)))"

text \<open>The slice of the memory panics when it is out of bounds.\<close>

definition copy_to_contract_memory :: "'g wasm_exports \<Rightarrow> wasm_ptr \<Rightarrow> bytes \<Rightarrow> ('g, unit) host_step" where
  "copy_to_contract_memory ex dst src =
     host_bind (runtime_err (wx_memory ex)) (\<lambda>_ g.
       let offset_from = unat dst; offset_to = offset_from + length src
       in if offset_to > length (gs_memory g) then None
          else Some (Inr (), g\<lparr>gs_memory := take offset_from (gs_memory g) @ src @ drop offset_to (gs_memory g)\<rparr>))"

definition deliver_environment :: "borsh_abi \<Rightarrow> 'g wasm_exports \<Rightarrow> environment \<Rightarrow> ('g, wasm_ptr) host_step" where
  "deliver_environment k ex env =
     host_bind (runtime_err (enc_env k env)) (\<lambda>serialized.
     host_bind (allocate ex (length serialized)) (\<lambda>env_ptr.
     host_bind (copy_to_contract_memory ex env_ptr serialized) (\<lambda>_.
     host_bind (runtime_err (wx_environment ex)) (\<lambda>f.
     guest_call (f env_ptr (of_nat (length serialized)))))))"

text \<open>Serializing the parameters is the one step whose error becomes \<open>Other\<close>, by \<open>From<std::io::Error>\<close>.\<close>

definition deliver_params :: "borsh_abi \<Rightarrow> 'g wasm_exports \<Rightarrow> bytes \<Rightarrow> ('g, wasm_ptr) host_step" where
  "deliver_params k ex params =
     host_bind (runtime_err (wx_params ex)) (\<lambda>f.
     host_bind (\<lambda>g. Some (map_sum Other (\<lambda>x. x) (enc_params k params), g)) (\<lambda>serialized.
     host_bind (allocate ex (length serialized)) (\<lambda>params_ptr.
     host_bind (copy_to_contract_memory ex params_ptr serialized) (\<lambda>_.
     guest_call (f params_ptr (of_nat (length serialized)))))))"

definition collect_output :: "borsh_abi \<Rightarrow> 'g wasm_exports \<Rightarrow> wasm_ptr \<Rightarrow> ('g, contract_output list) host_step" where
  "collect_output k ex ptr =
     host_bind (runtime_err (wx_output ex)) (\<lambda>f.
     host_bind (guest_call (f ptr)) (\<lambda>output_region.
     host_bind (runtime_err (wx_memory ex)) (\<lambda>_ g.
       case region_slice output_region (gs_memory g) of
         None \<Rightarrow> Some (Inl (Runtime ''Invalid outputs format''), g)
       | Some b \<Rightarrow> runtime_err (dec_outputs k b) g)))"

definition invoke :: "borsh_abi \<Rightarrow> 'g wasm_exports \<Rightarrow> environment \<Rightarrow> bytes \<Rightarrow> ('g, contract_output list) host_step" where
  "invoke k ex env params =
     host_bind (runtime_err (wx_main ex)) (\<lambda>main_func.
     host_bind (deliver_environment k ex env) (\<lambda>env_ptr.
     host_bind (deliver_params k ex params) (\<lambda>params_ptr.
     host_bind (guest_call (main_func env_ptr params_ptr)) (\<lambda>output_ptr.
     collect_output k ex output_ptr))))"

text \<open>The runtime as the machine uses it: a fresh instance, invoked once.\<close>

definition wasm_runtime ::
    "('w, 'g, 'm, 't, 'v) wasmer \<Rightarrow> borsh_abi \<Rightarrow> bytes \<Rightarrow> contract_error + contract_entrypoint" where
  "wasm_runtime w k bytecode =
     map_sum (\<lambda>e. e) (\<lambda>(ex, g) env params. map_option fst (invoke k ex env params g)) (runtime_new w k bytecode)"

section \<open>What the base tunables see\<close>

text \<open>Memory is created only with the limit as its maximum and a minimum within it; the checks of the maximum never fail.\<close>

lemma create_memory_limited:
  "create_memory lt ty style =
     (if mt_minimum ty \<le> lt_limit lt then base_create_memory (lt_base lt) (ty\<lparr>mt_maximum := Some (lt_limit lt)\<rparr>) style
      else Inl (Generic (''Minimum '' @ show_nat (unat (mt_minimum ty)) @ '' exceeds the allowed memory limit ''
        @ show_nat (unat (lt_limit lt)))))"
  using linorder_not_less [of "lt_limit lt" "mt_minimum ty"]
  by (cases "lt_limit lt < mt_minimum ty") (auto simp: create_memory_def adjust_memory_def validate_memory_def)

end
