(* ===== verification/Rensa_Sdk.thy ===== *)
theory Rensa_Sdk
  imports Rensa_Runtime
begin

unbundle bit_operations_syntax

text \<open>
  \<open>sdk/rust\<close>: the guest side of the contract interface, as a contract written in Rust is linked with it.

  The allocator of the guest and Borsh are parameters. Bytes that the host reads or writes are in the linear memory; the Rust objects
  that \<open>Box::leak\<close> leaves behind (environment, parameters, outputs) are kept in maps from their address, because the host
  only passes their addresses on; the sizes of these objects are parameters. A failed \<open>unwrap\<close>, a failed allocation and the
  use of an address without an object are traps.
\<close>

section \<open>Types of the SDK\<close>

datatype sdk_error =
    SdkInvalidTransactionNonce u64
  | SdkAccountAlreadyExists
  | SdkAccountDoesNotExist
  | SdkTooManyInputAccounts
  | SdkAccountTooLarge
  | SdkLogTooLarge
  | SdkTooManyLogs
  | SdkInvalidInputAccounts
  | SdkInvalidAccountOwner
  | SdkInvalidOutputAccount
  | SdkAccountNotWritable
  | SdkContractDoesNotExit
  | SdkAccountIsNotExecutable
  | SdkSignatureError signature_error
  | SdkInvalidInputParameters
  | SdkUnauthorizedOperation
  | SdkRuntime string
  | SdkOther string
  | SdkComputationalBudgetExhausted

datatype sdk_output =
    SdkLogEntry string string
  | SdkCreateOwnedAccount pubkey "bytes option"
  | SdkWriteAccountData pubkey "bytes option"
  | SdkDeleteOwnedAccount pubkey
  | SdkContractInvoke pubkey "(pubkey \<times> account_view) list" bytes
  | SdkCreateExecutableAccount pubkey bytes

text \<open>
  The values of the virtual machine with the same shape. The two sides disagree on the nonce error, which carries a number in
  the SDK only, and on nested calls, whose accounts are views in the SDK and references in the virtual machine.
\<close>

fun vm_error :: "sdk_error \<Rightarrow> contract_error option" where
  "vm_error (SdkInvalidTransactionNonce n) = None"
| "vm_error SdkAccountAlreadyExists = Some AccountAlreadyExists"
| "vm_error SdkAccountDoesNotExist = Some AccountDoesNotExist"
| "vm_error SdkTooManyInputAccounts = Some TooManyInputAccounts"
| "vm_error SdkAccountTooLarge = Some AccountTooLarge"
| "vm_error SdkLogTooLarge = Some LogTooLarge"
| "vm_error SdkTooManyLogs = Some TooManyLogs"
| "vm_error SdkInvalidInputAccounts = Some InvalidInputAccounts"
| "vm_error SdkInvalidAccountOwner = Some InvalidAccountOwner"
| "vm_error SdkInvalidOutputAccount = Some InvalidOutputAccount"
| "vm_error SdkAccountNotWritable = Some AccountNotWritable"
| "vm_error SdkContractDoesNotExit = Some ContractDoesNotExit"
| "vm_error SdkAccountIsNotExecutable = Some AccountIsNotExecutable"
| "vm_error (SdkSignatureError e) = Some (SignatureError e)"
| "vm_error SdkInvalidInputParameters = Some InvalidInputParameters"
| "vm_error SdkUnauthorizedOperation = Some UnauthorizedOperation"
| "vm_error (SdkRuntime s) = Some (Runtime s)"
| "vm_error (SdkOther s) = Some (Other s)"
| "vm_error SdkComputationalBudgetExhausted = Some ComputationalBudgetExhausted"

fun vm_output :: "sdk_output \<Rightarrow> contract_output option" where
  "vm_output (SdkLogEntry k v) = Some (LogEntry k v)"
| "vm_output (SdkCreateOwnedAccount a d) = Some (CreateOwnedAccount a d)"
| "vm_output (SdkWriteAccountData a d) = Some (WriteAccountData a d)"
| "vm_output (SdkDeleteOwnedAccount a) = Some (DeleteOwnedAccount a)"
| "vm_output (SdkContractInvoke c accs ps) = None"
| "vm_output (SdkCreateExecutableAccount a b) = Some (CreateExecutableAccount a b)"

text \<open>A contract: the function under \<open>#[rensa_sdk::main]\<close>.\<close>

type_synonym sdk_contract = "environment \<Rightarrow> bytes \<Rightarrow> sdk_error + sdk_output list"

section \<open>The guest\<close>

record 'a sdk_heap =
  sh_allocator :: 'a
  sh_environments :: "wasm_ptr \<rightharpoonup> environment"
  sh_params :: "wasm_ptr \<rightharpoonup> bytes"
  sh_outputs :: "wasm_ptr \<rightharpoonup> sdk_output list"

type_synonym 'a sdk_guest = "'a sdk_heap guest"

record 'a sdk =
  sdk_alloc :: "nat \<Rightarrow> 'a sdk_guest \<Rightarrow> (string + wasm_ptr) \<times> 'a sdk_guest"
  sdk_free :: "wasm_ptr \<Rightarrow> nat \<Rightarrow> 'a sdk_guest \<Rightarrow> 'a sdk_guest"
  sdk_env_size :: nat
  sdk_vec_size :: nat
  sdk_trap :: "contract_error \<Rightarrow> string"
  sdk_panic :: string
  sdk_dec_env :: "bytes \<Rightarrow> environment option"
  sdk_dec_params :: "bytes \<Rightarrow> bytes option"
  sdk_enc_outputs :: "sdk_output list \<Rightarrow> bytes"
  sdk_enc_error :: "sdk_error \<Rightarrow> bytes"

definition guest_bind :: "('g, 'a) wasm_call \<Rightarrow> ('a \<Rightarrow> ('g, 'b) wasm_call) \<Rightarrow> ('g, 'b) wasm_call" where
  "guest_bind m f g =
     (case m g of
        None \<Rightarrow> None
      | Some (Inl e, g') \<Rightarrow> Some (Inl e, g')
      | Some (Inr x, g') \<Rightarrow> f x g')"

definition sdk_allocate :: "'a sdk \<Rightarrow> 32 word \<Rightarrow> ('a sdk_heap, wasm_ptr) wasm_call" where
  "sdk_allocate s sz g = Some (sdk_alloc s (unat sz) g)"

text \<open>The bytes at an address, as \<open>Vec::from_raw_parts\<close> takes them.\<close>

definition raw_parts :: "32 word \<Rightarrow> 32 word \<Rightarrow> 'g guest \<Rightarrow> bytes" where
  "raw_parts ptr len g = take (unat len) (drop (unat ptr) (gs_memory g))"

text \<open>\<open>Box::leak(Box::new(object))\<close>: space for the object, and the object at its address.\<close>

definition leak_box :: "'a sdk \<Rightarrow> nat \<Rightarrow> (wasm_ptr \<Rightarrow> 'a sdk_heap \<Rightarrow> 'a sdk_heap) \<Rightarrow> ('a sdk_heap, wasm_ptr) wasm_call" where
  "leak_box s sz put =
     guest_bind (\<lambda>g. Some (sdk_alloc s sz g)) (\<lambda>ptr g. Some (Inr ptr, g\<lparr>gs_private := put ptr (gs_private g)\<rparr>))"

definition unwrap_guest :: "'a sdk \<Rightarrow> 'b option \<Rightarrow> ('a sdk_heap, 'b) wasm_call" where
  "unwrap_guest s r g = Some (case r of None \<Rightarrow> Inl (sdk_panic s) | Some x \<Rightarrow> Inr x, g)"

text \<open>The end of a function that owns the vector at an address: its buffer is freed.\<close>

definition drop_vec :: "'a sdk \<Rightarrow> 32 word \<Rightarrow> 32 word \<Rightarrow> 'b \<Rightarrow> ('a sdk_heap, 'b) wasm_call" where
  "drop_vec s ptr len r g = Some (Inr r, sdk_free s ptr (unat len) g)"

definition sdk_environment :: "'a sdk \<Rightarrow> 32 word \<Rightarrow> 32 word \<Rightarrow> ('a sdk_heap, wasm_ptr) wasm_call" where
  "sdk_environment s ptr len g =
     guest_bind (unwrap_guest s (sdk_dec_env s (raw_parts ptr len g))) (\<lambda>env.
     guest_bind (leak_box s (sdk_env_size s) (\<lambda>p h. h\<lparr>sh_environments := (sh_environments h)(p \<mapsto> env)\<rparr>))
       (drop_vec s ptr len)) g"

definition sdk_params :: "'a sdk \<Rightarrow> 32 word \<Rightarrow> 32 word \<Rightarrow> ('a sdk_heap, wasm_ptr) wasm_call" where
  "sdk_params s ptr len g =
     guest_bind (unwrap_guest s (sdk_dec_params s (raw_parts ptr len g))) (\<lambda>params.
     guest_bind (leak_box s (sdk_vec_size s) (\<lambda>p h. h\<lparr>sh_params := (sh_params h)(p \<mapsto> params)\<rparr>))
       (drop_vec s ptr len)) g"

text \<open>
  Serialized bytes that are leaked, and the region that describes them: the buffer of the vector with the bytes in it, then
  the box that the vector is moved into.
\<close>

definition region :: "u64 \<Rightarrow> u64 \<Rightarrow> u64" where
  "region addr len = push_bit 32 addr OR len"

definition write_bytes :: "wasm_ptr \<Rightarrow> bytes \<Rightarrow> 'g guest \<Rightarrow> 'g guest" where
  "write_bytes ptr b g =
     g\<lparr>gs_memory := take (unat ptr) (gs_memory g) @ b @ drop (unat ptr + length b) (gs_memory g)\<rparr>"

definition leak_bytes :: "'a sdk \<Rightarrow> bytes \<Rightarrow> ('a sdk_heap, u64) wasm_call" where
  "leak_bytes s b =
     guest_bind (\<lambda>g. Some (sdk_alloc s (length b) g)) (\<lambda>ptr.
     guest_bind (\<lambda>g. Some (sdk_alloc s (sdk_vec_size s) (write_bytes ptr b g))) (\<lambda>_ g.
       Some (Inr (region (ucast ptr) (of_nat (length b))), g)))"

definition sdk_output_region :: "'a sdk \<Rightarrow> 32 word \<Rightarrow> ('a sdk_heap, u64) wasm_call" where
  "sdk_output_region s obj g =
     guest_bind (unwrap_guest s (sh_outputs (gs_private g) obj)) (\<lambda>outs. leak_bytes s (sdk_enc_outputs s outs)) g"

text \<open>\<open>abort\<close>: the error is handed to the host, whose error ends the call.\<close>

definition sdk_abort :: "'a sdk \<Rightarrow> (bytes option \<Rightarrow> u64 \<Rightarrow> contract_error) \<Rightarrow> sdk_error \<Rightarrow> ('a sdk_heap, 'b) wasm_call" where
  "sdk_abort s host err =
     guest_bind (leak_bytes s (sdk_enc_error s err)) (\<lambda>r g. Some (Inl (sdk_trap s (host (Some (gs_memory g)) r)), g))"

text \<open>What \<open>#[rensa_sdk::main]\<close> makes of the function: an object for the outputs, \<open>abort\<close> on an error.\<close>

definition sdk_main ::
    "'a sdk \<Rightarrow> (bytes option \<Rightarrow> u64 \<Rightarrow> contract_error) \<Rightarrow> sdk_contract \<Rightarrow> wasm_ptr \<Rightarrow> wasm_ptr \<Rightarrow> ('a sdk_heap, wasm_ptr) wasm_call" where
  "sdk_main s host body env_ptr params_ptr g =
     guest_bind (unwrap_guest s (sh_environments (gs_private g) env_ptr)) (\<lambda>env.
     guest_bind (unwrap_guest s (sh_params (gs_private g) params_ptr)) (\<lambda>params.
       case body env params of
         Inr outs \<Rightarrow> leak_box s (sdk_vec_size s) (\<lambda>p h. h\<lparr>sh_outputs := (sh_outputs h)(p \<mapsto> outs)\<rparr>)
       | Inl err \<Rightarrow> sdk_abort s host err)) g"

definition sdk_exports :: "'a sdk \<Rightarrow> (bytes option \<Rightarrow> u64 \<Rightarrow> contract_error) \<Rightarrow> sdk_contract \<Rightarrow> 'a sdk_heap wasm_exports" where
  "sdk_exports s host body =
     \<lparr>wx_main = Inr (sdk_main s host body), wx_allocate = Inr (sdk_allocate s), wx_environment = Inr (sdk_environment s),
      wx_params = Inr (sdk_params s), wx_output = Inr (sdk_output_region s), wx_memory = Inr ()\<rparr>"

section \<open>Regions\<close>

lemma region_decode:
  assumes "len < 2 ^ 32"
  shows "unat (region_addr (region (ucast (ptr :: wasm_ptr)) (of_nat len))) = unat ptr"
    "unat (region_len (region (ucast ptr) (of_nat len))) = len"
proof -
  have len: "bit len n \<Longrightarrow> n < 32" for n
    using assms by (metis bit_take_bit_iff take_bit_nat_eq_self)
  have small: "unat ptr < 2 ^ 32" using unsigned_less [of ptr] by simp
  have ptr: "bit ptr n \<Longrightarrow> n < 32" for n using bit_imp_le_length [of ptr n] by simp
  have "drop_bit 32 (region (ucast ptr) (of_nat len)) = ucast ptr"
    using len ptr by (intro bit_word_eqI) (force simp: region_def bit_simps)
  then show "unat (region_addr (region (ucast ptr) (of_nat len))) = unat ptr"
    using small by (simp add: region_addr_def unsigned_ucast_eq take_bit_nat_eq_self_iff)
  have "drop_bit 32 (push_bit 32 (region (ucast ptr) (of_nat len))) = (of_nat len :: u64)"
    using len by (intro bit_word_eqI) (auto simp: region_def bit_simps)
  moreover have "unat (of_nat len :: u64) = len" using assms by (simp add: unsigned_of_nat take_bit_nat_eq_self_iff)
  ultimately show "unat (region_len (region (ucast ptr) (of_nat len))) = len" by (simp add: region_len_def)
qed

text \<open>Bytes written into the memory are read back, except that the host refuses a region that ends with the memory.\<close>

lemma written_slice:
  assumes "unat ptr + length b \<le> length memory"
  shows "take (length b) (drop (unat ptr) (take (unat ptr) memory @ b @ drop (unat ptr + length b) memory)) = b"
  using assms by simp

lemma leaked_slice:
  assumes "take (length b) (drop (unat (ptr :: wasm_ptr)) memory) = b" and "length b < 2 ^ 32"
  shows "region_slice (region (ucast ptr) (of_nat (length b))) memory =
    (if length memory \<le> unat ptr + length b then None else Some b)"
  using assms region_decode [OF assms(2), of ptr] by (auto simp: region_slice_def Let_def)

section \<open>The guest refines the function\<close>

text \<open>
  What the allocator promises: space inside the memory, which never shrinks and stays within the four pages of the host; the objects stay where
  they are, also when a buffer is freed; and the next allocation leaves the bytes written into the space it gave out.
\<close>

definition objects :: "'a sdk_guest \<Rightarrow> (wasm_ptr \<rightharpoonup> environment) \<times> (wasm_ptr \<rightharpoonup> bytes) \<times> (wasm_ptr \<rightharpoonup> sdk_output list)" where
  "objects g = (sh_environments (gs_private g), sh_params (gs_private g), sh_outputs (gs_private g))"

definition alloc_ok :: "'a sdk \<Rightarrow> bool" where
  "alloc_ok s \<longleftrightarrow>
     (\<forall>n g p g'. sdk_alloc s n g = (Inr p, g') \<longrightarrow>
        unat p + n \<le> length (gs_memory g') \<and> length (gs_memory g) \<le> length (gs_memory g') \<and> length (gs_memory g') \<le> 4 * 65536
        \<and> objects g' = objects g)
     \<and> (\<forall>p n g. objects (sdk_free s p n g) = objects g)
     \<and> (\<forall>b g p g1 m q g2. sdk_alloc s (length b) g = (Inr p, g1) \<longrightarrow> sdk_alloc s m (write_bytes p b g1) = (Inr q, g2) \<longrightarrow>
          take (length b) (drop (unat p) (gs_memory g2)) = b)"

text \<open>
  The allocator gives out no space that ends with the last byte of the memory, as allocators do that keep a record behind the last block. The
  host needs it: it refuses a region that ends with the memory (\<open>leaked_slice\<close>).
\<close>

definition leaves_room :: "'a sdk \<Rightarrow> bool" where
  "leaves_room s \<longleftrightarrow> (\<forall>n g p g'. sdk_alloc s n g = (Inr p, g') \<longrightarrow> unat p + n < length (gs_memory g'))"

text \<open>What Borsh promises: values of the same shape have the same encoding on both sides.\<close>

definition abi_ok :: "borsh_abi \<Rightarrow> 'a sdk \<Rightarrow> bool" where
  "abi_ok k s \<longleftrightarrow>
     (\<forall>env b. enc_env k env = Inr b \<longrightarrow> sdk_dec_env s b = Some env)
     \<and> (\<forall>ps b. enc_params k ps = Inr b \<longrightarrow> sdk_dec_params s b = Some ps)
     \<and> (\<forall>outs outs'. those (map vm_output outs) = Some outs' \<longrightarrow> dec_outputs k (sdk_enc_outputs s outs) = Inr outs')
     \<and> (\<forall>err err'. vm_error err = Some err' \<longrightarrow> dec_error k (sdk_enc_error s err) = Inr err')"

text \<open>The result of a contract as the virtual machine sees it; an error arrives as the text of a trap.\<close>

definition contract_spec :: "'a sdk \<Rightarrow> sdk_error + sdk_output list \<Rightarrow> (contract_error + contract_output list) option" where
  "contract_spec s r =
     (case r of
        Inr outs \<Rightarrow> map_option Inr (those (map vm_output outs))
      | Inl err \<Rightarrow> map_option (\<lambda>e. Inl (Runtime (sdk_trap s e))) (vm_error err))"

text \<open>The error of a guest that runs out of memory: the trap of an allocation that failed.\<close>

definition out_of_memory :: "'a sdk \<Rightarrow> contract_error \<Rightarrow> bool" where
  "out_of_memory s e \<longleftrightarrow> (\<exists>n g t g'. sdk_alloc s n g = (Inl t, g') \<and> e = Runtime t)"

definition steps_to :: "(contract_error \<Rightarrow> bool) \<Rightarrow> ((contract_error + 'b) \<times> 'a sdk_guest) option \<Rightarrow> ('b \<Rightarrow> 'a sdk_guest \<Rightarrow> bool) \<Rightarrow> bool" where
  "steps_to E r post \<longleftrightarrow>
     (case r of None \<Rightarrow> False | Some (Inl e, _) \<Rightarrow> E e | Some (Inr x, g') \<Rightarrow> post x g')"

lemma steps_to_bind:
  assumes "steps_to E (m g) post" and "\<And>x g'. post x g' \<Longrightarrow> steps_to E (f x g') post'"
  shows "steps_to E (host_bind m f g) post'"
proof (cases "m g")
  case None
  then show ?thesis using assms(1) by (simp add: steps_to_def)
next
  case (Some r)
  then show ?thesis using assms by (cases r; cases "fst r") (auto simp: steps_to_def host_bind_def)
qed

lemma steps_to_found [simp]: "steps_to E (host_bind (runtime_err (Inr x)) f g) post \<longleftrightarrow> steps_to E (f x g) post"
  by (simp add: host_bind_def runtime_err_def)

lemma steps_to_alloc:
  assumes "alloc_ok s" and "\<And>e. out_of_memory s e \<Longrightarrow> E e"
  shows "steps_to E (map_option (\<lambda>(r, g'). (map_sum Runtime (\<lambda>x. x) r, g')) (Some (sdk_alloc s n g)))
    (\<lambda>p g'. sdk_alloc s n g = (Inr p, g') \<and> unat p + n \<le> length (gs_memory g') \<and> length (gs_memory g') \<le> 4 * 65536
      \<and> length (gs_memory g) \<le> length (gs_memory g') \<and> objects g' = objects g)"
proof (cases "sdk_alloc s n g")
  case (Pair r g')
  then show ?thesis
  proof (cases r)
    case (Inl t)
    then have "out_of_memory s (Runtime t)" using Pair by (auto simp: out_of_memory_def)
    then show ?thesis using Pair Inl assms(2) by (simp add: steps_to_def)
  next
    case (Inr p)
    then show ?thesis using Pair assms(1) unfolding alloc_ok_def steps_to_def by fastforce
  qed
qed

lemma steps_to_mono: "steps_to E r post \<Longrightarrow> (\<And>x g'. post x g' \<Longrightarrow> post' x g') \<Longrightarrow> steps_to E r post'"
  by (auto simp: steps_to_def split: option.splits sum.splits prod.splits)

lemma guest_call_bind: "guest_call (guest_bind m f) = host_bind (guest_call m) (\<lambda>x. guest_call (f x))"
  by (rule ext) (auto simp: guest_call_def guest_bind_def host_bind_def split: option.splits sum.splits prod.splits)

lemma guest_call_unwrap [simp]: "host_bind (guest_call (unwrap_guest s (Some x))) f = f x"
  by (rule ext) (simp add: guest_call_def unwrap_guest_def host_bind_def)

text \<open>Handing bytes over: they are in the memory at the address that the guest's function is called with.\<close>

lemma steps_to_deliver:
  assumes "alloc_ok s" and E: "\<And>e. out_of_memory s e \<Longrightarrow> E e" and len: "length b < 2 ^ 32"
    and next_step: "\<And>ptr g'. raw_parts ptr (of_nat (length b)) g' = b \<Longrightarrow> objects g' = objects g \<Longrightarrow> steps_to E (f ptr g') post"
  shows "steps_to E (host_bind (allocate (sdk_exports s host body) (length b)) (\<lambda>ptr.
    host_bind (copy_to_contract_memory (sdk_exports s host body) ptr b) (\<lambda>_. f ptr)) g) post"
proof -
  have sz: "unat (of_nat (length b) :: 32 word) = length b"
    using len by (simp add: unsigned_of_nat take_bit_nat_eq_self_iff)
  have "steps_to E (allocate (sdk_exports s host body) (length b) g)
      (\<lambda>p g'. unat p + length b \<le> length (gs_memory g') \<and> objects g' = objects g)"
    unfolding allocate_def sdk_exports_def
    by (simp add: guest_call_def sdk_allocate_def sz)
      (rule steps_to_mono [OF steps_to_alloc [OF assms(1) E, unfolded option.map], simplified], simp_all add: objects_def)
  then show ?thesis
  proof (rule steps_to_bind)
    fix p :: wasm_ptr and g' :: "'a sdk_guest"
    assume p: "unat p + length b \<le> length (gs_memory g') \<and> objects g' = objects g"
    let ?g = "g'\<lparr>gs_memory := take (unat p) (gs_memory g') @ b @ drop (unat p + length b) (gs_memory g')\<rparr>"
    have "raw_parts p (of_nat (length b)) ?g = b" "objects ?g = objects g"
      using p written_slice [of p b] by (simp_all add: raw_parts_def sz objects_def)
    then have "steps_to E (f p ?g) post" by (rule next_step)
    then show "steps_to E (host_bind (copy_to_contract_memory (sdk_exports s host body) p b) (\<lambda>_. f p) g') post"
      using p by (simp add: copy_to_contract_memory_def sdk_exports_def host_bind_def runtime_err_def Let_def)
  qed
qed

lemma steps_to_leak_box:
  assumes "alloc_ok s" and E: "\<And>e. out_of_memory s e \<Longrightarrow> E e"
    and put: "\<And>ptr g'. \<lbrakk>objects g' = objects g; length (gs_memory g') \<le> 4 * 65536\<rbrakk>
      \<Longrightarrow> post ptr (g'\<lparr>gs_private := put ptr (gs_private g')\<rparr>)"
  shows "steps_to E (guest_call (leak_box s n put) g) post"
proof -
  have "steps_to E (guest_call (\<lambda>g. Some (sdk_alloc s n g)) g) (\<lambda>p g'. objects g' = objects g \<and> length (gs_memory g') \<le> 4 * 65536)"
    unfolding guest_call_def by (rule steps_to_mono [OF steps_to_alloc [OF assms(1) E]]) simp_all
  then show ?thesis
    unfolding leak_box_def guest_call_bind
    by (rule steps_to_bind) (use put in \<open>simp add: guest_call_def steps_to_def\<close>)
qed

lemma steps_to_leak_bytes:
  assumes "alloc_ok s" and "leaves_room s" and E: "\<And>e. out_of_memory s e \<Longrightarrow> E e"
  shows "steps_to E (guest_call (leak_bytes s b) g) (\<lambda>r g'. region_slice r (gs_memory g') = Some b)"
  unfolding leak_bytes_def guest_call_bind
proof (rule steps_to_bind)
  show "steps_to E (guest_call (\<lambda>g. Some (sdk_alloc s (length b) g)) g)
      (\<lambda>p g'. sdk_alloc s (length b) g = (Inr p, g') \<and> length b < 2 ^ 32 \<and> unat p + length b < length (gs_memory g'))"
    unfolding guest_call_def
    by (rule steps_to_mono [OF steps_to_alloc [OF assms(1) E]]) (use assms(2) in \<open>auto simp: leaves_room_def\<close>)
  fix p and g1 :: "'a sdk_guest"
  assume p: "sdk_alloc s (length b) g = (Inr p, g1) \<and> length b < 2 ^ 32 \<and> unat p + length b < length (gs_memory g1)"
  have len: "length (gs_memory (write_bytes p b g1)) = length (gs_memory g1)" using p by (simp add: write_bytes_def)
  show "steps_to E (host_bind (guest_call (\<lambda>g. Some (sdk_alloc s (sdk_vec_size s) (write_bytes p b g))))
      (\<lambda>_. guest_call (\<lambda>g. Some (Inr (region (ucast p) (of_nat (length b))), g))) g1)
      (\<lambda>r g'. region_slice r (gs_memory g') = Some b)"
  proof (rule steps_to_bind)
    show "steps_to E (guest_call (\<lambda>g. Some (sdk_alloc s (sdk_vec_size s) (write_bytes p b g))) g1)
        (\<lambda>q g'. sdk_alloc s (sdk_vec_size s) (write_bytes p b g1) = (Inr q, g') \<and> length (gs_memory g1) \<le> length (gs_memory g'))"
      unfolding guest_call_def by (rule steps_to_mono [OF steps_to_alloc [OF assms(1) E]]) (auto simp: len)
    fix q and g2 :: "'a sdk_guest"
    assume q: "sdk_alloc s (sdk_vec_size s) (write_bytes p b g1) = (Inr q, g2) \<and> length (gs_memory g1) \<le> length (gs_memory g2)"
    then have "take (length b) (drop (unat p) (gs_memory g2)) = b" using assms(1) p unfolding alloc_ok_def by blast
    then show "steps_to E (guest_call (\<lambda>g. Some (Inr (region (ucast p) (of_nat (length b))), g)) g2)
        (\<lambda>r g'. region_slice r (gs_memory g') = Some b)"
      using p q leaked_slice [of b p "gs_memory g2"] by (simp add: guest_call_def steps_to_def)
  qed
qed

text \<open>A boxed object is still there after the input buffer was freed.\<close>

lemma steps_to_boxed:
  assumes "alloc_ok s" and E: "\<And>e. out_of_memory s e \<Longrightarrow> E e"
    and put: "\<And>ptr g' g2. \<lbrakk>objects g' = objects g; objects g2 = objects (g'\<lparr>gs_private := put ptr (gs_private g')\<rparr>)\<rbrakk> \<Longrightarrow> post ptr g2"
  shows "steps_to E (guest_call (guest_bind (leak_box s n put) (drop_vec s p len)) g) post"
  unfolding guest_call_bind
proof (rule steps_to_bind)
  show "steps_to E (guest_call (leak_box s n put) g)
      (\<lambda>ptr g2. \<exists>g'. objects g' = objects g \<and> g2 = g'\<lparr>gs_private := put ptr (gs_private g')\<rparr>)"
    by (rule steps_to_leak_box [OF assms(1) E]) blast+
  fix ptr and g2 :: "'a sdk_guest"
  assume "\<exists>g'. objects g' = objects g \<and> g2 = g'\<lparr>gs_private := put ptr (gs_private g')\<rparr>"
  moreover have "objects (sdk_free s p (unat len) g2) = objects g2" using assms(1) by (simp add: alloc_ok_def)
  ultimately show "steps_to E (guest_call (drop_vec s p len ptr) g2) post"
    using put by (auto simp: guest_call_def drop_vec_def steps_to_def)
qed

text \<open>The calls of the guest's functions on the objects they expect.\<close>

lemma guest_calls:
  "sdk_dec_env s (raw_parts p l g) = Some env \<Longrightarrow> guest_call (sdk_environment s p l) g =
     guest_call (guest_bind (leak_box s (sdk_env_size s) (\<lambda>p h. h\<lparr>sh_environments := (sh_environments h)(p \<mapsto> env)\<rparr>))
       (drop_vec s p l)) g"
  "sdk_dec_params s (raw_parts p l g) = Some ps \<Longrightarrow> guest_call (sdk_params s p l) g =
     guest_call (guest_bind (leak_box s (sdk_vec_size s) (\<lambda>p h. h\<lparr>sh_params := (sh_params h)(p \<mapsto> ps)\<rparr>))
       (drop_vec s p l)) g"
  "sh_outputs (gs_private g) p = Some outs \<Longrightarrow>
     guest_call (sdk_output_region s p) g = guest_call (leak_bytes s (sdk_enc_outputs s outs)) g"
  "sh_environments (gs_private g) pe = Some env \<Longrightarrow> sh_params (gs_private g) pp = Some ps \<Longrightarrow>
     guest_call (sdk_main s host body pe pp) g =
     guest_call (case body env ps of
         Inr outs \<Rightarrow> leak_box s (sdk_vec_size s) (\<lambda>p h. h\<lparr>sh_outputs := (sh_outputs h)(p \<mapsto> outs)\<rparr>)
       | Inl err \<Rightarrow> sdk_abort s host err) g"
  by (simp_all add: guest_call_def sdk_environment_def sdk_params_def sdk_output_region_def sdk_main_def guest_bind_def
      unwrap_guest_def split: sum.splits)

lemma exports_found [simp]:
  "wx_main (sdk_exports s host body) = Inr (sdk_main s host body)"
  "wx_environment (sdk_exports s host body) = Inr (sdk_environment s)"
  "wx_params (sdk_exports s host body) = Inr (sdk_params s)"
  "wx_output (sdk_exports s host body) = Inr (sdk_output_region s)"
  "wx_memory (sdk_exports s host body) = Inr ()"
  by (simp_all add: sdk_exports_def)

lemma deliver_environment_steps:
  assumes "alloc_ok s" and E: "\<And>e. out_of_memory s e \<Longrightarrow> E e"
    and "sdk_dec_env s eb = Some env" "enc_env k env = Inr eb" "length eb < 2 ^ 32"
  shows "steps_to E (deliver_environment k (sdk_exports s host body) env g)
    (\<lambda>p g'. sh_environments (gs_private g') p = Some env)"
  unfolding deliver_environment_def assms(4) steps_to_found
  by (rule steps_to_deliver [OF assms(1) E assms(5)])
    (use assms(3) in \<open>auto simp: guest_calls(1) objects_def intro!: steps_to_boxed [OF assms(1) E]\<close>)

lemma deliver_params_steps:
  assumes "alloc_ok s" and E: "\<And>e. out_of_memory s e \<Longrightarrow> E e"
    and "sdk_dec_params s pb = Some ps" "enc_params k ps = Inr pb" "length pb < 2 ^ 32"
  shows "steps_to E (deliver_params k (sdk_exports s host body) ps g)
    (\<lambda>p g'. sh_params (gs_private g') p = Some ps \<and> sh_environments (gs_private g') = sh_environments (gs_private g))"
proof -
  have "host_bind (\<lambda>g. Some (map_sum Other (\<lambda>x. x) (enc_params k ps), g)) f = (f pb :: ('a sdk_heap, wasm_ptr) host_step)" for f
    using assms(4) by (auto simp: host_bind_def)
  then show ?thesis
    unfolding deliver_params_def exports_found steps_to_found
    by (simp only:) (rule steps_to_deliver [OF assms(1) E assms(5)],
      use assms(3) in \<open>auto simp: guest_calls(2) objects_def intro!: steps_to_boxed [OF assms(1) E]\<close>)
qed

lemma collect_output_steps:
  assumes "alloc_ok s" and "leaves_room s" and E: "\<And>e. out_of_memory s e \<Longrightarrow> E e"
    and "sh_outputs (gs_private g) p = Some outs" "dec_outputs k (sdk_enc_outputs s outs) = Inr outs'"
  shows "steps_to E (collect_output k (sdk_exports s host body) p g) (\<lambda>r g'. r = outs')"
  unfolding collect_output_def exports_found steps_to_found
proof (rule steps_to_bind)
  show "steps_to E (guest_call (sdk_output_region s p) g)
      (\<lambda>r g'. region_slice r (gs_memory g') = Some (sdk_enc_outputs s outs))"
    unfolding guest_calls(3) [OF assms(4)] by (rule steps_to_leak_bytes [OF assms(1,2) E])
  fix r and g' :: "'a sdk_guest"
  assume "region_slice r (gs_memory g') = Some (sdk_enc_outputs s outs)"
  then show "steps_to E (host_bind (runtime_err (Inr ())) (\<lambda>_ g.
      case region_slice r (gs_memory g) of None \<Rightarrow> Some (Inl (Runtime ''Invalid outputs format''), g)
      | Some b \<Rightarrow> runtime_err (dec_outputs k b) g) g') (\<lambda>r g'. r = outs')"
    using assms(5) by (auto simp: steps_to_def host_bind_def runtime_err_def)
qed

lemma abort_steps:
  assumes "alloc_ok s" and "leaves_room s" and E: "\<And>e. out_of_memory s e \<Longrightarrow> E e" and "E (Runtime (sdk_trap s err'))"
    and "dec_error k (sdk_enc_error s err) = Inr err'"
  shows "steps_to E (guest_call (sdk_abort s (host_abort k) err) g) (\<lambda>_ _. False)"
  unfolding sdk_abort_def guest_call_bind
proof (rule steps_to_bind [OF steps_to_leak_bytes [OF assms(1,2) E]])
  fix r and g' :: "'a sdk_guest"
  assume "region_slice r (gs_memory g') = Some (sdk_enc_error s err)"
  then show "steps_to E (guest_call (\<lambda>g. Some (Inl (sdk_trap s (host_abort k (Some (gs_memory g)) r)), g)) g') (\<lambda>_ _. False)"
    using assms(4,5) by (auto simp: steps_to_def guest_call_def host_abort_def)
qed

lemma invoke_refines:
  assumes alloc: "alloc_ok s" and room: "leaves_room s" and abi: "abi_ok k s"
    and env: "enc_env k env = Inr eb" "length eb < 2 ^ 32" and ps: "enc_params k ps = Inr pb" "length pb < 2 ^ 32"
    and spec: "contract_spec s (body env ps) = Some spec"
  obtains r g' where "invoke k (sdk_exports s (host_abort k) body) env ps g = Some (r, g')"
    and "r = spec \<or> (\<exists>e. r = Inl e \<and> out_of_memory s e)"
proof -
  define E where "E e \<longleftrightarrow> out_of_memory s e \<or> Inl e = spec" for e
  have E: "out_of_memory s e \<Longrightarrow> E e" for e by (simp add: E_def)
  have dec: "sdk_dec_env s eb = Some env" "sdk_dec_params s pb = Some ps" using abi env ps by (simp_all add: abi_ok_def)
  let ?main = "\<lambda>pe pp. host_bind (guest_call (sdk_main s (host_abort k) body pe pp)) (collect_output k (sdk_exports s (host_abort k) body))"
  have main: "steps_to E (?main pe pp g) (\<lambda>r _. Inr r = spec)"
    if "sh_environments (gs_private g) pe = Some env" "sh_params (gs_private g) pp = Some ps" for pe pp g
  proof (cases "body env ps")
    case (Inl err)
    then obtain err' where err': "vm_error err = Some err'" "spec = Inl (Runtime (sdk_trap s err'))"
      using spec by (auto simp: contract_spec_def)
    have trap: "E (Runtime (sdk_trap s err'))" using err'(2) by (simp add: E_def)
    have "dec_error k (sdk_enc_error s err) = Inr err'" using abi err'(1) by (simp add: abi_ok_def)
    then have "steps_to E (guest_call (sdk_abort s (host_abort k) err) g) (\<lambda>_ _. False)"
      by (intro abort_steps [OF alloc room]) (use E trap in auto)
    then have "steps_to E (guest_call (sdk_main s (host_abort k) body pe pp) g) (\<lambda>_ _. False)"
      unfolding guest_calls(4) [OF that] using Inl by simp
    then show ?thesis by (rule steps_to_bind) simp
  next
    case (Inr outs)
    then obtain outs' where outs: "those (map vm_output outs) = Some outs'" "spec = Inr outs'"
      using spec by (auto simp: contract_spec_def)
    then have d: "dec_outputs k (sdk_enc_outputs s outs) = Inr outs'" using abi by (simp add: abi_ok_def)
    have "steps_to E (guest_call (sdk_main s (host_abort k) body pe pp) g) (\<lambda>p g'. sh_outputs (gs_private g') p = Some outs)"
      unfolding guest_calls(4) [OF that] using Inr by (auto intro!: steps_to_leak_box [OF alloc E])
    then show ?thesis using collect_output_steps [OF alloc room E _ d] outs(2) by (auto intro: steps_to_bind)
  qed
  have "steps_to E (invoke k (sdk_exports s (host_abort k) body) env ps g) (\<lambda>r _. Inr r = spec)"
    unfolding invoke_def exports_found steps_to_found
  proof (rule steps_to_bind [OF deliver_environment_steps [OF alloc E dec(1) env]])
    fix pe and g1 :: "'a sdk_guest"
    assume pe: "sh_environments (gs_private g1) pe = Some env"
    show "steps_to E (host_bind (deliver_params k (sdk_exports s (host_abort k) body) ps) (?main pe) g1) (\<lambda>r _. Inr r = spec)"
      by (rule steps_to_bind [OF deliver_params_steps [OF alloc E dec(2) ps]]) (use pe main in auto)
  qed
  then show thesis
    by (auto simp: steps_to_def E_def split: option.splits prod.splits sum.splits intro: that)
qed

end
