(* ===== verification/Rensa_Api_Properties.thy ===== *)
theory Rensa_Api_Properties
  imports Rensa_Rpc Rensa_Dbsync Rensa_Sdk Rensa_Demo_Codec Rensa_Demo Rensa_Node
begin

text \<open>
  The properties of the services around the core: the RPC service, the database synchronization, and WASM contracts with
  the interface between host and guest. Instances for the witnesses are blocks without transactions, a store of a few blocks,
  and a guest with an allocator that hands out the memory from the start.
\<close>

section \<open>The RPC service\<close>



definition api_executed :: "u64 \<Rightarrow> state_diff \<Rightarrow> transaction list executed" where
  "api_executed h d = \<lparr>ex_underlying = \<lparr>bl_parent = [], bl_state_hash = [], bl_height = h, bl_signature = ([], []), bl_data = [], bl_votes = []\<rparr>,
     ex_output = \<lparr>bo_state = d, bo_logs = [], bo_errors = []\<rparr>\<rparr>"

text \<open>A store with one finalized block of height 1 and some confirmed blocks.\<close>

definition api_store :: "(u64 \<times> state_diff) list \<Rightarrow> block_store" where
  "api_store blocks =
     (let entry = (\<lambda>(h, d). (be_bytes h, enc_block demo_block_codec (ex_underlying (api_executed h d))));
          out = (\<lambda>(h, d). (be_bytes h, enc_output demo_block_codec (ex_output (api_executed h d))))
      in \<lparr>bs_detailed = True, bs_history_len = 10, bs_confirmed = map entry blocks, bs_finalized = [entry (1, sd_default)],
          bs_outputs = map out ((1, sd_default) # blocks), bs_hashes = [], bs_transactions = []\<rparr>)"

definition api_params :: rpc_params where
  "api_params = \<lparr>rp_block_params = \<lparr>bp_crypto = demo_crypto, bp_serialize = (\<lambda>_. [])\<rparr>, rp_blocks = demo_block_codec,
     rp_accounts = \<lparr>enc_fields = (\<lambda>_. []), dec_fields = (\<lambda>_. None)\<rparr>, rp_b58 = (\<lambda>_. ''x''), rp_from_b58 = (\<lambda>_. None),
     rp_multihash = Some, rp_transaction = (\<lambda>_. JNull), rp_vote = (\<lambda>_. JNull), rp_error = (\<lambda>_. JNull), rp_genesis = (\<lambda>_. JNull),
     rp_version = ''1''\<rparr>"

definition api_state :: "(u64 \<times> state_diff) list \<Rightarrow> rpc_state" where
  "api_state blocks = \<lparr>rs_accounts = [], rs_blocks = api_store blocks, rs_genesis = demo_genesis, rs_sent = [], rs_open = True\<rparr>"



lemma demo_block_codec_dec [simp]:
  "dec_block demo_block_codec (enc_block demo_block_codec b) = Some b"
  "dec_output demo_block_codec (enc_output demo_block_codec out) = Some out"
  using demo_block_codec_ok by (simp_all add: block_codec_ok_def)

lemma api_simps [simp]:
  "rp_blocks api_params = demo_block_codec" "rs_blocks (api_state blocks) = api_store blocks"
  "persistent_get (rp_accounts api_params) (rs_accounts (api_state blocks)) account = Some None"
  "bs_latest demo_block_codec Finalized (api_store blocks) = Some (ex_underlying (api_executed 1 sd_default))"
  "bl_height (ex_underlying (api_executed h d)) = h"
  "executed_state (api_executed h d) = sd_get d" "rs_open (api_state blocks)"
  by (simp_all add: api_params_def api_state_def persistent_get_def bs_latest_def tree_last_def api_store_def api_executed_def
      executed_state_def Let_def)

lemma extract_confirmed: "extract_commitment [(''commitment'', ''Confirmed'')] = Confirmed"
  by code_simp


text \<open>
  C40. A block missing between the finalized and the confirmed height stops the service: a request for an account that none of the
  newer blocks has changed never returns, and neither does a batch that starts with a valid transaction of that account.
\<close>

theorem missing_block_hangs:
  assumes "bs_latest (rp_blocks p) Finalized (rs_blocks s) = Some f" and "bs_latest (rp_blocks p) Confirmed (rs_blocks s) = Some c"
    and "walk_blocked (rp_blocks p) (rs_blocks s) account (bl_height f) (bl_height c)"
    and "extract_commitment params = Confirmed" and "tx_checked p s tx" and "tx_payer tx = account"
  shows "serve_account p account params s = None \<and> serve_send_transactions p (tx # txs) s = None"
proof -
  have "walk_confirmed (rp_blocks p) (rs_blocks s) account (bl_height f) (bl_height c) = None"
    using walk_stuck assms(3) by (metis not_None_eq)
  then have none: "get_confirmed_account p account s = None" using assms(1,2) by (simp add: get_confirmed_account_def)
  then have "send_one p tx ([], [], s) = None"
    using assms(5,6) by (simp add: send_one_def tx_checked_def expected_nonce_def known_nonce_def)
  then show ?thesis using none assms(4) by (simp add: serve_account_def serve_send_transactions_def)
qed

definition api_tx :: "u64 \<Rightarrow> bytes \<Rightarrow> transaction" where
  "api_tx nonce params = tx_new demo_crypto [9] nonce [0, 1] [] params []"

lemma api_tx_simps [simp]: "tx_payer (api_tx nonce params) = [0, 1]" "tx_nonce (api_tx nonce params) = nonce"
  by (simp_all add: api_tx_def tx_new_def Let_def)

lemma api_tx_checked: "tx_checked api_params (api_state blocks) (api_tx nonce params) \<longleftrightarrow> length params \<le> 9"
  by (simp add: tx_checked_def api_tx_def tx_new_def Let_def tx_verify_limits_def tx_verify_signatures_def tx_fields_hash_def
      tx_signing_accounts_def api_state_def api_params_def demo_genesis_def demo_limits_def)

theorem missing_block_hangs_witness:
  "serve_account api_params [0, 1] [(''commitment'', ''Confirmed'')] (api_state [(3, sd_default)]) = None
   \<and> serve_send_transactions api_params [api_tx 1 []] (api_state [(3, sd_default)]) = None"
proof -
  have last: "bs_latest demo_block_codec Confirmed (api_store [(3, sd_default)]) = Some (ex_underlying (api_executed 3 sd_default))"
    by (simp add: bs_latest_def tree_last_def api_store_def Let_def)
  have found: "bs_get_by_height demo_block_codec 2 (api_store [(3, sd_default)]) = Some None"
    "bs_get_by_height demo_block_codec 3 (api_store [(3, sd_default)]) = Some (Some (api_executed 3 sd_default, Confirmed))"
    by (simp_all add: bs_get_by_height_def api_store_def Let_def executed_recreate_def api_executed_def)
  have three: "h' = 3" if "2 < h'" "h' \<le> 3" for h' :: u64
    using that by (simp add: word_less_nat_alt word_le_nat_alt word_unat_eq_iff)
  have "walk_blocked demo_block_codec (api_store [(3, sd_default)]) [0, 1] 1 3"
    unfolding walk_blocked_def
    using found three by (intro exI [of _ 2]) (auto dest!: three simp: sd_get_def sd_default_def)
  then show ?thesis
    using missing_block_hangs [of api_params "api_state [(3, sd_default)]" "ex_underlying (api_executed 1 sd_default)"
        "ex_underlying (api_executed 3 sd_default)" "[0, 1]" "[(''commitment'', ''Confirmed'')]" "api_tx 1 []" "[]"]
      last extract_confirmed api_tx_checked by simp
qed

text \<open>
  C23. A batch of transactions is answered with one result each, in order: a transaction is accepted exactly when it is within the limits,
  signed, and its nonce is the known nonce of its payer, plus one, plus the number of checked transactions of the payer
  before it in the batch, rejected ones included: after a rejected transaction the nonce that would have been right is rejected too.
  Exactly the accepted transactions go to the run loop.
\<close>

theorem rpc_batch_accepts:
  assumes "rs_open s" and "\<forall>tx \<in> set txs. known_nonce p (tx_payer tx) s \<noteq> None"
  shows "\<exists>results.
    serve_send_transactions p txs s =
      Some ((ACCEPTED, JArr (map2 (\<lambda>tx r. JObj [(rp_b58 p (tx_hash (rp_crypto p) tx), JStr r)]) txs results)),
            s\<lparr>rs_sent := rs_sent s @ map ((!) txs) (filter (\<lambda>i. tx_accepted p s (take i txs) (txs ! i)) [0..<length txs])\<rparr>)
    \<and> length results = length txs
    \<and> (\<forall>i < length txs. results ! i = ''ok'' \<longleftrightarrow> tx_accepted p s (take i txs) (txs ! i))"
proof -
  obtain rs nonces where "send_all p txs ([], [], s\<lparr>rs_sent := rs_sent s\<rparr>) =
      Some (Inr ([] @ map2 (\<lambda>tx r. (rp_b58 p (tx_hash (rp_crypto p) tx), r)) txs rs, nonces,
        s\<lparr>rs_sent := rs_sent s @ map ((!) txs) (filter (\<lambda>i. tx_accepted p s ([] @ take i txs) (txs ! i)) [0..<length txs])\<rparr>))"
    "length rs = length txs" "\<forall>i < length txs. rs ! i = ''ok'' \<longleftrightarrow> tx_accepted p s ([] @ take i txs) (txs ! i)"
    using send_all_ok [OF nonces_ok_start assms] by blast
  then show ?thesis by (intro exI [of _ rs]) (simp add: serve_send_transactions_def comp_def case_prod_unfold)
qed

text \<open>The batch of the witness: after the rejected first transaction the right nonce is rejected too.\<close>

theorem rpc_batch_accepts_witness:
  "\<exists>r. serve_send_transactions api_params [api_tx 4 [], api_tx 1 [], api_tx 3 []] (api_state []) =
     Some ((ACCEPTED, JArr [JObj [(''x'', JStr (r ! 0))], JObj [(''x'', JStr (r ! 1))], JObj [(''x'', JStr ''ok'')]]),
       (api_state [])\<lparr>rs_sent := [api_tx 3 []]\<rparr>)
     \<and> r ! 0 \<noteq> ''ok'' \<and> r ! 1 \<noteq> ''ok''"
proof -
  let ?txs = "[api_tx 4 [], api_tx 1 [], api_tx 3 []]"
  have known: "known_nonce api_params [0, 1] (api_state []) = Some 0"
    by (simp add: known_nonce_def get_confirmed_account_def bs_latest_def [of _ Confirmed] tree_last_def)
      (simp add: api_store_def Let_def)
  have acc: "\<not> tx_accepted api_params (api_state []) [] (api_tx 4 [])"
    "\<not> tx_accepted api_params (api_state []) [api_tx 4 []] (api_tx 1 [])"
    "tx_accepted api_params (api_state []) [api_tx 4 [], api_tx 1 []] (api_tx 3 [])"
    by (simp_all add: tx_accepted_def earlier_def api_tx_checked known)
  obtain r where "serve_send_transactions api_params ?txs (api_state []) =
      Some ((ACCEPTED, JArr (map2 (\<lambda>tx t. JObj [(rp_b58 api_params (tx_hash (rp_crypto api_params) tx), JStr t)]) ?txs r)),
        (api_state [])\<lparr>rs_sent := rs_sent (api_state []) @ [api_tx 3 []]\<rparr>)"
    "length r = 3" "\<forall>i < 3. r ! i = ''ok'' \<longleftrightarrow> tx_accepted api_params (api_state []) (take i ?txs) (?txs ! i)"
    using rpc_batch_accepts [of "api_state []" ?txs api_params] known acc by (auto simp: upt_rec)
  moreover from this(2) obtain a b c where "r = [a, b, c]" by (auto simp: length_Suc_conv numeral_3_eq_3)
  ultimately show ?thesis
    using acc by (intro exI [of _ r]) (auto simp: All_less_Suc numeral_3_eq_3 api_params_def api_state_def)
qed

section \<open>The database synchronization\<close>

text \<open>
  An apostrophe in an error text stops the synchronization: texts are put between quotes as they are, so that a
  confirmed block with a failed transaction whose error text has an odd number of apostrophes is rolled back by every
  database that refuses unbalanced quotes.
\<close>

theorem apostrophe_stops_sync:
  assumes "\<forall>b. quotes (b58 b) = 0" and "\<forall>stmt db. odd (quotes stmt) \<longrightarrow> (\<exists>e. sq_execute q stmt db = Inl e)"
    and "tx \<in> set (bl_data (ex_underlying e))" and "map_of (bo_logs (ex_output e)) (tx_hash (bp_crypto p) tx) = None"
    and "map_of (bo_errors (ex_output e)) (tx_hash (bp_crypto p) tx) = Some error" and "odd (quotes (contract_error_string error))"
  shows "\<exists>err. sync_block p b58 q now e Confirmed db = Some (Inl err, db)"
proof -
  let ?stmt = "transaction_error_stmt (bp_crypto p) b58 tx (contract_error_string error)"
  have "odd (quotes ?stmt)" using assms(1,6) by (simp add: quotes_error_stmt)
  then have "\<exists>err. execute_all q (block_data_stmts (bp_crypto p) b58 e) db' = Inl err" for db'
    using execute_all_fails [OF error_stmt_in [OF assms(3-5), of b58], of q db'] assms(2) by blast
  then obtain f where f: "execute_all q (block_data_stmts (bp_crypto p) b58 e) db' = Inl (f db')" for db' by metis
  show ?thesis by (auto simp: sync_block_def f split: sum.split)
qed

definition sql_log :: "(unit, string list) sql_pool" where
  "sql_log = \<lparr>sq_begin = (\<lambda>_. Inr ()), sq_execute = (\<lambda>stmt db. if odd (quotes stmt) then Inl () else Inr (stmt # db)), sq_commit = Inr\<rparr>"

definition failed_transfer_block :: "transaction list executed" where
  "failed_transfer_block =
     (let e = api_executed 2 sd_default
      in e\<lparr>ex_underlying := (ex_underlying e)\<lparr>bl_data := [api_tx 1 []]\<rparr>,
           ex_output := (ex_output e)\<lparr>bo_errors := [(tx_hash demo_crypto (api_tx 1 []), Other ''Not enough balance in sender's account'')]\<rparr>\<rparr>)"

theorem apostrophe_stops_sync_witness:
  "\<exists>err. sync_block (rp_block_params api_params) (\<lambda>_. ''x'') sql_log ''now'' failed_transfer_block Confirmed [] = Some (Inl err, [])"
  by (rule apostrophe_stops_sync [where tx = "api_tx 1 []" and error = "Other ''Not enough balance in sender's account''"])
    (simp_all add: sql_log_def failed_transfer_block_def api_executed_def api_params_def Let_def)

section \<open>WASM contracts\<close>

text \<open>
  C21. A contract written against the SDK behaves like its Rust function: when its code is instantiated as the SDK links it, calling it
  through the runtime returns exactly what the function returns, an error as the text of a trap, or fails with the trap of an allocation for
  which the guest has no memory left. The outputs of the function must have a form that the virtual machine knows, which nested calls do not have,
  and the allocator must leave a byte free behind the spaces it gives out, because the host refuses a result that ends with the memory.
\<close>

theorem wasm_contract_runs:
  assumes "alloc_ok s" and "leaves_room s" and "abi_ok k s" and "runtime_new w k code = Inr (sdk_exports s (host_abort k) body, g)"
    and "enc_env k env = Inr eb" "length eb < 2 ^ 32" and "enc_params k ps = Inr pb" "length pb < 2 ^ 32"
    and "contract_spec s (body env ps) = Some spec"
  shows "\<exists>entry r. wasm_runtime w k code = Inr entry \<and> entry env ps = Some r
    \<and> (r = spec \<or> (\<exists>e. r = Inl e \<and> out_of_memory s e))"
proof -
  obtain r g' where "invoke k (sdk_exports s (host_abort k) body) env ps g = Some (r, g')"
    "r = spec \<or> (\<exists>e. r = Inl e \<and> out_of_memory s e)"
    by (rule invoke_refines [where body = body, OF assms(1-3,5-9)])
  then show ?thesis using assms(4) by (auto simp: wasm_runtime_def)
qed

fun output_rep ::
    "contract_output \<Rightarrow> byte \<times> bytes \<times> bytes option \<times> string \<times> string \<times> account_ref list \<times> bytes" where
  "output_rep (LogEntry k v) = (0, [], None, k, v, [], [])"
| "output_rep (CreateOwnedAccount a d) = (1, a, d, [], [], [], [])"
| "output_rep (WriteAccountData a d) = (2, a, d, [], [], [], [])"
| "output_rep (DeleteOwnedAccount a) = (3, a, None, [], [], [], [])"
| "output_rep (ContractInvoke a accs ps) = (4, a, None, [], [], accs, ps)"
| "output_rep (CreateExecutableAccount a b) = (5, a, None, [], [], [], b)"

definition output_abs ::
    "byte \<times> bytes \<times> bytes option \<times> string \<times> string \<times> account_ref list \<times> bytes \<Rightarrow> contract_output" where
  "output_abs r = (case r of (tag, a, d, k, v, accs, b) \<Rightarrow>
     if tag = 0 then LogEntry k v else if tag = 1 then CreateOwnedAccount a d else if tag = 2 then WriteAccountData a d
     else if tag = 3 then DeleteOwnedAccount a else if tag = 4 then ContractInvoke a accs b else CreateExecutableAccount a b)"

definition c_coutput :: "contract_output codec" where
  "c_coutput = c_via output_rep output_abs
     (c_pair c_byte (c_pair c_bytes (c_pair (c_option c_bytes) (c_pair c_string (c_pair c_string (c_pair (c_list c_ref) c_bytes))))))"

lemma codec_ok_coutput: "codec_ok (c_list c_coutput)"
proof -
  have "output_abs (output_rep x) = x" for x by (cases x) (simp_all add: output_abs_def)
  then have "codec_ok c_coutput" unfolding c_coutput_def by (intro codec_ok_via) simp_all
  then show ?thesis by simp
qed

definition demo_env :: environment where
  "demo_env = \<lparr>env_caller = None, env_address = [5], env_accounts = []\<rparr>"

text \<open>An encoding of one environment, of all parameters, and of all outputs and errors that have a form on both sides.\<close>

definition demo_borsh :: borsh_abi where
  "demo_borsh =
     \<lparr>enc_env = (\<lambda>env. if env = demo_env then Inr [1] else Inl ''no form''), enc_params = Inr,
      dec_outputs = (\<lambda>b. case snd (c_list c_coutput) b of Some (outs, []) \<Rightarrow> Inr outs | _ \<Rightarrow> Inl ''bad outputs''),
      dec_error = (\<lambda>b. case snd c_error b of Some (e, []) \<Rightarrow> Inr e | _ \<Rightarrow> Inl ''bad error'')\<rparr>"

definition demo_sdk :: "nat sdk" where
  "demo_sdk =
     \<lparr>sdk_alloc = (\<lambda>n g. let start = sh_allocator (gs_private g)
        in if start + n < length (gs_memory g) \<and> length (gs_memory g) \<le> 4 * 65536
           then (Inr (of_nat start), g\<lparr>gs_private := (gs_private g)\<lparr>sh_allocator := start + n\<rparr>\<rparr>) else (Inl ''no memory'', g)),
      sdk_free = (\<lambda>p n g. g), sdk_env_size = 1, sdk_vec_size = 1, sdk_trap = contract_error_string, sdk_panic = ''panic'',
      sdk_dec_env = (\<lambda>b. if b = [1] then Some demo_env else None), sdk_dec_params = Some,
      sdk_enc_outputs = (\<lambda>outs. case those (map vm_output outs) of Some vs \<Rightarrow> fst (c_list c_coutput) vs | None \<Rightarrow> []),
      sdk_enc_error = (\<lambda>err. case vm_error err of Some e \<Rightarrow> fst c_error e | None \<Rightarrow> [])\<rparr>"

lemma demo_alloc_ok: "alloc_ok demo_sdk" "leaves_room demo_sdk"
proof -
  have fits: "unat p + n < length (gs_memory g') \<and> length (gs_memory g') \<le> 4 * 65536 \<and> objects g' = objects g"
    and same: "gs_memory g' = gs_memory g"
    if "sdk_alloc demo_sdk n g = (Inr p, g')" for n g p g'
  proof -
    have "unat (of_nat (sh_allocator (gs_private g)) :: wasm_ptr) \<le> sh_allocator (gs_private g)" by (simp add: unsigned_of_nat)
    then show "unat p + n < length (gs_memory g') \<and> length (gs_memory g') \<le> 4 * 65536 \<and> objects g' = objects g"
      using that by (auto simp: demo_sdk_def objects_def Let_def split: if_splits)
    show "gs_memory g' = gs_memory g" using that by (auto simp: demo_sdk_def Let_def split: if_splits)
  qed
  have "take (length b) (drop (unat p) (gs_memory g2)) = b"
    if "sdk_alloc demo_sdk (length b) g = (Inr p, g1)" "sdk_alloc demo_sdk m (write_bytes p b g1) = (Inr q, g2)" for b g p g1 m q g2
    using same [OF that(2)] fits [OF that(1)] written_slice [of p b "gs_memory g1"] by (simp add: write_bytes_def)
  moreover have "objects (sdk_free demo_sdk p n g) = objects g" for p n g by (simp add: demo_sdk_def)
  ultimately show "alloc_ok demo_sdk" using fits same unfolding alloc_ok_def by (metis less_imp_le order_refl)
  show "leaves_room demo_sdk" using fits unfolding leaves_room_def by blast
qed

lemma demo_abi_ok: "abi_ok demo_borsh demo_sdk"
  using codec_ok_whole [OF codec_ok_coutput] codec_ok_whole [of c_error]
  by (auto simp: abi_ok_def demo_borsh_def demo_sdk_def split: if_splits)

text \<open>A contract that stores its parameters, instantiated by an engine that links it.\<close>

definition echo_contract :: sdk_contract where
  "echo_contract env ps = (if ps = [] then Inl SdkInvalidInputParameters else Inr [SdkCreateOwnedAccount (env_address env) (Some ps)])"

definition demo_guest :: "nat sdk_guest" where
  "demo_guest = \<lparr>gs_memory = replicate 200 0,
     gs_private = \<lparr>sh_allocator = 0, sh_environments = Map.empty, sh_params = Map.empty, sh_outputs = Map.empty\<rparr>\<rparr>"

definition demo_wasmer :: "(unit, nat sdk_heap, unit, unit, unit) wasmer" where
  "demo_wasmer =
     \<lparr>wm_base = \<lparr>base_table_style = (\<lambda>_. ()), base_create_memory = (\<lambda>_ _. Inr ()), base_create_table = (\<lambda>_ _. Inr ())\<rparr>,
      wm_compile = (\<lambda>_ _. Inr ()), wm_instantiate = (\<lambda>_ _ host. Inr (sdk_exports demo_sdk host echo_contract, demo_guest))\<rparr>"

theorem wasm_contract_runs_witness:
  "\<exists>entry r. wasm_runtime demo_wasmer demo_borsh [0] = Inr entry \<and> entry demo_env [65, 66] = Some r
     \<and> (r = Inr [CreateOwnedAccount [5] (Some [65, 66])] \<or> (\<exists>e. r = Inl e \<and> out_of_memory demo_sdk e))"
proof -
  have new: "runtime_new demo_wasmer demo_borsh [0] = Inr (sdk_exports demo_sdk (host_abort demo_borsh) echo_contract, demo_guest)"
    by (simp add: runtime_new_def demo_wasmer_def)
  have spec: "contract_spec demo_sdk (echo_contract demo_env [65, 66]) = Some (Inr [CreateOwnedAccount [5] (Some [65, 66])])"
    by (simp add: contract_spec_def echo_contract_def demo_env_def)
  have enc: "enc_env demo_borsh demo_env = Inr [1]" "enc_params demo_borsh [65, 66] = Inr [65, 66]" by (simp_all add: demo_borsh_def)
  show ?thesis
    using wasm_contract_runs [OF demo_alloc_ok demo_abi_ok new enc(1) _ enc(2) _ spec] by simp
qed

text \<open>
  A pointer from the guest can stop the validator: when the function \<open>allocate\<close> of a contract returns an address from which the
  environment does not fit into its memory, calling the contract panics.
\<close>

theorem wild_pointer_panics:
  assumes "runtime_new w k code = Inr (ex, g)" and "wx_main ex = Inr main" and "enc_env k env = Inr eb"
    and "wx_allocate ex = Inr f" and "f (of_nat (length eb)) g = Some (Inr ptr, g')" and "wx_memory ex = Inr ()"
    and "length (gs_memory g') < unat ptr + length eb"
  shows "\<exists>entry. wasm_runtime w k code = Inr entry \<and> entry env ps = None"
proof -
  have "deliver_environment k ex env g = None"
    using assms(3-7)
    by (simp add: deliver_environment_def allocate_def copy_to_contract_memory_def guest_call_def host_bind_def runtime_err_def Let_def)
  then have "invoke k ex env ps g = None" using assms(2) by (simp add: invoke_def host_bind_def runtime_err_def)
  then show ?thesis using assms(1) by (simp add: wasm_runtime_def)
qed

definition wild_exports :: "unit wasm_exports" where
  "wild_exports = \<lparr>wx_main = Inr (\<lambda>_ _ g. Some (Inr 0, g)), wx_allocate = Inr (\<lambda>_ g. Some (Inr 0xFFFFFFFF, g)),
     wx_environment = Inl ''none'', wx_params = Inl ''none'', wx_output = Inl ''none'', wx_memory = Inr ()\<rparr>"

definition wild_wasmer :: "(unit, unit, unit, unit, unit) wasmer" where
  "wild_wasmer =
     \<lparr>wm_base = \<lparr>base_table_style = (\<lambda>_. ()), base_create_memory = (\<lambda>_ _. Inr ()), base_create_table = (\<lambda>_ _. Inr ())\<rparr>,
      wm_compile = (\<lambda>_ _. Inr ()), wm_instantiate = (\<lambda>_ _ _. Inr (wild_exports, \<lparr>gs_memory = [0, 0], gs_private = ()\<rparr>))\<rparr>"

theorem wild_pointer_panics_witness:
  "\<exists>entry. wasm_runtime wild_wasmer demo_borsh [] = Inr entry \<and> entry demo_env [] = None"
  using wild_pointer_panics [of wild_wasmer demo_borsh "[]" wild_exports "\<lparr>gs_memory = [0, 0], gs_private = ()\<rparr>"
      "\<lambda>_ _ g. Some (Inr 0, g)" demo_env "[1]" "\<lambda>_ g. Some (Inr 0xFFFFFFFF, g)" "0xFFFFFFFF" "\<lparr>gs_memory = [0, 0], gs_private = ()\<rparr>" "[]"]
  by (simp add: runtime_new_def wild_wasmer_def wild_exports_def demo_borsh_def)

end
