(* ===== verification/Rensa_Votes.thy ===== *)
theory Rensa_Votes
  imports Rensa_Accountable
begin

text \<open>
  From a vote in a block, or in the orphan votes, to a voter on the target: what polling the inclusion of a
  block does with the votes the block carries and with the votes that were waiting for the block.
\<close>

section \<open>Recorded voters\<close>

text \<open>Every block of the forest with the hash \<open>h\<close> has the voter \<open>k\<close>.\<close>

definition has_voter :: "'d block_params \<Rightarrow> 'd tree_node list \<Rightarrow> multihash \<Rightarrow> pubkey \<Rightarrow> bool" where
  "has_voter p ts h k \<longleftrightarrow> (\<forall>v \<in> set (forest_values ts). vb_hash p v = h \<longrightarrow> k \<in> vb_voters v)"

lemma values_add_votes_grow:
  "v \<in> set (tn_values (add_votes s w t pos)) \<Longrightarrow>
     \<exists>u \<in> set (tn_values t). vb_block v = vb_block u \<and> vb_voters u \<subseteq> vb_voters v"
proof (induction s w t pos rule: add_votes.induct)
  case (2 s w u cs i pos)
  show ?case
  proof (cases "v = vb_add_votes s w u")
    case True
    then show ?thesis by auto
  next
    case False
    with 2(2) obtain c where c: "v \<in> set (tn_values c)"
      "c \<in> set (if i < length cs then cs[i := add_votes s w (cs ! i) pos] else cs)" by auto
    show ?thesis
    proof (cases "c \<in> set cs")
      case True
      with c(1) show ?thesis by auto
    next
      case False
      with c(2) have i: "i < length cs" and eq: "c = add_votes s w (cs ! i) pos"
        by (auto split: if_splits dest!: set_update_subset_insert [THEN subsetD])
      obtain u' where "u' \<in> set (tn_values (cs ! i))" "vb_block v = vb_block u'" "vb_voters u' \<subseteq> vb_voters v"
        using 2(1) [OF i] c(1) eq by auto
      moreover have "cs ! i \<in> set cs" using i by simp
      ultimately show ?thesis by auto
    qed
  qed
qed auto

lemma forest_add_votes_grow:
  assumes "v \<in> set (forest_values (ts[i := add_votes s w (ts ! i) pos]))" and "i < length ts"
  shows "\<exists>u \<in> set (forest_values ts). vb_block v = vb_block u \<and> vb_voters u \<subseteq> vb_voters v"
proof -
  obtain t where t: "t \<in> set (ts[i := add_votes s w (ts ! i) pos])" "v \<in> set (tn_values t)"
    using assms(1) by (auto simp: forest_values_def)
  show ?thesis
  proof (cases "t \<in> set ts")
    case True
    with t(2) show ?thesis by (auto simp: forest_values_def)
  next
    case False
    with t(1) have "t = add_votes s w (ts ! i) pos" by (auto dest!: set_update_subset_insert [THEN subsetD])
    with t(2) obtain u where "u \<in> set (tn_values (ts ! i))" "vb_block v = vb_block u" "vb_voters u \<subseteq> vb_voters v"
      using values_add_votes_grow by blast
    moreover have "ts ! i \<in> set ts" using assms(2) by simp
    ultimately show ?thesis by (auto simp: forest_values_def)
  qed
qed

lemma injest_vote_keeps_voter:
  assumes "has_voter (cfg_params cfg) (ch_forktrees ch) h k"
  shows "has_voter (cfg_params cfg) (ch_forktrees (injest_vote cfg w ch)) h k"
proof (cases rule: injest_vote_cases [of cfg w ch])
  case (counted s i pos)
  obtain i: "i < length (ch_forktrees ch)" using forest_getE [OF counted(4)] by blast
  show ?thesis unfolding has_voter_def
  proof (intro ballI impI)
    fix v assume v: "v \<in> set (forest_values (ch_forktrees (injest_vote cfg w ch)))" "vb_hash (cfg_params cfg) v = h"
    then obtain u where "u \<in> set (forest_values (ch_forktrees ch))" "vb_block v = vb_block u" "vb_voters u \<subseteq> vb_voters v"
      using forest_add_votes_grow [OF _ i] unfolding counted(6) by force
    with v(2) assms show "k \<in> vb_voters v" by (auto simp: has_voter_def)
  qed
qed (use assms in simp_all)

lemma fold_injest_vote_keeps_voter:
  "has_voter (cfg_params cfg) (ch_forktrees ch) h k \<Longrightarrow>
     has_voter (cfg_params cfg) (ch_forktrees (fold (injest_vote cfg) ws ch)) h k"
  by (induction ws arbitrary: ch) (simp_all add: injest_vote_keeps_voter)

section \<open>Counting a vote\<close>

text \<open>What \<open>injest_vote\<close> checks before it counts a vote whose target is known.\<close>

definition countable_vote :: "('d, 's) chain_cfg \<Rightarrow> ('d, 's) chain \<Rightarrow> vote \<Rightarrow> bool" where
  "countable_vote cfg ch w \<longleftrightarrow>
     eligible cfg (ch_stakes ch) (vote_validator w) \<and> vote_verify_signature (cfg_crypto cfg) w
     \<and> in_finalized_history cfg ch (vote_justification w)"

lemma countable_vote_simps [simp]:
  "countable_vote cfg (ch\<lparr>ch_orphans := os\<rparr>) w = countable_vote cfg ch w"
  "countable_vote cfg (ch\<lparr>ch_events := es\<rparr>) w = countable_vote cfg ch w"
  by (simp_all add: countable_vote_def in_finalized_history_def)

lemma path_value: "n \<in> set (tn_path t pos) \<Longrightarrow> tn_value n \<in> set (tn_values t)"
proof (induction t pos rule: tn_path.induct)
  case (2 v cs i pos)
  then show ?case using nth_mem [of i cs] by (fastforce split: if_splits)
qed simp

lemma injest_vote_records:
  assumes inv: "chain_inv cfg ch" and ok: "countable_vote cfg ch w"
    and known: "vote_target w \<in> set (forest_hashes (cfg_params cfg) (ch_forktrees ch))"
  shows "has_voter (cfg_params cfg) (ch_forktrees (injest_vote cfg w ch)) (vote_target w) (vote_validator w)"
proof -
  let ?p = "cfg_params cfg" and ?k = "vote_validator w" and ?ch' = "injest_vote cfg w ch"
  obtain s where s: "map_of (ch_stakes ch) ?k = Some s" "\<not> s < minimum_stake (cfg_limits cfg)"
    using ok by (auto simp: countable_vote_def eligible_def not_less)
  obtain i pos where get: "forest_get ?p (vote_target w) 0 (ch_forktrees ch) = Some (i, pos)"
    using known forest_get_None [of ?p _ 0] by (metis option.exhaust surj_pair)
  then obtain n where i: "i < length (ch_forktrees ch)" and n: "node_at (ch_forktrees ch ! i) pos = Some n"
    "vb_hash ?p (tn_value n) = vote_target w" by (rule forest_getE)
  let ?t = "add_votes s ?k (ch_forktrees ch ! i) pos"
  have ts: "ch_forktrees ?ch' = (ch_forktrees ch)[i := ?t]"
    using s ok get by (simp add: injest_vote_def countable_vote_def Let_def)
  obtain up where up: "tn_path (ch_forktrees ch ! i) pos = n # up" using node_at_path [OF n(1)] by blast
  then obtain m up' where m: "tn_path ?t pos = m # up'" "tn_value m = vb_add_votes s ?k (tn_value n)"
    using path_add_votes [OF n(1), of s ?k] by (cases "tn_path ?t pos") auto
  have "m \<in> set (tn_path ?t pos)" using m(1) by simp
  then have "tn_value m \<in> set (tn_values ?t)" by (rule path_value)
  then have "tn_value m \<in> set (forest_values (ch_forktrees ?ch'))"
    unfolding ts forest_values_def using set_update_memI [OF i, of ?t] by auto
  moreover have "vb_hash ?p (tn_value m) = vote_target w" "?k \<in> vb_voters (tn_value m)" using m(2) n(2) by simp_all
  moreover have "distinct (forest_hashes ?p (ch_forktrees ?ch'))"
    using injest_vote_inv [OF inv] by (simp add: chain_inv_def)
  ultimately show ?thesis unfolding has_voter_def by (metis (no_types, lifting) distinct_map inj_onD)
qed

text \<open>Counting other votes keeps a vote countable and its target known.\<close>

lemma injest_vote_countable:
  "countable_vote cfg (injest_vote cfg u ch) w = countable_vote cfg ch w"
  "set (forest_hashes (cfg_params cfg) (ch_forktrees (injest_vote cfg u ch))) =
     set (forest_hashes (cfg_params cfg) (ch_forktrees ch))"
proof -
  have hist: "ch_finalized_history (injest_vote cfg u ch) = ch_finalized_history ch"
    by (cases rule: injest_vote_cases [of cfg u ch]) simp_all
  show "countable_vote cfg (injest_vote cfg u ch) w = countable_vote cfg ch w"
    using injest_vote_frame [of cfg u ch] hist by (simp add: countable_vote_def in_finalized_history_def)
  show "set (forest_hashes (cfg_params cfg) (ch_forktrees (injest_vote cfg u ch))) =
      set (forest_hashes (cfg_params cfg) (ch_forktrees ch))"
  proof (cases rule: injest_vote_cases [of cfg u ch])
    case (counted s i pos)
    obtain "i < length (ch_forktrees ch)" using forest_getE [OF counted(4)] by blast
    then show ?thesis unfolding counted(6) by (simp add: forest_hashes_update_votes del: list.set_map)
  qed simp_all
qed

lemma fold_injest_vote_countable:
  "countable_vote cfg (fold (injest_vote cfg) us ch) w = countable_vote cfg ch w"
  "set (forest_hashes (cfg_params cfg) (ch_forktrees (fold (injest_vote cfg) us ch))) =
     set (forest_hashes (cfg_params cfg) (ch_forktrees ch))"
  by (induction us arbitrary: ch) (simp_all only: fold_simps injest_vote_countable)

lemma fold_injest_vote_records:
  assumes "chain_inv cfg ch" and "countable_vote cfg ch w" and "w \<in> set ws"
    and "vote_target w \<in> set (forest_hashes (cfg_params cfg) (ch_forktrees ch))"
  shows "has_voter (cfg_params cfg) (ch_forktrees (fold (injest_vote cfg) ws ch)) (vote_target w) (vote_validator w)"
proof -
  obtain us vs where ws: "ws = us @ w # vs" using assms(3) by (meson split_list)
  let ?c = "fold (injest_vote cfg) us ch"
  have "has_voter (cfg_params cfg) (ch_forktrees (injest_vote cfg w ?c)) (vote_target w) (vote_validator w)"
    by (rule injest_vote_records [OF fold_injest_vote_inv [OF assms(1)]])
      (simp_all only: fold_injest_vote_countable assms)
  then show ?thesis unfolding ws by (simp add: fold_injest_vote_keeps_voter)
qed

section \<open>Polling an inclusion\<close>

text \<open>Finalizing moves subtrees and drops blocks; the voters of those that stay are the same.\<close>

lemma finalize_loop_keeps_voter:
  assumes "finalize_loop cfg ch = Some ch'" and "has_voter p (ch_forktrees ch) h k"
  shows "has_voter p (ch_forktrees ch') h k"
proof (rule finalize_loop_induct [where P = "\<lambda>c. has_voter p (ch_forktrees c) h k", OF assms])
  fix a b
  assume a: "has_voter p (ch_forktrees a) h k" and "try_finalize_roots cfg a = Some (True, b)"
  from this(2) show "has_voter p (ch_forktrees b) h k"
  proof (cases rule: try_finalize_rootsE)
    case (1 i v cs store ep)
    have "TreeNode v cs \<in> set (ch_forktrees a)" using 1(1,2) by (metis nth_mem)
    then have "set (tn_values (TreeNode v cs)) \<subseteq> set (forest_values (ch_forktrees a))"
      unfolding forest_values_def set_concat set_map by blast
    then have "set (forest_values cs) \<subseteq> set (forest_values (ch_forktrees a))" by (auto simp: forest_values_def)
    with a show ?thesis unfolding 1(8) by (auto simp: has_voter_def)
  qed
qed

text \<open>The votes waiting for a block survive the counting of the votes the block carries.\<close>

definition waiting :: "('d, 's) chain \<Rightarrow> vote \<Rightarrow> bool" where
  "waiting ch w \<longleftrightarrow> (\<exists>vs. map_of (or_votes (ch_orphans ch)) (vote_target w) = Some vs \<and> w \<in> set vs)"

lemma injest_vote_waiting: "waiting ch w \<Longrightarrow> waiting (injest_vote cfg u ch) w"
  by (cases rule: injest_vote_cases [of cfg u ch])
    (auto simp: waiting_def orphans_add_vote_def map_of_hm_insert split: option.split)

lemma fold_injest_vote_waiting: "waiting ch w \<Longrightarrow> waiting (fold (injest_vote cfg) us ch) w"
  by (induction us arbitrary: ch) (simp_all add: injest_vote_waiting)

lemma post_block_included_records:
  assumes inv: "chain_inv cfg ch" and ok: "post_block_included cfg now b ch = Some ch'"
    and w: "countable_vote cfg ch w" "vote_target w \<in> set (forest_hashes (cfg_params cfg) (ch_forktrees ch))"
    and src: "w \<in> set (bl_votes b) \<or> vote_target w = block_hash (cfg_params cfg) b \<and> waiting ch w"
  shows "has_voter (cfg_params cfg) (ch_forktrees ch') (vote_target w) (vote_validator w)"
  using ok
proof (cases rule: post_block_includedE)
  case (1 votes os ch4)
  let ?ch1 = "count_votes cfg (bl_votes b) ch" and ?ws = "case votes of Some vs \<Rightarrow> vs | None \<Rightarrow> []"
  let ?voted = "\<lambda>c. has_voter (cfg_params cfg) (ch_forktrees c) (vote_target w) (vote_validator w)"
  have ch1: "chain_inv cfg ?ch1" unfolding count_votes_def by (rule fold_injest_vote_inv [OF inv])
  then have os: "orphans_invar (cfg_params cfg) os"
    using consume_votes_invar [OF 1(1)] by (simp add: chain_inv_def)
  have "?voted (fold (injest_vote cfg) ?ws (?ch1\<lparr>ch_orphans := os\<rparr>))"
  proof (cases "w \<in> set (bl_votes b)")
    case True
    then have "?voted ?ch1" unfolding count_votes_def using inv w by (intro fold_injest_vote_records)
    then show ?thesis by (intro fold_injest_vote_keeps_voter) simp
  next
    case False
    then have "waiting ?ch1 w" and t: "vote_target w = block_hash (cfg_params cfg) b"
      using src unfolding count_votes_def by (auto intro: fold_injest_vote_waiting)
    then have "w \<in> set ?ws" using 1(1) by (auto simp: waiting_def consume_votes_def)
    moreover have "countable_vote cfg (?ch1\<lparr>ch_orphans := os\<rparr>) w" "vote_target w \<in>
        set (forest_hashes (cfg_params cfg) (ch_forktrees (?ch1\<lparr>ch_orphans := os\<rparr>)))"
      using w fold_injest_vote_countable [of cfg "bl_votes b" ch]
      by (simp_all add: count_votes_def)
    moreover have "chain_inv cfg (?ch1\<lparr>ch_orphans := os\<rparr>)" using ch1 os by simp
    ultimately show ?thesis by (intro fold_injest_vote_records)
  qed
  from finalize_loop_keeps_voter [OF 1(2) this] show ?thesis unfolding 1(3) by simp
qed

lemma poll_included_records:
  assumes "chain_inv cfg ch" and "poll_next cfg now ch = Some (Some (BlockIncluded e), ch')"
    and "countable_vote cfg ch w" and "vote_target w \<in> set (forest_hashes (cfg_params cfg) (ch_forktrees ch))"
    and "w \<in> set (bl_votes (ex_underlying e))
      \<or> vote_target w = block_hash (cfg_params cfg) (ex_underlying e) \<and> waiting ch w"
  shows "has_voter (cfg_params cfg) (ch_forktrees ch') (vote_target w) (vote_validator w)"
proof -
  let ?ch0 = "ch\<lparr>ch_events := butlast (ch_events ch)\<rparr>"
  have step: "post_block_included cfg now (ex_underlying e) ?ch0 = Some ch'"
    using assms(2) by (auto simp: poll_next_def Let_def split: if_split_asm)
  have "chain_inv cfg ?ch0" "countable_vote cfg ?ch0 w" "waiting ?ch0 w = waiting ch w"
    using assms(1,3) by (simp_all add: waiting_def)
  with post_block_included_records [OF this(1) step this(2)] assms(4,5) show ?thesis by simp
qed

end
