(* ===== verification/Rensa_Composition_Properties.thy ===== *)
theory Rensa_Composition_Properties
  imports Rensa_Service_Properties Rensa_Network_Properties Rensa_Api_Properties Rensa_Votes
begin

text \<open>
  The way of a transaction and of a vote through the whole system: a transaction from a request to one validator, over the run loop and
  the gossip network, into the mempool of another; a vote from the chain of the validator that casts it, over the gossip network, into a
  block that another validator produces, and from there into the count of a third.
\<close>

lemma checked_is_recorded:
  assumes "tx_checked p s tx" and "pr_limits pr = g_limits (rs_genesis s)" and "c = rp_crypto p"
  shows "map_of (mp_txs (pr_mempool (record_transaction c tx pr))) (tx_hash c tx) = Some tx"
  using assms by (simp add: tx_checked_def record_transaction_def add_transaction_def map_of_hm_insert)

lemma single_sent:
  assumes "rs_open s" and "tx_accepted p s [] tx" and "rs_sent s = []"
  obtains body s' where "serve_send_transactions p [tx] s = Some ((ACCEPTED, body), s')" and "api_poll s' = (Some tx, s)"
proof -
  have "\<forall>t \<in> set [tx]. known_nonce p (tx_payer t) s \<noteq> None" using assms(2) by (auto simp: tx_accepted_def)
  moreover have same: "s\<lparr>rs_sent := []\<rparr> = s" using assms(3) by (metis rpc_state.surjective rpc_state.update_convs(4))
  ultimately obtain rs nonces where "send_all p [tx] ([], [], s\<lparr>rs_sent := rs_sent s\<rparr>) =
      Some (Inr ([] @ map2 (\<lambda>tx r. (rp_b58 p (tx_hash (rp_crypto p) tx), r)) [tx] rs, nonces,
        s\<lparr>rs_sent := rs_sent s @ map ((!) [tx]) (filter (\<lambda>i. tx_accepted p s ([] @ take i [tx]) ([tx] ! i)) [0..<length [tx]])\<rparr>))"
    using send_all_ok [OF nonces_ok_start assms(1), of "[tx]" p "[]" "rs_sent s"] by blast
  then have sent: "send_all p [tx] ([], [], s) =
      Some (Inr (map2 (\<lambda>tx r. (rp_b58 p (tx_hash (rp_crypto p) tx), r)) [tx] rs, nonces, s\<lparr>rs_sent := [tx]\<rparr>))"
    using assms(2,3) same by simp
  then show thesis
    using sent same that by (simp add: serve_send_transactions_def api_poll_def)
qed

text \<open>
  C9. An accepted transaction reaches the mempools of other validators: a transaction that the RPC service of one validator accepts
  is passed to its run loop, gossiped to its eager peers, and when a peer of the same chain that can hear the sender gets it for the first
  time, its run loop records it in its mempool.
\<close>

theorem rpc_transaction_reaches_mempool:
  assumes rpc: "rs_open s" "tx_accepted p s [] tx" "rs_sent s = []"
    and net: "net_codec_ok k" "zstd_ok z" "on_command k z chainid now i (GossipTransaction tx) eA = Some eA'"
    and A: "map_of (ep_topics eA) (tx_topic chainid) = Some mA" "mesh_topic mA = tx_topic chainid" "pB \<in> set (pt_eager (tm_tree mA))"
      "cache_get i (pt_received (tm_tree mA)) = None" "cache_get i (pt_observed (tm_tree mA)) = None"
    and B: "map_of (ep_topics eB) (tx_topic chainid) = Some mB" "mesh_topic mB = tx_topic chainid" "pA \<notin> set (ep_banned eB)"
      "cf_authorizer (ep_config eB) (tx_topic chainid) pA = Some True" "cache_get i (pt_received (tm_tree mB)) = None"
      "cf_enable_compression (pt_config (tm_tree mB)) = cf_enable_compression (ep_config eA)"
    and same: "pr_limits (vn_producer nB) = g_limits (rs_genesis s)" "nc_crypto cB = rp_crypto p"
  shows "\<exists>body s' nA' r mA' eB' mB' a ev nB'.
    serve_send_transactions p [tx] s = Some ((ACCEPTED, body), s') \<and> api_poll s' = (Some tx, s)
    \<and> node_step cA (RpcReady tx) nA = Some nA' \<and> vn_netout nA' = vn_netout nA @ [GossipTransaction tx]
    \<and> map_of (ep_topics eA') (tx_topic chainid) = Some mA' \<and> NotifyHandler pB r \<in> set (pt_out (tm_tree mA'))
    \<and> inject_event f z now' pA conn r eB = Some eB' \<and> map_of (ep_topics eB') (tx_topic chainid) = Some mB'
    \<and> a \<in> set (pt_out (tm_tree mB')) \<and> on_swarm_event k chainid a = Some ev
    \<and> node_step cB (NetworkReady time delay ev) nB = Some nB'
    \<and> map_of (mp_txs (pr_mempool (vn_producer nB'))) (tx_hash (nc_crypto cB) tx) = Some tx"
proof -
  obtain body s' where 1: "serve_send_transactions p [tx] s = Some ((ACCEPTED, body), s')" "api_poll s' = (Some tx, s)"
    using single_sent [OF rpc] by blast
  have "command_message k chainid (GossipTransaction tx) = Some (tx_topic chainid, nt_tx_to k tx)" by (simp add: command_message_def)
  from gossip_arrives [OF net(1,2) this net(3) A B, of f now' conn]
  obtain r mA' eB' mB' a where 2: "map_of (ep_topics eA') (tx_topic chainid) = Some mA'" "NotifyHandler pB r \<in> set (pt_out (tm_tree mA'))"
    "inject_event f z now' pA conn r eB = Some eB'" "map_of (ep_topics eB') (tx_topic chainid) = Some mB'"
    "a \<in> set (pt_out (tm_tree mB'))" "on_swarm_event k chainid a = Some (TransactionReceived tx)" by auto
  have "tx_checked p s tx" using rpc(2) by (simp add: tx_accepted_def)
  from checked_is_recorded [OF this same(1)] same(2)
  have "map_of (mp_txs (pr_mempool (record_transaction (nc_crypto cB) tx (vn_producer nB)))) (tx_hash (nc_crypto cB) tx) = Some tx" by simp
  then have "node_step cB (NetworkReady time delay (TransactionReceived tx)) nB
      = Some (nB\<lparr>vn_producer := record_transaction (nc_crypto cB) tx (vn_producer nB)\<rparr>)
    \<and> map_of (mp_txs (pr_mempool (vn_producer (nB\<lparr>vn_producer := record_transaction (nc_crypto cB) tx (vn_producer nB)\<rparr>))))
        (tx_hash (nc_crypto cB) tx) = Some tx" by (simp add: on_network_def)
  moreover have "node_step cA (RpcReady tx) nA = Some (send_out (GossipTransaction tx) nA)"
    "vn_netout (send_out (GossipTransaction tx) nA) = vn_netout nA @ [GossipTransaction tx]" by (simp_all add: send_out_def)
  ultimately show ?thesis using 1 2 by blast
qed

definition demo_mesh :: "topic \<Rightarrow> peer_id \<Rightarrow> peer_id list \<Rightarrow> topic_mesh" where
  "demo_mesh topic p eager =
     on_tree (\<lambda>t. t\<lparr>pt_eager := eager\<rparr>) (topic_new topic demo_net_config \<lparr>ap_id = p, ap_addresses = []\<rparr> 0 [])"

definition demo_peer :: "topic \<Rightarrow> peer_id \<Rightarrow> peer_id list \<Rightarrow> episub" where
  "demo_peer topic p eager =
     (episub_new demo_net_config)\<lparr>ep_local := Some \<lparr>ap_id = p, ap_addresses = []\<rparr>, ep_topics := [(topic, demo_mesh topic p eager)]\<rparr>"

lemma demo_peer_simps:
  "map_of (ep_topics (demo_peer topic p eager)) topic = Some (demo_mesh topic p eager)"
  "mesh_topic (demo_mesh topic p eager) = topic" "pt_eager (tm_tree (demo_mesh topic p eager)) = eager"
  "cache_get i (pt_received (tm_tree (demo_mesh topic p eager))) = None" "cache_get i (pt_observed (tm_tree (demo_mesh topic p eager))) = None"
  "pt_config (tm_tree (demo_mesh topic p eager)) = demo_net_config" "ep_config (demo_peer topic p eager) = demo_net_config"
  "ep_banned (demo_peer topic p eager) = []"
  by (simp_all add: demo_peer_def demo_mesh_def episub_new_def topic_new_def plumtree_new_def cache_new_def cache_get_def on_tree_def)

theorem rpc_transaction_reaches_mempool_witness:
  "\<exists>body s' nA' r eB' a ev nB'.
    serve_send_transactions api_params [api_tx 1 []] (api_state []) = Some ((ACCEPTED, body), s')
    \<and> node_step demo_config (RpcReady (api_tx 1 [])) demo_validator = Some nA' \<and> vn_netout nA' = [GossipTransaction (api_tx 1 [])]
    \<and> inject_event demo_formats demo_zstd 2 [1] 0 r (demo_peer (tx_topic ''x'') [2] []) = Some eB'
    \<and> on_swarm_event demo_net_codec ''x'' a = Some ev
    \<and> node_step demo_config (NetworkReady 3 0 ev) demo_validator = Some nB'
    \<and> map_of (mp_txs (pr_mempool (vn_producer nB'))) (tx_hash demo_crypto (api_tx 1 [])) = Some (api_tx 1 [])"
proof -
  obtain eA' where A: "on_command demo_net_codec demo_zstd ''x'' 1 7 (GossipTransaction (api_tx 1 [])) (demo_peer (tx_topic ''x'') [1] [[2]]) = Some eA'"
    by (simp add: on_command_def command_message_def episub_publish_def demo_peer_simps)
  have known: "known_nonce api_params [0, 1] (api_state []) = Some 0"
    by (simp add: known_nonce_def get_confirmed_account_def bs_latest_def [of _ Confirmed] tree_last_def)
      (simp add: api_store_def Let_def)
  have acc: "tx_accepted api_params (api_state []) [] (api_tx 1 [])"
    by (simp add: tx_accepted_def earlier_def api_tx_checked known)
  have s: "rs_sent (api_state []) = []" "rs_genesis (api_state []) = demo_genesis" by (simp_all add: api_state_def)
  have c: "nc_crypto demo_config = demo_crypto" "rp_crypto api_params = demo_crypto" "vn_netout demo_validator = []"
    "pr_limits (vn_producer demo_validator) = g_limits demo_genesis"
    by (simp_all add: node_params_def api_params_def demo_validator_def producer_new_def)
  show ?thesis
    using rpc_transaction_reaches_mempool [OF _ acc s(1) demo_net_codec_ok demo_zstd_ok A, of "demo_mesh (tx_topic ''x'') [1] [[2]]" "[2]" "demo_peer (tx_topic ''x'') [2] []"
        "demo_mesh (tx_topic ''x'') [2] []" "[1]" demo_validator demo_config demo_config demo_validator demo_formats 2 0 3 0]
    unfolding c s by (simp add: demo_peer_simps) blast
qed

section \<open>The way of a vote\<close>

lemma produce_takes_vote:
  assumes "vote_validator w \<in> mp_validators (pr_mempool pr)"
    and "produce p fuel vm st prev (record_vote w pr) = Some pr'" and "pr_pending pr' = Some b"
  shows "w \<in> set (bl_votes b)"
  using assms(2)
proof (cases rule: produceE)
  case (1 txs out votes mp)
  have "map_of (mp_votes (pr_mempool (record_vote w pr))) (vote_signature w) = Some w"
    using assms(1) by (simp add: record_vote_def add_vote_def map_of_hm_insert)
  then have "w \<in> set votes" unfolding 1(2) by (force simp: take_votes_def dest: map_of_SomeD)
  with 1(4) assms(3) show ?thesis by (auto simp: produced_new_def Let_def)
qed

lemma own_vote_verifies: "signing_correct c \<Longrightarrow> vote_verify_signature c (vote_new c keypair target justification)"
  by (simp add: vote_new_def vote_verify_signature_def signing_correct_def)

text \<open>
  C10. A cast vote is counted by others: the vote that a validator's chain casts is signed and gossiped by its run loop; a validator that
  gets it for the first time records it and puts it into the block of its next own slot; and a third validator that polls the inclusion of
  that block, with the target in its forest, the voter eligible and the justification finalized, has the voter on the target afterwards
  (unless the target was finalized or discarded in the same step).
\<close>

theorem cast_vote_is_counted:
  assumes cast: "ch_events (vn_chain nA) = es @ [Vote target justification]" "signing_correct (nc_crypto cA)"
      "w = vote_new (nc_crypto cA) (nc_keypair cA) target justification"
    and net: "net_codec_ok k" "zstd_ok z" "on_command k z chainid now i (GossipVote w) eA = Some eA'"
    and A: "map_of (ep_topics eA) (vote_topic chainid) = Some mA" "mesh_topic mA = vote_topic chainid" "pB \<in> set (pt_eager (tm_tree mA))"
      "cache_get i (pt_received (tm_tree mA)) = None" "cache_get i (pt_observed (tm_tree mA)) = None"
    and B: "map_of (ep_topics eB) (vote_topic chainid) = Some mB" "mesh_topic mB = vote_topic chainid" "pA \<notin> set (ep_banned eB)"
      "cf_authorizer (ep_config eB) (vote_topic chainid) pA = Some True" "cache_get i (pt_received (tm_tree mB)) = None"
      "cf_enable_compression (pt_config (tm_tree mB)) = cf_enable_compression (ep_config eA)"
    and slot: "vote_validator w \<in> mp_validators (pr_mempool (vn_producer nB))" "val_pubkey v = ed_public (nc_crypto cB) (nc_keypair cB)"
      "node_step cB (SlotStarted s v) (nB\<lparr>vn_producer := record_vote w (vn_producer nB)\<rparr>) = Some nB'"
      "pr_pending (vn_producer nB') = Some (ex_underlying e)"
    and C: "chain_inv (nc_cfg cC) (vn_chain nC)" "nc_crypto cC = nc_crypto cA" "ch_events (vn_chain nC) = es' @ [BlockIncluded e]"
      "eligible (nc_cfg cC) (ch_stakes (vn_chain nC)) (vote_validator w)"
      "in_finalized_history (nc_cfg cC) (vn_chain nC) justification"
      "target \<in> set (forest_hashes (nc_params cC) (ch_forktrees (vn_chain nC)))"
      "node_step cC (ChainReady timeC) nC = Some nC'"
  shows "\<exists>nA' r mA' eB' mB' a ev.
    node_step cA (ChainReady timeA) nA = Some nA' \<and> vn_netout nA' = vn_netout nA @ [GossipVote w]
    \<and> map_of (ep_topics eA') (vote_topic chainid) = Some mA' \<and> NotifyHandler pB r \<in> set (pt_out (tm_tree mA'))
    \<and> inject_event f z now' pA conn r eB = Some eB' \<and> map_of (ep_topics eB') (vote_topic chainid) = Some mB'
    \<and> a \<in> set (pt_out (tm_tree mB')) \<and> on_swarm_event k chainid a = Some ev
    \<and> node_step cB (NetworkReady time delay ev) nB = Some (nB\<lparr>vn_producer := record_vote w (vn_producer nB)\<rparr>)
    \<and> w \<in> set (bl_votes (ex_underlying e))
    \<and> has_voter (nc_params cC) (ch_forktrees (vn_chain nC')) target (vote_validator w)"
proof -
  let ?nA = "nA\<lparr>vn_chain := (vn_chain nA)\<lparr>ch_events := es\<rparr>\<rparr>"
  have "poll_next (nc_cfg cA) timeA (vn_chain nA) = Some (Some (Vote target justification), (vn_chain nA)\<lparr>ch_events := es\<rparr>)"
    using cast(1) by (simp add: poll_next_def)
  then have 1: "node_step cA (ChainReady timeA) nA = Some (send_out (GossipVote w) ?nA)"
    using cast(3) by (simp add: on_chain_def on_chain_event_def)
  have "command_message k chainid (GossipVote w) = Some (vote_topic chainid, nt_vote_to k w)" by (simp add: command_message_def)
  from gossip_arrives [OF net(1,2) this net(3) A B, of f now' conn]
  obtain r mA' eB' mB' a where 2: "map_of (ep_topics eA') (vote_topic chainid) = Some mA'" "NotifyHandler pB r \<in> set (pt_out (tm_tree mA'))"
    "inject_event f z now' pA conn r eB = Some eB'" "map_of (ep_topics eB') (vote_topic chainid) = Some mB'"
    "a \<in> set (pt_out (tm_tree mB'))" "on_swarm_event k chainid a = Some (VoteReceived w)" by auto
  have 3: "node_step cB (NetworkReady time delay (VoteReceived w)) nB = Some (nB\<lparr>vn_producer := record_vote w (vn_producer nB)\<rparr>)"
    by (simp add: on_network_def)
  obtain st prev where "produce (nc_params cB) (nc_fuel cB) (nc_vm cB) st prev (record_vote w (vn_producer nB)) = Some (vn_producer nB')"
    using slot(2,3) by (auto simp: on_slot_def split: prod.split_asm)
  then have carried: "w \<in> set (bl_votes (ex_underlying e))" using slot(1,4) by (intro produce_takes_vote)
  obtain ev ch' where poll: "poll_next (nc_cfg cC) timeC (vn_chain nC) = Some (ev, ch')" and C': "vn_chain nC' = ch'"
    using C(7) by (auto simp: on_chain_def on_chain_event_def send_out_def consumers_consume_def
        split: option.split_asm chain_event.split_asm)
  have "ev = Some (BlockIncluded e)" using poll C(3) by (auto simp: poll_next_def Let_def)
  with poll have poll: "poll_next (nc_cfg cC) timeC (vn_chain nC) = Some (Some (BlockIncluded e), ch')" by simp
  have p: "cfg_params (nc_cfg cC) = nc_params cC" by (simp add: node_cfg_def)
  have w: "vote_target w = target" "vote_justification w = justification" "vote_verify_signature (nc_crypto cC) w"
    using cast(2,3) C(2) own_vote_verifies by (simp_all add: vote_new_def)
  have "has_voter (cfg_params (nc_cfg cC)) (ch_forktrees ch') (vote_target w) (vote_validator w)"
    using carried C(4,5,6) w by (intro poll_included_records [OF C(1) poll]) (auto simp: countable_vote_def p)
  then have 4: "has_voter (nc_params cC) (ch_forktrees (vn_chain nC')) target (vote_validator w)" unfolding p w C' .
  have "vn_netout (send_out (GossipVote w) ?nA) = vn_netout nA @ [GossipVote w]" by (simp add: send_out_def)
  with 1 2 3 4 carried show ?thesis by blast
qed

text \<open>The validator with a vote to cast, and the block that carries the vote.\<close>

definition voting_validator :: validator_node where
  "voting_validator = demo_validator\<lparr>vn_chain := demo_node_chain\<lparr>ch_events := [Vote [7, 16] [7, 115]]\<rparr>\<rparr>"

definition vote_block :: "transaction list produced" where
  "vote_block = produced_new node_params [0, 1] 1 [7, 115] [] [7, 6] [demo_vote [7, 16]]"

definition vote_executed :: "transaction list executed" where
  "vote_executed = \<lparr>ex_underlying = vote_block, ex_output = block_output_empty\<rparr>"

lemma demo_genesis_validators: "g_validators demo_genesis = [Validator [0, 1] 100]"
  by (simp add: demo_genesis_def)

lemma vote_produced:
  "\<exists>pr. node_step demo_config (SlotStarted 1 (Validator [0, 1] 100))
       (demo_validator\<lparr>vn_producer := record_vote (demo_vote [7, 16]) (vn_producer demo_validator)\<rparr>) = Some pr
     \<and> pr_pending (vn_producer pr) = Some vote_block"
  using demo_node_head demo_genesis_validators
  by (simp add: on_slot_def demo_validator_def producer_new_def record_vote_def add_vote_def mempool_new_def hm_insert_def
      produce_def take_votes_def take_transactions_def ordered_transactions_def empty_execution vote_block_def
      demo_output_hash demo_genesis_hash Let_def)

lemma demo_included_forest:
  "\<exists>ch. include_block demo_ncfg 0 empty_block demo_node_chain = Some ch
    \<and> ch_forktrees ch = [tn_new (volatile_new empty_executed)] \<and> ch_finalized_history ch = []"
  using empty_block_verifies empty_executed_new
  by (simp add: include_block_def include_one_def try_include_def get_block_node_def demo_node_chain_def demo_genesis_hash
      empty_block_hash push_front_def with_head_def sorted_heads_def tn_new_def volatile_new_def
      commit_and_vote_def epoch_def consume_blocks_def orphans_new_def empty_executed_def Let_def)

theorem cast_vote_is_counted_witness:
  "\<exists>nA' n n'. node_step demo_config (ChainReady 1) voting_validator = Some nA'
    \<and> vn_netout nA' = [GossipVote (demo_vote [7, 16])]
    \<and> node_step demo_config (ChainReady 2) n = Some n' \<and> [7, 16] \<in> set (forest_hashes node_params (ch_forktrees (vn_chain n)))
    \<and> demo_vote [7, 16] \<in> set (bl_votes vote_block)
    \<and> has_voter node_params (ch_forktrees (vn_chain n')) [7, 16] [0, 1]"
proof -
  obtain ch where ch: "include_block demo_ncfg 0 empty_block demo_node_chain = Some ch"
    "ch_forktrees ch = [tn_new (volatile_new empty_executed)]" using demo_included_forest by blast
  have inv0: "chain_inv demo_ncfg demo_node_chain"
    by (simp add: chain_inv_def demo_node_chain_def orphans_new_def orphans_invar_def)
  define c where "c = ch\<lparr>ch_events := [BlockIncluded vote_executed]\<rparr>"
  have inv: "chain_inv demo_ncfg c"
    using include_all_inv [OF inv0 ch(1) [unfolded include_block_def]] by (simp add: c_def)
  have frame: "ch_stakes c = [([0, 1], 100)]" "ch_finalized c = GenesisBlock demo_genesis" "ch_events c = [] @ [BlockIncluded vote_executed]"
    using include_all_frame [OF ch(1) [unfolded include_block_def]] by (simp_all add: c_def demo_node_chain_def)
  define n where "n = demo_validator\<lparr>vn_chain := c\<rparr>"
  have "poll_next demo_ncfg 2 c \<noteq> None" by (rule poll_next_total [OF inv]) simp_all
  then have "on_chain demo_config 2 n \<noteq> None"
    unfolding demo_ncfg_def on_chain_def n_def by (simp split: option.split prod.split)
  then obtain n' where n': "node_step demo_config (ChainReady 2) n = Some n'" by auto
  have C: "eligible demo_ncfg (ch_stakes c) [0, 1]" "in_finalized_history demo_ncfg c [7, 115]"
    by (simp_all add: frame eligible_def in_finalized_history_def demo_genesis_hash)
  have known: "[7, 16] \<in> set (forest_hashes node_params (ch_forktrees c))"
    by (simp add: c_def ch(2) tn_new_def volatile_new_def empty_executed_def empty_block_hash)
  obtain nB' where nB': "node_step demo_config (SlotStarted 1 (Validator [0, 1] 100))
       (demo_validator\<lparr>vn_producer := record_vote (demo_vote [7, 16]) (vn_producer demo_validator)\<rparr>) = Some nB'"
     "pr_pending (vn_producer nB') = Some (ex_underlying vote_executed)"
    using vote_produced by (auto simp: vote_executed_def)
  obtain eA' where A: "on_command demo_net_codec demo_zstd ''x'' 1 7 (GossipVote (demo_vote [7, 16])) (demo_peer (vote_topic ''x'') [1] [[2]]) = Some eA'"
    by (simp add: on_command_def command_message_def episub_publish_def demo_peer_simps)
  have events: "ch_events (vn_chain voting_validator) = [] @ [Vote [7, 16] [7, 115]]" "vn_netout voting_validator = []"
    and val: "vote_validator (demo_vote [7, 16]) \<in> mp_validators (pr_mempool (vn_producer demo_validator))"
    by (simp_all add: voting_validator_def demo_validator_def producer_new_def mempool_new_def demo_genesis_validators)
  have own: "signing_correct (nc_crypto demo_config)"
    "demo_vote [7, 16] = vote_new (nc_crypto demo_config) (nc_keypair demo_config) [7, 16] [7, 115]"
    "val_pubkey (Validator [0, 1] 100) = ed_public (nc_crypto demo_config) (nc_keypair demo_config)"
    by (simp_all add: demo_signing demo_vote_def)
  have peers: "[2] \<in> set (pt_eager (tm_tree (demo_mesh (vote_topic ''x'') [1] [[2]])))"
    "[1] \<notin> set (ep_banned (demo_peer (vote_topic ''x'') [2] []))"
    "cf_authorizer (ep_config (demo_peer (vote_topic ''x'') [2] [])) (vote_topic ''x'') [1] = Some True"
    "cf_enable_compression (pt_config (tm_tree (demo_mesh (vote_topic ''x'') [2] []))) =
       cf_enable_compression (ep_config (demo_peer (vote_topic ''x'') [1] [[2]]))"
    by (simp_all add: demo_peer_simps)
  have node: "chain_inv (nc_cfg demo_config) (vn_chain n)" "ch_events (vn_chain n) = [] @ [BlockIncluded vote_executed]"
    "eligible (nc_cfg demo_config) (ch_stakes (vn_chain n)) (vote_validator (demo_vote [7, 16]))"
    "in_finalized_history (nc_cfg demo_config) (vn_chain n) [7, 115]"
    "[7, 16] \<in> set (forest_hashes (nc_params demo_config) (ch_forktrees (vn_chain n)))"
    using inv frame(3) C known by (simp_all add: demo_ncfg_def n_def)
  from cast_vote_is_counted [OF events(1) own(1,2) demo_net_codec_ok demo_zstd_ok A demo_peer_simps(1,2) peers(1) demo_peer_simps(4,5)
      demo_peer_simps(1,2) peers(2,3) demo_peer_simps(4) peers(4) val own(3) nB' node(1) refl node(2-5) n',
      where timeA = 1 and f = demo_formats and now' = 2 and conn = 0 and time = 3 and delay = 0]
  have "\<exists>nA'. node_step demo_config (ChainReady 1) voting_validator = Some nA'
      \<and> vn_netout nA' = vn_netout voting_validator @ [GossipVote (demo_vote [7, 16])]
      \<and> demo_vote [7, 16] \<in> set (bl_votes (ex_underlying vote_executed))
      \<and> has_voter (nc_params demo_config) (ch_forktrees (vn_chain n')) [7, 16] (vote_validator (demo_vote [7, 16]))"
    by blast
  then obtain nA' where "node_step demo_config (ChainReady 1) voting_validator = Some nA'"
    "vn_netout nA' = [GossipVote (demo_vote [7, 16])]" "demo_vote [7, 16] \<in> set (bl_votes vote_block)"
    "has_voter node_params (ch_forktrees (vn_chain n')) [7, 16] [0, 1]"
    unfolding vote_executed_def events(2) by auto
  moreover have "[7, 16] \<in> set (forest_hashes node_params (ch_forktrees (vn_chain n)))" using node(5) by simp
  ultimately show ?thesis using n' by blast
qed

end
