(* ===== verification/Rensa_Keys.thy ===== *)
theory Rensa_Keys
  imports Rensa_Block
begin

text \<open>
  \<open>src/primitives/keys.rs\<close> and \<open>src/primitives/b58.rs\<close>: the text forms of keys, hashes and signatures. The base58 codec and the formats of signatures and multihashes are parameters;
  \<open>bs58::decode(..).into(buffer)\<close> fills the front of the buffer and fails only when the decoded bytes are too many.
\<close>

section \<open>Base58\<close>

datatype b58_error = InvalidText | BufferTooSmall

record bs58 =
  b58_text :: "bytes \<Rightarrow> string"
  b58_parse :: "string \<Rightarrow> bytes option"

definition decode_vec :: "bs58 \<Rightarrow> string \<Rightarrow> b58_error + bytes" where
  "decode_vec b t = (case b58_parse b t of None \<Rightarrow> Inl InvalidText | Some v \<Rightarrow> Inr v)"

definition decode_into :: "bs58 \<Rightarrow> nat \<Rightarrow> string \<Rightarrow> b58_error + bytes" where
  "decode_into b n t =
     (case decode_vec b t of
        Inl e \<Rightarrow> Inl e
      | Inr v \<Rightarrow> if length v > n then Inl BufferTooSmall else Inr (v @ replicate (n - length v) 0))"

text \<open>The \<open>serde\<close> modules of \<open>b58.rs\<close>: a text, and for the typed ones a check of the bytes.\<close>

definition b58_deserialize :: "bs58 \<Rightarrow> (bytes \<Rightarrow> 'a option) \<Rightarrow> string \<Rightarrow> 'a option" where
  "b58_deserialize b from_bytes t = (case decode_vec b t of Inl _ \<Rightarrow> None | Inr v \<Rightarrow> from_bytes v)"

primrec b58_deserialize_list :: "bs58 \<Rightarrow> (bytes \<Rightarrow> 'a option) \<Rightarrow> string list \<Rightarrow> 'a list option" where
  "b58_deserialize_list b from_bytes [] = Some []"
| "b58_deserialize_list b from_bytes (t # ts) =
     (case b58_deserialize b from_bytes t of
        None \<Rightarrow> None
      | Some x \<Rightarrow> map_option (\<lambda>xs. x # xs) (b58_deserialize_list b from_bytes ts))"

section \<open>Keys\<close>

definition pubkey_display :: "bs58 \<Rightarrow> pubkey \<Rightarrow> string" where
  "pubkey_display b k = b58_text b k"

definition pubkey_from_str :: "bs58 \<Rightarrow> string \<Rightarrow> b58_error + pubkey" where
  "pubkey_from_str b t = decode_into b 32 t"

text \<open>The producer and signature of a block, as a pair of texts.\<close>

definition validator_deserialize :: "bs58 \<Rightarrow> (bytes \<Rightarrow> signature option) \<Rightarrow> string \<times> string \<Rightarrow> (pubkey \<times> signature) option" where
  "validator_deserialize b sig_from r =
     (case pubkey_from_str b (fst r) of
        Inl _ \<Rightarrow> None
      | Inr k \<Rightarrow> map_option (\<lambda>sig. (k, sig)) (b58_deserialize b sig_from (snd r)))"

record keypair =
  kp_secret :: bytes
  kp_public :: pubkey

datatype keypair_error = Base58ParseError b58_error | Ed25519Error

text \<open>\<open>SecretKey::from_bytes\<close> takes 32 bytes.\<close>

definition keypair_try_from :: "crypto \<Rightarrow> bytes \<Rightarrow> keypair_error + keypair" where
  "keypair_try_from c v =
     (if length v \<noteq> 32 then Inl Ed25519Error else Inr \<lparr>kp_secret = v, kp_public = ed_public c v\<rparr>)"

definition keypair_from_str :: "crypto \<Rightarrow> bs58 \<Rightarrow> string \<Rightarrow> keypair_error + keypair" where
  "keypair_from_str c b t =
     (case decode_into b 32 t of
        Inl e \<Rightarrow> Inl (Base58ParseError e)
      | Inr secret \<Rightarrow> keypair_try_from c secret)"

section \<open>Round trips\<close>

definition bs58_ok :: "bs58 \<Rightarrow> bool" where
  "bs58_ok b \<longleftrightarrow> (\<forall>v. b58_parse b (b58_text b v) = Some v)"

lemma decode_into_text:
  assumes "bs58_ok b"
  shows "decode_into b n (b58_text b v) = (if length v > n then Inl BufferTooSmall else Inr (v @ replicate (n - length v) 0))"
  using assms by (simp add: decode_into_def decode_vec_def bs58_ok_def)

lemma b58_deserialize_list_text:
  assumes "bs58_ok b" and "\<And>x. from_bytes (to_bytes x) = Some x"
  shows "b58_deserialize_list b from_bytes (map (\<lambda>x. b58_text b (to_bytes x)) xs) = Some xs"
  using assms by (induction xs) (simp_all add: b58_deserialize_def decode_vec_def bs58_ok_def)

end
