(* ===== verification/Rensa_Cli.thy ===== *)
theory Rensa_Cli
  imports Rensa_Keys Rensa_Network "HOL-Library.Multiset"
begin

text \<open>
  \<open>src/cli.rs\<close> and the part of \<open>src/main.rs\<close> that starts a validator from its options: the addresses it listens on and dials, its
  genesis, its data directory, its identity in the network and the configuration of its components.

  The parsing of arguments is left to \<open>clap\<close>. The content of files, the expansion of a path by \<open>shellexpand\<close> and the creation of
  directories are parameters, as is the construction of a peer id from a key by libp2p. The connection to an SQL
  database is \<open>Rensa_Dbsync\<close>'s business.
\<close>

section \<open>Options\<close>

datatype ip_addr = V4 "32 word" | V6 "128 word"

type_synonym u16 = "16 word"
type_synonym socket_addr = "ip_addr \<times> u16"
type_synonym path = string

record cli_opts =
  opt_keypair :: keypair
  opt_peer :: "socket_addr list"
  opt_addr :: "ip_addr list"
  opt_port :: u16
  opt_genesis :: path
  opt_rpc :: "u16 option"
  opt_data_dir :: path
  opt_blocks_history :: "u64 option"
  opt_dbsync :: "string option"

record os =
  os_read :: "path \<Rightarrow> string option"
  os_json :: "string \<Rightarrow> genesis option"
  os_expand :: "path \<Rightarrow> path option"
  os_create_dir :: "path \<Rightarrow> bool"

section \<open>Addresses\<close>

fun ip_protocol :: "ip_addr \<Rightarrow> protocol" where
  "ip_protocol (V4 a) = Ip4 a"
| "ip_protocol (V6 a) = Ip6 a"

definition listen_multiaddrs :: "cli_opts \<Rightarrow> multiaddr list" where
  "listen_multiaddrs o1 = map (\<lambda>addr. [ip_protocol addr, Tcp (opt_port o1)]) (opt_addr o1)"

definition peers :: "cli_opts \<Rightarrow> multiaddr list" where
  "peers o1 = map (\<lambda>(ip, port). [ip_protocol ip, Tcp port]) (opt_peer o1)"

definition rpc_endpoints :: "cli_opts \<Rightarrow> socket_addr list option" where
  "rpc_endpoints o1 = map_option (\<lambda>port. map (\<lambda>addr. (addr, port)) (opt_addr o1)) (opt_rpc o1)"

section \<open>Genesis and files\<close>

text \<open>\<open>CliOpts::genesis\<close>: read, parse, and sort the validators; \<open>None\<close> is an I/O or a format error.\<close>

definition sort_validators :: "genesis \<Rightarrow> genesis" where
  "sort_validators g = g\<lparr>g_validators := sort (g_validators g)\<rparr>"

definition cli_genesis :: "os \<Rightarrow> cli_opts \<Rightarrow> genesis option" where
  "cli_genesis sys o1 =
     (case os_read sys (opt_genesis o1) of
        None \<Rightarrow> None
      | Some json \<Rightarrow> map_option sort_validators (os_json sys json))"

text \<open>\<open>PathBuf::push\<close>: an absolute path replaces the path, another one is appended after a separator.\<close>

definition path_push :: "path \<Rightarrow> path \<Rightarrow> path" where
  "path_push dir p =
     (if p \<noteq> [] \<and> hd p = CHR ''/'' then p
      else if dir = [] \<or> last dir = CHR ''/'' then dir @ p
      else dir @ ''/'' @ p)"

definition data_dir :: "os \<Rightarrow> cli_opts \<Rightarrow> path option" where
  "data_dir sys o1 =
     (case cli_genesis sys o1 of
        None \<Rightarrow> None
      | Some g \<Rightarrow>
          (case os_expand sys (opt_data_dir o1) of
             None \<Rightarrow> None
           | Some expanded \<Rightarrow>
               let dir = path_push expanded (g_chain_id g)
               in if os_create_dir sys dir then Some dir else None))"

text \<open>
  \<open>CliOpts::blocks_history\<close>: an hour of slots by default; \<open>None\<close> is the panic on an unreadable genesis and the
  division by zero for slots below a millisecond.
\<close>

definition blocks_history :: "os \<Rightarrow> cli_opts \<Rightarrow> u64 option" where
  "blocks_history sys o1 =
     (case opt_blocks_history o1 of
        Some n \<Rightarrow> Some n
      | None \<Rightarrow>
          (case cli_genesis sys o1 of
             None \<Rightarrow> None
           | Some g \<Rightarrow>
               let slot = (of_nat (g_slot_interval g div 1000000) :: u64)
               in if slot = 0 then None else Some (3600000 div slot)))"

section \<open>Identity and start\<close>

text \<open>
  \<open>p2p_identity\<close>: the libp2p key pair of the secret key, whose public key names the peer. \<open>None\<close> is the panic of
  \<open>from_bytes\<close> on a secret that does not have 32 bytes.
\<close>

definition p2p_identity :: "crypto \<Rightarrow> cli_opts \<Rightarrow> pubkey option" where
  "p2p_identity c o1 =
     (if length (kp_secret (opt_keypair o1)) = 32 then Some (ed_public c (kp_secret (opt_keypair o1))) else None)"

text \<open>
  The start in \<open>main\<close>: the configuration of the run loop and the new node on the databases that the data directory
  holds. The block store keeps the details of transactions when the RPC service is on.
\<close>

definition cli_config ::
    "transaction list block_params \<Rightarrow> nat \<Rightarrow> machine \<Rightarrow> account_codec \<Rightarrow> block_codec \<Rightarrow> cli_opts \<Rightarrow> genesis \<Rightarrow> node_config" where
  "cli_config p fuel vm accounts blocks o1 g =
     \<lparr>nc_params = p, nc_genesis = g, nc_fuel = fuel, nc_vm = vm, nc_accounts = accounts, nc_blocks = blocks,
      nc_keypair = kp_secret (opt_keypair o1), nc_peers = peers o1\<rparr>"

definition cli_start ::
    "os \<Rightarrow> transaction list block_params \<Rightarrow> nat \<Rightarrow> machine \<Rightarrow> account_codec \<Rightarrow> block_codec
     \<Rightarrow> (path \<Rightarrow> accounts_db) \<Rightarrow> (path \<Rightarrow> u64 \<Rightarrow> bool \<Rightarrow> block_store) \<Rightarrow> cli_opts \<Rightarrow> validator_node option" where
  "cli_start sys p fuel vm accounts blocks open_state open_blocks o1 =
     (case cli_genesis sys o1 of
        None \<Rightarrow> None
      | Some g \<Rightarrow>
          (case data_dir sys o1 of
             None \<Rightarrow> None
           | Some dir \<Rightarrow>
               (case blocks_history sys o1 of
                  None \<Rightarrow> None
                | Some history \<Rightarrow>
                    node_new (cli_config p fuel vm accounts blocks o1 g) (open_state dir)
                      (open_blocks dir history (rpc_endpoints o1 \<noteq> None)))))"

section \<open>The key tools\<close>

text \<open>\<open>Keypair::unique\<close>: 32 random bytes as a secret key. A generator gives the bytes and its next state.\<close>

definition keypair_unique :: "crypto \<Rightarrow> ('r \<Rightarrow> bytes \<times> 'r) \<Rightarrow> 'r \<Rightarrow> keypair option \<times> 'r" where
  "keypair_unique c fill_bytes rng =
     (case fill_bytes rng of (v, rng') \<Rightarrow> (case keypair_try_from c v of Inl _ \<Rightarrow> None | Inr kp \<Rightarrow> Some kp, rng'))"

text \<open>\<open>str::parse::<u32>\<close>: digits, after an optional plus sign.\<close>

definition parse_u32 :: "string \<Rightarrow> nat option" where
  "parse_u32 t =
     (let ds = (if t \<noteq> [] \<and> hd t = CHR ''+'' then tl t else t);
          n = foldl (\<lambda>acc ch. 10 * acc + (of_char ch - 48)) 0 ds
      in if ds = [] \<or> \<not> list_all (\<lambda>ch. 48 \<le> (of_char ch :: nat) \<and> (of_char ch :: nat) \<le> 57) ds \<or> n \<ge> 2 ^ 32 then None else Some n)"

text \<open>
  \<open>bin/keygen.rs\<close>: the texts of public and secret key of each generated pair, in the order they are printed; \<open>None\<close> is a
  failed \<open>unwrap\<close>.
\<close>

primrec keygen_pairs :: "crypto \<Rightarrow> bs58 \<Rightarrow> ('r \<Rightarrow> bytes \<times> 'r) \<Rightarrow> nat \<Rightarrow> 'r \<Rightarrow> (string \<times> string) list option" where
  "keygen_pairs c b fill_bytes 0 rng = Some []"
| "keygen_pairs c b fill_bytes (Suc n) rng =
     (case fill_bytes rng of (v, rng') \<Rightarrow>
        (case keypair_try_from c v of
           Inl _ \<Rightarrow> None
         | Inr kp \<Rightarrow> map_option (\<lambda>rest. (b58_text b (kp_public kp), b58_text b (kp_secret kp)) # rest)
             (keygen_pairs c b fill_bytes n rng')))"

definition keygen :: "crypto \<Rightarrow> bs58 \<Rightarrow> ('r \<Rightarrow> bytes \<times> 'r) \<Rightarrow> string option \<Rightarrow> 'r \<Rightarrow> (string \<times> string) list option" where
  "keygen c b fill_bytes arg rng =
     (case parse_u32 (case arg of Some t \<Rightarrow> t | None \<Rightarrow> ''1'') of
        None \<Rightarrow> None
      | Some n \<Rightarrow> keygen_pairs c b fill_bytes n rng)"

text \<open>\<open>bin/keydump.rs\<close>: the length and the bytes behind a base58 text.\<close>

definition keydump :: "bs58 \<Rightarrow> string option \<Rightarrow> (nat \<times> bytes) option" where
  "keydump b arg =
     (case arg of
        None \<Rightarrow> None
      | Some t \<Rightarrow> (case decode_vec b t of Inl _ \<Rightarrow> None | Inr v \<Rightarrow> Some (length v, v)))"

section \<open>Properties\<close>

text \<open>Files that list the same validators in another order load as the same genesis.\<close>

lemma sort_validators_order:
  "mset vs = mset (g_validators g) \<Longrightarrow> sort_validators (g\<lparr>g_validators := vs\<rparr>) = sort_validators g"
  by (simp add: sort_validators_def) (metis properties_for_sort mset_sort sorted_sort)

text \<open>
  What libp2p documents of the peer id of an Ed25519 key: its digest is the key behind the four bytes of its protobuf
  prefix.
\<close>

definition peer_ids_ok :: "(pubkey \<Rightarrow> peer_id) \<Rightarrow> (peer_id \<Rightarrow> bytes) \<Rightarrow> bool" where
  "peer_ids_ok to_peer_id digest \<longleftrightarrow> (\<forall>k. length k = 32 \<longrightarrow> digest (to_peer_id k) = [8, 1, 18, 32] @ k)"

text \<open>Validators admit each other: the identity a validator takes from its key pair passes the check of every other.\<close>

lemma identity_admitted:
  assumes "peer_ids_ok to_peer_id digest" and "p2p_identity c o1 = Some k" and "length k = 32"
    and "Validator k stake \<in> set (g_validators g)" and "minimum_stake (g_limits g) \<le> stake"
  shows "authorize (sort_validators g) digest topic (to_peer_id k) = Some True"
  using assms by (force simp: authorize_def pubkey_of_peer_def peer_ids_ok_def validator_set_def sort_validators_def)

text \<open>A started node dials exactly the bootstrap peers, in their order, and nothing else yet.\<close>

lemma cli_start_dials:
  assumes "cli_start sys p fuel vm accounts blocks open_state open_blocks o1 = Some n"
  shows "vn_netout n = map Connect (peers o1) \<and> vn_channel n = []"
proof -
  obtain g db store where "node_new (cli_config p fuel vm accounts blocks o1 g) db store = Some n"
    using assms by (auto simp: cli_start_def split: option.splits)
  then show ?thesis by (auto simp: node_new_def cli_config_def Let_def)
qed

text \<open>The chain's data is below the data directory unless the chain id is an absolute path.\<close>

lemma path_push_below: "p = [] \<or> hd p \<noteq> CHR ''/'' \<Longrightarrow> take (length dir) (path_push dir p) = dir"
  by (auto simp: path_push_def)

text \<open>
  The printed secrets are what \<open>--keypair\<close> takes: each is parsed to a key pair with the printed public key. The generator gives 32 bytes
  each time, so every pair is printed.
\<close>

lemma keygen_pairs_usable:
  assumes "bs58_ok b" and "\<And>r. length (fst (fill_bytes r)) = 32"
  shows "\<exists>ps. keygen_pairs c b fill_bytes n rng = Some ps \<and> length ps = n
    \<and> (\<forall>(pk, sk) \<in> set ps. \<exists>kp. keypair_from_str c b sk = Inr kp \<and> b58_text b (kp_public kp) = pk)"
proof (induction n arbitrary: rng)
  case (Suc n)
  obtain v rng' where v: "fill_bytes rng = (v, rng')" by (cases "fill_bytes rng")
  then have len: "length v = 32" using assms(2) [of rng] by simp
  obtain ps where ps: "keygen_pairs c b fill_bytes n rng' = Some ps" "length ps = n"
    "\<forall>(pk, sk) \<in> set ps. \<exists>kp. keypair_from_str c b sk = Inr kp \<and> b58_text b (kp_public kp) = pk"
    using Suc by blast
  have "keypair_from_str c b (b58_text b v) = Inr \<lparr>kp_secret = v, kp_public = ed_public c v\<rparr>"
    using len by (simp add: keypair_from_str_def decode_into_text [OF assms(1)] keypair_try_from_def)
  then show ?case using v len ps by (auto simp: keypair_try_from_def)
qed simp

lemma keydump_text: "bs58_ok b \<Longrightarrow> keydump b (Some (b58_text b v)) = Some (length v, v)"
  by (simp add: keydump_def decode_vec_def bs58_ok_def)

end
