(* ===== verification/Rensa_Wire.thy ===== *)
theory Rensa_Wire
  imports Rensa_Handler
begin

text \<open>
  \<open>src/network/episub/connection.rs\<close>: the upgrade of a substream to a stream of frames, and what two peers that agree on the size
  limit get through it; \<open>src/primitives/stream.rs\<close>: the next item of an optional stream. The socket and the buffering of
  \<open>Framed\<close> are the network library's; here a stream is the bytes that one side writes and the other side reads.
\<close>

section \<open>The upgrade\<close>

record connection =
  ec_max_transmit_size :: nat

definition connection_new :: "nat \<Rightarrow> connection" where
  "connection_new max_transmit_size = \<lparr>ec_max_transmit_size = max_transmit_size\<rparr>"

definition protocol_info :: "connection \<Rightarrow> string list" where
  "protocol_info c = [''/rensa/episub/1.0.0'']"

definition listen_protocol :: "'s handler \<Rightarrow> connection" where
  "listen_protocol h = connection_new (eh_max_transmit_size h)"

record wire_codec =
  wc_encode :: "rpc \<Rightarrow> bytes \<Rightarrow> handler_error + bytes"
  wc_decode :: "bytes \<Rightarrow> handler_error + (rpc \<times> bytes) option"

definition codec_new :: "frame_codec \<Rightarrow> nat \<Rightarrow> wire_codec" where
  "codec_new k max_len = \<lparr>wc_encode = episub_encode k max_len, wc_decode = episub_decode k max_len\<rparr>"

definition upgrade_inbound :: "frame_codec \<Rightarrow> connection \<Rightarrow> wire_codec" where
  "upgrade_inbound k c = codec_new k (ec_max_transmit_size c)"

definition upgrade_outbound :: "frame_codec \<Rightarrow> connection \<Rightarrow> wire_codec" where
  "upgrade_outbound k c = codec_new k (ec_max_transmit_size c)"

section \<open>Streams of frames\<close>

text \<open>Writing calls one after the other, and reading as many as have arrived.\<close>

fun write_frames :: "wire_codec \<Rightarrow> rpc list \<Rightarrow> bytes \<Rightarrow> handler_error + bytes" where
  "write_frames w [] dst = Inr dst"
| "write_frames w (r # rs) dst =
     (case wc_encode w r dst of Inl e \<Rightarrow> Inl e | Inr dst' \<Rightarrow> write_frames w rs dst')"

fun read_frames :: "wire_codec \<Rightarrow> nat \<Rightarrow> bytes \<Rightarrow> handler_error + rpc list \<times> bytes" where
  "read_frames w 0 src = Inr ([], src)"
| "read_frames w (Suc n) src =
     (case wc_decode w src of
        Inl e \<Rightarrow> Inl e
      | Inr None \<Rightarrow> Inr ([], src)
      | Inr (Some (r, rest)) \<Rightarrow> map_sum (\<lambda>e. e) (\<lambda>(rs, rest'). (r # rs, rest')) (read_frames w n rest))"

text \<open>
  What the length codec and protobuf document: a frame is read back from the front of a buffer, and one above the limit of
  the reader is denied; a call is decoded from its encoding.
\<close>

definition frames_ok :: "frame_codec \<Rightarrow> bool" where
  "frames_ok k \<longleftrightarrow>
     (\<forall>m n b bs rest. fc_encode k m b = Some bs \<longrightarrow>
        length b \<le> m \<and> fc_decode k n (bs @ rest) = (if length b \<le> n then Inr (Some (b, rest)) else Inl True))
     \<and> (\<forall>m b. length b \<le> m \<longrightarrow> fc_encode k m b \<noteq> None)
     \<and> (\<forall>r. pb_decode k (pb_encode k r) = Some r)"

lemma written_frames_read:
  assumes "frames_ok k"
  shows "write_frames (upgrade_outbound k c) rs dst = Inr out \<Longrightarrow> ec_max_transmit_size c \<le> ec_max_transmit_size c' \<Longrightarrow>
    \<exists>bs. out = dst @ bs \<and> read_frames (upgrade_inbound k c') (length rs) (bs @ rest) = Inr (rs, rest)"
proof (induction rs arbitrary: dst)
  case (Cons r rs)
  let ?b = "pb_encode k r"
  obtain f where f: "fc_encode k (ec_max_transmit_size c) ?b = Some f"
    and tail: "write_frames (upgrade_outbound k c) rs (dst @ f) = Inr out"
    using Cons.prems(1) by (auto simp: upgrade_outbound_def codec_new_def episub_encode_def split: option.splits)
  obtain bs where bs: "out = (dst @ f) @ bs" "read_frames (upgrade_inbound k c') (length rs) (bs @ rest) = Inr (rs, rest)"
    using Cons.IH [OF tail Cons.prems(2)] by blast
  have "fc_decode k (ec_max_transmit_size c') (f @ bs @ rest) = Inr (Some (?b, bs @ rest))"
    using f assms Cons.prems(2) unfolding frames_ok_def by (meson dual_order.trans)
  then have "wc_decode (upgrade_inbound k c') (f @ bs @ rest) = Inr (Some (r, bs @ rest))"
    using assms by (simp add: upgrade_inbound_def codec_new_def episub_decode_def frames_ok_def)
  with bs show ?case by (intro exI [of _ "f @ bs"]) simp
qed simp

text \<open>Every call within the limit can be written, and a frame above the limit of the reader ends the stream.\<close>

lemma writable_frames:
  assumes "frames_ok k" and "\<forall>r \<in> set rs. length (pb_encode k r) \<le> ec_max_transmit_size c"
  shows "\<exists>out. write_frames (upgrade_outbound k c) rs dst = Inr out"
  using assms(2)
proof (induction rs arbitrary: dst)
  case (Cons r rs)
  then obtain f where "fc_encode k (ec_max_transmit_size c) (pb_encode k r) = Some f"
    using assms(1) unfolding frames_ok_def by (metis list.set_intros(1) option.exhaust)
  with Cons show ?case by (simp add: upgrade_outbound_def codec_new_def episub_encode_def)
qed simp

lemma oversized_frame_refused:
  assumes "frames_ok k" and "wc_encode (upgrade_outbound k c) r [] = Inr bs"
    and "ec_max_transmit_size c' < length (pb_encode k r)"
  shows "wc_decode (upgrade_inbound k c') (bs @ rest) = Inl MaxTransmissionSize"
  using assms
  by (auto simp: frames_ok_def upgrade_inbound_def upgrade_outbound_def codec_new_def episub_encode_def episub_decode_def
      split: option.splits)

section \<open>Optional streams\<close>

text \<open>
  \<open>OptionNext\<close>: polling an optional stream; without a stream it stays pending and counts as terminated, so that the loop of the
  node never waits for a service that is turned off.
\<close>

definition option_next_poll :: "('s \<Rightarrow> 'a option poll \<times> 's) \<Rightarrow> 's option \<Rightarrow> 'a option poll \<times> 's option" where
  "option_next_poll poll_next stream =
     (case stream of
        Some s \<Rightarrow> (case poll_next s of (r, s') \<Rightarrow> (r, Some s'))
      | None \<Rightarrow> (Pending, None))"

definition option_next_terminated :: "('s \<Rightarrow> bool) \<Rightarrow> 's option \<Rightarrow> bool" where
  "option_next_terminated is_terminated stream = (case stream of Some s \<Rightarrow> is_terminated s | None \<Rightarrow> True)"

end
