(* ===== verification/Spec2Isabelle.thy ===== *)
theory Spec2Isabelle
  imports Rensa_Consensus_Properties Rensa_VM_Properties Rensa_Currency_Properties Rensa_Node_Properties
    Rensa_Service_Properties Rensa_Network_Properties Rensa_Api_Properties Rensa_Composition_Properties Rensa_Cli Rensa_Wire
begin

text \<open>
  \<^bold>\<open>Rensa: a verification of the validator's core.\<close>

  Rensa is a proof-of-stake blockchain node in Rust. A validator (\<open>src/main.rs\<close>) receives blocks and votes
  from the network, keeps the blocks that are not finalized yet in a forest, executes their transactions on a
  virtual machine, counts the votes, finalizes the root of the forest when two later epochs are confirmed, and
  writes the state changes of finalized blocks to a database. Around this core it produces blocks on its slots, gossips
  blocks, votes and transactions over a broadcast tree, stores blocks, runs contracts and answers RPC requests. This development
  models the core and the services around it and proves them.

  \<^bold>\<open>Parts and theories.\<close>

  \<^item> \<open>Rensa_Prelude\<close>: machine integers and their saturating operations, computations that fail or panic
    (\<open>('e, 'a) comp\<close>: \<open>None\<close> is a panic or divergence, \<open>Some (Inl e)\<close> an \<open>Err\<close>, \<open>Some (Inr x)\<close> an \<open>Ok\<close>), and
    the map interface as the locale \<open>map_adt\<close>, interpreted for sorted maps (\<open>BTreeMap\<close>, \<open>sled::Db\<close>)
    and for insertion-ordered maps (\<open>HashMap\<close>, \<open>IndexMap\<close>).
  \<^item> \<open>Rensa_Float\<close>: the \<open>f64\<close> arithmetic of \<open>minimum_majority_stake\<close>, with its rounding.
  \<^item> \<open>Rensa_Primitives\<close> (\<open>src/primitives/account.rs\<close>, \<open>keys.rs\<close>): accounts, addresses, \<open>Pubkey::derive\<close>.
  \<^item> \<open>Rensa_State\<close> (\<open>src/vm/state.rs\<close>, \<open>src/storage/state.rs\<close>): views, overlays, diffs, the accounts database.
  \<^item> \<open>Rensa_Contract\<close> (\<open>src/vm/contract.rs\<close>, \<open>transaction.rs\<close>, \<open>output.rs\<close>): contract errors, outputs and
    environments, transactions with their hashes, limits and signatures, execution outputs.
  \<^item> \<open>Rensa_Unit\<close> (\<open>src/vm/unit.rs\<close>, \<open>Machine\<close> of \<open>machine.rs\<close>): execution units, what contracts may write, nested
    calls; the locale \<open>leaf_contract\<close> is the contract of a builtin that calls no other contract.
  \<^item> \<open>Rensa_Currency\<close>, \<open>Rensa_Builtins\<close> (\<open>src/vm/builtin\<close>): the builtin contracts currency, sha3, staking
    and wasm, the table of builtins and \<open>Machine::new\<close>; the interpretations of \<open>leaf_contract\<close>.
  \<^item> \<open>Rensa_Machine\<close> (\<open>src/vm/machine.rs\<close>, \<open>executed.rs\<close>): the order check and the execution of a block.
  \<^item> \<open>Rensa_Block\<close> (\<open>src/consensus/block.rs\<close>, \<open>vote.rs\<close>, \<open>genesis.rs\<close>, \<open>validator.rs\<close>): blocks, votes, genesis.
  \<^item> \<open>Rensa_Forktree\<close> (\<open>src/consensus/forktree.rs\<close>): trees of volatile blocks, heads, votes, epochs, views.
  \<^item> \<open>Rensa_Orphans\<close> (\<open>src/consensus/orphans.rs\<close>): blocks and votes that wait for a parent or a target.
  \<^item> \<open>Rensa_Chain\<close> (\<open>src/consensus/chain.rs\<close>, \<open>Finalized\<close> of \<open>src/vm/state.rs\<close>): the consensus state.
  \<^item> \<open>Rensa_Consensus\<close>, \<open>Rensa_Safety\<close>: the invariant and its preservation, the reachable states as a step
    relation, totality; the locale \<open>weighted_quorum\<close>, interpreted for the eligible voters of a chain.
  \<^item> \<open>Rensa_Accountable\<close>, \<open>Rensa_Votes\<close>: where reports come from: every voter in a forest stands for a signed vote, every report for a
    quorum of them, and every valid vote in an included block for a voter on its target. \<open>Rensa_Epochs\<close>: the finalization rule
    in terms of epochs.
  \<^item> \<open>Rensa_Node\<close> (start-up in \<open>src/main.rs\<close>): the chain of transaction blocks over the accounts database.
  \<^item> \<open>Rensa_Producer\<close> (\<open>src/producer.rs\<close>, \<open>Commitment\<close> of \<open>src/consumer.rs\<close>): mempool and block producer.
  \<^item> \<open>Rensa_Blockstore\<close> (\<open>src/storage/blocks.rs\<close>): the database of confirmed and finalized blocks, its keys, its panics
    and its pruning; the locale \<open>tree_field\<close> is a tree that pruning works on.
  \<^item> \<open>Rensa_Schedule\<close> (\<open>src/consensus/schedule.rs\<close>, \<open>src/network/responder.rs\<close>): slots, leaders, delayed replies.
  \<^item> \<open>Rensa_Events\<close>, \<open>Rensa_Validator\<close> (\<open>src/main.rs\<close>, \<open>src/consumer.rs\<close>): the order of the events of a chain, and the run loop over
    chain, producer, store, responder and network.
  \<^item> \<open>Rensa_Gossip\<close> (\<open>rpc.proto\<close>, \<open>config.rs\<close>, data of \<open>view.rs\<close> and \<open>behaviour.rs\<close> in \<open>src/network/episub\<close>): messages, peers, configuration.
  \<^item> \<open>Rensa_Cache\<close> (\<open>cache.rs\<close>), \<open>Rensa_Plumtree\<close> (\<open>tree.rs\<close>), \<open>Rensa_View\<close> (\<open>view.rs\<close>), \<open>Rensa_Topic\<close> (\<open>topic.rs\<close>), \<open>Rensa_Episub\<close>
    (\<open>behaviour.rs\<close>): the cache of messages, the broadcast tree, the membership views, one topic, and the behaviour over
    all topics, with their runs as step relations.
  \<^item> \<open>Rensa_Handler\<close> (\<open>handler.rs\<close>, \<open>codec.rs\<close>), \<open>Rensa_Network\<close> (\<open>src/network/mod.rs\<close>): a connection, and the network task
    between the run loop and the behaviour. \<open>Rensa_Wire\<close> (\<open>connection.rs\<close>, \<open>src/primitives/stream.rs\<close>): the upgrade of a substream to
    frames, which come out as they went in (\<open>written_frames_read\<close>) and are refused above the limit, and optional streams.
  \<^item> \<open>Rensa_Runtime\<close> (\<open>src/vm/runtime.rs\<close>), \<open>Rensa_Sdk\<close> (\<open>sdk/rust\<close>): WASM contracts, host side and guest side.
  \<^item> \<open>Rensa_Rpc\<close> (\<open>src/rpc.rs\<close>), \<open>Rensa_Dbsync\<close> (\<open>src/dbsync\<close>), \<open>Rensa_Keys\<close> (\<open>src/primitives/keys.rs\<close>, \<open>b58.rs\<close>): requests,
    the copy of blocks in an SQL database and text forms of keys. \<open>Rensa_Cli\<close> (\<open>src/cli.rs\<close>, start in \<open>main.rs\<close>, \<open>src/bin\<close>): the options
    of the command line up to the new node, and the key tools: the validator of a genesis is admitted by the peers under
    its own identity (\<open>identity_admitted\<close>), and printed key pairs parse back (\<open>keygen_pairs_usable\<close>).
  \<^item> \<open>Rensa_Demo\<close>, \<open>Rensa_Fork_Demo\<close>, \<open>Rensa_Demo_Codec\<close>: concrete instances for the witnesses.
  \<^item> \<open>Rensa_Consensus_Properties\<close>, \<open>Rensa_VM_Properties\<close>, \<open>Rensa_Currency_Properties\<close>, \<open>Rensa_Node_Properties\<close>,
    \<open>Rensa_Service_Properties\<close>, \<open>Rensa_Network_Properties\<close>, \<open>Rensa_Api_Properties\<close>, \<open>Rensa_Composition_Properties\<close>: the properties with their witnesses; the
    most important ones carry a claim number.

  \<^bold>\<open>State and operations.\<close> Rust structs are records and enums are datatypes with the source's constructors.
  \<open>&dyn State\<close> is a function from addresses to optional accounts, because the code reads states only through \<open>get\<close>;
  every caller that writes works on a \<open>state_diff\<close>. A node of a fork tree is a position (a list of child indices)
  in its tree: a path upwards, which the source follows through raw parent pointers, is the list of the nodes on the
  way to the root. The mutable fields of \<open>Chain\<close> are the record \<open>chain\<close>; what never changes (genesis, payload
  execution, state store) is \<open>chain_cfg\<close>. Each method is one definition from the state to the state: \<open>injest_vote\<close>,
  \<open>try_include\<close>, \<open>include_block\<close>, \<open>commit_and_vote\<close>, \<open>try_finalize_roots\<close>, \<open>poll_next\<close> and the helpers they call.
  Times are natural numbers, given as an argument where the source reads the clock.

  \<^bold>\<open>What is shown.\<close>

  \<^item> Consensus safety: two reported blocks have signed votes into both by validators with more than a third of the stake (C1, \<open>confirmed_overlap\<close>), every
    reachable state satisfies the invariant (C2), finalized blocks are never reverted (C3), a finalization
    needs quorums at the root and at the starts of two epochs (C4), the threshold is right for every \<open>u64\<close> (C14), votes count once and count for the ancestors
    (\<open>vote_counted_once\<close>, \<open>confirmed_ancestors\<close>), a validator's own votes do not conflict within an epoch (C24), which is
    not enough for agreement: two nodes can finalize different blocks on honest votes (C5), finalization loses no block (C25).
  \<^item> Consensus progress and structure: polling returns (C6), including returns when the called contracts do
    (C7; the worklist of the model is the source's recursion, \<open>include_is_recursion\<close>), included blocks are found (\<open>included_block_lookup\<close>), rejected blocks change nothing (\<open>rejected_blocks\<close>), orphans come in order (\<open>orphans_in_order\<close>), the
    fork choice follows the most votes (\<open>head_is_ghost\<close>), an orphan's sibling is dropped (\<open>orphan_sibling_dropped\<close>).
  \<^item> Virtual machine: nonces count the paid transactions (C11), every change is made by a unit that has the right to make it (C12), no replay in
    a block (C30), failed transactions change only a nonce (\<open>failed_transaction\<close>), log limits (\<open>log_limits\<close>), what the order check accepts (\<open>order_check_vacuous\<close>).
  \<^item> Currency: transfer, mint, burn, authority and creation (C13, \<open>mint_by_authority\<close> to \<open>create_fresh\<close>), the self transfer that creates
    money (C37), termination (\<open>currency_terminates\<close>); the wasm builtin never succeeds (C38).
  \<^item> State and storage: persisted diffs (C32), merged diffs (\<open>merged_views\<close>), the database of a running node (\<open>node_storage_sound\<close>), views
    before and after a finalization (C31, \<open>finalization_hides_deleted\<close>).
  \<^item> Signatures and addresses: C33, \<open>tx_new_verifies\<close>, \<open>derived_addresses\<close>, \<open>produced_and_votes_verify\<close>.
  \<^item> The run loop: chain, producer, channel and block store stay in step (C8), an own block is accepted
    (C26), producing returns (C35), the mempool loses nothing (C27, \<open>discarded_block_reused\<close>), the block store is well
    formed and gives back the blocks it took, with the first output of a height (C28, C29), all nodes agree on the leader of a slot (C34).
  \<^item> Gossip: what is gossiped arrives (C15), a message is delivered once per history window (C16), lost messages
    are repaired (C17), the membership events are an exact log of the active view (C18) and the tree keeps up with it
    (C19), only validators are heard (C20), a connection keeps the order of messages and drops only oversized ones (C36).
  \<^item> Services: a WASM contract behaves like its Rust function (C21), a confirmed account is read through the confirmed
    blocks (C22), a batch passes on exactly the acceptable transactions (C23), an accepted
    transaction reaches the mempools of other validators (C9), and a cast vote is counted by others (C10).
  \<^item> Failures the code has, each as a theorem: \<open>split_payer_panics\<close>, C39, \<open>no_details_no_blocks\<close>, \<open>early_start_oversleeps\<close>,
    \<open>responder_needs_three\<close>, \<open>full_view_neighbor\<close>, \<open>shuffle_reply_passive\<close>, \<open>foreign_peer_panics\<close>, \<open>publish_without_address_panics\<close>, \<open>early_ban_panics\<close>, \<open>bad_frame_panics\<close>,
    C40, \<open>apostrophe_stops_sync\<close>, \<open>wild_pointer_panics\<close>.

  \<^bold>\<open>Fuel and termination.\<close> Contract calls nest without a bound in the source, so \<open>unit_execute\<close> takes the nesting depth as
  fuel and returns \<open>None\<close> when it is used up; more fuel never changes a result (\<open>unit_execute_mono\<close>), and one level is enough
  for the builtins (\<open>leaf_contract\<close>). \<open>Pubkey::derive\<close> is a \<open>partial_function\<close>, total as soon as one candidate is off the
  curve (\<open>derived_addresses\<close>); so is the loop of \<open>get_confirmed_account\<close>, which returns on contiguous blocks (C22) and
  not over a gap (C40). The recursion of \<open>include\<close> terminates because every release shrinks the orphans, the finalization loop
  because every round shrinks the forest; both are total functions here.

  \<^bold>\<open>Parameters.\<close> The cryptography (SHA3, multihash, Ed25519, base58), the serializers (bincode, Borsh, protobuf, JSON), compression, the
  WASM engine and the guest's allocator, the byte formats of libp2p, the framed sockets and the SQL engine are
  arguments, and so are random draws. What is used of them is a named hypothesis: \<open>signing_correct\<close>, \<open>codec_ok\<close>, \<open>account_codec_ok\<close>, \<open>block_codec_ok\<close>,
  \<open>net_codec_ok\<close>, \<open>zstd_ok\<close>, \<open>framed_ok\<close>, \<open>frames_ok\<close>, \<open>peer_ids_ok\<close>, \<open>encodes_with\<close>, \<open>alloc_ok\<close>, \<open>leaves_room\<close>, \<open>abi_ok\<close>. Serializing
  a payload is taken to succeed. Rust leaves the order in which a hash map is traversed open; here it is the
  order of insertion. It decides in which order sibling orphans are released and missing blocks are reported; no
  property depends on it. Log messages and hash caches are left out.

  \<^bold>\<open>Not modelled.\<close> The transport (\<open>create_transport\<close> in \<open>src/network/mod.rs\<close>) and the HTTP
  server only configure libraries. The argument parser is generated from \<open>CliOpts\<close>; files, directories and the random generator are
  arguments of the functions that use them. The schema that \<open>dbsync\<close> creates and log messages are I/O. The JavaScript client, the example contracts and the tests are not part of the
  validator. A request is served on one state of the databases, the concurrency of requests with the run loop is
  not modelled. The memory-safety question of \<open>finalize_root\<close>, which moves the new roots while their children keep raw
  pointers to their old place, is outside a functional model, as is the layout of the SDK's objects in the guest's memory.
\<close>

end
